(* ===== verification/Prelude.thy ===== *)
theory Prelude
  imports Main "HOL-Library.Word"
begin

text \<open>
  Shared vocabulary of the development: the byte and machine word types, the memory of a
  buffer as a byte list with checked reads and writes, the little-endian object representation of
  unsigned integers (x86-64, the platform MSAPI is built for), decimal output and input of
  numbers as \<open>std::to_string\<close>, \<open>std::format\<close> and the digit loops of the code do them, and the
  interface of a codec that reads values back from a buffer at an offset.
\<close>

section \<open>Theorem collections\<close>

named_theorems buffer_simps \<open>lengths and reads of encoded data\<close>
named_theorems codec_rules \<open>decoding undoes encoding\<close>
named_theorems range_rules \<open>bounds of machine values\<close>

section \<open>Bytes and words\<close>

type_synonym byte = "8 word"
type_synonym u16 = "16 word"
type_synonym u32 = "32 word"
type_synonym u64 = "64 word"

text \<open>The largest value of \<open>size_t\<close> plus one.\<close>

abbreviation size_t_bound :: nat where
  "size_t_bound \<equiv> 2 ^ 64"

lemma unat_bound [range_rules]: "unat (w :: 'a::len word) < 2 ^ LENGTH('a)"
  by (rule unsigned_less)

lemma byte_bound [range_rules]: "unat (b :: byte) < 256"
  using unat_bound [of b] by simp

definition byte_of_char :: "char \<Rightarrow> byte" where
  "byte_of_char c = word_of_nat (of_char c)"

definition char_of_byte :: "byte \<Rightarrow> char" where
  "char_of_byte b = char_of (unat b)"

lemma char_of_byte_of_char [simp]: "char_of_byte (byte_of_char c) = c"
proof -
  have "(of_char c :: nat) < 256" by (rule nat_of_char_less_256)
  then have "unat (word_of_nat (of_char c) :: byte) = of_char c"
    by (simp add: unat_of_nat)
  then show ?thesis by (simp add: char_of_byte_def byte_of_char_def)
qed

lemma byte_of_char_of_byte [simp]: "byte_of_char (char_of_byte b) = b"
proof -
  have "unat b < 256" by (rule byte_bound)
  then have "(of_char (char_of (unat b) :: char) :: nat) = unat b"
    by simp
  then show ?thesis
    by (simp only: char_of_byte_def byte_of_char_def word_of_nat_eq_iff) simp
qed

lemma map_char_of_byte [simp]: "map char_of_byte (map byte_of_char s) = s"
  by (induction s) simp_all

lemma char_of_byte_comp [simp]: "char_of_byte \<circ> byte_of_char = id"
  by (rule ext) simp

section \<open>Little-endian integers\<close>

text \<open>\<open>memcpy\<close> of an unsigned integer of \<open>n\<close> bytes: its lowest byte first.\<close>

fun le_bytes :: "nat \<Rightarrow> nat \<Rightarrow> byte list" where
  "le_bytes 0 v = []"
| "le_bytes (Suc n) v = word_of_nat (v mod 256) # le_bytes n (v div 256)"

lemma le_bytes_numeral:
  "le_bytes (numeral k) v = word_of_nat (v mod 256) # le_bytes (pred_numeral k) (v div 256)"
  by (simp only: numeral_eq_Suc [of k] le_bytes.simps)

fun le_nat :: "byte list \<Rightarrow> nat" where
  "le_nat [] = 0"
| "le_nat (b # bs) = unat b + 256 * le_nat bs"

lemma length_le_bytes [simp, buffer_simps]: "length (le_bytes n v) = n"
  by (induction n v rule: le_bytes.induct) simp_all

lemma unat_byte_mod [simp]: "unat (word_of_nat (v mod 256) :: byte) = v mod 256"
  by (simp add: unat_of_nat)

lemma le_nat_le_bytes [codec_rules]: "le_nat (le_bytes n v) = v mod 256 ^ n"
proof (induction n v rule: le_bytes.induct)
  case (1 v)
  then show ?case by simp
next
  case (2 n v)
  have "v mod (256 * 256 ^ n) = 256 * (v div 256 mod 256 ^ n) + v mod 256"
    by (rule mod_mult2_eq)
  with 2 show ?case by simp
qed

lemma le_nat_bound [range_rules]: "le_nat bs < 256 ^ length bs"
proof (induction bs)
  case Nil
  then show ?case by simp
next
  case (Cons b bs)
  have "unat b < 256" by (rule byte_bound)
  with Cons show ?case by simp
qed

text \<open>A machine word and its bytes.\<close>

definition word_bytes :: "nat \<Rightarrow> 'a::len word \<Rightarrow> byte list" where
  "word_bytes n w = le_bytes n (unat w)"

definition word_of_bytes :: "byte list \<Rightarrow> 'a::len word" where
  "word_of_bytes bs = word_of_nat (le_nat bs)"

lemma length_word_bytes [simp, buffer_simps]: "length (word_bytes n w) = n"
  by (simp add: word_bytes_def)

lemma word_of_bytes_word_bytes [codec_rules]:
  fixes w :: "'a::len word"
  assumes "LENGTH('a) = 8 * n"
  shows "word_of_bytes (word_bytes n w) = w"
proof -
  have "unat w < 256 ^ n"
    using unat_bound [of w] assms by (simp add: power_mult)
  then show ?thesis
    by (simp add: word_of_bytes_def word_bytes_def le_nat_le_bytes)
qed

text \<open>The \<open>size_t\<close> fields of the protocols.\<close>

abbreviation size_bytes :: "nat \<Rightarrow> byte list" where
  "size_bytes \<equiv> le_bytes 8"

lemma le_nat_size_bytes [simp]: "v < size_t_bound \<Longrightarrow> le_nat (size_bytes v) = v"
  by (simp add: le_nat_le_bytes)

section \<open>Reading a buffer\<close>

text \<open>
  A buffer is the list of the bytes that may be read. The code reads through raw pointers without
  a check, so a read that leaves the buffer is undefined behaviour: it is the value \<open>None\<close> here,
  and a function that performs such a read returns \<open>None\<close>.
\<close>

definition read_at :: "byte list \<Rightarrow> nat \<Rightarrow> nat \<Rightarrow> byte list option" where
  "read_at buf off n = (if off + n \<le> length buf then Some (take n (drop off buf)) else None)"

definition read_size :: "byte list \<Rightarrow> nat \<Rightarrow> nat option" where
  "read_size buf off = map_option le_nat (read_at buf off 8)"

lemma read_at_append [buffer_simps]:
  "off = length pre \<Longrightarrow> n = length mid \<Longrightarrow> read_at (pre @ mid @ post) off n = Some mid"
  by (simp add: read_at_def)

lemma read_at_0 [buffer_simps]:
  "n = length mid \<Longrightarrow> read_at (mid @ post) 0 n = Some mid"
  by (simp add: read_at_def)

lemma read_at_length: "read_at buf off n = Some bs \<Longrightarrow> length bs = n"
  by (auto simp: read_at_def split: if_splits)

lemma read_at_Some_iff: "(\<exists>bs. read_at buf off n = Some bs) \<longleftrightarrow> off + n \<le> length buf"
  by (simp add: read_at_def)

lemma read_size_append [buffer_simps]:
  "off = length pre \<Longrightarrow> v < size_t_bound \<Longrightarrow> read_size (pre @ size_bytes v @ post) off = Some v"
  by (simp add: read_size_def read_at_append)

lemma read_size_bound [range_rules]: "read_size buf off = Some v \<Longrightarrow> v < size_t_bound"
  using le_nat_bound [of "take 8 (drop off buf)"]
  by (auto simp: read_size_def read_at_def split: if_splits)

text \<open>Writes into an allocated buffer: \<open>None\<close> when they leave the allocation.\<close>

definition write_at :: "byte list \<Rightarrow> nat \<Rightarrow> byte list \<Rightarrow> byte list option" where
  "write_at buf off bs =
     (if off + length bs \<le> length buf
      then Some (take off buf @ bs @ drop (off + length bs) buf) else None)"

lemma length_write_at: "write_at buf off bs = Some buf' \<Longrightarrow> length buf' = length buf"
  by (auto simp: write_at_def split: if_splits)

lemma write_at_append [buffer_simps]:
  "off = length pre \<Longrightarrow> length old = length bs \<Longrightarrow>
    write_at (pre @ old @ post) off bs = Some (pre @ bs @ post)"
  by (simp add: write_at_def)

section \<open>Codecs\<close>

text \<open>
  The interface between a value's encoder and the decoder that finds the value at an offset of a
  larger buffer. \<open>ok c a\<close> says that \<open>a\<close> is a value of the kind \<open>c\<close> (a column type, a tag). The
  code stores sequences of such values one after the other; the client lemmas give the round
  trip of a sequence.
\<close>

locale codec =
  fixes ok :: "'c \<Rightarrow> 'a \<Rightarrow> bool"
    and enc :: "'a \<Rightarrow> byte list"
    and dec :: "'c \<Rightarrow> byte list \<Rightarrow> nat \<Rightarrow> ('a \<times> nat) option"
  assumes dec_enc:
    "ok c a \<Longrightarrow> dec c (pre @ enc a @ post) (length pre) = Some (a, length pre + length (enc a))"
begin

fun dec_seq :: "'c list \<Rightarrow> byte list \<Rightarrow> nat \<Rightarrow> ('a list \<times> nat) option" where
  "dec_seq [] buf off = Some ([], off)"
| "dec_seq (c # cs) buf off =
     (case dec c buf off of
        None \<Rightarrow> None
      | Some (a, off') \<Rightarrow>
          (case dec_seq cs buf off' of
             None \<Rightarrow> None
           | Some (as, off'') \<Rightarrow> Some (a # as, off'')))"

lemma dec_seq_enc:
  assumes "list_all2 ok cs as"
  shows "dec_seq cs (pre @ concat (map enc as) @ post) (length pre)
           = Some (as, length pre + length (concat (map enc as)))"
  using assms
proof (induction cs as arbitrary: pre rule: list_all2_induct)
  case Nil
  then show ?case by simp
next
  case (Cons c cs a as)
  have step: "dec c (pre @ enc a @ concat (map enc as) @ post) (length pre)
      = Some (a, length pre + length (enc a))"
    using Cons.hyps(1) by (rule dec_enc)
  have "dec_seq cs ((pre @ enc a) @ concat (map enc as) @ post) (length (pre @ enc a))
      = Some (as, length (pre @ enc a) + length (concat (map enc as)))"
    by (rule Cons.IH)
  then show ?case using step by (simp add: add.assoc)
qed

lemma dec_at:
  "ok c a \<Longrightarrow> off = length pre \<Longrightarrow> buf = pre @ enc a @ post \<Longrightarrow>
    dec c buf off = Some (a, off + length (enc a))"
  by (simp add: dec_enc)

end

section \<open>Decimal numbers\<close>

definition digit_char :: "nat \<Rightarrow> char" where
  "digit_char d = char_of (48 + d)"

lemma digit_chars:
  "digit_char 0 = CHR ''0''" "digit_char (Suc 0) = CHR ''1''" "digit_char 1 = CHR ''1''"
  "digit_char 2 = CHR ''2''" "digit_char 3 = CHR ''3''" "digit_char 4 = CHR ''4''"
  "digit_char 5 = CHR ''5''" "digit_char 6 = CHR ''6''" "digit_char 7 = CHR ''7''"
  "digit_char 8 = CHR ''8''" "digit_char 9 = CHR ''9''"
  by (simp_all add: digit_char_def char_of_def bit_0)

definition is_digit :: "char \<Rightarrow> bool" where
  "is_digit c \<longleftrightarrow> 48 \<le> (of_char c :: nat) \<and> (of_char c :: nat) \<le> 57"

definition digit_val :: "char \<Rightarrow> nat" where
  "digit_val c = of_char c - 48"

lemma of_char_digit_char: "d < 10 \<Longrightarrow> (of_char (digit_char d) :: nat) = 48 + d"
  by (simp add: digit_char_def)

lemma is_digit_digit_char [simp]: "d < 10 \<Longrightarrow> is_digit (digit_char d)"
  by (simp add: is_digit_def of_char_digit_char)

lemma digit_val_digit_char [simp]: "d < 10 \<Longrightarrow> digit_val (digit_char d) = d"
  by (simp add: digit_val_def of_char_digit_char)

text \<open>\<open>std::to_string\<close> of an unsigned and of a signed integer.\<close>

fun show_nat :: "nat \<Rightarrow> string" where
  "show_nat n = (if n < 10 then [digit_char n] else show_nat (n div 10) @ [digit_char (n mod 10)])"

declare show_nat.simps [simp del]

definition show_int :: "int \<Rightarrow> string" where
  "show_int i = (if i < 0 then CHR ''-'' # show_nat (nat (- i)) else show_nat (nat i))"

text \<open>A format field \<open>{:0w}\<close>: padded with zeros on the left to at least \<open>w\<close> characters.\<close>

definition zero_pad :: "nat \<Rightarrow> string \<Rightarrow> string" where
  "zero_pad w s = replicate (w - length s) CHR ''0'' @ s"

lemma show_nat_neq_Nil [simp]: "show_nat n \<noteq> []"
  by (subst show_nat.simps) simp

lemma show_nat_digits: "\<forall>c \<in> set (show_nat n). is_digit c"
proof (induction n rule: show_nat.induct)
  case (1 n)
  then show ?case by (subst show_nat.simps) auto
qed

text \<open>The value of a digit string, most significant digit first, from an accumulator.\<close>

fun digits_val :: "nat \<Rightarrow> string \<Rightarrow> nat" where
  "digits_val acc [] = acc"
| "digits_val acc (c # cs) = digits_val (acc * 10 + digit_val c) cs"

lemma digits_val_append: "digits_val acc (xs @ ys) = digits_val (digits_val acc xs) ys"
  by (induction xs arbitrary: acc) simp_all

lemma digits_val_show_nat [simp]: "digits_val 0 (show_nat n) = n"
proof (induction n rule: show_nat.induct)
  case (1 n)
  then show ?case
    by (subst show_nat.simps) (auto simp: digits_val_append)
qed

lemma digits_val_zeros [simp]: "digits_val 0 (replicate k CHR ''0'' @ s) = digits_val 0 s"
  by (induction k) (simp_all add: digit_val_def)

lemma digits_val_zero_pad [simp]: "digits_val 0 (zero_pad w s) = digits_val 0 s"
  by (simp add: zero_pad_def)

lemma zero_pad_digits:
  "\<forall>c \<in> set s. is_digit c \<Longrightarrow> \<forall>c \<in> set (zero_pad w s). is_digit c"
  by (auto simp: zero_pad_def is_digit_def)

lemma length_show_nat_le: "n < 10 ^ k \<Longrightarrow> 0 < k \<Longrightarrow> length (show_nat n) \<le> k"
proof (induction k arbitrary: n)
  case 0
  then show ?case by simp
next
  case (Suc k)
  show ?case
  proof (cases "n < 10")
    case True
    then show ?thesis by (subst show_nat.simps) simp
  next
    case False
    then have k: "0 < k" using Suc.prems(1) by (cases k) auto
    have "n div 10 < 10 ^ k" using Suc.prems(1) by (simp add: less_mult_imp_div_less mult.commute)
    then have "length (show_nat (n div 10)) \<le> k" using k by (rule Suc.IH)
    with False show ?thesis by (subst show_nat.simps) simp
  qed
qed

lemma length_zero_pad: "length (zero_pad w s) = max w (length s)"
  by (simp add: zero_pad_def)

end
