(* ===== verification/Calendar.thy ===== *)
theory Calendar
  imports Prelude "HOL-Library.Signed_Division" "HOL-Library.Monad_Syntax"
begin

unbundle bit_operations_syntax

text \<open>
  Time values, \<open>help/time.h\<close> and \<open>help/time.cpp\<close>: \<open>Timer\<close> (a point of the system clock,
  nanoseconds since the epoch), \<open>Timer::Duration\<close> (signed nanoseconds) and \<open>Timer::Date\<close>; their
  conversions, comparisons and the calendar arithmetic between them, with an independent
  definition of the Gregorian calendar it is checked against.

  \<open>int64_t\<close> values are kept as the integers they denote in calendar arithmetic; an operation of
  the code that can leave the range of \<open>int64_t\<close> (undefined behaviour in C++) goes through
  \<open>int64_chk\<close>, which is \<open>None\<close> there. Conversions to narrower unsigned types are written as \<open>mod\<close>.
\<close>

section \<open>Values\<close>

datatype timer = Timer (m_point: u64)

datatype duration = Duration (m_nanoseconds: u64)

datatype date = Date (d_year: u16) (d_month: byte) (d_day: byte)

definition in_int64 :: "int \<Rightarrow> bool" where
  "in_int64 i \<longleftrightarrow> - (2 ^ 63) \<le> i \<and> i < 2 ^ 63"

definition int64_chk :: "int \<Rightarrow> int option" where
  "int64_chk i = (if in_int64 i then Some i else None)"

definition timer_of :: "int \<Rightarrow> timer" where
  "timer_of i = Timer (word_of_int i)"

definition timer_ns :: "timer \<Rightarrow> int" where
  "timer_ns t = sint (m_point t)"

definition duration_of :: "int \<Rightarrow> duration" where
  "duration_of i = Duration (word_of_int i)"

definition duration_ns :: "duration \<Rightarrow> int" where
  "duration_ns d = sint (m_nanoseconds d)"

lemma sint_word_of_int64: "in_int64 i \<Longrightarrow> sint (word_of_int i :: u64) = i"
  by (simp add: in_int64_def signed_of_int signed_take_bit_int_eq_self)

lemma timer_ns_of [simp]: "in_int64 i \<Longrightarrow> timer_ns (timer_of i) = i"
  by (simp add: timer_ns_def timer_of_def sint_word_of_int64)

lemma duration_ns_of [simp]: "in_int64 i \<Longrightarrow> duration_ns (duration_of i) = i"
  by (simp add: duration_ns_def duration_of_def sint_word_of_int64)

lemma timer_of_ns [simp]: "timer_of (timer_ns t) = t"
  by (cases t) (simp add: timer_ns_def timer_of_def)

lemma duration_of_ns [simp]: "duration_of (duration_ns d) = d"
  by (cases d) (simp add: duration_ns_def duration_of_def)

lemma timer_ns_range [range_rules]: "in_int64 (timer_ns t)"
  using sint_greater_eq [of "m_point t"] sint_less [of "m_point t"]
  by (simp add: in_int64_def timer_ns_def)

lemma duration_ns_range [range_rules]: "in_int64 (duration_ns d)"
  using sint_greater_eq [of "m_nanoseconds d"] sint_less [of "m_nanoseconds d"]
  by (simp add: in_int64_def duration_ns_def)

lemma int64_chk_Some [simp]: "in_int64 i \<Longrightarrow> int64_chk i = Some i"
  by (simp add: int64_chk_def)

section \<open>Constants\<close>

abbreviation SECONDS_IN_YEAR :: int where "SECONDS_IN_YEAR \<equiv> 31536000"
abbreviation SECONDS_IN_DAY :: int where "SECONDS_IN_DAY \<equiv> 86400"
abbreviation MILLISECONDS_IN_DAY :: int where "MILLISECONDS_IN_DAY \<equiv> 86400000"
abbreviation MICROSECONDS_IN_DAY :: int where "MICROSECONDS_IN_DAY \<equiv> 86400000000"
abbreviation NANOSECONDS_IN_DAY :: int where "NANOSECONDS_IN_DAY \<equiv> 86400000000000"
abbreviation SECONDS_IN_HOUR :: int where "SECONDS_IN_HOUR \<equiv> 3600"
abbreviation SECONDS_IN_MINUTE :: int where "SECONDS_IN_MINUTE \<equiv> 60"

definition dayPerMonth :: "int list" where
  "dayPerMonth = [31, 28, 31, 30, 31, 30, 31, 31, 30, 31, 30, 31]"

section \<open>Duration\<close>

definition duration_create :: "int \<Rightarrow> int \<Rightarrow> int \<Rightarrow> int \<Rightarrow> int \<Rightarrow> duration option" where
  "duration_create days hours minutes seconds nanoseconds = do {
     d \<leftarrow> int64_chk (days * SECONDS_IN_DAY);
     h \<leftarrow> int64_chk (hours * 3600);
     dh \<leftarrow> int64_chk (d + h);
     m \<leftarrow> int64_chk (minutes * 60);
     dhm \<leftarrow> int64_chk (dh + m);
     dhms \<leftarrow> int64_chk (dhm + seconds);
     ns \<leftarrow> int64_chk (dhms * 1000000000);
     total \<leftarrow> int64_chk (ns + nanoseconds);
     Some (duration_of total) }"

definition duration_create_days :: "int \<Rightarrow> duration option" where
  "duration_create_days days = do {
     s \<leftarrow> int64_chk (days * SECONDS_IN_DAY);
     ns \<leftarrow> int64_chk (s * 1000000000);
     Some (duration_of ns) }"

definition duration_create_hours :: "int \<Rightarrow> duration option" where
  "duration_create_hours hours = map_option duration_of (int64_chk (hours * 3600000000000))"

definition duration_create_minutes :: "int \<Rightarrow> duration option" where
  "duration_create_minutes minutes = map_option duration_of (int64_chk (minutes * 60000000000))"

definition duration_create_seconds :: "int \<Rightarrow> duration option" where
  "duration_create_seconds seconds = map_option duration_of (int64_chk (seconds * 1000000000))"

definition duration_create_milliseconds :: "int \<Rightarrow> duration option" where
  "duration_create_milliseconds ms = map_option duration_of (int64_chk (ms * 1000000))"

definition duration_create_microseconds :: "int \<Rightarrow> duration option" where
  "duration_create_microseconds us = map_option duration_of (int64_chk (us * 1000))"

definition duration_empty :: "duration \<Rightarrow> bool" where
  "duration_empty d \<longleftrightarrow> duration_ns d = 0"

definition duration_days :: "duration \<Rightarrow> int" where
  "duration_days d = duration_ns d sdiv 86400000000000"

definition duration_hours :: "duration \<Rightarrow> int" where
  "duration_hours d = duration_ns d sdiv 3600000000000"

definition duration_minutes :: "duration \<Rightarrow> int" where
  "duration_minutes d = duration_ns d sdiv 60000000000"

definition duration_seconds :: "duration \<Rightarrow> int" where
  "duration_seconds d = duration_ns d sdiv 1000000000"

definition duration_milliseconds :: "duration \<Rightarrow> int" where
  "duration_milliseconds d = duration_ns d sdiv 1000000"

definition duration_microseconds :: "duration \<Rightarrow> int" where
  "duration_microseconds d = duration_ns d sdiv 1000"

definition duration_less :: "duration \<Rightarrow> duration \<Rightarrow> bool" where
  "duration_less a b \<longleftrightarrow> duration_ns a < duration_ns b"

definition duration_greater :: "duration \<Rightarrow> duration \<Rightarrow> bool" where
  "duration_greater a b \<longleftrightarrow> duration_ns a > duration_ns b"

definition duration_equal :: "duration \<Rightarrow> duration \<Rightarrow> bool" where
  "duration_equal a b \<longleftrightarrow> duration_ns a = duration_ns b"

definition duration_minus :: "duration \<Rightarrow> duration \<Rightarrow> duration option" where
  "duration_minus a b = map_option duration_of (int64_chk (duration_ns a - duration_ns b))"

definition duration_plus :: "duration \<Rightarrow> duration \<Rightarrow> duration option" where
  "duration_plus a b = map_option duration_of (int64_chk (duration_ns a + duration_ns b))"

datatype duration_type =
  DtUndefined | DtNanoseconds | DtMicroseconds | DtMilliseconds | DtSeconds | DtMinutes | DtHours
| DtDays | DtMax

fun duration_type_to_string :: "duration_type \<Rightarrow> string" where
  "duration_type_to_string DtUndefined = ''Undefined''"
| "duration_type_to_string DtNanoseconds = ''Nanoseconds''"
| "duration_type_to_string DtMicroseconds = ''Microseconds''"
| "duration_type_to_string DtMilliseconds = ''Milliseconds''"
| "duration_type_to_string DtSeconds = ''Seconds''"
| "duration_type_to_string DtMinutes = ''Minutes''"
| "duration_type_to_string DtHours = ''Hours''"
| "duration_type_to_string DtDays = ''Days''"
| "duration_type_to_string DtMax = ''Max''"

text \<open>
  The larger units print the quotient as a \<open>double\<close>; \<open>quot n k\<close> is that text (binary64 division
  and \<open>std::format\<close> with seventeen decimals), a parameter of the model.
\<close>

definition duration_to_string :: "(int \<Rightarrow> int \<Rightarrow> string) \<Rightarrow> duration_type \<Rightarrow> duration \<Rightarrow> string" where
  "duration_to_string quot ty d =
     (case ty of
        DtMicroseconds \<Rightarrow> quot (duration_ns d) 1000 @ '' microseconds''
      | DtMilliseconds \<Rightarrow> quot (duration_ns d) 1000000 @ '' milliseconds''
      | DtSeconds \<Rightarrow> quot (duration_ns d) 1000000000 @ '' seconds''
      | DtMinutes \<Rightarrow> quot (duration_ns d) 60000000000 @ '' minutes''
      | DtHours \<Rightarrow> quot (duration_ns d) 3600000000000 @ '' hours''
      | DtDays \<Rightarrow> quot (duration_ns d) 86400000000000 @ '' days''
      | _ \<Rightarrow> show_int (duration_ns d) @ '' nanoseconds'')"

section \<open>Date and the days of months\<close>

definition date_less :: "date \<Rightarrow> date \<Rightarrow> bool" where
  "date_less a b \<longleftrightarrow>
     d_year a < d_year b \<or> (d_year a = d_year b \<and> d_month a < d_month b)
     \<or> (d_year a = d_year b \<and> d_month a = d_month b \<and> d_day a < d_day b)"

definition date_greater :: "date \<Rightarrow> date \<Rightarrow> bool" where
  "date_greater a b \<longleftrightarrow>
     d_year a > d_year b \<or> (d_year a = d_year b \<and> d_month a > d_month b)
     \<or> (d_year a = d_year b \<and> d_month a = d_month b \<and> d_day a > d_day b)"

definition date_equal :: "date \<Rightarrow> date \<Rightarrow> bool" where
  "date_equal a b \<longleftrightarrow> d_year a = d_year b \<and> d_month a = d_month b \<and> d_day a = d_day b"

text \<open>\<open>{:0w}\<close> of a signed integer: the sign comes before the padding.\<close>

definition format_int :: "nat \<Rightarrow> int \<Rightarrow> string" where
  "format_int w i =
     (if i < 0 then CHR ''-'' # zero_pad (w - 1) (show_nat (nat (- i)))
      else zero_pad w (show_nat (nat i)))"

definition date_to_string :: "date \<Rightarrow> string" where
  "date_to_string d =
     format_int 4 (uint (d_year d)) @ ''-'' @ format_int 2 (uint (d_month d)) @ ''-''
     @ format_int 2 (uint (d_day d))"

definition days_per_month :: "nat \<Rightarrow> bool \<Rightarrow> int" where
  "days_per_month m isLeap = dayPerMonth ! m + (if m = 1 then of_bool isLeap else 0)"

definition how_much_days_in_month :: "int \<Rightarrow> bool \<Rightarrow> int" where
  "how_much_days_in_month month isLeap =
     (if month > 12 \<or> month \<le> 0 then 0
      else (dayPerMonth ! nat (month - 1) + (if month = 2 then of_bool isLeap else 0)) mod 2 ^ 8)"

fun sum_days :: "nat \<Rightarrow> bool \<Rightarrow> int" where
  "sum_days 0 isLeap = 0"
| "sum_days (Suc n) isLeap = (sum_days n isLeap + days_per_month n isLeap) mod 2 ^ 16"

definition how_much_days_till_month :: "int \<Rightarrow> bool \<Rightarrow> int" where
  "how_much_days_till_month month isLeap =
     (if month > 12 \<or> month < 1 then 0 else sum_days (nat (month - 1)) isLeap)"

section \<open>Timer\<close>

text \<open>\<open>TimespecToDuration\<close>, \<open>TimespecToTimePoint\<close> and the two conversions back.\<close>

definition timespec_to_duration :: "int \<Rightarrow> int \<Rightarrow> int option" where
  "timespec_to_duration tv_sec tv_nsec = do {
     ns \<leftarrow> int64_chk (tv_sec * 1000000000);
     int64_chk (ns + tv_nsec) }"

definition duration_to_timespec :: "int \<Rightarrow> int \<times> int" where
  "duration_to_timespec ns = (let s = ns sdiv 1000000000 in (s, ns - s * 1000000000))"

definition time_point_to_timespec :: "timer \<Rightarrow> int \<times> int" where
  "time_point_to_timespec t =
     (let s = timer_ns t sdiv 1000000000 in (s, timer_ns t - s * 1000000000))"

definition timeval_to_duration :: "int \<Rightarrow> int \<Rightarrow> int option" where
  "timeval_to_duration tv_sec tv_usec = do {
     us \<leftarrow> int64_chk (tv_sec * 1000000);
     int64_chk (us + tv_usec) }"

definition timer_make :: "int \<Rightarrow> int \<Rightarrow> timer option" where
  "timer_make seconds nanoseconds =
     (if seconds = 0 \<and> nanoseconds = 0 then Some (timer_of 0)
      else map_option timer_of (timespec_to_duration seconds nanoseconds))"

definition timer_empty :: "timer \<Rightarrow> bool" where
  "timer_empty t \<longleftrightarrow> timer_ns t = 0"

definition timer_seconds :: "timer \<Rightarrow> int" where
  "timer_seconds t = timer_ns t sdiv 1000000000"

definition timer_milliseconds :: "timer \<Rightarrow> int" where
  "timer_milliseconds t = timer_ns t sdiv 1000000"

definition timer_microseconds :: "timer \<Rightarrow> int" where
  "timer_microseconds t = timer_ns t sdiv 1000"

definition timer_less :: "timer \<Rightarrow> timer \<Rightarrow> bool" where
  "timer_less a b \<longleftrightarrow> timer_ns a < timer_ns b"

definition timer_greater :: "timer \<Rightarrow> timer \<Rightarrow> bool" where
  "timer_greater a b \<longleftrightarrow> timer_ns a > timer_ns b"

text \<open>The keys of a \<open>std::map\<close> are ordered by \<open>operator<\<close>.\<close>

instantiation timer :: linorder
begin

definition less_timer :: "timer \<Rightarrow> timer \<Rightarrow> bool" where
  "less_timer a b \<longleftrightarrow> timer_less a b"

definition less_eq_timer :: "timer \<Rightarrow> timer \<Rightarrow> bool" where
  "less_eq_timer a b \<longleftrightarrow> \<not> timer_greater a b"

instance
proof
  fix a b :: timer
  assume "a \<le> b" "b \<le> a"
  then have "timer_ns a = timer_ns b" by (simp add: less_eq_timer_def timer_greater_def)
  then show "a = b" by (metis timer_of_ns)
qed (auto simp: less_timer_def less_eq_timer_def timer_less_def timer_greater_def)

end

definition timer_equal :: "timer \<Rightarrow> timer \<Rightarrow> bool" where
  "timer_equal a b \<longleftrightarrow> timer_ns a = timer_ns b"

definition timer_diff :: "timer \<Rightarrow> timer \<Rightarrow> duration option" where
  "timer_diff a b = map_option duration_of (int64_chk (timer_ns a - timer_ns b))"

definition timer_plus :: "timer \<Rightarrow> duration \<Rightarrow> timer option" where
  "timer_plus t d = map_option timer_of (int64_chk (timer_ns t + duration_ns d))"

definition timer_minus :: "timer \<Rightarrow> duration \<Rightarrow> timer option" where
  "timer_minus t d = map_option timer_of (int64_chk (timer_ns t - duration_ns d))"

text \<open>
  The conversion of seconds since the epoch shared by \<open>ToString\<close> and \<open>ToDate\<close>: the year counted in
  years of 365 days, the day within it, then the correction by the leap days before the year and
  the walk through the months.
\<close>

definition is_leap_offset :: "int \<Rightarrow> bool" where
  "is_leap_offset year \<longleftrightarrow> (1970 + year) mod 4 = 0"

definition extra_days :: "int \<Rightarrow> bool \<Rightarrow> int" where
  "extra_days year isLeap =
     (if isLeap then (year + 2) div 4 - 1 else (year + 2) div 4) mod 2 ^ 16"

definition split_year :: "int \<Rightarrow> int \<times> int \<times> int" where
  "split_year seconds =
     (let year = (seconds sdiv SECONDS_IN_YEAR) mod 2 ^ 16;
          t1 = seconds - year * SECONDS_IN_YEAR;
          day = (t1 sdiv SECONDS_IN_DAY) mod 2 ^ 16;
          t2 = t1 - day * SECONDS_IN_DAY
      in (year, day, t2))"

definition correct_leap :: "int \<Rightarrow> int \<Rightarrow> int \<times> int \<times> bool" where
  "correct_leap year day =
     (let isLeap = is_leap_offset year; extraDays = extra_days year isLeap
      in if extraDays > day then
           let year' = (year - 1) mod 2 ^ 16; isLeap' = is_leap_offset year'
           in (year', (day + 365 + of_bool isLeap' - extraDays) mod 2 ^ 16, isLeap')
         else (year, (day - extraDays) mod 2 ^ 16, isLeap))"

function month_loop :: "nat \<Rightarrow> bool \<Rightarrow> int \<Rightarrow> int \<Rightarrow> int \<times> int" where
  "month_loop index isLeap month day =
     (if index < 12 then
        let daysPerMonth = days_per_month index isLeap
        in if day \<ge> daysPerMonth
           then month_loop (Suc index) isLeap ((month + 1) mod 2 ^ 8) ((day - daysPerMonth) mod 2 ^ 16)
           else (month, day)
      else (month, day))"
  by pat_completeness auto
termination
  by (relation "measure (\<lambda>(index, _). 12 - index)") auto

declare month_loop.simps [simp del]

definition to_date :: "timer \<Rightarrow> date" where
  "to_date t =
     (let (year, day, _) = split_year (timer_seconds t);
          (year, day, isLeap) = correct_leap year day;
          (month, day) = month_loop 0 isLeap 0 day
      in Date (word_of_int (year + 1970)) (word_of_int (month + 1)) (word_of_int (day + 1)))"

definition timer_to_string :: "timer \<Rightarrow> string" where
  "timer_to_string t =
     (let (year, day, t2) = split_year (timer_seconds t);
          (year, day, isLeap) = correct_leap year day;
          hour = (t2 sdiv SECONDS_IN_HOUR) mod 2 ^ 8;
          t3 = t2 - SECONDS_IN_HOUR * hour;
          minute = (t3 sdiv SECONDS_IN_MINUTE) mod 2 ^ 8;
          second = (t3 - minute * SECONDS_IN_MINUTE) mod 2 ^ 8;
          (month, day) = month_loop 0 isLeap 0 day
      in format_int 4 (year + 1970) @ ''-'' @ format_int 2 ((month + 1) mod 2 ^ 8) @ ''-''
         @ format_int 2 ((day + 1) mod 2 ^ 16) @ '' '' @ format_int 2 hour @ '':''
         @ format_int 2 minute @ '':'' @ format_int 2 second @ ''.''
         @ format_int 9 (timer_ns t smod 1000000000))"

text \<open>
  \<open>Timer::Create\<close>. The check of the day calls \<open>HowMuchDaysInMonth(month, year)\<close>: the year is passed
  where the function expects the leap flag, so the flag is \<open>year \<noteq> 0\<close>.
\<close>

definition create_rejects :: "int \<Rightarrow> int \<Rightarrow> int \<Rightarrow> int \<Rightarrow> int \<Rightarrow> int \<Rightarrow> int \<Rightarrow> bool" where
  "create_rejects year month day hour minute second nanosecond \<longleftrightarrow>
     year < 1970 \<or> month = 0 \<or> month > 12 \<or> day = 0
     \<or> day > how_much_days_in_month month (year \<noteq> 0) \<or> hour > 23 \<or> minute > 60 \<or> second > 59
     \<or> nanosecond > 999999999"

definition create_seconds :: "int \<Rightarrow> int \<Rightarrow> int \<Rightarrow> int \<Rightarrow> int \<Rightarrow> int \<Rightarrow> int" where
  "create_seconds year month day hour minute second =
     (let y = year - 1970; isLeap = (y + 2) mod 4 = 0
      in y * SECONDS_IN_YEAR
         + (day - 1 + how_much_days_till_month month isLeap
            + (if isLeap then (y + 2) div 4 - 1 else (y + 2) div 4)) * SECONDS_IN_DAY
         + hour * SECONDS_IN_HOUR + minute * SECONDS_IN_MINUTE + second)"

definition timer_create :: "int \<Rightarrow> int \<Rightarrow> int \<Rightarrow> int \<Rightarrow> int \<Rightarrow> int \<Rightarrow> int \<Rightarrow> timer option" where
  "timer_create year month day hour minute second nanosecond =
     (if create_rejects year month day hour minute second nanosecond then Some (timer_of 0)
      else timer_make (create_seconds year month day hour minute second) nanosecond)"

text \<open>\<open>Timer::Create(std::string_view)\<close>: digits of a field, then at most one separator.\<close>

fun parse_digits :: "int \<Rightarrow> int \<Rightarrow> string \<Rightarrow> int \<times> string" where
  "parse_digits m v [] = (v, [])"
| "parse_digits m v (c # cs) =
     (if is_digit c then parse_digits m ((v * 10 + int (digit_val c)) mod m) cs else (v, c # cs))"

fun skip_non_digit :: "string \<Rightarrow> string" where
  "skip_non_digit [] = []"
| "skip_non_digit (c # cs) = (if is_digit c then c # cs else cs)"

definition timer_parse :: "string \<Rightarrow> timer option" where
  "timer_parse s0 =
     (let (year, s1) = parse_digits (2 ^ 16) 0 s0;
          (month, s2) = parse_digits (2 ^ 8) 0 (skip_non_digit s1);
          (day, s3) = parse_digits (2 ^ 8) 0 (skip_non_digit s2);
          (hour, s4) = parse_digits (2 ^ 8) 0 (skip_non_digit s3);
          (minute, s5) = parse_digits (2 ^ 8) 0 (skip_non_digit s4);
          (second, s6) = parse_digits (2 ^ 8) 0 (skip_non_digit s5);
          (nanosecond, _) = parse_digits (2 ^ 32) 0 (skip_non_digit s6)
      in timer_create year month day hour minute second nanosecond)"

text \<open>
  The functions that read the clock take the time points they read as arguments: \<open>GetToday\<close> reads
  it once, the time left to tomorrow reads it there and once more.
\<close>

definition get_today :: "timer \<Rightarrow> timer option" where
  "get_today now =
     (let d = to_date now
      in timer_create (uint (d_year d)) (uint (d_month d)) (uint (d_day d)) 0 0 0 0)"

definition seconds_to_tomorrow :: "timer \<Rightarrow> timer \<Rightarrow> int option" where
  "seconds_to_tomorrow now1 now2 =
     map_option (\<lambda>today. (SECONDS_IN_DAY + timer_seconds today - timer_seconds now2) mod 2 ^ 32)
       (get_today now1)"

definition milliseconds_to_tomorrow :: "timer \<Rightarrow> timer \<Rightarrow> int option" where
  "milliseconds_to_tomorrow now1 now2 =
     map_option
       (\<lambda>today. (MILLISECONDS_IN_DAY + timer_milliseconds today - timer_milliseconds now2) mod 2 ^ 32)
       (get_today now1)"

definition microseconds_to_tomorrow :: "timer \<Rightarrow> timer \<Rightarrow> int option" where
  "microseconds_to_tomorrow now1 now2 =
     map_option
       (\<lambda>today. (MICROSECONDS_IN_DAY + timer_milliseconds today - timer_milliseconds now2) mod 2 ^ 64)
       (get_today now1)"

definition nanoseconds_to_tomorrow :: "timer \<Rightarrow> timer \<Rightarrow> int option" where
  "nanoseconds_to_tomorrow now1 now2 =
     map_option (\<lambda>today. (NANOSECONDS_IN_DAY + timer_ns today - timer_ns now2) mod 2 ^ 64)
       (get_today now1)"

section \<open>Hash of a date\<close>

text \<open>\<open>std::hash<Timer::Date>\<close>: the fields packed into one word, then a 64-bit finaliser.\<close>

definition date_packed :: "date \<Rightarrow> u64" where
  "date_packed d =
     push_bit 8 (ucast (d_year d)) OR push_bit 8 (ucast (d_month d)) OR ucast (d_day d)"

definition hash_mix :: "u64 \<Rightarrow> u64" where
  "hash_mix packed =
     (let p1 = (packed XOR drop_bit 30 packed) * 0xbf58476d1ce4e5b9;
          p2 = (p1 XOR drop_bit 27 p1) * 0x94d049bb133111eb
      in p2 XOR drop_bit 31 p2)"

definition date_hash :: "date \<Rightarrow> u64" where
  "date_hash d = hash_mix (date_packed d)"

text \<open>\<open>std::hash<std::pair<T, S>>\<close>, given the hashes of the two components.\<close>

definition pair_hash :: "u64 \<Rightarrow> u64 \<Rightarrow> u64" where
  "pair_hash seed valueHash =
     seed XOR (valueHash + 0x9e3779b9 + push_bit 6 seed + drop_bit 2 seed)"

end
