(* ===== verification/CalendarSpec.thy ===== *)
theory CalendarSpec
  imports Calendar
begin

unbundle bit_operations_syntax

text \<open>
  What the calendar functions of \<open>Calendar\<close> promise: an independent definition of the proleptic
  Gregorian calendar, the agreement of \<open>Timer::Create\<close> and \<open>Timer::ToDate\<close> with it from 1970 to
  2099 (the code counts every fourth year as a leap year, which 2100 is not), the round trip through
  the printed form, and the contract of the comparison operators.
\<close>

section \<open>The Gregorian calendar\<close>

definition gregorian_leap :: "int \<Rightarrow> bool" where
  "gregorian_leap y \<longleftrightarrow> (4 dvd y \<and> \<not> 100 dvd y) \<or> 400 dvd y"

definition days_in_month :: "int \<Rightarrow> int \<Rightarrow> int" where
  "days_in_month y m =
     (if m = 2 then (if gregorian_leap y then 29 else 28)
      else if m = 4 \<or> m = 6 \<or> m = 9 \<or> m = 11 then 30 else 31)"

fun year_days :: "nat \<Rightarrow> int" where
  "year_days 0 = 0"
| "year_days (Suc n) = year_days n + (if gregorian_leap (1970 + int n) then 366 else 365)"

fun month_days :: "int \<Rightarrow> nat \<Rightarrow> int" where
  "month_days y 0 = 0"
| "month_days y (Suc n) = month_days y n + days_in_month y (int n + 1)"

text \<open>Days from 1970-01-01 to the date, and seconds from the epoch to the moment.\<close>

definition civil_days :: "int \<Rightarrow> int \<Rightarrow> int \<Rightarrow> int" where
  "civil_days y m d = year_days (nat (y - 1970)) + month_days y (nat (m - 1)) + (d - 1)"

definition civil_seconds :: "int \<Rightarrow> int \<Rightarrow> int \<Rightarrow> int \<Rightarrow> int \<Rightarrow> int \<Rightarrow> int" where
  "civil_seconds y m d h mi s = civil_days y m d * 86400 + h * 3600 + mi * 60 + s"

definition valid_date :: "int \<Rightarrow> int \<Rightarrow> int \<Rightarrow> bool" where
  "valid_date y m d \<longleftrightarrow>
     1970 \<le> y \<and> y < 2100 \<and> 1 \<le> m \<and> m \<le> 12 \<and> 1 \<le> d \<and> d \<le> days_in_month y m"

definition valid_time :: "int \<Rightarrow> int \<Rightarrow> int \<Rightarrow> int \<Rightarrow> bool" where
  "valid_time h mi s ns \<longleftrightarrow>
     0 \<le> h \<and> h < 24 \<and> 0 \<le> mi \<and> mi < 60 \<and> 0 \<le> s \<and> s < 60 \<and> 0 \<le> ns \<and> ns < 1000000000"

section \<open>Closed forms in the supported range\<close>

lemma gregorian_leap_range:
  assumes "1970 \<le> y" and "y < 2100"
  shows "gregorian_leap y \<longleftrightarrow> y mod 4 = 0"
proof -
  have c: "100 dvd y \<longleftrightarrow> y = 2000"
  proof
    assume "100 dvd y"
    then obtain k where "y = 100 * k" by (elim dvdE)
    moreover from this assms have "19 < k" "k < 21" by simp_all
    ultimately show "y = 2000" by simp
  qed simp
  have d: "400 dvd y \<longleftrightarrow> y = 2000"
  proof
    assume "400 dvd y"
    then obtain k where "y = 400 * k" by (elim dvdE)
    moreover from this assms have "4 < k" "k < 6" by simp_all
    ultimately show "y = 2000" by simp
  qed simp
  show ?thesis unfolding gregorian_leap_def c d by (cases "y = 2000") (simp_all add: dvd_eq_mod_eq_0)
qed

lemma mod4_cases:
  fixes Y :: int
  obtains q where "Y = 4 * q" | q where "Y = 4 * q + 1" | q where "Y = 4 * q + 2" | q where "Y = 4 * q + 3"
proof -
  have "Y = 4 * (Y div 4) + Y mod 4" by simp
  moreover have "0 \<le> Y mod 4" "Y mod 4 < 4" by auto
  ultimately show thesis using that(1)[of "Y div 4"] that(2)[of "Y div 4"] that(3)[of "Y div 4"] that(4)[of "Y div 4"] by linarith
qed

lemma year_days_closed:
  "n \<le> 130 \<Longrightarrow> year_days n = 365 * int n + (int n + 1) div 4"
proof (induction n)
  case 0
  then show ?case by simp
next
  case (Suc n)
  then have leap: "gregorian_leap (1970 + int n) \<longleftrightarrow> (1970 + int n) mod 4 = 0"
    by (intro gregorian_leap_range) auto
  have "(int n + 2) div 4 = (int n + 1) div 4 + (if (1970 + int n) mod 4 = 0 then 1 else 0)"
    by (cases "int n" rule: mod4_cases) simp_all
  with Suc leap show ?case by (simp add: algebra_simps)
qed

text \<open>The number of leap days before the year at offset \<open>Y\<close>, as the code computes it.\<close>

lemma leap_count:
  fixes Y :: int
  shows "(if (1970 + Y) mod 4 = 0 then (Y + 2) div 4 - 1 else (Y + 2) div 4) = (Y + 1) div 4"
  by (cases Y rule: mod4_cases) simp_all

lemma month_cases:
  fixes m :: int
  shows "1 \<le> m \<Longrightarrow> m \<le> 12 \<Longrightarrow>
    m = 1 \<or> m = 2 \<or> m = 3 \<or> m = 4 \<or> m = 5 \<or> m = 6 \<or> m = 7 \<or> m = 8 \<or> m = 9 \<or> m = 10
    \<or> m = 11 \<or> m = 12"
  using set_upto [of 1 12] by (auto simp: upto.simps set_eq_iff)

lemma days_till_month:
  assumes "1 \<le> m" and "m \<le> 12"
  shows "how_much_days_till_month m (gregorian_leap y) = month_days y (nat (m - 1))"
  using month_cases [OF assms]
  by (elim disjE)
    (simp_all add: how_much_days_till_month_def days_in_month_def days_per_month_def dayPerMonth_def
      eval_nat_numeral)

lemma days_of_month:
  assumes "1 \<le> m" and "m \<le> 12"
  shows "days_per_month (nat (m - 1)) (gregorian_leap y) = days_in_month y m"
  using month_cases [OF assms]
  by (elim disjE)
    (simp_all add: days_in_month_def days_per_month_def dayPerMonth_def)

section \<open>The month loop\<close>

lemma days_per_month_bounds: "index < 12 \<Longrightarrow> 28 \<le> days_per_month index l \<and> days_per_month index l \<le> 31"
  by (simp add: days_per_month_def dayPerMonth_def less_Suc_eq numeral_eq_Suc split: bool.splits) auto

lemma month_loop_stop:
  assumes "index < 12" and "day < days_per_month index l"
  shows "month_loop index l month day = (month, day)"
  using assms by (simp add: month_loop.simps [of index])

lemma month_loop_skip:
  assumes "index < 12" and "days_per_month index l \<le> day"
  shows "month_loop index l month day
    = month_loop (Suc index) l ((month + 1) mod 256) ((day - days_per_month index l) mod 65536)"
  using assms by (simp add: month_loop.simps [of index])

text \<open>From month \<open>i\<close> with the days of the months \<open>i .. j-1\<close> and \<open>d\<close> more, the loop stops at \<open>j\<close>.\<close>

fun span_days :: "nat \<Rightarrow> nat \<Rightarrow> bool \<Rightarrow> int" where
  "span_days i 0 l = 0"
| "span_days i (Suc k) l = days_per_month i l + span_days (Suc i) k l"

lemma span_days_bounds: "i + k \<le> 12 \<Longrightarrow> 0 \<le> span_days i k l \<and> span_days i k l \<le> 31 * int k"
proof (induction k arbitrary: i)
  case 0
  then show ?case by simp
next
  case (Suc k)
  then have "0 \<le> span_days (Suc i) k l \<and> span_days (Suc i) k l \<le> 31 * int k"
    and "28 \<le> days_per_month i l \<and> days_per_month i l \<le> 31"
    using days_per_month_bounds [of i l] by auto
  then show ?case by (simp add: algebra_simps)
qed

lemma month_loop_span:
  assumes "i + k < 12" and "0 \<le> d" and "d < days_per_month (i + k) l"
  shows "month_loop i l (int i) (span_days i k l + d) = (int (i + k), d)"
  using assms
proof (induction k arbitrary: i)
  case 0
  then show ?case by (simp add: month_loop_stop)
next
  case (Suc k)
  have b: "0 \<le> span_days (Suc i) k l" "span_days (Suc i) k l \<le> 31 * int k"
    using span_days_bounds [of "Suc i" k l] Suc.prems(1) by auto
  have d: "d \<le> 31" using Suc.prems days_per_month_bounds [of "i + Suc k" l] by simp
  have r: "0 \<le> span_days (Suc i) k l + d" "span_days (Suc i) k l + d < 65536"
    using b d Suc.prems by auto
  have m: "(int i + 1) mod 256 = int (Suc i)" using Suc.prems by simp
  have "month_loop i l (int i) (span_days i (Suc k) l + d)
      = month_loop (Suc i) l (int (Suc i)) (span_days (Suc i) k l + d)"
    using Suc.prems r b m by (simp add: month_loop_skip add.commute)
  also have "\<dots> = (int (Suc i + k), d)"
    using Suc.prems by (intro Suc.IH) auto
  finally show ?case by simp
qed

lemma span_days_snoc: "span_days i (Suc k) l = span_days i k l + days_per_month (i + k) l"
  by (induction k arbitrary: i) (simp_all add: algebra_simps)

lemma month_days_span: "n < 12 \<Longrightarrow> month_days y n = span_days 0 n (gregorian_leap y)"
proof (induction n)
  case 0
  then show ?case by simp
next
  case (Suc n)
  have "days_per_month n (gregorian_leap y) = days_in_month y (int n + 1)"
    using days_of_month [of "int n + 1" y] Suc.prems by simp
  with Suc show ?case by (simp add: span_days_snoc del: span_days.simps)
qed

lemma month_loop_civil:
  assumes "1 \<le> m" and "m \<le> 12" and "1 \<le> d" and "d \<le> days_in_month y m"
  shows "month_loop 0 (gregorian_leap y) 0 (month_days y (nat (m - 1)) + (d - 1)) = (m - 1, d - 1)"
proof -
  have "month_loop 0 (gregorian_leap y) (int 0)
      (span_days 0 (nat (m - 1)) (gregorian_leap y) + (d - 1)) = (int (0 + nat (m - 1)), d - 1)"
    using assms days_of_month [of m y] by (intro month_loop_span) auto
  with assms month_days_span [of "nat (m - 1)" y] show ?thesis by simp
qed

section \<open>Seconds to date\<close>

lemma sdiv_nonneg: "0 \<le> (a :: int) \<Longrightarrow> 0 < b \<Longrightarrow> a sdiv b = a div b"
  by (cases "a = 0") (simp_all add: signed_divide_int_def)

lemma split_year_parts:
  assumes "0 \<le> a" "a < 65536" "0 \<le> b" "b < 365" "0 \<le> t" "t < 86400"
  shows "split_year ((365 * a + b) * 86400 + t) = (a, b, t)"
proof -
  define s where "s = (365 * a + b) * 86400 + t"
  have y: "s sdiv 31536000 = a"
    using assms by (simp add: s_def sdiv_nonneg int_div_pos_eq [where r = "b * 86400 + t"])
  have d: "(b * 86400 + t) sdiv 86400 = b"
    using assms by (simp add: sdiv_nonneg)
  have r: "s - a * 31536000 = b * 86400 + t" by (simp add: s_def algebra_simps)
  have "split_year s = (a, b, t)"
    using assms by (simp add: split_year_def Let_def y r d)
  then show ?thesis by (simp add: s_def)
qed

lemma extra_days_offset:
  assumes "0 \<le> Y" and "Y < 65536"
  shows "extra_days Y (is_leap_offset Y) = (Y + 1) div 4"
proof -
  have "0 \<le> (Y + 1) div 4" "(Y + 1) div 4 < 65536" using assms by auto
  then show ?thesis
    using leap_count [of Y] by (simp add: extra_days_def is_leap_offset_def)
qed

text \<open>
  Both ways the year of 365 days can miss the calendar year: not at all, or by one when the leap
  days counted so far push the day past the end of the year.
\<close>

lemma correct_leap_same:
  assumes "0 \<le> Y" "Y < 1000" "0 \<le> doy" "(Y + 1) div 4 + doy < 365"
  shows "correct_leap Y ((Y + 1) div 4 + doy) = (Y, doy, is_leap_offset Y)"
  using assms by (simp add: correct_leap_def extra_days_offset Let_def)

lemma leap_offset_step:
  fixes Y :: int
  shows "(Y + 2) div 4 = (Y + 1) div 4 + of_bool (is_leap_offset Y)"
  by (cases Y rule: mod4_cases) (simp_all add: is_leap_offset_def)

lemma correct_leap_next:
  assumes "0 \<le> Y" "Y < 1000" "0 \<le> doy" "doy < 365 + of_bool (is_leap_offset Y)"
    and "365 \<le> (Y + 1) div 4 + doy"
  shows "correct_leap (Y + 1) ((Y + 1) div 4 + doy - 365) = (Y, doy, is_leap_offset Y)"
proof -
  have e: "extra_days (Y + 1) (is_leap_offset (Y + 1)) = (Y + 1) div 4 + of_bool (is_leap_offset Y)"
    using assms by (simp add: extra_days_offset add.assoc leap_offset_step)
  have gt: "(Y + 1) div 4 + doy - 365 < (Y + 1) div 4 + of_bool (is_leap_offset Y)"
    using assms by simp
  have "(of_bool (is_leap_offset Y) :: int) \<le> 1" by simp
  with assms have "doy < 65536" by linarith
  moreover have "(Y + 1) div 4 + doy - 365 + 365 + of_bool (is_leap_offset Y)
      - ((Y + 1) div 4 + of_bool (is_leap_offset Y)) = doy" by simp
  ultimately show ?thesis
    using assms gt unfolding correct_leap_def Let_def e by simp
qed

lemma civil_from_days:
  assumes "0 \<le> Y" "Y < 1000" "0 \<le> doy" "doy < 365 + of_bool (is_leap_offset Y)"
    and "0 \<le> t" "t < 86400"
  shows "\<exists>yd. split_year ((365 * Y + (Y + 1) div 4 + doy) * 86400 + t) = (fst yd, snd yd, t)
    \<and> correct_leap (fst yd) (snd yd) = (Y, doy, is_leap_offset Y)"
proof (cases "(Y + 1) div 4 + doy < 365")
  case True
  have "split_year ((365 * Y + ((Y + 1) div 4 + doy)) * 86400 + t) = (Y, (Y + 1) div 4 + doy, t)"
    using assms True by (intro split_year_parts) auto
  then show ?thesis
    using correct_leap_same [OF assms(1-3) True]
    by (intro exI [of _ "(Y, (Y + 1) div 4 + doy)"]) (simp add: add.assoc)
next
  case False
  have "(Y + 1) div 4 < 300" using assms by linarith
  moreover have "(of_bool (is_leap_offset Y) :: int) \<le> 1" by simp
  ultimately have "(Y + 1) div 4 + doy - 365 < 365" using assms by linarith
  then have "split_year ((365 * (Y + 1) + ((Y + 1) div 4 + doy - 365)) * 86400 + t)
      = (Y + 1, (Y + 1) div 4 + doy - 365, t)"
    using assms False by (intro split_year_parts) auto
  then show ?thesis
    using correct_leap_next [OF assms(1-4)] False
    by (intro exI [of _ "(Y + 1, (Y + 1) div 4 + doy - 365)"]) (simp add: algebra_simps)
qed

section \<open>Dates of the calendar and offsets of the code\<close>

lemma leap_offset_gregorian:
  "1970 \<le> y \<Longrightarrow> y < 2100 \<Longrightarrow> is_leap_offset (y - 1970) \<longleftrightarrow> gregorian_leap y"
  by (simp add: is_leap_offset_def gregorian_leap_range)

lemma month_days_nonneg: "0 \<le> month_days y n"
  by (induction n) (simp_all add: days_in_month_def)

lemma day_of_year_bound:
  assumes "1 \<le> m" "m \<le> 12"
  shows "month_days y (nat (m - 1)) + days_in_month y m \<le> 365 + of_bool (gregorian_leap y)"
  using month_cases [OF assms]
  by (elim disjE) (simp_all add: days_in_month_def eval_nat_numeral)

lemma days_in_month_bounds: "28 \<le> days_in_month y m \<and> days_in_month y m \<le> 31"
  by (simp add: days_in_month_def)

text \<open>A valid date as a year offset and a day of the year.\<close>

lemma civil_days_offset:
  assumes "valid_date y m d"
  obtains Y doy where "Y = y - 1970" "0 \<le> Y" "Y < 130"
    and "doy = month_days y (nat (m - 1)) + (d - 1)" "0 \<le> doy"
    and "doy < 365 + of_bool (is_leap_offset Y)"
    and "civil_days y m d = 365 * Y + (Y + 1) div 4 + doy"
proof
  let ?Y = "y - 1970" and ?doy = "month_days y (nat (m - 1)) + (d - 1)"
  have v: "1970 \<le> y" "y < 2100" "1 \<le> m" "m \<le> 12" "1 \<le> d" "d \<le> days_in_month y m"
    using assms by (simp_all add: valid_date_def)
  show "0 \<le> ?Y" "?Y < 130" using v by auto
  show "0 \<le> ?doy" using v month_days_nonneg [of y "nat (m - 1)"] by simp
  show "?doy < 365 + of_bool (is_leap_offset ?Y)"
    using v day_of_year_bound [OF v(3,4), of y] leap_offset_gregorian [OF v(1,2)] by simp
  show "civil_days y m d = 365 * ?Y + (?Y + 1) div 4 + ?doy"
    using v by (simp add: civil_days_def year_days_closed)
qed simp_all

lemma civil_days_range:
  assumes "valid_date y m d"
  shows "0 \<le> civil_days y m d \<and> civil_days y m d < 47482"
proof -
  obtain Y doy where o: "0 \<le> Y" "Y < 130" "0 \<le> doy" "doy < 365 + of_bool (is_leap_offset Y)"
    "civil_days y m d = 365 * Y + (Y + 1) div 4 + doy"
    using assms by (rule civil_days_offset)
  have s: "(Y + 2) div 4 = (Y + 1) div 4 + of_bool (is_leap_offset Y)"
    by (rule leap_offset_step)
  have "(Y + 2) div 4 \<le> 32" using o by linarith
  with o s show ?thesis by linarith
qed

lemma civil_seconds_range:
  assumes "valid_date y m d" and "valid_time h mi s ns"
  shows "0 \<le> civil_seconds y m d h mi s \<and> civil_seconds y m d h mi s < 4102444800"
  using civil_days_range [OF assms(1)] assms(2)
  by (simp add: civil_seconds_def valid_time_def)

lemma create_seconds_civil:
  assumes "valid_date y m d"
  shows "create_seconds y m d h mi s = civil_seconds y m d h mi s"
proof -
  have v: "1970 \<le> y" "y < 2100" "1 \<le> m" "m \<le> 12"
    using assms by (simp_all add: valid_date_def)
  have leap: "(y - 1970 + 2) mod 4 = 0 \<longleftrightarrow> gregorian_leap y"
    using v by (simp add: gregorian_leap_range) presburger
  have count: "(if gregorian_leap y then (y - 1970 + 2) div 4 - 1 else (y - 1970 + 2) div 4)
      = (y - 1970 + 1) div 4"
    using leap_count [of "y - 1970"] gregorian_leap_range [OF v(1,2)] by simp
  have yd: "year_days (nat (y - 1970)) = 365 * (y - 1970) + (y - 1970 + 1) div 4"
    using v year_days_closed [of "nat (y - 1970)"] by simp
  show ?thesis
    using days_till_month [OF v(3,4), of y]
    unfolding create_seconds_def civil_seconds_def civil_days_def Let_def leap count yd
    by (simp add: algebra_simps)
qed

lemma create_accepts:
  assumes "valid_date y m d" and "valid_time h mi s ns"
  shows "\<not> create_rejects y m d h mi s ns"
proof -
  have v: "1 \<le> m" "m \<le> 12" "d \<le> days_in_month y m" "1970 \<le> y"
    using assms(1) by (simp_all add: valid_date_def)
  have "days_in_month y m \<le> how_much_days_in_month m (y \<noteq> 0)"
    using month_cases [OF v(1,2)] v(4)
    by (elim disjE) (simp_all add: days_in_month_def how_much_days_in_month_def dayPerMonth_def)
  with assms v show ?thesis by (auto simp: create_rejects_def valid_date_def valid_time_def)
qed

lemma timer_make_of:
  assumes "0 \<le> s" "s < 4102444800" "0 \<le> ns" "ns < 1000000000"
  shows "timer_make s ns = Some (timer_of (s * 1000000000 + ns))"
  using assms
  by (simp add: timer_make_def timespec_to_duration_def in_int64_def)

lemma timer_create_civil:
  assumes "valid_date y m d" and "valid_time h mi s ns"
  shows "timer_create y m d h mi s ns
    = Some (timer_of (civil_seconds y m d h mi s * 1000000000 + ns))"
proof -
  have "timer_make (civil_seconds y m d h mi s) ns
      = Some (timer_of (civil_seconds y m d h mi s * 1000000000 + ns))"
    using civil_seconds_range [OF assms] assms(2) by (intro timer_make_of) (auto simp: valid_time_def)
  then show ?thesis
    by (simp add: timer_create_def create_accepts [OF assms] create_seconds_civil [OF assms(1)])
qed

section \<open>Every day has a date\<close>

lemma span_days_find:
  "0 \<le> doy \<Longrightarrow> doy < month_days y n \<Longrightarrow>
    \<exists>k<n. month_days y k \<le> doy \<and> doy < month_days y k + days_in_month y (int k + 1)"
proof (induction n)
  case 0
  then show ?case by simp
next
  case (Suc n)
  then show ?case by (cases "doy < month_days y n") (auto simp: less_Suc_eq)
qed

lemma year_length: "month_days y 12 = 365 + of_bool (gregorian_leap y)"
  by (simp add: eval_nat_numeral days_in_month_def)

lemma year_of_days:
  fixes N :: int
  assumes "0 \<le> N" "N < 47482"
  obtains Y doy where "0 \<le> Y" "Y < 130" "0 \<le> doy" "doy < 365 + of_bool (is_leap_offset Y)"
    and "N = 365 * Y + (Y + 1) div 4 + doy"
proof -
  define Y0 b where "Y0 = N div 365" and "b = N mod 365"
  have N: "N = 365 * Y0 + b" "0 \<le> b" "b < 365" by (simp_all add: Y0_def b_def)
  have Y0: "0 \<le> Y0" "Y0 \<le> 130" using assms N by auto
  show thesis
  proof (cases "(Y0 + 1) div 4 \<le> b")
    case True
    with N assms have "Y0 < 130" by (cases "Y0 = 130") (use Y0 in auto)
    with True N Y0 show thesis by (intro that [of Y0 "b - (Y0 + 1) div 4"]) auto
  next
    case False
    with N have pos: "1 \<le> Y0" using Y0 by (cases "Y0 = 0") auto
    have step: "(Y0 + 1) div 4 = Y0 div 4 + of_bool (is_leap_offset (Y0 - 1))"
      using leap_offset_step [of "Y0 - 1"] by (simp add: algebra_simps)
    have "Y0 div 4 \<le> 33" using Y0 by linarith
    with False N Y0 pos step show thesis
      by (intro that [of "Y0 - 1" "b + 365 - Y0 div 4"]) auto
  qed
qed

lemma date_of_days:
  assumes "0 \<le> N" "N < 47482"
  obtains y m d where "valid_date y m d" and "civil_days y m d = N"
proof -
  obtain Y doy where o: "0 \<le> Y" "Y < 130" "0 \<le> doy" "doy < 365 + of_bool (is_leap_offset Y)"
    "N = 365 * Y + (Y + 1) div 4 + doy"
    using assms by (rule year_of_days)
  let ?y = "1970 + Y"
  have "doy < month_days ?y 12"
    using o leap_offset_gregorian [of ?y] by (simp add: year_length del: month_days.simps)
  then obtain k where k: "k < 12" "month_days ?y k \<le> doy"
    "doy < month_days ?y k + days_in_month ?y (int k + 1)"
    using span_days_find [OF o(3)] by blast
  show thesis
  proof (rule that)
    show "valid_date ?y (int k + 1) (doy - month_days ?y k + 1)"
      using o k by (simp add: valid_date_def)
    show "civil_days ?y (int k + 1) (doy - month_days ?y k + 1) = N"
      using o by (simp add: civil_days_def year_days_closed)
  qed
qed

section \<open>From a timer back to its date\<close>

lemma timer_split:
  assumes "0 \<le> s" "s < 4102444800" "0 \<le> ns" "ns < 1000000000"
  shows "timer_ns (timer_of (s * 1000000000 + ns)) = s * 1000000000 + ns"
    and "timer_seconds (timer_of (s * 1000000000 + ns)) = s"
proof -
  show ns: "timer_ns (timer_of (s * 1000000000 + ns)) = s * 1000000000 + ns"
    using assms by (simp add: in_int64_def)
  show "timer_seconds (timer_of (s * 1000000000 + ns)) = s"
    using assms by (simp add: timer_seconds_def ns sdiv_nonneg)
qed

definition day_seconds :: "int \<Rightarrow> int \<Rightarrow> int \<Rightarrow> int" where
  "day_seconds h mi s = h * 3600 + mi * 60 + s"

lemma day_seconds_range: "valid_time h mi s ns \<Longrightarrow> 0 \<le> day_seconds h mi s \<and> day_seconds h mi s < 86400"
  by (auto simp: valid_time_def day_seconds_def)

text \<open>The common part of \<open>ToDate\<close> and \<open>ToString\<close> on the seconds of a valid moment.\<close>

lemma split_civil:
  assumes d: "valid_date y m d" and t: "valid_time h mi s ns"
  obtains yr dy where
    "split_year (civil_seconds y m d h mi s) = (yr, dy, day_seconds h mi s)"
    and "correct_leap yr dy = (y - 1970, month_days y (nat (m - 1)) + (d - 1), gregorian_leap y)"
proof -
  obtain Y doy where o: "Y = y - 1970" "0 \<le> Y" "Y < 130"
    "doy = month_days y (nat (m - 1)) + (d - 1)" "0 \<le> doy"
    "doy < 365 + of_bool (is_leap_offset Y)" "civil_days y m d = 365 * Y + (Y + 1) div 4 + doy"
    using d by (rule civil_days_offset)
  have "civil_seconds y m d h mi s = (365 * Y + (Y + 1) div 4 + doy) * 86400 + day_seconds h mi s"
    by (simp add: civil_seconds_def day_seconds_def o(7))
  moreover have "is_leap_offset Y = gregorian_leap y"
    using d o(1) leap_offset_gregorian by (simp add: valid_date_def)
  ultimately show thesis
    using civil_from_days [OF o(2) _ o(5,6), of "day_seconds h mi s"] o(1,3,4)
      day_seconds_range [OF t] that by fastforce
qed

lemma to_date_civil:
  assumes d: "valid_date y m d" and t: "valid_time h mi s ns"
  shows "to_date (timer_of (civil_seconds y m d h mi s * 1000000000 + ns))
    = Date (word_of_int y) (word_of_int m) (word_of_int d)"
proof -
  have sec: "timer_seconds (timer_of (civil_seconds y m d h mi s * 1000000000 + ns))
      = civil_seconds y m d h mi s"
    using civil_seconds_range [OF d t] t by (intro timer_split) (auto simp: valid_time_def)
  have "month_loop 0 (gregorian_leap y) 0 (month_days y (nat (m - 1)) + (d - 1)) = (m - 1, d - 1)"
    using d by (intro month_loop_civil) (auto simp: valid_date_def)
  moreover obtain yr dy where
    "split_year (civil_seconds y m d h mi s) = (yr, dy, day_seconds h mi s)"
    "correct_leap yr dy = (y - 1970, month_days y (nat (m - 1)) + (d - 1), gregorian_leap y)"
    using d t by (rule split_civil)
  ultimately show ?thesis by (simp add: to_date_def sec)
qed

section \<open>Printing and parsing\<close>

lemma parse_digits_append:
  assumes "\<forall>c \<in> set ds. is_digit c" and "rest = [] \<or> \<not> is_digit (hd rest)"
  shows "parse_digits m (int a mod m) (ds @ rest) = (int (digits_val a ds) mod m, rest)"
  using assms(1)
proof (induction ds arbitrary: a)
  case Nil
  with assms(2) show ?case by (cases rest) auto
next
  case (Cons c ds)
  have "(int a mod m * 10 + int (digit_val c)) mod m = int (a * 10 + digit_val c) mod m"
    by (simp add: mod_add_left_eq mod_mult_left_eq) (metis mod_add_left_eq mod_mult_left_eq)
  with Cons show ?case by (simp del: of_nat_add of_nat_mult)
qed

lemma parse_field:
  assumes "0 \<le> i" "i < m" and "rest = [] \<or> \<not> is_digit (hd rest)"
  shows "parse_digits m 0 (format_int w i @ rest) = (i, rest)"
proof -
  have "\<forall>c \<in> set (zero_pad w (show_nat (nat i))). is_digit c"
    by (intro zero_pad_digits show_nat_digits)
  from parse_digits_append [OF this assms(3), of m 0] assms
  show ?thesis by (simp add: format_int_def)
qed

lemma not_digit [simp]:
  "\<not> is_digit CHR ''-''" "\<not> is_digit CHR '' ''" "\<not> is_digit CHR '':''" "\<not> is_digit CHR ''.''"
  by (simp_all add: is_digit_def)

lemma timer_parse_fields:
  assumes "0 \<le> y" "y < 65536" "0 \<le> m" "m < 256" "0 \<le> d" "d < 256" "0 \<le> h" "h < 256"
    "0 \<le> mi" "mi < 256" "0 \<le> s" "s < 256" "0 \<le> ns" "ns < 4294967296"
  shows "timer_parse (format_int 4 y @ ''-'' @ format_int 2 m @ ''-'' @ format_int 2 d @ '' ''
      @ format_int 2 h @ '':'' @ format_int 2 mi @ '':'' @ format_int 2 s @ ''.'' @ format_int 9 ns)
    = timer_create y m d h mi s ns"
  using assms parse_field [of ns 4294967296 "[]"]
  by (simp add: timer_parse_def parse_field)

lemma smod_nonneg: "0 \<le> (a :: int) \<Longrightarrow> 0 < b \<Longrightarrow> a smod b = a mod b"
  by (cases "a = 0") (simp_all add: signed_modulo_int_def)

lemma time_of_day:
  assumes "valid_time h mi s ns"
  shows "day_seconds h mi s sdiv 3600 mod 256 = h"
    and "(day_seconds h mi s - 3600 * h) sdiv 60 mod 256 = mi"
    and "(day_seconds h mi s - 3600 * h - mi * 60) mod 256 = s"
  using assms by (auto simp: valid_time_def day_seconds_def sdiv_nonneg)

lemma timer_to_string_civil:
  assumes d: "valid_date y m d" and t: "valid_time h mi s ns"
  shows "timer_to_string (timer_of (civil_seconds y m d h mi s * 1000000000 + ns))
    = format_int 4 y @ ''-'' @ format_int 2 m @ ''-'' @ format_int 2 d @ '' ''
      @ format_int 2 h @ '':'' @ format_int 2 mi @ '':'' @ format_int 2 s @ ''.'' @ format_int 9 ns"
proof -
  let ?t = "timer_of (civil_seconds y m d h mi s * 1000000000 + ns)"
  have r: "0 \<le> civil_seconds y m d h mi s" "civil_seconds y m d h mi s < 4102444800"
    "0 \<le> ns" "ns < 1000000000"
    using civil_seconds_range [OF d t] t by (auto simp: valid_time_def)
  have ns: "timer_ns ?t smod 1000000000 = ns"
    using r by (simp add: timer_split(1) [OF r] smod_nonneg)
  have ml: "month_loop 0 (gregorian_leap y) 0 (month_days y (nat (m - 1)) + (d - 1)) = (m - 1, d - 1)"
    using d by (intro month_loop_civil) (auto simp: valid_date_def)
  obtain yr dy where
    sp: "split_year (civil_seconds y m d h mi s) = (yr, dy, day_seconds h mi s)"
    "correct_leap yr dy = (y - 1970, month_days y (nat (m - 1)) + (d - 1), gregorian_leap y)"
    using d t by (rule split_civil)
  have md: "m mod 256 = m" "d mod 65536 = d"
    using d days_in_month_bounds [of y m] by (auto simp: valid_date_def)
  show ?thesis
    by (simp add: timer_to_string_def timer_split(2) [OF r] sp ml Let_def ns md time_of_day [OF t])
qed

lemma moment_of_timer:
  assumes "0 \<le> timer_ns t" "timer_ns t < 4102444800000000000"
  obtains y m d h mi s ns where "valid_date y m d" and "valid_time h mi s ns"
    and "t = timer_of (civil_seconds y m d h mi s * 1000000000 + ns)"
proof -
  define S ns where "S = timer_ns t div 1000000000" and "ns = timer_ns t mod 1000000000"
  define N r where "N = S div 86400" and "r = S mod 86400"
  have S: "timer_ns t = S * 1000000000 + ns" "S = N * 86400 + r"
    by (simp_all add: S_def ns_def N_def r_def)
  have bounds: "0 \<le> ns" "ns < 1000000000" "0 \<le> r" "r < 86400" "0 \<le> N" "N < 47482"
    using assms by (auto simp: S_def ns_def N_def r_def)
  obtain y m d where "valid_date y m d" "civil_days y m d = N"
    using bounds(5,6) by (rule date_of_days)
  moreover have "valid_time (r div 3600) (r mod 3600 div 60) (r mod 60) ns"
    using bounds by (auto simp: valid_time_def)
  moreover have "r = r div 3600 * 3600 + r mod 3600 div 60 * 60 + r mod 60"
  proof -
    have "r mod 60 = r mod 3600 mod 60" by (simp add: mod_mod_cancel)
    moreover have "r = r div 3600 * 3600 + r mod 3600" by simp
    moreover have "r mod 3600 = r mod 3600 div 60 * 60 + r mod 3600 mod 60" by simp
    ultimately show ?thesis by linarith
  qed
  ultimately show thesis
    using S that by (metis (no_types, lifting) add.assoc civil_seconds_def timer_of_ns)
qed

section \<open>Comparison operators\<close>

text \<open>
  \<open>Duration\<close>, \<open>Date\<close> and \<open>Timer\<close> each define \<open><\<close>, \<open>>\<close> and \<open>==\<close> and derive \<open><=\<close> as \<open>!(>)\<close>, \<open>>=\<close> as
  \<open>!(<)\<close> and \<open>!=\<close> as \<open>!(==)\<close>. They are one contract: the three agree with the order of a key.
\<close>

locale comparison =
  fixes key :: "'a \<Rightarrow> 'k::linorder"
    and less greater equal :: "'a \<Rightarrow> 'a \<Rightarrow> bool"
  assumes less_key: "less a b \<longleftrightarrow> key a < key b"
    and greater_key: "greater a b \<longleftrightarrow> key b < key a"
    and equal_key: "equal a b \<longleftrightarrow> key a = key b"
begin

lemma exactly_one:
  "(less a b \<or> equal a b \<or> greater a b) \<and> \<not> (less a b \<and> equal a b) \<and> \<not> (equal a b \<and> greater a b)
    \<and> \<not> (less a b \<and> greater a b)"
  by (auto simp: less_key greater_key equal_key)

lemma not_greater_iff: "\<not> greater a b \<longleftrightarrow> less a b \<or> equal a b"
  by (auto simp: less_key greater_key equal_key)

lemma less_trans: "less a b \<Longrightarrow> less b c \<Longrightarrow> less a c"
  by (auto simp: less_key)

lemma le_antisym: "\<not> greater a b \<Longrightarrow> \<not> greater b a \<Longrightarrow> equal a b"
  by (auto simp: greater_key equal_key)

end

definition date_key :: "date \<Rightarrow> nat" where
  "date_key d = (unat (d_year d) * 256 + unat (d_month d)) * 256 + unat (d_day d)"

lemma mixed_radix_less:
  fixes a b c d :: nat
  assumes "b < n" and "d < n"
  shows "a * n + b < c * n + d \<longleftrightarrow> a < c \<or> (a = c \<and> b < d)"
proof (cases a c rule: linorder_cases)
  case less
  then have "(a + 1) * n \<le> c * n" by (intro mult_le_mono1) simp
  with less assms show ?thesis by simp
next
  case greater
  then have "(c + 1) * n \<le> a * n" by (intro mult_le_mono1) simp
  with greater assms show ?thesis by simp
qed simp

lemma date_key_less: "date_key a < date_key b \<longleftrightarrow> date_less a b"
  using byte_bound [of "d_month a"] byte_bound [of "d_month b"] byte_bound [of "d_day a"]
    byte_bound [of "d_day b"]
  by (auto simp: date_key_def date_less_def mixed_radix_less word_less_nat_alt word_unat_eq_iff)

interpretation durations: comparison duration_ns duration_less duration_greater duration_equal
  by unfold_locales (simp_all add: duration_less_def duration_greater_def duration_equal_def)

interpretation timers: comparison timer_ns timer_less timer_greater timer_equal
  by unfold_locales (simp_all add: timer_less_def timer_greater_def timer_equal_def)

lemma date_greater_less: "date_greater a b \<longleftrightarrow> date_less b a"
  by (auto simp: date_greater_def date_less_def)

lemma date_equal_iff: "date_equal a b \<longleftrightarrow> a = b"
  by (cases a; cases b) (simp add: date_equal_def)

lemma date_key_eq: "date_key a = date_key b \<longleftrightarrow> date_equal a b"
proof -
  have "date_key a = date_key b \<longleftrightarrow> \<not> date_less a b \<and> \<not> date_less b a"
    using date_key_less [of a b] date_key_less [of b a] by linarith
  also have "\<dots> \<longleftrightarrow> date_equal a b"
    by (auto simp: date_less_def date_equal_def)
  finally show ?thesis .
qed

interpretation dates: comparison date_key date_less date_greater date_equal
  by unfold_locales (simp_all add: date_key_less date_greater_less date_key_eq)

section \<open>Properties\<close>

text \<open>
  C36: for every date of the Gregorian calendar from 1970 to 2099 and every time of day,
  \<open>Timer::Create\<close> returns the point that lies that many days and seconds after the epoch, without
  overflow; the days are counted by the independent calendar.
\<close>

theorem create_is_gregorian:
  assumes "valid_date y m d" and "valid_time h mi s ns"
  shows "timer_create y m d h mi s ns
    = Some (timer_of (civil_seconds y m d h mi s * 1000000000 + ns))"
  using assms by (rule timer_create_civil)

theorem create_is_gregorian_witness:
  "timer_create 2024 2 29 23 59 59 999999999
    = Some (timer_of (civil_seconds 2024 2 29 23 59 59 * 1000000000 + 999999999))"
  by (rule create_is_gregorian)
    (simp_all add: valid_date_def valid_time_def days_in_month_def gregorian_leap_def)

text \<open>
  C36: \<open>ToDate\<close> undoes \<open>Create\<close>: the timer made for a valid moment gives the date back.
\<close>

theorem to_date_of_create:
  assumes "valid_date y m d" and "valid_time h mi s ns"
  shows "map_option to_date (timer_create y m d h mi s ns)
    = Some (Date (word_of_int y) (word_of_int m) (word_of_int d))"
  using assms by (simp add: timer_create_civil to_date_civil)

theorem to_date_of_create_witness:
  "map_option to_date (timer_create 1999 12 31 12 0 0 5) = Some (Date 1999 12 31)"
  using to_date_of_create [of 1999 12 31 12 0 0 5]
  by (simp add: valid_date_def valid_time_def days_in_month_def)

text \<open>
  Parsing the printed form of a timer from 1970 to 2099 gives the same timer, to the
  nanosecond.
\<close>

theorem timer_print_parse:
  assumes "0 \<le> timer_ns t" and "timer_ns t < 4102444800000000000"
  shows "timer_parse (timer_to_string t) = Some t"
proof -
  obtain y m d h mi s ns where v: "valid_date y m d" "valid_time h mi s ns"
    and t: "t = timer_of (civil_seconds y m d h mi s * 1000000000 + ns)"
    using assms by (rule moment_of_timer)
  have "timer_parse (timer_to_string t) = timer_create y m d h mi s ns"
    using v days_in_month_bounds [of y m]
    unfolding t timer_to_string_civil [OF v]
    by (intro timer_parse_fields) (auto simp: valid_date_def valid_time_def)
  with v t show ?thesis by (simp add: timer_create_civil)
qed

theorem timer_print_parse_witness:
  "timer_parse (timer_to_string (timer_of 1712784069663603851)) = Some (timer_of 1712784069663603851)"
  by (rule timer_print_parse) (simp_all add: in_int64_def)

text \<open>
  The check of the day takes every year for a leap year and the check of the minute admits 60:
  in a common year 29 February is accepted and becomes 1 March, and minute 60 becomes the next
  hour.
\<close>

theorem create_accepts_overflow:
  assumes "1970 \<le> y" and "y < 2100" and "\<not> gregorian_leap y" and "valid_time h mi s ns" and "h < 23"
  shows "timer_create y 2 29 h mi s ns = timer_create y 3 1 h mi s ns
    \<and> timer_create y 2 28 h 60 s ns = timer_create y 2 28 (h + 1) 0 s ns"
proof -
  have leap: "(y - 1970 + 2) mod 4 \<noteq> 0"
    using assms(1-3) by (simp add: gregorian_leap_range) presburger
  have ok: "\<not> create_rejects y 2 29 h mi s ns" "\<not> create_rejects y 3 1 h mi s ns"
    "\<not> create_rejects y 2 28 h 60 s ns" "\<not> create_rejects y 2 28 (h + 1) 0 s ns"
    using assms by (simp_all add: create_rejects_def valid_time_def how_much_days_in_month_def
        dayPerMonth_def)
  have "create_seconds y 2 29 h mi s = create_seconds y 3 1 h mi s"
    using leap by (simp add: create_seconds_def how_much_days_till_month_def eval_nat_numeral
        days_per_month_def dayPerMonth_def)
  moreover have "create_seconds y 2 28 h 60 s = create_seconds y 2 28 (h + 1) 0 s"
    by (simp add: create_seconds_def Let_def)
  ultimately show ?thesis using ok by (simp add: timer_create_def)
qed

theorem create_accepts_overflow_witness:
  "timer_create 2023 2 29 10 0 0 0 = timer_create 2023 3 1 10 0 0 0"
  by (rule create_accepts_overflow [THEN conjunct1]) (simp_all add: gregorian_leap_def valid_time_def)

text \<open>
  The time left to midnight. At a moment of a valid day, \<open>GetSecondsToTomorrow\<close>,
  \<open>GetMillisecondsToTomorrow\<close> and \<open>GetNanosecondsToTomorrow\<close> return a whole day less the elapsed
  seconds, milliseconds and nanoseconds; \<open>GetMicrosecondsToTomorrow\<close> returns a day in
  microseconds less the elapsed \<^emph>\<open>milliseconds\<close>.
\<close>

lemma get_today_civil:
  assumes d: "valid_date y m d" and t: "valid_time h mi s ns"
  shows "get_today (timer_of (civil_seconds y m d h mi s * 1000000000 + ns))
    = Some (timer_of (civil_seconds y m d 0 0 0 * 1000000000))"
proof -
  have "valid_time 0 0 0 0" by (simp add: valid_time_def)
  moreover have "uint (word_of_int y :: u16) = y" "uint (word_of_int m :: byte) = m"
    "uint (word_of_int d :: byte) = d"
    using d days_in_month_bounds [of y m]
    by (simp_all add: valid_date_def uint_word_of_int)
  ultimately show ?thesis
    using timer_create_civil [OF d, of 0 0 0 0]
    by (simp add: get_today_def to_date_civil [OF d t])
qed

lemma to_tomorrow_parts:
  assumes d: "valid_date y m d" and t: "valid_time h mi s ns"
    and now: "now = timer_of (civil_seconds y m d h mi s * 1000000000 + ns)"
    and e: "elapsed = day_seconds h mi s * 1000000000 + ns"
    and today: "today = civil_days y m d * 86400 * 1000000000"
  shows "get_today now = Some (timer_of today)"
    and "timer_ns (timer_of today) = today" and "timer_ns now = today + elapsed"
    and "0 \<le> elapsed" "elapsed < 86400000000000" and "0 \<le> today"
proof -
  have c: "civil_seconds y m d h mi s * 1000000000 + ns = today + elapsed"
    "civil_seconds y m d 0 0 0 * 1000000000 = today"
    by (simp_all add: civil_seconds_def day_seconds_def e today algebra_simps)
  show "get_today now = Some (timer_of today)"
    using get_today_civil [OF d t] by (simp add: now c)
  show "0 \<le> elapsed" "elapsed < 86400000000000"
    using day_seconds_range [OF t] t by (auto simp: e valid_time_def)
  moreover show "0 \<le> today" using civil_days_range [OF d] by (simp add: today)
  moreover have "today < 4102444800000000000" using civil_days_range [OF d] by (simp add: today)
  ultimately show "timer_ns (timer_of today) = today" "timer_ns now = today + elapsed"
    by (simp_all add: now c in_int64_def)
qed

theorem time_to_tomorrow:
  assumes "valid_date y m d" and "valid_time h mi s ns"
    and "now = timer_of (civil_seconds y m d h mi s * 1000000000 + ns)"
    and "elapsed = day_seconds h mi s * 1000000000 + ns"
  shows "seconds_to_tomorrow now now = Some (86400 - elapsed div 1000000000)
    \<and> milliseconds_to_tomorrow now now = Some (86400000 - elapsed div 1000000)
    \<and> nanoseconds_to_tomorrow now now = Some (86400000000000 - elapsed)
    \<and> microseconds_to_tomorrow now now = Some (86400000000 - elapsed div 1000000)"
proof -
  obtain N where N: "N = civil_days y m d" by simp
  note p = to_tomorrow_parts [OF assms refl]
  have q: "(N * 86400 * 1000000000 + elapsed) div 1000000000 = N * 86400 + elapsed div 1000000000"
    "(N * 86400 * 1000000000 + elapsed) div 1000000 = N * 86400000 + elapsed div 1000000"
    using div_mult_self1 [of 1000000000 elapsed "N * 86400"]
      div_mult_self1 [of 1000000 elapsed "N * 86400000"] by (simp_all add: algebra_simps)
  have b: "0 \<le> elapsed div 1000000000" "elapsed div 1000000000 < 86400"
    "0 \<le> elapsed div 1000000" "elapsed div 1000000 < 86400000"
    using p(4,5) by auto
  have "seconds_to_tomorrow now now = Some (86400 - elapsed div 1000000000)"
    using p b by (simp add: seconds_to_tomorrow_def timer_seconds_def sdiv_nonneg q flip: N)
  moreover have "milliseconds_to_tomorrow now now = Some (86400000 - elapsed div 1000000)"
    using p b by (simp add: milliseconds_to_tomorrow_def timer_milliseconds_def sdiv_nonneg q flip: N)
  moreover have "nanoseconds_to_tomorrow now now = Some (86400000000000 - elapsed)"
    using p by (simp add: nanoseconds_to_tomorrow_def)
  moreover have "microseconds_to_tomorrow now now = Some (86400000000 - elapsed div 1000000)"
    using p b by (simp add: microseconds_to_tomorrow_def timer_milliseconds_def sdiv_nonneg q flip: N)
  ultimately show ?thesis by blast
qed

theorem time_to_tomorrow_witness:
  "microseconds_to_tomorrow (timer_of (civil_seconds 2024 5 1 0 0 1 * 1000000000))
     (timer_of (civil_seconds 2024 5 1 0 0 1 * 1000000000)) = Some (86400000000 - 1000)"
  using time_to_tomorrow [of 2024 5 1 0 0 1 0, OF _ _ refl refl]
  by (simp add: valid_date_def valid_time_def days_in_month_def day_seconds_def)

text \<open>
  The comparison operators of \<open>Timer::Date\<close> order dates totally: of \<open><\<close>, \<open>==\<close> and \<open>>\<close> exactly one
  holds, and \<open><=\<close> (which is \<open>!(>)\<close>) holds exactly when \<open><\<close> or \<open>==\<close> does.
\<close>

theorem date_order_total:
  "(date_less a b \<or> date_equal a b \<or> date_greater a b) \<and> (\<not> (date_less a b \<and> date_equal a b))
    \<and> (\<not> (date_equal a b \<and> date_greater a b)) \<and> (\<not> (date_less a b \<and> date_greater a b))
    \<and> ((\<not> date_greater a b) = (date_less a b \<or> date_equal a b))"
  using dates.exactly_one [of a b] dates.not_greater_iff [of a b] by blast

text \<open>
  The hash of a date mixes the year and the month at the same bit position, so dates with the
  same day whose year and month have the same bitwise union collide: every date of January 2024
  with the same date of January 2025, for instance.
\<close>

theorem date_hash_collides:
  assumes "(ucast (d_year a) OR ucast (d_month a) :: u64) = ucast (d_year b) OR ucast (d_month b)"
    and "d_day a = d_day b"
  shows "date_hash a = date_hash b"
proof -
  have packed: "date_packed d = push_bit 8 (ucast (d_year d) OR ucast (d_month d)) OR ucast (d_day d)"
    for d
    by (simp add: date_packed_def push_bit_or or.assoc)
  show ?thesis by (simp only: date_hash_def packed assms)
qed

theorem date_hash_collides_witness:
  "date_hash (Date 2024 1 5) = date_hash (Date 2025 1 5)"
  by (rule date_hash_collides) simp_all

end
