(* ===== verification/StdTypes.thy ===== *)
theory StdTypes
  imports Calendar
begin

text \<open>
  The standard types of MSAPI: \<open>StandardType::Type\<close> with its numeric codes and names
  (\<open>help/standardType.hpp\<close>), the values of these types (\<open>standardTypes\<close> of \<open>help/meta.hpp\<close>), their
  object representation in a buffer and their text (\<open>_S\<close> of \<open>help/log.h\<close>).

  A \<open>float\<close> or \<open>double\<close> is kept as its bit pattern: the protocol code only copies it.
\<close>

section \<open>Type codes and names\<close>

datatype std_type =
  TUndefined | TInt8 | TInt16 | TInt32 | TInt64 | TUint8 | TUint16 | TUint32 | TUint64 | TFloat
| TDouble | TBool | TOptionalInt8 | TOptionalInt16 | TOptionalInt32 | TOptionalInt64
| TOptionalUint8 | TOptionalUint16 | TOptionalUint32 | TOptionalUint64 | TOptionalInt8Empty
| TOptionalInt16Empty | TOptionalInt32Empty | TOptionalInt64Empty | TOptionalUint8Empty
| TOptionalUint16Empty | TOptionalUint32Empty | TOptionalUint64Empty | TOptionalFloat
| TOptionalDouble | TOptionalFloatEmpty | TOptionalDoubleEmpty | TString | TStringEmpty | TTimer
| TDuration | TTableData | TMax

text \<open>The value of the enumerator, an \<open>int8_t\<close>.\<close>

fun type_code :: "std_type \<Rightarrow> byte" where
  "type_code TUndefined = 0"
| "type_code TInt8 = 1"
| "type_code TInt16 = 2"
| "type_code TInt32 = 3"
| "type_code TInt64 = 4"
| "type_code TUint8 = 5"
| "type_code TUint16 = 6"
| "type_code TUint32 = 7"
| "type_code TUint64 = 8"
| "type_code TFloat = 9"
| "type_code TDouble = 10"
| "type_code TBool = 11"
| "type_code TOptionalInt8 = 12"
| "type_code TOptionalInt16 = 13"
| "type_code TOptionalInt32 = 14"
| "type_code TOptionalInt64 = 15"
| "type_code TOptionalUint8 = 16"
| "type_code TOptionalUint16 = 17"
| "type_code TOptionalUint32 = 18"
| "type_code TOptionalUint64 = 19"
| "type_code TOptionalInt8Empty = 20"
| "type_code TOptionalInt16Empty = 21"
| "type_code TOptionalInt32Empty = 22"
| "type_code TOptionalInt64Empty = 23"
| "type_code TOptionalUint8Empty = 24"
| "type_code TOptionalUint16Empty = 25"
| "type_code TOptionalUint32Empty = 26"
| "type_code TOptionalUint64Empty = 27"
| "type_code TOptionalFloat = 28"
| "type_code TOptionalDouble = 29"
| "type_code TOptionalFloatEmpty = 30"
| "type_code TOptionalDoubleEmpty = 31"
| "type_code TString = 32"
| "type_code TStringEmpty = 33"
| "type_code TTimer = 34"
| "type_code TDuration = 35"
| "type_code TTableData = 36"
| "type_code TMax = 37"

fun type_name :: "std_type \<Rightarrow> string" where
  "type_name TUndefined = ''Undefined''"
| "type_name TInt8 = ''Int8''"
| "type_name TInt16 = ''Int16''"
| "type_name TInt32 = ''Int32''"
| "type_name TInt64 = ''Int64''"
| "type_name TUint8 = ''Uint8''"
| "type_name TUint16 = ''Uint16''"
| "type_name TUint32 = ''Uint32''"
| "type_name TUint64 = ''Uint64''"
| "type_name TFloat = ''Float''"
| "type_name TDouble = ''Double''"
| "type_name TBool = ''Bool''"
| "type_name TOptionalInt8 = ''OptionalInt8''"
| "type_name TOptionalInt16 = ''OptionalInt16''"
| "type_name TOptionalInt32 = ''OptionalInt32''"
| "type_name TOptionalInt64 = ''OptionalInt64''"
| "type_name TOptionalUint8 = ''OptionalUint8''"
| "type_name TOptionalUint16 = ''OptionalUint16''"
| "type_name TOptionalUint32 = ''OptionalUint32''"
| "type_name TOptionalUint64 = ''OptionalUint64''"
| "type_name TOptionalInt8Empty = ''OptionalInt8Empty''"
| "type_name TOptionalInt16Empty = ''OptionalInt16Empty''"
| "type_name TOptionalInt32Empty = ''OptionalInt32Empty''"
| "type_name TOptionalInt64Empty = ''OptionalInt64Empty''"
| "type_name TOptionalUint8Empty = ''OptionalUint8Empty''"
| "type_name TOptionalUint16Empty = ''OptionalUint16Empty''"
| "type_name TOptionalUint32Empty = ''OptionalUint32Empty''"
| "type_name TOptionalUint64Empty = ''OptionalUint64Empty''"
| "type_name TOptionalFloat = ''OptionalFloat''"
| "type_name TOptionalDouble = ''OptionalDouble''"
| "type_name TOptionalFloatEmpty = ''OptionalFloatEmpty''"
| "type_name TOptionalDoubleEmpty = ''OptionalDoubleEmpty''"
| "type_name TString = ''String''"
| "type_name TStringEmpty = ''StringEmpty''"
| "type_name TTimer = ''Timer''"
| "type_name TDuration = ''Duration''"
| "type_name TTableData = ''TableData''"
| "type_name TMax = ''Max''"

definition all_types :: "std_type list" where
  "all_types =
    [TUndefined, TInt8, TInt16, TInt32, TInt64, TUint8, TUint16, TUint32, TUint64, TFloat,
     TDouble, TBool, TOptionalInt8, TOptionalInt16, TOptionalInt32, TOptionalInt64,
     TOptionalUint8, TOptionalUint16, TOptionalUint32, TOptionalUint64, TOptionalInt8Empty,
     TOptionalInt16Empty, TOptionalInt32Empty, TOptionalInt64Empty, TOptionalUint8Empty,
     TOptionalUint16Empty, TOptionalUint32Empty, TOptionalUint64Empty, TOptionalFloat,
     TOptionalDouble, TOptionalFloatEmpty, TOptionalDoubleEmpty, TString, TStringEmpty, TTimer,
     TDuration, TTableData, TMax]"

text \<open>A byte read from a buffer names a type only if it is the code of an enumerator.\<close>

definition type_of_code :: "byte \<Rightarrow> std_type option" where
  "type_of_code b = (if unat b < length all_types then Some (all_types ! unat b) else None)"

definition EnumToString :: "byte \<Rightarrow> string" where
  "EnumToString b = (case type_of_code b of Some t \<Rightarrow> type_name t | None \<Rightarrow> ''Unknown'')"

lemma type_of_code_type_code [simp, codec_rules]: "type_of_code (type_code t) = Some t"
  by (cases t) (simp_all add: type_of_code_def all_types_def)

lemma type_code_eq_iff [simp]: "type_code s = type_code t \<longleftrightarrow> s = t"
  by (metis option.inject type_of_code_type_code)

section \<open>Values\<close>

datatype scalar =
  SInt8 byte | SInt16 u16 | SInt32 u32 | SInt64 u64
| SUint8 byte | SUint16 u16 | SUint32 u32 | SUint64 u64
| SFloat u32 | SDouble u64 | SBool bool

text \<open>
  An optional carries the type it is an optional of; \<open>std::optional\<close> of \<open>bool\<close> is not a standard type.
\<close>

datatype std_value =
  Scalar scalar
| Optional std_type "scalar option"
| Str string
| TimerV timer
| DurationV duration

fun scalar_type :: "scalar \<Rightarrow> std_type" where
  "scalar_type (SInt8 _) = TInt8"
| "scalar_type (SInt16 _) = TInt16"
| "scalar_type (SInt32 _) = TInt32"
| "scalar_type (SInt64 _) = TInt64"
| "scalar_type (SUint8 _) = TUint8"
| "scalar_type (SUint16 _) = TUint16"
| "scalar_type (SUint32 _) = TUint32"
| "scalar_type (SUint64 _) = TUint64"
| "scalar_type (SFloat _) = TFloat"
| "scalar_type (SDouble _) = TDouble"
| "scalar_type (SBool _) = TBool"

text \<open>\<open>sizeof\<close> of a primitive type, 0 for the others.\<close>

fun scalar_size :: "std_type \<Rightarrow> nat" where
  "scalar_size TInt8 = 1"
| "scalar_size TUint8 = 1"
| "scalar_size TBool = 1"
| "scalar_size TInt16 = 2"
| "scalar_size TUint16 = 2"
| "scalar_size TInt32 = 4"
| "scalar_size TUint32 = 4"
| "scalar_size TFloat = 4"
| "scalar_size TInt64 = 8"
| "scalar_size TUint64 = 8"
| "scalar_size TDouble = 8"
| "scalar_size _ = 0"

fun scalar_bytes :: "scalar \<Rightarrow> byte list" where
  "scalar_bytes (SInt8 w) = word_bytes 1 w"
| "scalar_bytes (SInt16 w) = word_bytes 2 w"
| "scalar_bytes (SInt32 w) = word_bytes 4 w"
| "scalar_bytes (SInt64 w) = word_bytes 8 w"
| "scalar_bytes (SUint8 w) = word_bytes 1 w"
| "scalar_bytes (SUint16 w) = word_bytes 2 w"
| "scalar_bytes (SUint32 w) = word_bytes 4 w"
| "scalar_bytes (SUint64 w) = word_bytes 8 w"
| "scalar_bytes (SFloat w) = word_bytes 4 w"
| "scalar_bytes (SDouble w) = word_bytes 8 w"
| "scalar_bytes (SBool b) = [of_bool b]"

text \<open>The scalar of a given type in \<open>scalar_size\<close> bytes; a \<open>bool\<close> is true unless the byte is 0.\<close>

fun scalar_of_bytes :: "std_type \<Rightarrow> byte list \<Rightarrow> scalar option" where
  "scalar_of_bytes TInt8 bs = Some (SInt8 (word_of_bytes bs))"
| "scalar_of_bytes TInt16 bs = Some (SInt16 (word_of_bytes bs))"
| "scalar_of_bytes TInt32 bs = Some (SInt32 (word_of_bytes bs))"
| "scalar_of_bytes TInt64 bs = Some (SInt64 (word_of_bytes bs))"
| "scalar_of_bytes TUint8 bs = Some (SUint8 (word_of_bytes bs))"
| "scalar_of_bytes TUint16 bs = Some (SUint16 (word_of_bytes bs))"
| "scalar_of_bytes TUint32 bs = Some (SUint32 (word_of_bytes bs))"
| "scalar_of_bytes TUint64 bs = Some (SUint64 (word_of_bytes bs))"
| "scalar_of_bytes TFloat bs = Some (SFloat (word_of_bytes bs))"
| "scalar_of_bytes TDouble bs = Some (SDouble (word_of_bytes bs))"
| "scalar_of_bytes TBool bs = Some (SBool (le_nat bs \<noteq> 0))"
| "scalar_of_bytes _ bs = None"

lemma length_scalar_bytes [simp, buffer_simps]: "length (scalar_bytes s) = scalar_size (scalar_type s)"
  by (cases s) simp_all

lemma scalar_of_bytes_scalar_bytes [simp, codec_rules]:
  "scalar_of_bytes (scalar_type s) (scalar_bytes s) = Some s"
  by (cases s) (simp_all add: word_of_bytes_word_bytes)

text \<open>The optional types: the tags of a filled and of an empty optional of a base type.\<close>

fun optional_of :: "std_type \<Rightarrow> std_type" where
  "optional_of TInt8 = TOptionalInt8"
| "optional_of TInt16 = TOptionalInt16"
| "optional_of TInt32 = TOptionalInt32"
| "optional_of TInt64 = TOptionalInt64"
| "optional_of TUint8 = TOptionalUint8"
| "optional_of TUint16 = TOptionalUint16"
| "optional_of TUint32 = TOptionalUint32"
| "optional_of TUint64 = TOptionalUint64"
| "optional_of TDouble = TOptionalDouble"
| "optional_of TFloat = TOptionalFloat"
| "optional_of _ = TUndefined"

fun optional_empty_of :: "std_type \<Rightarrow> std_type" where
  "optional_empty_of TInt8 = TOptionalInt8Empty"
| "optional_empty_of TInt16 = TOptionalInt16Empty"
| "optional_empty_of TInt32 = TOptionalInt32Empty"
| "optional_empty_of TInt64 = TOptionalInt64Empty"
| "optional_empty_of TUint8 = TOptionalUint8Empty"
| "optional_empty_of TUint16 = TOptionalUint16Empty"
| "optional_empty_of TUint32 = TOptionalUint32Empty"
| "optional_empty_of TUint64 = TOptionalUint64Empty"
| "optional_empty_of TDouble = TOptionalDoubleEmpty"
| "optional_empty_of TFloat = TOptionalFloatEmpty"
| "optional_empty_of _ = TUndefined"

fun base_of :: "std_type \<Rightarrow> std_type option" where
  "base_of TOptionalInt8 = Some TInt8"
| "base_of TOptionalInt16 = Some TInt16"
| "base_of TOptionalInt32 = Some TInt32"
| "base_of TOptionalInt64 = Some TInt64"
| "base_of TOptionalUint8 = Some TUint8"
| "base_of TOptionalUint16 = Some TUint16"
| "base_of TOptionalUint32 = Some TUint32"
| "base_of TOptionalUint64 = Some TUint64"
| "base_of TOptionalDouble = Some TDouble"
| "base_of TOptionalFloat = Some TFloat"
| "base_of _ = None"

fun base_of_empty :: "std_type \<Rightarrow> std_type option" where
  "base_of_empty TOptionalInt8Empty = Some TInt8"
| "base_of_empty TOptionalInt16Empty = Some TInt16"
| "base_of_empty TOptionalInt32Empty = Some TInt32"
| "base_of_empty TOptionalInt64Empty = Some TInt64"
| "base_of_empty TOptionalUint8Empty = Some TUint8"
| "base_of_empty TOptionalUint16Empty = Some TUint16"
| "base_of_empty TOptionalUint32Empty = Some TUint32"
| "base_of_empty TOptionalUint64Empty = Some TUint64"
| "base_of_empty TOptionalDoubleEmpty = Some TDouble"
| "base_of_empty TOptionalFloatEmpty = Some TFloat"
| "base_of_empty _ = None"

definition optional_base :: "std_type \<Rightarrow> bool" where
  "optional_base t \<longleftrightarrow>
     t \<in> {TInt8, TInt16, TInt32, TInt64, TUint8, TUint16, TUint32, TUint64, TDouble, TFloat}"

text \<open>Well-formed values: those of the C++ variant.\<close>

fun wf_value :: "std_value \<Rightarrow> bool" where
  "wf_value (Optional t None) \<longleftrightarrow> optional_base t"
| "wf_value (Optional t (Some s)) \<longleftrightarrow> optional_base t \<and> scalar_type s = t"
| "wf_value (Str s) \<longleftrightarrow> length s < size_t_bound"
| "wf_value _ \<longleftrightarrow> True"

section \<open>Text of values\<close>

fun scalar_int :: "scalar \<Rightarrow> int option" where
  "scalar_int (SInt8 w) = Some (sint w)"
| "scalar_int (SInt16 w) = Some (sint w)"
| "scalar_int (SInt32 w) = Some (sint w)"
| "scalar_int (SInt64 w) = Some (sint w)"
| "scalar_int (SUint8 w) = Some (uint w)"
| "scalar_int (SUint16 w) = Some (uint w)"
| "scalar_int (SUint32 w) = Some (uint w)"
| "scalar_int (SUint64 w) = Some (uint w)"
| "scalar_int _ = None"

text \<open>
  \<open>_S\<close>: the text of a value. Floats go through \<open>std::format\<close> with \<open>{:.9f}\<close> and \<open>{:.17f}\<close>: that
  text of a bit pattern is the argument \<open>fp\<close>.
\<close>

fun show_scalar :: "(scalar \<Rightarrow> string) \<Rightarrow> scalar \<Rightarrow> string" where
  "show_scalar fp (SBool b) = (if b then ''true'' else ''false'')"
| "show_scalar fp s = (case scalar_int s of Some i \<Rightarrow> show_int i | None \<Rightarrow> fp s)"

fun show_value :: "(scalar \<Rightarrow> string) \<Rightarrow> std_value \<Rightarrow> string" where
  "show_value fp (Scalar s) = show_scalar fp s"
| "show_value fp (Optional t None) = []"
| "show_value fp (Optional t (Some s)) = show_scalar fp s"
| "show_value fp (Str s) = s"
| "show_value fp (TimerV t) = timer_to_string t"
| "show_value fp (DurationV d) = show_int (duration_ns d) @ '' nanoseconds''"

section \<open>Facts on optionals\<close>

lemma base_of_optional_of [simp]: "optional_base t \<Longrightarrow> base_of (optional_of t) = Some t"
  by (auto simp: optional_base_def)

lemma base_of_empty_of [simp]: "optional_base t \<Longrightarrow> base_of_empty (optional_empty_of t) = Some t"
  by (auto simp: optional_base_def)

lemma base_of_base: "base_of t = Some b \<Longrightarrow> optional_base b \<and> t = optional_of b"
  by (cases t) (auto simp: optional_base_def)

lemma scalar_size_pos: "0 < scalar_size (scalar_type s)"
  by (cases s) simp_all

end
