(* ===== verification/Tables.thy ===== *)
theory Tables
  imports StdTypes
begin

text \<open>
  Tables, \<open>help/table.h\<close>: \<open>Table<Ts...>\<close> with its columns, one map from row numbers to cells per
  column, the running size of its encoding, and the operations \<open>AddRow\<close>, \<open>UpdateCell\<close>, \<open>Clear\<close>,
  \<open>GetCell\<close>, \<open>Encode\<close>, \<open>Copy\<close>, the texts and the metadata.

  A cell of an enum column is kept as the scalar of the enum's underlying type. \<open>malloc\<close> is an
  argument: it gives no block, or the initial contents of a block. \<open>m_rows\<close> is a \<open>nat\<close>;
  \<open>m_bufferSize\<close> wraps like \<open>size_t\<close>.
\<close>

section \<open>Cells\<close>

fun value_type :: "std_value \<Rightarrow> std_type" where
  "value_type (Scalar s) = scalar_type s"
| "value_type (Optional t _) = optional_of t"
| "value_type (Str _) = TString"
| "value_type (TimerV _) = TTimer"
| "value_type (DurationV _) = TDuration"

text \<open>The bytes \<open>Encode\<close> writes for a cell; \<open>sizeof\<close> of a timer and of a duration is 8.\<close>

fun value_bytes :: "std_value \<Rightarrow> byte list" where
  "value_bytes (Scalar s) = scalar_bytes s"
| "value_bytes (Optional _ (Some s)) = 0 # scalar_bytes s"
| "value_bytes (Optional _ None) = [1]"
| "value_bytes (Str s) = size_bytes (length s) @ map byte_of_char s"
| "value_bytes (TimerV t) = word_bytes 8 (m_point t)"
| "value_bytes (DurationV d) = word_bytes 8 (m_nanoseconds d)"

text \<open>What \<open>AddRow\<close> adds to the buffer size for a cell.\<close>

fun value_size :: "std_value \<Rightarrow> nat" where
  "value_size (Scalar s) = scalar_size (scalar_type s)"
| "value_size (Optional t (Some s)) = 1 + scalar_size t"
| "value_size (Optional _ None) = 1"
| "value_size (Str s) = length s + 8"
| "value_size (TimerV _) = 8"
| "value_size (DurationV _) = 8"

text \<open>The column types a \<open>switch\<close> over the type has a case for.\<close>

definition column_supported :: "std_type \<Rightarrow> bool" where
  "column_supported t \<longleftrightarrow>
     0 < scalar_size t \<or> base_of t \<noteq> None \<or> t = TString \<or> t = TTimer \<or> t = TDuration"

text \<open>
  Reading a cell of a column type at an offset: the value and the offset behind it, \<open>None\<close> for a
  read outside the buffer (or an unsupported type, which the callers exclude). The flag in front of
  an optional is true, that is nonzero, for an empty one.
\<close>

definition cell_decode :: "std_type \<Rightarrow> byte list \<Rightarrow> nat \<Rightarrow> (std_value \<times> nat) option" where
  "cell_decode t buf off =
     (if t = TString then
        (case read_size buf off of
           None \<Rightarrow> None
         | Some n \<Rightarrow>
             (if n = 0 then Some (Str [], off + 8)
              else (case read_at buf (off + 8) n of
                      None \<Rightarrow> None
                    | Some bs \<Rightarrow> Some (Str (map char_of_byte bs), off + 8 + n))))
      else if t = TTimer then
        map_option (\<lambda>bs. (TimerV (Timer (word_of_bytes bs)), off + 8)) (read_at buf off 8)
      else if t = TDuration then
        map_option (\<lambda>bs. (DurationV (Duration (word_of_bytes bs)), off + 8)) (read_at buf off 8)
      else
        (case base_of t of
           Some b \<Rightarrow>
             (case read_at buf off 1 of
                None \<Rightarrow> None
              | Some fl \<Rightarrow>
                  (if le_nat fl \<noteq> 0 then Some (Optional b None, off + 1)
                   else (case read_at buf (off + 1) (scalar_size b) of
                           None \<Rightarrow> None
                         | Some bs \<Rightarrow>
                             map_option (\<lambda>s. (Optional b (Some s), off + 1 + scalar_size b))
                               (scalar_of_bytes b bs))))
         | None \<Rightarrow>
             (case read_at buf off (scalar_size t) of
                None \<Rightarrow> None
              | Some bs \<Rightarrow>
                  map_option (\<lambda>s. (Scalar s, off + scalar_size t)) (scalar_of_bytes t bs))))"

section \<open>The state\<close>

record column =
  col_id :: u64
  col_type :: std_type
  col_metadata :: string

type_synonym cells = "nat \<Rightarrow> std_value option"

record table =
  t_data :: "cells list"
  t_bufferSize :: u64
  t_columns :: "column list"
  t_rows :: nat

definition empty_table :: table where
  "empty_table = \<lparr>t_data = [], t_bufferSize = 8, t_columns = [], t_rows = 0\<rparr>"

text \<open>\<open>AddColumns\<close> and the constructors, for the list of the column types.\<close>

definition add_columns :: "std_type list \<Rightarrow> u64 list \<Rightarrow> table \<Rightarrow> table" where
  "add_columns types ids t =
     t\<lparr>t_data := t_data t @ map (\<lambda>_. Map.empty) types,
       t_columns := t_columns t @
         map (\<lambda>(i, ty). \<lparr>col_id = i, col_type = ty, col_metadata = []\<rparr>) (zip ids types)\<rparr>"

definition table_default :: "std_type list \<Rightarrow> table" where
  "table_default types =
     add_columns types (map word_of_nat [0..<length types]) empty_table"

definition table_with_ids :: "std_type list \<Rightarrow> u64 list \<Rightarrow> table" where
  "table_with_ids types ids =
     (if length types \<noteq> length ids then empty_table
      else if card (set ids) \<noteq> length ids then empty_table
      else add_columns types ids empty_table)"

section \<open>Rows and cells\<close>

text \<open>\<open>std::map::emplace\<close> keeps an existing entry.\<close>

definition emplace :: "cells \<Rightarrow> nat \<Rightarrow> std_value \<Rightarrow> cells" where
  "emplace m r v = (if m r = None then m(r \<mapsto> v) else m)"

text \<open>
  One cell of \<open>AddRow\<close>: a value of another type than the column's is reported and skipped. For a
  string the size counted is the one of the string that is in the map.
\<close>

definition add_cell :: "std_type \<Rightarrow> nat \<Rightarrow> std_value \<Rightarrow> cells \<Rightarrow> u64 \<Rightarrow> cells \<times> u64" where
  "add_cell ty r v m sz =
     (if value_type v = ty then
        (let m' = emplace m r v in
         (m', sz + word_of_nat (case v of
                                    Str _ \<Rightarrow> (case m' r of Some w \<Rightarrow> value_size w | None \<Rightarrow> 0)
                                  | _ \<Rightarrow> value_size v)))
      else (m, sz))"

fun add_cells :: "column list \<Rightarrow> nat \<Rightarrow> std_value list \<Rightarrow> cells list \<Rightarrow> u64 \<Rightarrow> cells list \<times> u64" where
  "add_cells (c # cs) r (v # vs) (m # ms) sz =
     (let (m', sz') = add_cell (col_type c) r v m sz;
          (ms', sz'') = add_cells cs r vs ms sz'
      in (m' # ms', sz''))"
| "add_cells _ _ _ ms sz = (ms, sz)"

definition add_row :: "std_value list \<Rightarrow> table \<Rightarrow> table" where
  "add_row vs t =
     (if length vs = length (t_columns t) then
        (let (ms, sz) = add_cells (t_columns t) (t_rows t) vs (t_data t) (t_bufferSize t)
         in t\<lparr>t_data := ms, t_bufferSize := sz, t_rows := Suc (t_rows t)\<rparr>)
      else t)"

text \<open>
  The change of the buffer size in \<open>UpdateCell\<close>. For an optional the code adds or subtracts
  \<open>sizeof(std::optional<T>)\<close>: the scalar, its flag and the padding, twice the size of the scalar.
\<close>

definition sizeof_optional :: "std_type \<Rightarrow> nat" where
  "sizeof_optional t = 2 * scalar_size t"

definition update_size :: "std_value \<Rightarrow> std_value \<Rightarrow> u64 \<Rightarrow> u64" where
  "update_size old new sz =
     (case (old, new) of
        (Optional _ o1, Optional t o2) \<Rightarrow>
          (case o2 of
             Some _ \<Rightarrow> (if o1 = None then sz + word_of_nat (sizeof_optional t) else sz)
           | None \<Rightarrow> (if o1 \<noteq> None then sz - word_of_nat (sizeof_optional t) else sz))
      | (Str s1, Str s2) \<Rightarrow> sz + (word_of_nat (length s2) - word_of_nat (length s1))
      | _ \<Rightarrow> sz)"

definition update_cell :: "nat \<Rightarrow> nat \<Rightarrow> std_value \<Rightarrow> table \<Rightarrow> table" where
  "update_cell c r v t =
     (if c < length (t_columns t) then
        (if value_type v = col_type (t_columns t ! c) then
           (case (t_data t ! c) r of
              None \<Rightarrow> t
            | Some old \<Rightarrow>
                t\<lparr>t_bufferSize := update_size old v (t_bufferSize t),
                  t_data := (t_data t)[c := (t_data t ! c)(r \<mapsto> v)]\<rparr>)
         else t)
      else t)"

definition table_clear :: "table \<Rightarrow> table" where
  "table_clear t =
     t\<lparr>t_rows := 0, t_bufferSize := 8, t_data := map (\<lambda>_. Map.empty) (t_data t)\<rparr>"

definition table_empty :: "table \<Rightarrow> bool" where
  "table_empty t \<longleftrightarrow> t_rows t = 0"

definition get_cell :: "nat \<Rightarrow> nat \<Rightarrow> table \<Rightarrow> std_value option" where
  "get_cell c r t =
     (if length (t_columns t) \<le> c \<or> t_rows t \<le> r then None else (t_data t ! c) r)"

text \<open>\<open>operator==\<close>\<close>

definition table_eq :: "table \<Rightarrow> table \<Rightarrow> bool" where
  "table_eq a b \<longleftrightarrow>
     t_bufferSize a = t_bufferSize b \<and> t_rows a = t_rows b \<and> t_columns a = t_columns b \<and>
     t_data a = t_data b"

section \<open>Encode\<close>

text \<open>
  A write outside the allocated block is \<open>EncOverflow\<close> (undefined behaviour of the code);
  \<open>EncNull\<close> is the null pointer it returns when there is no memory.
\<close>

datatype encode_result = EncNull | EncBuffer "byte list" | EncOverflow

definition encode_cell :: "nat \<Rightarrow> cells \<Rightarrow> byte list \<times> nat \<Rightarrow> (byte list \<times> nat) option" where
  "encode_cell r m = (\<lambda>(buf, off).
     (case m r of
        None \<Rightarrow> Some (buf, off)
      | Some v \<Rightarrow>
          (case write_at buf off (value_bytes v) of
             None \<Rightarrow> None
           | Some buf' \<Rightarrow> Some (buf', off + value_size v))))"

fun encode_row :: "nat \<Rightarrow> cells list \<Rightarrow> byte list \<times> nat \<Rightarrow> (byte list \<times> nat) option" where
  "encode_row r [] s = Some s"
| "encode_row r (m # ms) s =
     (case encode_cell r m s of None \<Rightarrow> None | Some s' \<Rightarrow> encode_row r ms s')"

fun encode_rows :: "nat list \<Rightarrow> cells list \<Rightarrow> byte list \<times> nat \<Rightarrow> (byte list \<times> nat) option" where
  "encode_rows [] ms s = Some s"
| "encode_rows (r # rs) ms s =
     (case encode_row r ms s of None \<Rightarrow> None | Some s' \<Rightarrow> encode_rows rs ms s')"

definition table_encode :: "(nat \<Rightarrow> byte list option) \<Rightarrow> table \<Rightarrow> encode_result" where
  "table_encode malloc t =
     (let sz = unat (t_bufferSize t); header = size_bytes sz in
      if sz = 0 then
        (case malloc 8 of
           None \<Rightarrow> EncOverflow
         | Some buf \<Rightarrow>
             (case write_at buf 0 (size_bytes 8) of
                None \<Rightarrow> EncOverflow | Some buf' \<Rightarrow> EncBuffer buf'))
      else
        (case malloc sz of
           None \<Rightarrow> EncNull
         | Some buf \<Rightarrow>
             (case write_at buf 0 header of
                None \<Rightarrow> EncOverflow
              | Some buf' \<Rightarrow>
                  (if t_rows t = 0 then EncBuffer buf'
                   else
                     (case encode_rows [0..<t_rows t] (t_data t) (buf', 8) of
                        None \<Rightarrow> EncOverflow
                      | Some (buf'', off) \<Rightarrow>
                          (if off \<noteq> sz then
                             (case write_at (replicate sz 0) 0 header of
                                None \<Rightarrow> EncOverflow | Some z \<Rightarrow> EncBuffer z)
                           else EncBuffer buf''))))))"

section \<open>Copy\<close>

text \<open>
  A row of \<open>Copy\<close>: a read outside the memory of the buffer (\<open>RowOob\<close>), the early return at a
  column of an unsupported type (\<open>RowStop\<close>, with the cells stored so far), or the whole row.
\<close>

datatype row_result = RowOob | RowStop "cells list" | RowDone "cells list" nat

fun copy_row :: "column list \<Rightarrow> cells list \<Rightarrow> byte list \<Rightarrow> nat \<Rightarrow> nat \<Rightarrow> row_result" where
  "copy_row (c # cs) (m # ms) buf r off =
     (if \<not> column_supported (col_type c) then RowStop (m # ms)
      else
        (case cell_decode (col_type c) buf off of
           None \<Rightarrow> RowOob
         | Some (v, off') \<Rightarrow>
             (case copy_row cs ms buf r off' of
                RowOob \<Rightarrow> RowOob
              | RowStop ms' \<Rightarrow> RowStop (emplace m r v # ms')
              | RowDone ms' off'' \<Rightarrow> RowDone (emplace m r v # ms') off'')))"
| "copy_row _ ms _ _ off = RowDone ms off"

text \<open>
  The outer loop: it stops when the offset reaches the size the buffer declares. It does not end
  when a row takes no bytes, so it is a partial function and \<open>None\<close> is the endless loop.
\<close>

datatype copy_result = CopyOob | CopyStop table | Copied table

partial_function (option) copy_rows :: "byte list \<Rightarrow> nat \<Rightarrow> nat \<Rightarrow> table \<Rightarrow> copy_result option" where
  "copy_rows buf sz off t =
     (if off < sz then
        (case copy_row (t_columns t) (t_data t) buf (t_rows t) off of
           RowOob \<Rightarrow> Some CopyOob
         | RowStop ms \<Rightarrow> Some (CopyStop (t\<lparr>t_data := ms\<rparr>))
         | RowDone ms off' \<Rightarrow>
             copy_rows buf sz off' (t\<lparr>t_data := ms, t_rows := Suc (t_rows t)\<rparr>))
      else Some (Copied (t\<lparr>t_bufferSize := t_bufferSize t + word_of_nat (off - 8)\<rparr>)))"

text \<open>\<open>buf\<close> is the memory that starts at \<open>tableData.GetBuffer()\<close>.\<close>

definition table_copy :: "byte list \<Rightarrow> table \<Rightarrow> copy_result option" where
  "table_copy buf t =
     (let t' = (if t_rows t \<noteq> 0 then table_clear t else t) in
      case read_size buf 0 of
        None \<Rightarrow> Some CopyOob
      | Some sz \<Rightarrow> copy_rows buf sz 8 t')"

section \<open>Texts\<close>

definition newline :: string where
  "newline = [CHR 0x0A]"

definition tabs :: "nat \<Rightarrow> string" where
  "tabs n = replicate n CHR 0x09"

definition quoted :: "string \<Rightarrow> string" where
  "quoted s = CHR 0x22 # s @ [CHR 0x22]"

definition to_string_column :: "nat \<times> column \<Rightarrow> string" where
  "to_string_column = (\<lambda>(i, c). newline @ tabs 2 @ ''['' @ show_nat i @ ''] '' @
     show_nat (unat (col_id c)) @ '' '' @ type_name (col_type c))"

definition to_string_cell :: "(scalar \<Rightarrow> string) \<Rightarrow> nat \<Rightarrow> nat \<times> cells \<Rightarrow> string" where
  "to_string_cell fp r = (\<lambda>(i, m).
     (if i = 0 then newline @ tabs 2 @ ''['' @ show_nat i @ '', '' @ show_nat r @ ''] ''
      else '' ['' @ show_nat i @ ''| '') @
     (case m r of
        None \<Rightarrow> ''Error: Cell does not exist, nothing to print''
      | Some v \<Rightarrow> show_value fp v))"

definition table_to_string :: "(scalar \<Rightarrow> string) \<Rightarrow> table \<Rightarrow> string" where
  "table_to_string fp t =
     (let columns = ''Table:'' @ newline @ ''{'' @ newline @ tabs 1 @ ''Buffer size: '' @
            show_nat (unat (t_bufferSize t)) @ newline @ tabs 1 @ ''Columns:'' @ newline @ tabs 1 @
            ''{'' @ concat (map to_string_column (List.enumerate 0 (t_columns t)));
          close = newline @ tabs 1 @ ''}'' @ newline @ ''}''
      in if t_rows t = 0 then columns @ close
         else columns @ newline @ tabs 1 @ ''}'' @ newline @ tabs 1 @ ''Rows:'' @ newline @ tabs 1 @
           ''{'' @
           concat (map (\<lambda>r. concat (map (to_string_cell fp r) (List.enumerate 0 (t_data t))))
                     [0..<t_rows t]) @ close)"

fun json_cell :: "(scalar \<Rightarrow> string) \<Rightarrow> std_value \<Rightarrow> string" where
  "json_cell fp (Scalar s) = show_scalar fp s"
| "json_cell fp (Optional _ None) = ''null''"
| "json_cell fp (Optional _ (Some s)) = show_scalar fp s"
| "json_cell fp v = quoted (show_value fp v)"

fun join :: "string \<Rightarrow> string list \<Rightarrow> string" where
  "join sep [] = []"
| "join sep [s] = s"
| "join sep (s # t # ss) = s @ sep @ join sep (t # ss)"

definition json_column :: "column \<Rightarrow> string" where
  "json_column c = ''{'' @ quoted ''id'' @ '':'' @ show_nat (unat (col_id c)) @ '','' @
     quoted ''type'' @ '':'' @ quoted (type_name (col_type c)) @ ''}''"

definition json_row :: "(scalar \<Rightarrow> string) \<Rightarrow> cells list \<Rightarrow> nat \<Rightarrow> string" where
  "json_row fp ms r =
     join '','' (map (\<lambda>m. case m r of
                           None \<Rightarrow> quoted ''Error: Cell does not exist, nothing to print''
                         | Some v \<Rightarrow> json_cell fp v) ms)"

text \<open>\<open>ToJson\<close> dereferences the first column: \<open>None\<close> for a table that has none.\<close>

definition table_to_json :: "(scalar \<Rightarrow> string) \<Rightarrow> table \<Rightarrow> string option" where
  "table_to_json fp t =
     (if t_columns t = [] then None
      else
        (let columns = ''{'' @ quoted ''Buffer size'' @ '':'' @ show_nat (unat (t_bufferSize t)) @
               '','' @ quoted ''Columns'' @ '':['' @ join '','' (map json_column (t_columns t)) @ '']''
         in if t_rows t = 0 then Some (columns @ '','' @ quoted ''Rows'' @ '':[]}'')
            else Some (columns @ '','' @ quoted ''Rows'' @ '':[['' @
                   join ''],['' (map (json_row fp (t_data t)) [0..<t_rows t]) @ '']]}'')))"

section \<open>Metadata\<close>

definition add_metadata :: "string \<Rightarrow> column \<Rightarrow> column" where
  "add_metadata s c =
     c\<lparr>col_metadata := (if col_metadata c = [] then s else col_metadata c @ '','' @ s)\<rparr>"

definition set_column_names :: "string list \<Rightarrow> table \<Rightarrow> table" where
  "set_column_names names t =
     t\<lparr>t_columns := map (\<lambda>(c, n). add_metadata (quoted ''name'' @ '':'' @ quoted n) c)
                      (zip (t_columns t) names)\<rparr>"

definition set_column_metadata :: "u64 \<Rightarrow> string \<Rightarrow> table \<Rightarrow> table" where
  "set_column_metadata i s t =
     (if length (t_columns t) \<le> unat i then t
      else t\<lparr>t_columns := (t_columns t)[unat i := add_metadata s (t_columns t ! unat i)]\<rparr>)"

text \<open>
  The text for an enum with the values \<open>Undefined\<close> to \<open>Max - 1\<close>: the trailing comma is replaced by
  the closing bracket (and for an enum without values the opening bracket is).
\<close>

definition enum_metadata :: "nat \<Rightarrow> nat \<Rightarrow> (nat \<Rightarrow> string) \<Rightarrow> string" where
  "enum_metadata lo hi print =
     butlast (quoted ''stringInterpretations'' @ '':{'' @
       concat (map (\<lambda>i. quoted (show_nat i) @ '':'' @ quoted (print i) @ '','') [lo..<hi])) @ ''}''"

text \<open>\<open>is_enum\<close> tells for each column whether its C++ type is the enum.\<close>

definition add_metadata_for_enum ::
    "bool list \<Rightarrow> nat \<Rightarrow> nat \<Rightarrow> (nat \<Rightarrow> string) \<Rightarrow> table \<Rightarrow> table" where
  "add_metadata_for_enum is_enum lo hi print t =
     t\<lparr>t_columns := map (\<lambda>(c, e). if e then add_metadata (enum_metadata lo hi print) c else c)
                      (zip (t_columns t) is_enum)\<rparr>"

end
