(* ===== verification/TablesSpec.thy ===== *)
theory TablesSpec
  imports Tables
begin

text \<open>
  What a table promises: its contents as a list of rows, the invariant that ties the cell maps and
  the running buffer size to these rows, the layout of the encoding, and the round trip through
  \<open>Encode\<close> and \<open>Copy\<close>. The cells are an instance of the codec interface.
\<close>

section \<open>Cells as a codec\<close>

lemma length_value_bytes [simp, buffer_simps]:
  "wf_value v \<Longrightarrow> length (value_bytes v) = value_size v"
  by (cases v rule: wf_value.cases) auto

lemma value_size_pos: "wf_value v \<Longrightarrow> 0 < value_size v"
  by (cases v rule: wf_value.cases) (auto simp: scalar_size_pos)

lemma supported_value_type: "wf_value v \<Longrightarrow> column_supported (value_type v)"
  by (cases v rule: wf_value.cases) (auto simp: column_supported_def scalar_size_pos)

lemma read_at_pre:
  "length bs = n \<Longrightarrow> off = length pre \<Longrightarrow> read_at (pre @ bs @ post) off n = Some bs"
  by (simp add: read_at_def)

lemma scalar_type_neq [simp]:
  "scalar_type s \<noteq> TString" "scalar_type s \<noteq> TTimer" "scalar_type s \<noteq> TDuration"
  "base_of (scalar_type s) = None"
  by (cases s; simp)+

lemma optional_of_neq [simp]:
  "optional_of t \<noteq> TString" "optional_of t \<noteq> TTimer" "optional_of t \<noteq> TDuration"
  by (cases t; simp)+

lemma scalar_type_neq_optional [simp]: "scalar_type s \<noteq> optional_of t"
  by (cases s; cases t; simp)

lemmas value_type_distinct =
  scalar_type_neq(1-3) scalar_type_neq(1-3) [symmetric] optional_of_neq
  optional_of_neq [symmetric] scalar_type_neq_optional scalar_type_neq_optional [symmetric]

lemmas value_cases =
  wf_value.cases [case_names empty filled str scalar timer duration]

lemma cell_decode_value_bytes:
  assumes "value_type v = c" "wf_value v"
  shows "cell_decode c (pre @ value_bytes v @ post) (length pre)
           = Some (v, length pre + length (value_bytes v))"
  using assms(2)
proof (cases v rule: value_cases)
  case (empty t)
  then show ?thesis using assms
    by (auto simp: cell_decode_def read_at_def)
next
  case (filled t s)
  have "read_at ((pre @ [0]) @ scalar_bytes s @ post) (Suc (length pre)) (scalar_size t)
      = Some (scalar_bytes s)"
    by (rule read_at_pre) (use filled assms in auto)
  moreover have "read_at (pre @ [0] @ (scalar_bytes s @ post)) (length pre) (Suc 0) = Some [0]"
    by (rule read_at_pre) simp_all
  ultimately show ?thesis using filled assms
    by (auto simp: cell_decode_def)
next
  case (str s)
  have size: "read_size (pre @ size_bytes (length s) @ (map byte_of_char s @ post)) (length pre)
      = Some (length s)"
    by (rule read_size_append) (use str assms in simp_all)
  have "read_at ((pre @ size_bytes (length s)) @ map byte_of_char s @ post)
      (length pre + 8) (length s) = Some (map byte_of_char s)"
    by (rule read_at_pre) simp_all
  then show ?thesis using str assms size
    by (auto simp: cell_decode_def add.assoc)
next
  case (scalar s)
  have "read_at (pre @ scalar_bytes s @ post) (length pre) (scalar_size (scalar_type s))
      = Some (scalar_bytes s)"
    by (rule read_at_pre) simp_all
  then show ?thesis using scalar assms by (auto simp: cell_decode_def)
next
  case (timer t)
  then show ?thesis using assms
    by (cases t) (auto simp: cell_decode_def read_at_pre word_of_bytes_word_bytes)
next
  case (duration d)
  then show ?thesis using assms
    by (cases d) (auto simp: cell_decode_def read_at_pre word_of_bytes_word_bytes)
qed

interpretation cells: codec "\<lambda>t v. value_type v = t \<and> wf_value v" value_bytes cell_decode
  by unfold_locales (simp add: cell_decode_value_bytes)

text \<open>What the decoder gives is a value of the column type, read from inside the buffer.\<close>

lemma scalar_of_bytes_type:
  "scalar_of_bytes t bs = Some s \<Longrightarrow> scalar_type s = t"
  by (cases t) auto

lemma cell_decode_sound:
  assumes "cell_decode t buf off = Some (v, off')"
  shows "value_type v = t \<and> wf_value v \<and> off' = off + value_size v \<and> off' \<le> length buf"
proof -
  consider "t = TString" | "t = TTimer" | "t = TDuration"
    | "t \<noteq> TString" "t \<noteq> TTimer" "t \<noteq> TDuration"
    by blast
  then show ?thesis
  proof cases
    case 1
    with assms obtain n where n: "read_size buf off = Some n"
      by (auto simp: cell_decode_def split: option.splits)
    then have "n < size_t_bound" "off + 8 \<le> length buf"
      using read_size_bound [OF n] by (auto simp: read_size_def read_at_def split: if_splits)
    then show ?thesis using 1 assms n
      by (auto simp: cell_decode_def read_at_def split: option.splits if_splits)
  next
    case 2
    then show ?thesis using assms by (auto simp: cell_decode_def read_at_def split: if_splits)
  next
    case 3
    then show ?thesis using assms by (auto simp: cell_decode_def read_at_def split: if_splits)
  next
    case 4
    then show ?thesis
    proof (cases "base_of t")
      case None
      then show ?thesis using assms 4
        by (auto simp: cell_decode_def read_at_def dest: scalar_of_bytes_type split: if_splits)
    next
      case (Some b)
      then show ?thesis using assms 4 base_of_base [OF Some]
        by (auto simp: cell_decode_def read_at_def dest: scalar_of_bytes_type
            split: if_splits option.splits)
    qed
  qed
qed

section \<open>Contents and invariant\<close>

definition rows_of :: "table \<Rightarrow> std_value list list" where
  "rows_of t = map (\<lambda>r. map (\<lambda>m. the (m r)) (t_data t)) [0..<t_rows t]"

definition row_size :: "std_value list \<Rightarrow> nat" where
  "row_size vs = sum_list (map value_size vs)"

definition content_size :: "std_value list list \<Rightarrow> nat" where
  "content_size rows = sum_list (map row_size rows)"

definition row_bytes :: "std_value list \<Rightarrow> byte list" where
  "row_bytes vs = concat (map value_bytes vs)"

definition column_ok :: "nat \<Rightarrow> column \<Rightarrow> cells \<Rightarrow> bool" where
  "column_ok n c m \<longleftrightarrow>
     column_supported (col_type c) \<and> dom m = {..<n} \<and>
     (\<forall>v \<in> ran m. value_type v = col_type c \<and> wf_value v)"

definition typed_row :: "table \<Rightarrow> std_value list \<Rightarrow> bool" where
  "typed_row t vs \<longleftrightarrow>
     list_all2 (\<lambda>c v. value_type v = col_type c \<and> wf_value v) (t_columns t) vs"

definition table_inv :: "table \<Rightarrow> bool" where
  "table_inv t \<longleftrightarrow>
     list_all2 (column_ok (t_rows t)) (t_columns t) (t_data t) \<and>
     t_bufferSize t = word_of_nat (8 + content_size (rows_of t))"

lemma length_rows_of [simp]: "length (rows_of t) = t_rows t"
  by (simp add: rows_of_def)

lemma content_size_append [simp]:
  "content_size (xs @ ys) = content_size xs + content_size ys"
  "content_size [] = 0" "content_size [vs] = row_size vs"
  by (simp_all add: content_size_def)

lemma row_size_Cons [simp]: "row_size (v # vs) = value_size v + row_size vs" "row_size [] = 0"
  by (simp_all add: row_size_def)

lemma row_bytes_Cons [simp]: "row_bytes (v # vs) = value_bytes v @ row_bytes vs" "row_bytes [] = []"
  by (simp_all add: row_bytes_def)

lemma table_inv_lengths: "table_inv t \<Longrightarrow> length (t_data t) = length (t_columns t)"
  by (auto simp: table_inv_def dest!: list_all2_lengthD)

lemma column_ok_cell:
  assumes "column_ok n c m" "r < n"
  obtains v where "m r = Some v" "value_type v = col_type c" "wf_value v"
proof -
  have "r \<in> dom m" using assms by (simp add: column_ok_def)
  then obtain v where v: "m r = Some v" by blast
  then have "v \<in> ran m" by (rule ranI)
  with v assms(1) show thesis by (intro that [of v]) (auto simp: column_ok_def)
qed

lemma typed_rows:
  assumes "list_all2 (column_ok n) cs ms" "r < n"
  shows "list_all2 (\<lambda>c v. value_type v = col_type c \<and> wf_value v) cs (map (\<lambda>m. the (m r)) ms)"
  using assms(1)
proof (induction rule: list_all2_induct)
  case Nil
  then show ?case by simp
next
  case (Cons c cs m ms)
  from Cons(1) assms(2) obtain v where "m r = Some v" "value_type v = col_type c" "wf_value v"
    by (rule column_ok_cell)
  with Cons show ?case by simp
qed

lemma rows_of_typed: "table_inv t \<Longrightarrow> vs \<in> set (rows_of t) \<Longrightarrow> typed_row t vs"
  by (auto simp: table_inv_def rows_of_def typed_row_def intro: typed_rows)

text \<open>A new row in the maps.\<close>

definition put_row :: "nat \<Rightarrow> std_value list \<Rightarrow> cells list \<Rightarrow> cells list" where
  "put_row r vs ms = map2 (\<lambda>m v. m(r \<mapsto> v)) ms vs"

lemma put_row_Cons [simp]:
  "put_row r (v # vs) (m # ms) = m(r \<mapsto> v) # put_row r vs ms" "put_row r [] ms = []"
  "put_row r vs [] = []"
  by (simp_all add: put_row_def)

lemma column_ok_put:
  "column_ok r c m \<Longrightarrow> value_type v = col_type c \<Longrightarrow> wf_value v \<Longrightarrow> column_ok (Suc r) c (m(r \<mapsto> v))"
  by (auto simp: column_ok_def ran_def)

lemma columns_ok_put_row:
  assumes "list_all2 (column_ok r) cs ms"
    and "list_all2 (\<lambda>c v. value_type v = col_type c \<and> wf_value v) cs vs"
  shows "list_all2 (column_ok (Suc r)) cs (put_row r vs ms)"
  using assms
proof (induction arbitrary: vs rule: list_all2_induct)
  case Nil
  then show ?case by simp
next
  case (Cons c cs m ms)
  then show ?case by (cases vs) (auto intro: column_ok_put)
qed

lemma rows_put_row:
  assumes "length ms = length vs"
  shows "map (\<lambda>r'. map (\<lambda>m. the (m r')) (put_row r vs ms)) [0..<Suc r]
           = map (\<lambda>r'. map (\<lambda>m. the (m r')) ms) [0..<r] @ [vs]"
proof -
  have "map (\<lambda>m. the (m r)) (put_row r vs ms) = vs"
    using assms by (induction ms vs rule: list_induct2) simp_all
  moreover have "map (\<lambda>m. the (m r')) (put_row r vs ms) = map (\<lambda>m. the (m r')) ms" if "r' < r" for r'
    using assms that by (induction ms vs rule: list_induct2) simp_all
  ultimately show ?thesis by simp
qed

lemma emplace_fresh: "column_ok r c m \<Longrightarrow> emplace m r v = m(r \<mapsto> v)"
  by (auto simp: column_ok_def emplace_def)

text \<open>The table with one more row and its bytes counted.\<close>

lemma table_inv_put_row:
  assumes "table_inv t" "typed_row t vs"
    and "t' = t\<lparr>t_data := put_row (t_rows t) vs (t_data t),
                t_bufferSize := t_bufferSize t + word_of_nat (row_size vs),
                t_rows := Suc (t_rows t)\<rparr>"
  shows "table_inv t' \<and> rows_of t' = rows_of t @ [vs]"
proof -
  have "length (t_data t) = length vs"
    using assms by (auto simp: table_inv_def typed_row_def dest!: list_all2_lengthD)
  then have rows: "rows_of t' = rows_of t @ [vs]"
    unfolding rows_of_def assms(3) by (simp add: rows_put_row del: upt_Suc)
  moreover have "list_all2 (column_ok (t_rows t')) (t_columns t') (t_data t')"
    using assms by (auto simp: table_inv_def typed_row_def intro: columns_ok_put_row)
  ultimately show ?thesis using assms(1,3)
    by (simp add: table_inv_def add.assoc)
qed

section \<open>AddRow, Clear and UpdateCell\<close>

lemma add_cell_typed:
  "column_ok r c m \<Longrightarrow> value_type v = col_type c \<Longrightarrow>
    add_cell (col_type c) r v m sz = (m(r \<mapsto> v), sz + word_of_nat (value_size v))"
  by (cases v) (simp_all add: add_cell_def emplace_fresh)

lemma add_cells_typed:
  assumes "list_all2 (column_ok r) cs ms"
    and "list_all2 (\<lambda>c v. value_type v = col_type c \<and> wf_value v) cs vs"
  shows "add_cells cs r vs ms sz = (put_row r vs ms, sz + word_of_nat (row_size vs))"
  using assms
proof (induction arbitrary: vs sz rule: list_all2_induct)
  case Nil
  then show ?case by simp
next
  case (Cons c cs m ms)
  then show ?case by (cases vs) (auto simp: add_cell_typed add.assoc)
qed

lemma add_row_typed:
  assumes "table_inv t" "typed_row t vs"
  shows "table_inv (add_row vs t) \<and> rows_of (add_row vs t) = rows_of t @ [vs]"
proof (rule table_inv_put_row [OF assms])
  have "length vs = length (t_columns t)"
    using assms(2) by (simp add: typed_row_def list_all2_lengthD)
  then show "add_row vs t = t\<lparr>t_data := put_row (t_rows t) vs (t_data t),
      t_bufferSize := t_bufferSize t + word_of_nat (row_size vs), t_rows := Suc (t_rows t)\<rparr>"
    using assms by (simp add: add_row_def table_inv_def typed_row_def add_cells_typed)
qed

lemma table_clear_inv:
  assumes "table_inv t"
  shows "table_inv (table_clear t) \<and> rows_of (table_clear t) = []"
proof -
  have "list_all2 (column_ok 0) (t_columns t) (map (\<lambda>_. Map.empty) (t_data t))"
    using assms by (auto simp: table_inv_def list_all2_conv_all_nth column_ok_def)
  then show ?thesis by (simp add: table_clear_def table_inv_def rows_of_def)
qed

lemma get_cell_rows:
  assumes "table_inv t" "c < length (t_columns t)" "r < t_rows t"
  shows "get_cell c r t = Some (rows_of t ! r ! c)"
proof -
  have "column_ok (t_rows t) (t_columns t ! c) (t_data t ! c)"
    using assms by (auto simp: table_inv_def list_all2_conv_all_nth)
  then obtain v where "(t_data t ! c) r = Some v"
    using assms(3) by (rule column_ok_cell)
  then show ?thesis using assms table_inv_lengths [OF assms(1)]
    by (simp add: get_cell_def rows_of_def)
qed

text \<open>
  An update keeps the shape of a cell unless it fills or empties an optional: then the code changes
  the buffer size by the wrong amount.
\<close>

fun keeps_shape :: "std_value \<Rightarrow> std_value \<Rightarrow> bool" where
  "keeps_shape (Optional _ o1) (Optional _ o2) \<longleftrightarrow> (o1 = None) = (o2 = None)"
| "keeps_shape _ _ \<longleftrightarrow> True"

lemma optional_of_inj: "optional_base s \<Longrightarrow> optional_base t \<Longrightarrow> optional_of s = optional_of t \<Longrightarrow> s = t"
  by (metis base_of_optional_of option.inject)

lemma wf_optional: "wf_value (Optional t x) \<Longrightarrow> optional_base t"
  by (cases x) auto

lemma update_size_shape:
  assumes "value_type old = value_type v" "wf_value old" "wf_value v" "keeps_shape old v"
  shows "update_size old v sz = sz + (word_of_nat (value_size v) - word_of_nat (value_size old))"
proof (cases v)
  case (Optional t x)
  with assms obtain y where y: "old = Optional t y"
    by (cases old) (auto dest: optional_of_inj wf_optional simp: value_type_distinct)
  with Optional assms show ?thesis
    by (cases x; cases y) (auto simp: update_size_def)
next
  case (Scalar s)
  with assms show ?thesis by (cases old) (auto simp: update_size_def value_type_distinct)
next
  case (Str s)
  with assms show ?thesis by (cases old) (auto simp: update_size_def value_type_distinct)
next
  case (TimerV x)
  with assms show ?thesis by (cases old) (auto simp: update_size_def value_type_distinct)
next
  case (DurationV x)
  with assms show ?thesis by (cases old) (auto simp: update_size_def value_type_distinct)
qed

lemma sum_list_update_nat:
  "i < length xs \<Longrightarrow> sum_list (xs[i := x]) + xs ! i = sum_list xs + (x :: nat)"
proof (induction xs arbitrary: i)
  case (Cons y ys)
  then show ?case by (cases i) fastforce+
qed simp

lemma row_size_update:
  "c < length vs \<Longrightarrow> row_size (vs[c := v]) + value_size (vs ! c) = row_size vs + value_size v"
  using sum_list_update_nat [of c "map value_size vs" "value_size v"]
  by (simp add: row_size_def map_update)

lemma content_size_update:
  assumes "r < length rows" "c < length (rows ! r)"
  shows "content_size (rows[r := (rows ! r)[c := v]]) + value_size (rows ! r ! c)
           = content_size rows + value_size v"
  using sum_list_update_nat [of r "map row_size rows" "row_size ((rows ! r)[c := v])"]
    row_size_update [OF assms(2), of v] assms(1)
  by (simp add: content_size_def map_update)

text \<open>The contents and the cells after an update of an existing cell.\<close>

definition put_cell :: "nat \<Rightarrow> nat \<Rightarrow> std_value \<Rightarrow> table \<Rightarrow> std_value list list" where
  "put_cell c r v t = (rows_of t)[r := (rows_of t ! r)[c := v]]"

lemma column_at:
  assumes "table_inv t" "c < length (t_columns t)"
  shows "column_ok (t_rows t) (t_columns t ! c) (t_data t ! c)" "c < length (t_data t)"
  using assms by (auto simp: table_inv_def list_all2_conv_all_nth)

lemma update_cell_existing:
  assumes inv: "table_inv t" and c: "c < length (t_columns t)" and r: "r < t_rows t"
    and v: "value_type v = col_type (t_columns t ! c)" "wf_value v"
  defines "old \<equiv> rows_of t ! r ! c"
  shows "value_type old = value_type v \<and> wf_value old"
    and "rows_of (update_cell c r v t) = put_cell c r v t"
    and "list_all2 (column_ok (t_rows (update_cell c r v t))) (t_columns (update_cell c r v t))
           (t_data (update_cell c r v t))"
    and "t_bufferSize (update_cell c r v t) = update_size old v (t_bufferSize t)"
    and "t_rows (update_cell c r v t) = t_rows t"
proof -
  note col = column_at [OF inv c]
  obtain w where w: "(t_data t ! c) r = Some w" "value_type w = col_type (t_columns t ! c)" "wf_value w"
    using col(1) r by (rule column_ok_cell)
  have old: "old = w" using w r col(2) by (simp add: old_def rows_of_def)
  have upd: "update_cell c r v t =
      t\<lparr>t_bufferSize := update_size w v (t_bufferSize t),
        t_data := (t_data t)[c := (t_data t ! c)(r \<mapsto> v)]\<rparr>"
    using c v w by (simp add: update_cell_def)
  show "value_type old = value_type v \<and> wf_value old" using old w v by simp
  show "t_bufferSize (update_cell c r v t) = update_size old v (t_bufferSize t)"
    "t_rows (update_cell c r v t) = t_rows t"
    by (simp_all add: upd old)
  have "column_ok (t_rows t) (t_columns t ! c) ((t_data t ! c)(r \<mapsto> v))"
    using col(1) r v by (auto simp: column_ok_def ran_def)
  with inv have "list_all2 (column_ok (t_rows t)) ((t_columns t)[c := t_columns t ! c])
      ((t_data t)[c := (t_data t ! c)(r \<mapsto> v)])"
    by (intro list_all2_update_cong) (simp_all add: table_inv_def)
  then show "list_all2 (column_ok (t_rows (update_cell c r v t))) (t_columns (update_cell c r v t))
      (t_data (update_cell c r v t))"
    using inv by (auto simp: upd table_inv_def list_all2_conv_all_nth nth_list_update)
  show "rows_of (update_cell c r v t) = put_cell c r v t"
  proof (rule nth_equalityI)
    fix i assume "i < length (rows_of (update_cell c r v t))"
    then have "i < t_rows t" by (simp add: upd)
    then show "rows_of (update_cell c r v t) ! i = put_cell c r v t ! i"
      using col(2) by (auto simp: upd rows_of_def put_cell_def map_update nth_list_update
          intro!: nth_equalityI)
  qed (simp add: upd put_cell_def)
qed

lemma put_cell_size:
  assumes "table_inv t" "c < length (t_columns t)" "r < t_rows t"
  shows "content_size (put_cell c r v t) + value_size (rows_of t ! r ! c)
           = content_size (rows_of t) + value_size v"
  unfolding put_cell_def
  by (rule content_size_update) (use assms table_inv_lengths [OF assms(1)] in \<open>simp_all add: rows_of_def\<close>)

lemma update_cell_inv:
  assumes "table_inv t" "c < length (t_columns t)" "r < t_rows t"
    and "value_type v = col_type (t_columns t ! c)" "wf_value v"
    and "keeps_shape (rows_of t ! r ! c) v"
  shows "table_inv (update_cell c r v t)"
proof -
  note u = update_cell_existing [OF assms(1-5)]
  let ?old = "rows_of t ! r ! c"
  have "(word_of_nat (content_size (put_cell c r v t)) :: u64)
      = word_of_nat (content_size (rows_of t)) + (word_of_nat (value_size v) - word_of_nat (value_size ?old))"
    using arg_cong [OF put_cell_size [OF assms(1-3), of v], of "word_of_nat :: nat \<Rightarrow> u64"]
    by (simp add: algebra_simps)
  moreover have "update_size ?old v (t_bufferSize t)
      = t_bufferSize t + (word_of_nat (value_size v) - word_of_nat (value_size ?old))"
    by (rule update_size_shape) (use u(1) assms in auto)
  ultimately show ?thesis
    using u assms(1) by (simp add: table_inv_def add.assoc)
qed

lemma update_cell_skipped:
  "c < length (t_columns t) \<longrightarrow> value_type v \<noteq> col_type (t_columns t ! c) \<or> (t_data t ! c) r = None \<Longrightarrow>
    update_cell c r v t = t"
  by (auto simp: update_cell_def split: option.splits)

section \<open>Encode\<close>

lemma write_at_spec:
  assumes "off = length pre"
  shows "write_at (pre @ rest) off bs =
    (if length bs \<le> length rest then Some (pre @ bs @ drop (length bs) rest) else None)"
  using assms by (simp add: write_at_def)

definition row_ok :: "nat \<Rightarrow> cells list \<Rightarrow> bool" where
  "row_ok r ms \<longleftrightarrow> (\<forall>m \<in> set ms. \<exists>v. m r = Some v \<and> wf_value v)"

lemma encode_row_spec:
  assumes "row_ok r ms"
  shows "encode_row r ms (pre @ rest, length pre) =
    (let bs = row_bytes (map (\<lambda>m. the (m r)) ms) in
     if length bs \<le> length rest
     then Some (pre @ bs @ drop (length bs) rest, length pre + length bs) else None)"
  using assms
proof (induction ms arbitrary: pre rest)
  case Nil
  then show ?case by simp
next
  case (Cons m ms)
  then obtain v where v: "m r = Some v" "wf_value v" and ms: "row_ok r ms"
    by (auto simp: row_ok_def)
  show ?case
  proof (cases "value_size v \<le> length rest")
    case True
    then have "encode_row r (m # ms) (pre @ rest, length pre) =
        encode_row r ms ((pre @ value_bytes v) @ drop (value_size v) rest, length (pre @ value_bytes v))"
      using v by (simp add: encode_cell_def write_at_spec)
    also note Cons.IH [OF ms]
    finally show ?thesis using v True
      by (auto simp: Let_def add.assoc add.commute)
  next
    case False
    then show ?thesis using v by (simp add: encode_cell_def write_at_spec Let_def)
  qed
qed

lemma encode_rows_spec:
  assumes "\<forall>r \<in> set rs. row_ok r ms"
  shows "encode_rows rs ms (pre @ rest, length pre) =
    (let bs = concat (map (\<lambda>r. row_bytes (map (\<lambda>m. the (m r)) ms)) rs) in
     if length bs \<le> length rest
     then Some (pre @ bs @ drop (length bs) rest, length pre + length bs) else None)"
  using assms
proof (induction rs arbitrary: pre rest)
  case Nil
  then show ?case by simp
next
  case (Cons r rs)
  let ?b = "row_bytes (map (\<lambda>m. the (m r)) ms)"
  have row: "encode_row r ms (pre @ rest, length pre) =
     (if length ?b \<le> length rest
      then Some ((pre @ ?b) @ drop (length ?b) rest, length (pre @ ?b)) else None)"
    using encode_row_spec [of r ms pre rest] Cons.prems by (simp add: Let_def)
  show ?case
  proof (cases "length ?b \<le> length rest")
    case True
    then have "encode_rows (r # rs) ms (pre @ rest, length pre) =
        encode_rows rs ms ((pre @ ?b) @ drop (length ?b) rest, length (pre @ ?b))"
      by (simp only: encode_rows.simps row if_True option.case)
    also have "\<dots> = (let bs = concat (map (\<lambda>r. row_bytes (map (\<lambda>m. the (m r)) ms)) rs) in
        if length bs \<le> length (drop (length ?b) rest)
        then Some ((pre @ ?b) @ bs @ drop (length bs) (drop (length ?b) rest),
          length (pre @ ?b) + length bs) else None)"
      by (rule Cons.IH) (use Cons.prems in simp)
    finally show ?thesis using True
      by (auto simp: Let_def add.assoc add.commute)
  next
    case False
    then show ?thesis using row by (simp add: Let_def)
  qed
qed

text \<open>The bytes of the rows, and their number.\<close>

definition payload :: "std_value list list \<Rightarrow> byte list" where
  "payload rows = concat (map row_bytes rows)"

lemma length_row_bytes: "\<forall>v \<in> set vs. wf_value v \<Longrightarrow> length (row_bytes vs) = row_size vs"
  by (induction vs) simp_all

lemma length_payload:
  "\<forall>vs \<in> set rows. \<forall>v \<in> set vs. wf_value v \<Longrightarrow> length (payload rows) = content_size rows"
  by (induction rows) (simp_all add: payload_def content_size_def length_row_bytes)

definition columns_ok :: "table \<Rightarrow> bool" where
  "columns_ok t \<longleftrightarrow> list_all2 (column_ok (t_rows t)) (t_columns t) (t_data t)"

lemma columns_ok_row:
  assumes "columns_ok t" "r < t_rows t"
  shows "row_ok r (t_data t)"
  unfolding row_ok_def
proof
  fix m assume "m \<in> set (t_data t)"
  then obtain c where "column_ok (t_rows t) c m"
    using assms(1) by (auto simp: columns_ok_def list_all2_conv_all_nth in_set_conv_nth)
  then show "\<exists>v. m r = Some v \<and> wf_value v"
    using assms(2) by (metis column_ok_cell)
qed

lemma columns_ok_length:
  assumes "columns_ok t"
  shows "length (payload (rows_of t)) = content_size (rows_of t)"
proof (rule length_payload)
  show "\<forall>vs \<in> set (rows_of t). \<forall>v \<in> set vs. wf_value v"
    using columns_ok_row [OF assms] by (fastforce simp: rows_of_def row_ok_def)
qed

text \<open>What \<open>Encode\<close> gives for every buffer size the table may hold.\<close>

lemma table_encode_any_size:
  assumes "columns_ok t" "t_rows t \<noteq> 0" "8 \<le> sz" "sz = unat (t_bufferSize t)"
    and "malloc sz = Some buf" "length buf = sz"
  shows "table_encode malloc t =
    (if sz < 8 + content_size (rows_of t) then EncOverflow
     else if sz = 8 + content_size (rows_of t)
     then EncBuffer (size_bytes sz @ payload (rows_of t))
     else EncBuffer (size_bytes sz @ replicate (sz - 8) 0))"
proof -
  let ?p = "payload (rows_of t)"
  have len: "length ?p = content_size (rows_of t)" by (rule columns_ok_length [OF assms(1)])
  have head: "write_at buf 0 (size_bytes sz) = Some (size_bytes sz @ drop 8 buf)"
    using assms(3,6) by (simp add: write_at_def)
  have "encode_rows [0..<t_rows t] (t_data t) (size_bytes sz @ drop 8 buf, length (size_bytes sz)) =
      (if length ?p \<le> length (drop 8 buf)
       then Some (size_bytes sz @ ?p @ drop (length ?p) (drop 8 buf), length (size_bytes sz) + length ?p)
       else None)"
    using encode_rows_spec [of "[0..<t_rows t]" "t_data t" "size_bytes sz" "drop 8 buf"]
      columns_ok_row [OF assms(1)]
    by (simp add: Let_def payload_def rows_of_def comp_def)
  then have rows: "encode_rows [0..<t_rows t] (t_data t) (size_bytes sz @ drop 8 buf, 8) =
      (if content_size (rows_of t) + 8 \<le> sz
       then Some (size_bytes sz @ ?p @ drop (content_size (rows_of t) + 8) buf,
          8 + content_size (rows_of t))
       else None)"
    using assms(6) len assms(3) by (auto simp: add.commute)
  have zero: "write_at (replicate sz 0) 0 (size_bytes sz) = Some (size_bytes sz @ replicate (sz - 8) 0)"
    using assms(3) by (simp add: write_at_def)
  from assms(3) have "sz \<noteq> 0" by simp
  with head rows zero show ?thesis
    using assms(2,5,6) unfolding table_encode_def
    by (simp add: Let_def assms(4) [symmetric])
qed

section \<open>Copy\<close>

definition typed_cells :: "column list \<Rightarrow> std_value list \<Rightarrow> bool" where
  "typed_cells cs vs \<longleftrightarrow> list_all2 (\<lambda>c v. value_type v = col_type c \<and> wf_value v) cs vs"

lemma typed_cells_Cons [simp]:
  "typed_cells (c # cs) (v # vs) \<longleftrightarrow> value_type v = col_type c \<and> wf_value v \<and> typed_cells cs vs"
  "typed_cells [] []"
  by (auto simp: typed_cells_def)

lemma typed_row_cells: "typed_row t = typed_cells (t_columns t)"
  by (rule ext) (simp add: typed_row_def typed_cells_def)

lemma copy_row_supported:
  "list_all2 (column_ok r) cs ms \<Longrightarrow> copy_row cs ms buf r off \<noteq> RowStop ms'"
proof (induction arbitrary: off ms' rule: list_all2_induct)
  case (Cons c cs m ms)
  then show ?case by (auto simp: column_ok_def split: option.splits row_result.splits)
qed simp

lemma copy_row_sound:
  assumes "list_all2 (column_ok r) cs ms" "copy_row cs ms buf r off = RowDone ms' off'"
  shows "\<exists>vs. typed_cells cs vs \<and> ms' = put_row r vs ms \<and> off' = off + row_size vs \<and>
    (cs \<noteq> [] \<longrightarrow> off < off' \<and> off' \<le> length buf)"
  using assms
proof (induction arbitrary: off ms' rule: list_all2_induct)
  case Nil
  then show ?case by (intro exI [of _ "[]"]) simp
next
  case (Cons c cs m ms)
  then obtain v off1 ms1 where
    v: "cell_decode (col_type c) buf off = Some (v, off1)"
    and rest: "copy_row cs ms buf r off1 = RowDone ms1 off'" "ms' = emplace m r v # ms1"
    by (auto split: if_splits option.splits row_result.splits)
  from Cons.IH [OF rest(1)] obtain vs where vs:
    "typed_cells cs vs" "ms1 = put_row r vs ms" "off' = off1 + row_size vs"
    "cs \<noteq> [] \<longrightarrow> off1 < off' \<and> off' \<le> length buf" by blast
  from cell_decode_sound [OF v] value_size_pos [of v]
  have v': "value_type v = col_type c" "wf_value v" "off1 = off + value_size v" "off1 \<le> length buf"
    "0 < value_size v" by auto
  show ?case
    by (rule exI [of _ "v # vs"])
      (use vs v' rest Cons.hyps in \<open>auto simp: emplace_fresh typed_cells_def\<close>)
qed

lemma copy_row_decoded:
  assumes "list_all2 (column_ok r) cs ms"
    and "cells.dec_seq (map col_type cs) buf off = Some (vs, off')"
  shows "copy_row cs ms buf r off = RowDone (put_row r vs ms) off'"
  using assms
proof (induction arbitrary: off vs rule: list_all2_induct)
  case (Cons c cs m ms)
  then show ?case
    by (auto simp: emplace_fresh [OF Cons.hyps(1)] column_ok_def [of r c] split: option.splits)
qed simp

lemma copy_row_bytes:
  assumes "columns_ok t" "typed_row t vs"
  shows "copy_row (t_columns t) (t_data t) (pre @ row_bytes vs @ post) (t_rows t) (length pre)
           = RowDone (put_row (t_rows t) vs (t_data t)) (length pre + row_size vs)"
proof -
  have "list_all2 (\<lambda>t v. value_type v = t \<and> wf_value v) (map col_type (t_columns t)) vs"
    using assms(2) by (simp add: typed_row_def list_all2_map1)
  then have "cells.dec_seq (map col_type (t_columns t)) (pre @ row_bytes vs @ post) (length pre)
      = Some (vs, length pre + length (row_bytes vs))"
    unfolding row_bytes_def by (rule cells.dec_seq_enc)
  moreover have "length (row_bytes vs) = row_size vs"
    using assms(2) by (intro length_row_bytes) (auto simp: typed_row_def list_all2_conv_all_nth in_set_conv_nth)
  ultimately show ?thesis
    using assms(1) by (simp add: columns_ok_def copy_row_decoded)
qed

text \<open>A row read by \<open>Copy\<close> is a row of the contents; the size is counted at the end.\<close>

definition with_row :: "std_value list \<Rightarrow> table \<Rightarrow> table" where
  "with_row vs t = t\<lparr>t_data := put_row (t_rows t) vs (t_data t), t_rows := Suc (t_rows t)\<rparr>"

lemma with_row_facts:
  assumes "columns_ok t" "typed_row t vs"
  shows "columns_ok (with_row vs t)" "rows_of (with_row vs t) = rows_of t @ [vs]"
    "t_columns (with_row vs t) = t_columns t" "t_bufferSize (with_row vs t) = t_bufferSize t"
    "t_rows (with_row vs t) = Suc (t_rows t)"
proof -
  have "length (t_data t) = length vs"
    using assms by (auto simp: columns_ok_def typed_row_def dest!: list_all2_lengthD)
  then show "rows_of (with_row vs t) = rows_of t @ [vs]"
    by (simp add: rows_of_def with_row_def rows_put_row del: upt_Suc)
  show "columns_ok (with_row vs t)"
    using assms by (simp add: columns_ok_def with_row_def typed_row_def columns_ok_put_row)
qed (simp_all add: with_row_def)

lemma table_inv_columns_ok:
  "table_inv t \<longleftrightarrow> columns_ok t \<and> t_bufferSize t = word_of_nat (8 + content_size (rows_of t))"
  by (simp add: table_inv_def columns_ok_def)

text \<open>The bytes before the offset are those of the rows the table already has.\<close>

lemmas copy_rows_induct = copy_rows.raw_induct [rotated, consumes 1, case_names step]

lemma copy_rows_sound:
  assumes "copy_rows buf sz off t = Some res"
    and "columns_ok t" "off = 8 + content_size (rows_of t)" "t_bufferSize t = 8"
  shows "res = CopyOob \<or> (\<exists>t'. res = Copied t' \<and> table_inv t' \<and> t_columns t' = t_columns t)"
  using assms
proof (induction rule: copy_rows_induct)
  case (step rec buf sz off t res)
  show ?case
  proof (cases "off < sz")
    case False
    with step.hyps have "res = Copied (t\<lparr>t_bufferSize := t_bufferSize t + word_of_nat (off - 8)\<rparr>)"
      by simp
    with step.prems show ?thesis
      by (simp add: table_inv_columns_ok columns_ok_def rows_of_def)
  next
    case True
    show ?thesis
    proof (cases "copy_row (t_columns t) (t_data t) buf (t_rows t) off")
      case RowOob
      with step.hyps True show ?thesis by simp
    next
      case (RowStop ms)
      with copy_row_supported step.prems(1) show ?thesis by (auto simp: columns_ok_def)
    next
      case (RowDone ms off')
      from copy_row_sound [OF _ RowDone] step.prems(1) obtain vs where vs:
        "typed_row t vs" "ms = put_row (t_rows t) vs (t_data t)" "off' = off + row_size vs"
        unfolding columns_ok_def typed_row_cells by blast
      note row = with_row_facts [OF step.prems(1) vs(1)]
      have "rec buf sz off' (with_row vs t) = Some res"
        using step.hyps True RowDone vs(2) by (simp add: with_row_def)
      from step.IH [OF this] row vs(3) step.prems(2,3) show ?thesis by auto
    qed
  qed
qed

lemma copy_rows_payload:
  assumes "columns_ok t" "t_columns t \<noteq> []" "\<forall>vs \<in> set rows. typed_row t vs"
    and "off = length pre" "sz = length pre + content_size rows"
  shows "\<exists>t'. copy_rows (pre @ payload rows @ post) sz off t = Some (Copied t') \<and>
    rows_of t' = rows_of t @ rows \<and> columns_ok t' \<and> t_columns t' = t_columns t \<and>
    t_bufferSize t' = t_bufferSize t + word_of_nat (sz - 8)"
  using assms
proof (induction rows arbitrary: t pre off)
  case Nil
  then show ?case
    by (subst copy_rows.simps)
      (simp add: payload_def content_size_def rows_of_def columns_ok_def)
next
  case (Cons vs rows)
  then have vs: "typed_row t vs" by simp
  note row = with_row_facts [OF Cons.prems(1) vs]
  have wf: "\<forall>v \<in> set vs. wf_value v"
    using vs by (auto simp: typed_row_def list_all2_conv_all_nth in_set_conv_nth)
  have size: "length (row_bytes vs) = row_size vs"
    using wf by (rule length_row_bytes)
  obtain v vs' where "vs = v # vs'"
    using vs Cons.prems(2) by (cases vs) (auto simp: typed_row_def)
  then have pos: "0 < row_size vs"
    using wf value_size_pos [of v] by simp
  have content: "content_size (vs # rows) = row_size vs + content_size rows"
    by (simp add: content_size_def)
  have buf: "pre @ payload (vs # rows) @ post = pre @ row_bytes vs @ (payload rows @ post)"
    by (simp add: payload_def)
  have "copy_rows (pre @ payload (vs # rows) @ post) sz off t =
      copy_rows ((pre @ row_bytes vs) @ payload rows @ post) sz (length (pre @ row_bytes vs)) (with_row vs t)"
    using copy_row_bytes [OF Cons.prems(1) vs, of pre "payload rows @ post"] Cons.prems(4,5) pos content
    by (subst copy_rows.simps) (simp add: buf size with_row_def)
  moreover have "\<exists>t'. copy_rows ((pre @ row_bytes vs) @ payload rows @ post) sz
        (length (pre @ row_bytes vs)) (with_row vs t) = Some (Copied t') \<and>
      rows_of t' = rows_of (with_row vs t) @ rows \<and> columns_ok t' \<and>
      t_columns t' = t_columns (with_row vs t) \<and>
      t_bufferSize t' = t_bufferSize (with_row vs t) + word_of_nat (sz - 8)"
    by (rule Cons.IH)
      (use row Cons.prems content size in \<open>simp_all add: typed_row_def\<close>)
  ultimately show ?case using row by simp
qed

lemma copy_rows_ends:
  assumes "columns_ok t" "t_columns t \<noteq> []"
  shows "copy_rows buf sz off t \<noteq> None"
  using assms
proof (induction "length buf - off" arbitrary: t off rule: less_induct)
  case less
  show ?case
  proof (cases "off < sz")
    case False
    then show ?thesis by (subst copy_rows.simps) simp
  next
    case True
    show ?thesis
    proof (cases "copy_row (t_columns t) (t_data t) buf (t_rows t) off")
      case (RowDone ms off')
      from copy_row_sound [OF _ RowDone] less.prems obtain vs where vs:
        "typed_row t vs" "ms = put_row (t_rows t) vs (t_data t)" "off < off'" "off' \<le> length buf"
        unfolding columns_ok_def typed_row_cells by blast
      have "copy_rows buf sz off' (with_row vs t) \<noteq> None"
        by (rule less.hyps) (use vs with_row_facts [OF less.prems(1) vs(1)] less.prems in auto)
      then show ?thesis using True RowDone vs(2)
        by (subst copy_rows.simps) (simp add: with_row_def)
    qed (use True in \<open>subst copy_rows.simps, simp\<close>)+
  qed
qed

lemma copy_rows_no_columns:
  assumes "off < sz" "t_columns t = []"
  shows "copy_rows buf sz off t = None"
proof -
  have "t_columns t = [] \<longrightarrow> \<not> off < sz" if "copy_rows buf sz off t = Some res" for res
    using that by (induction rule: copy_rows_induct) (auto split: if_splits)
  with assms show ?thesis by (cases "copy_rows buf sz off t") auto
qed

lemma table_clear_facts:
  assumes "columns_ok t"
  shows "columns_ok (table_clear t) \<and> rows_of (table_clear t) = [] \<and>
    t_bufferSize (table_clear t) = 8 \<and> t_columns (table_clear t) = t_columns t"
  using assms
  by (auto simp: columns_ok_def table_clear_def rows_of_def list_all2_conv_all_nth column_ok_def)

lemma copy_start:
  assumes "table_inv t"
  defines "t' \<equiv> (if t_rows t \<noteq> 0 then table_clear t else t)"
  shows "columns_ok t' \<and> rows_of t' = [] \<and> t_bufferSize t' = 8 \<and> t_columns t' = t_columns t"
proof (cases "t_rows t = 0")
  case True
  then have "rows_of t = []" by (simp add: rows_of_def)
  with True assms show ?thesis by (simp add: table_inv_columns_ok)
next
  case False
  with assms table_clear_facts [of t] show ?thesis by (simp add: table_inv_columns_ok)
qed

lemma table_copy_sound:
  assumes "table_inv t" "table_copy buf t = Some res"
  shows "res = CopyOob \<or> (\<exists>t'. res = Copied t' \<and> table_inv t' \<and> t_columns t' = t_columns t)"
proof (cases "read_size buf 0")
  case None
  with assms(2) show ?thesis by (simp add: table_copy_def Let_def)
next
  case (Some sz)
  let ?t = "if t_rows t \<noteq> 0 then table_clear t else t"
  have "copy_rows buf sz 8 ?t = Some res"
    using assms(2) Some by (simp add: table_copy_def Let_def)
  then have "res = CopyOob \<or> (\<exists>t'. res = Copied t' \<and> table_inv t' \<and> t_columns t' = t_columns ?t)"
    by (rule copy_rows_sound) (use copy_start [OF assms(1)] in simp_all)
  then show ?thesis using copy_start [OF assms(1)] by simp
qed

section \<open>Reachable tables\<close>

lemma list_all2_zip_ids:
  "length ids = length types \<Longrightarrow> \<forall>ty \<in> set types. column_supported ty \<Longrightarrow>
    list_all2 (column_ok 0)
      (map (\<lambda>(i, ty). \<lparr>col_id = i, col_type = ty, col_metadata = []\<rparr>) (zip ids types))
      (map (\<lambda>_. Map.empty) types)"
  by (induction ids types rule: list_induct2) (auto simp: column_ok_def)

lemma add_columns_inv:
  "length ids = length types \<Longrightarrow> \<forall>ty \<in> set types. column_supported ty \<Longrightarrow>
    table_inv (add_columns types ids empty_table)"
  by (simp add: table_inv_columns_ok columns_ok_def add_columns_def empty_table_def
      list_all2_zip_ids rows_of_def)

lemma empty_table_inv: "table_inv empty_table"
  by (simp add: table_inv_columns_ok columns_ok_def empty_table_def rows_of_def)

text \<open>
  The operations a program performs on a table: the type checks of the templates (the cells of an
  added row are of the column types) are the premise of the row step. The update step excludes the
  updates that fill or empty an optional.
\<close>

inductive table_step :: "table \<Rightarrow> table \<Rightarrow> bool" where
  row: "typed_row t vs \<Longrightarrow> table_step t (add_row vs t)"
| row_rejected: "length vs \<noteq> length (t_columns t) \<Longrightarrow> table_step t (add_row vs t)"
| update: "wf_value v \<Longrightarrow> (\<And>old. get_cell c r t = Some old \<Longrightarrow> keeps_shape old v) \<Longrightarrow>
    table_step t (update_cell c r v t)"
| clear: "table_step t (table_clear t)"
| copy: "table_copy buf t = Some (Copied t') \<Longrightarrow> table_step t t'"

inductive table_reachable :: "table \<Rightarrow> bool" where
  default: "\<forall>ty \<in> set types. column_supported ty \<Longrightarrow> table_reachable (table_default types)"
| ids: "\<forall>ty \<in> set types. column_supported ty \<Longrightarrow> table_reachable (table_with_ids types ids)"
| step: "table_reachable t \<Longrightarrow> table_step t t' \<Longrightarrow> table_reachable t'"

lemma add_row_rejected: "length vs \<noteq> length (t_columns t) \<Longrightarrow> add_row vs t = t"
  by (simp add: add_row_def)

lemma update_step_inv:
  assumes "table_inv t" "wf_value v" "\<And>old. get_cell c r t = Some old \<Longrightarrow> keeps_shape old v"
  shows "table_inv (update_cell c r v t)"
proof (cases "c < length (t_columns t) \<and> value_type v = col_type (t_columns t ! c) \<and> r < t_rows t")
  case True
  then have "keeps_shape (rows_of t ! r ! c) v"
    using get_cell_rows [OF assms(1)] assms(3) by blast
  with True show ?thesis using assms update_cell_inv by blast
next
  case False
  have "(t_data t ! c) r = None" if "c < length (t_columns t)" "\<not> r < t_rows t"
    using column_at [OF assms(1) that(1)] that(2) by (auto simp: column_ok_def)
  with False have "update_cell c r v t = t" by (intro update_cell_skipped) auto
  with assms show ?thesis by simp
qed

lemma table_step_inv: "table_step t t' \<Longrightarrow> table_inv t \<Longrightarrow> table_inv t'"
proof (induction rule: table_step.induct)
  case (row t vs)
  then show ?case using add_row_typed by blast
next
  case (row_rejected vs t)
  then show ?case by (simp add: add_row_rejected)
next
  case (update v c r t)
  then show ?case using update_step_inv by blast
next
  case (clear t)
  then show ?case using table_clear_inv by blast
next
  case (copy buf t t')
  then show ?case using table_copy_sound by blast
qed

lemma table_default_inv:
  "\<forall>ty \<in> set types. column_supported ty \<Longrightarrow> table_inv (table_default types)"
  by (simp add: table_default_def add_columns_inv)

lemma table_with_ids_inv:
  "\<forall>ty \<in> set types. column_supported ty \<Longrightarrow> table_inv (table_with_ids types ids)"
  by (simp add: table_with_ids_def add_columns_inv empty_table_inv)

lemma reachable_inv: "table_reachable t \<Longrightarrow> table_inv t"
  by (induction rule: table_reachable.induct)
    (auto intro: table_default_inv table_with_ids_inv table_step_inv)

text \<open>A block of memory as \<open>malloc\<close> gives it.\<close>

definition malloc_ok :: "(nat \<Rightarrow> byte list option) \<Rightarrow> bool" where
  "malloc_ok malloc \<longleftrightarrow> (\<forall>n buf. malloc n = Some buf \<longrightarrow> length buf = n)"

definition zero_malloc :: "nat \<Rightarrow> byte list option" where
  "zero_malloc n = Some (replicate n 0)"

lemma zero_malloc_ok: "malloc_ok zero_malloc"
  by (simp add: malloc_ok_def zero_malloc_def)

lemma buffer_size_nat:
  assumes "table_inv t" "8 + content_size (rows_of t) < size_t_bound"
  shows "unat (t_bufferSize t) = 8 + content_size (rows_of t)"
proof -
  have "unat (t_bufferSize t) = (8 + content_size (rows_of t)) mod size_t_bound"
    using assms(1) by (simp only: table_inv_columns_ok unat_of_nat len_of_numeral_defs) simp
  with assms(2) show ?thesis by simp
qed

lemma encode_inv:
  assumes "table_inv t" "malloc_ok malloc" "8 + content_size (rows_of t) < size_t_bound"
    and "malloc (8 + content_size (rows_of t)) = Some buf"
  shows "table_encode malloc t =
    EncBuffer (size_bytes (8 + content_size (rows_of t)) @ payload (rows_of t))"
proof -
  have sz: "unat (t_bufferSize t) = 8 + content_size (rows_of t)"
    using assms(1,3) by (rule buffer_size_nat)
  have len: "length buf = 8 + content_size (rows_of t)"
    using assms(2,4) by (simp add: malloc_ok_def)
  show ?thesis
  proof (cases "t_rows t = 0")
    case True
    then have "rows_of t = []" by (simp add: rows_of_def)
    then show ?thesis using sz len assms(4) True
      by (simp add: table_encode_def Let_def write_at_def payload_def)
  next
    case False
    let ?n = "8 + content_size (rows_of t)"
    have "table_encode malloc t =
        (if ?n < ?n then EncOverflow
         else if ?n = ?n then EncBuffer (size_bytes ?n @ payload (rows_of t))
         else EncBuffer (size_bytes ?n @ replicate (?n - 8) 0))"
      by (rule table_encode_any_size)
        (use False sz len assms(1,4) in \<open>simp_all add: table_inv_columns_ok\<close>)
    then show ?thesis by simp
  qed
qed

lemma copy_encoded:
  assumes "table_inv t" "t_columns t \<noteq> []" "\<forall>vs \<in> set rows. typed_row t vs"
    and "8 + content_size rows < size_t_bound"
  shows "\<exists>t'. table_copy (size_bytes (8 + content_size rows) @ payload rows @ post) t = Some (Copied t') \<and>
    rows_of t' = rows \<and> table_inv t' \<and> t_columns t' = t_columns t"
proof -
  let ?buf = "size_bytes (8 + content_size rows) @ payload rows @ post"
  let ?t = "if t_rows t \<noteq> 0 then table_clear t else t"
  note start = copy_start [OF assms(1)]
  have "read_size ([] @ ?buf) 0 = Some (8 + content_size rows)"
    by (rule read_size_append) (use assms(4) in simp_all)
  then have "table_copy ?buf t = copy_rows ?buf (8 + content_size rows) 8 ?t"
    by (simp add: table_copy_def Let_def)
  moreover obtain t' where "copy_rows ?buf (8 + content_size rows) 8 ?t = Some (Copied t')"
    and "rows_of t' = rows_of ?t @ rows" "columns_ok t'" "t_columns t' = t_columns ?t"
    and "t_bufferSize t' = t_bufferSize ?t + word_of_nat (8 + content_size rows - 8)"
    using copy_rows_payload [of ?t rows 8 "size_bytes (8 + content_size rows)"] start assms(2,3)
    by (force simp: typed_row_def)
  ultimately show ?thesis using start
    by (intro exI [of _ t']) (simp add: table_inv_columns_ok)
qed

section \<open>Properties of tables\<close>

text \<open>
  The whole history of a table, with every \<open>UpdateCell\<close>: \<open>k\<close> is what the updates that fill or empty an
  optional have added to the buffer size beside the change of the encoding, since the table was
  empty last. \<open>UpdateCell\<close> counts \<open>sizeof(std::optional<T>)\<close>, twice the scalar, for the scalar.
\<close>

definition optional_drift :: "std_value \<Rightarrow> std_value \<Rightarrow> u64" where
  "optional_drift old v =
     (case (old, v) of
        (Optional b None, Optional _ (Some _)) \<Rightarrow> word_of_nat (scalar_size b)
      | (Optional b (Some _), Optional _ None) \<Rightarrow> - word_of_nat (scalar_size b)
      | _ \<Rightarrow> 0)"

definition update_drift :: "nat \<Rightarrow> nat \<Rightarrow> std_value \<Rightarrow> table \<Rightarrow> u64" where
  "update_drift c r v t =
     (case get_cell c r t of
        None \<Rightarrow> 0
      | Some old \<Rightarrow> if value_type v = col_type (t_columns t ! c) then optional_drift old v else 0)"

inductive table_history :: "table \<Rightarrow> u64 \<Rightarrow> bool" where
  default: "\<forall>ty \<in> set types. column_supported ty \<Longrightarrow> table_history (table_default types) 0"
| ids: "\<forall>ty \<in> set types. column_supported ty \<Longrightarrow> table_history (table_with_ids types ids) 0"
| row: "table_history t k \<Longrightarrow> typed_row t vs \<Longrightarrow> table_history (add_row vs t) k"
| row_rejected: "table_history t k \<Longrightarrow> length vs \<noteq> length (t_columns t) \<Longrightarrow> table_history (add_row vs t) k"
| update: "table_history t k \<Longrightarrow> wf_value v \<Longrightarrow> table_history (update_cell c r v t) (k + update_drift c r v t)"
| clear: "table_history t k \<Longrightarrow> table_history (table_clear t) 0"
| copy: "table_history t k \<Longrightarrow> table_copy buf t = Some (Copied t') \<Longrightarrow> table_history t' 0"

definition drifted :: "u64 \<Rightarrow> table \<Rightarrow> bool" where
  "drifted k t \<longleftrightarrow> columns_ok t \<and> t_bufferSize t = word_of_nat (8 + content_size (rows_of t)) + k
     \<and> (t_rows t = 0 \<longrightarrow> k = 0)"

lemma drifted_zero: "table_inv t = drifted 0 t"
  by (simp add: drifted_def table_inv_columns_ok)

text \<open>A drifted table is one that satisfies the invariant but for its size.\<close>

definition sized :: "table \<Rightarrow> table" where
  "sized t = t\<lparr>t_bufferSize := word_of_nat (8 + content_size (rows_of t))\<rparr>"

lemma sized_views [simp]:
  "t_columns (sized t) = t_columns t" "t_data (sized t) = t_data t" "t_rows (sized t) = t_rows t"
  "rows_of (sized t) = rows_of t"
  by (simp_all add: sized_def rows_of_def)

lemma sized_inv: "table_inv (sized t) = columns_ok t"
  by (simp add: table_inv_columns_ok columns_ok_def) (simp add: sized_def)

lemma update_size_drift:
  assumes "value_type old = value_type v" "wf_value old" "wf_value v"
  shows "update_size old v sz = sz + (word_of_nat (value_size v) - word_of_nat (value_size old)) + optional_drift old v"
proof (cases "keeps_shape old v")
  case True
  then have "optional_drift old v = 0"
    by (auto simp: optional_drift_def split: std_value.splits option.splits)
  then show ?thesis using update_size_shape [OF assms True] by simp
next
  case False
  then obtain a x b y where v: "old = Optional a x" "v = Optional b y" "(x = None) \<noteq> (y = None)"
    by (cases old; cases v) auto
  then have "a = b" using assms by (auto dest: optional_of_inj wf_optional)
  with v assms show ?thesis
    by (cases x; cases y) (auto simp: update_size_def optional_drift_def sizeof_optional_def)
qed

lemma add_row_drifted:
  assumes "drifted k t" "typed_row t vs"
  shows "drifted k (add_row vs t)"
proof -
  have "length vs = length (t_columns t)"
    using assms(2) by (simp add: typed_row_def list_all2_lengthD)
  then have a: "add_row vs u = u\<lparr>t_data := put_row (t_rows u) vs (t_data u),
      t_bufferSize := t_bufferSize u + word_of_nat (row_size vs), t_rows := Suc (t_rows u)\<rparr>"
    if "columns_ok u" "t_columns u = t_columns t" for u
    using assms(2) that by (simp add: add_row_def columns_ok_def typed_row_def add_cells_typed)
  have ok: "columns_ok t" "columns_ok (sized t)" using assms(1) by (simp_all add: drifted_def columns_ok_def)
  note a = a [OF ok(1) refl] a [OF ok(2) sized_views(1)]
  have "table_inv (add_row vs (sized t)) \<and> rows_of (add_row vs (sized t)) = rows_of (sized t) @ [vs]"
    using assms by (intro add_row_typed) (simp_all add: sized_inv drifted_def typed_row_def)
  moreover have "rows_of (add_row vs (sized t)) = rows_of (add_row vs t)"
    "columns_ok (add_row vs (sized t)) = columns_ok (add_row vs t)"
    by (simp_all add: a rows_of_def columns_ok_def del: upt_Suc)
  ultimately show ?thesis
    using assms(1) by (simp add: drifted_def table_inv_columns_ok) (simp add: a add.assoc)
qed

lemma update_drifted:
  assumes "drifted k t" "wf_value v"
  shows "drifted (k + update_drift c r v t) (update_cell c r v t)"
proof (cases "c < length (t_columns t) \<and> value_type v = col_type (t_columns t ! c) \<and> r < t_rows t")
  case True
  have inv: "table_inv (sized t)" using assms(1) by (simp add: sized_inv drifted_def)
  have c: "c < length (t_columns (sized t))" "r < t_rows (sized t)" "value_type v = col_type (t_columns (sized t) ! c)"
    using True by simp_all
  note u = update_cell_existing [OF inv c assms(2)]
  let ?old = "rows_of t ! r ! c"
  have g: "get_cell c r t = Some ?old" using get_cell_rows [OF inv c(1,2)] True by (simp add: get_cell_def)
  then have d: "(t_data t ! c) r = Some ?old" using True by (simp add: get_cell_def split: if_splits)
  have same: "rows_of (update_cell c r v t) = rows_of (update_cell c r v (sized t))"
    "columns_ok (update_cell c r v t) = columns_ok (update_cell c r v (sized t))"
    using True d by (simp_all add: update_cell_def rows_of_def columns_ok_def)
  have "t_bufferSize (update_cell c r v t) = update_size ?old v (t_bufferSize t)"
    using True d by (simp add: update_cell_def)
  also have "\<dots> = t_bufferSize t + (word_of_nat (value_size v) - word_of_nat (value_size ?old)) + optional_drift ?old v"
    by (rule update_size_drift) (use u(1) assms(2) in simp_all)
  also have "(word_of_nat (value_size v) - word_of_nat (value_size ?old) :: u64)
      = word_of_nat (content_size (put_cell c r v t)) - word_of_nat (content_size (rows_of t))"
    using arg_cong [OF put_cell_size [OF inv c(1,2), of v], of "word_of_nat :: nat \<Rightarrow> u64"]
    by (simp add: put_cell_def algebra_simps)
  finally have "t_bufferSize (update_cell c r v t)
      = word_of_nat (8 + content_size (put_cell c r v t)) + (k + optional_drift ?old v)"
    using assms(1) by (simp add: drifted_def algebra_simps)
  moreover have "put_cell c r v (sized t) = put_cell c r v t" by (simp add: put_cell_def)
  moreover have "t_rows (update_cell c r v t) = t_rows t" using True d by (simp add: update_cell_def)
  ultimately show ?thesis
    using True g u(2,3) same by (simp add: drifted_def update_drift_def columns_ok_def)
next
  case False
  have col: "column_ok (t_rows t) (t_columns t ! c) (t_data t ! c)" if "c < length (t_columns t)"
    using assms(1) that by (auto simp: drifted_def columns_ok_def list_all2_conv_all_nth)
  have "(t_data t ! c) r = None" if "c < length (t_columns t)" "\<not> r < t_rows t"
    using col [OF that(1)] that(2) by (auto simp: column_ok_def)
  with False have "update_cell c r v t = t" by (intro update_cell_skipped) auto
  moreover have "update_drift c r v t = 0"
    using False by (auto simp: update_drift_def get_cell_def split: option.splits if_splits)
  ultimately show ?thesis using assms(1) by simp
qed

lemma history_drifted: "table_history t k \<Longrightarrow> drifted k t"
proof (induction rule: table_history.induct)
  case (copy t k buf t')
  have "table_inv (if t_rows t \<noteq> 0 then table_clear t else t)"
    using copy.IH table_clear_facts [of t] by (auto simp: drifted_zero drifted_def content_size_def)
  moreover have "table_copy buf (if t_rows t \<noteq> 0 then table_clear t else t) = table_copy buf t"
    by (simp add: table_copy_def table_clear_def Let_def)
  ultimately show ?case
    using table_copy_sound copy.hyps(2) by (fastforce simp: drifted_zero [symmetric])
next
  case (clear t k)
  then show ?case using table_clear_facts [of t] by (simp add: drifted_def content_size_def)
next
  case (row t k vs)
  then show ?case by (blast intro: add_row_drifted)
next
  case (update t k v c r)
  then show ?case by (blast intro: update_drifted)
qed (simp_all add: table_default_inv table_with_ids_inv add_row_rejected flip: drifted_zero)

text \<open>
  C22: Whatever sequence of \<open>AddRow\<close>, \<open>UpdateCell\<close>, \<open>Clear\<close> and \<open>Copy\<close> a program performs on a table,
  there are as many cell maps as columns, in every map one cell of the column's type for each row and
  none beyond the rows, and the buffer size is 8 plus the encoded sizes of all cells, plus the size
  of the scalar for each optional that \<open>UpdateCell\<close> has filled and minus it for each that it has
  emptied since the last \<open>Clear\<close> or \<open>Copy\<close>. Without such updates it is the size of the encoding.
\<close>

theorem table_size_invariant:
  assumes "table_history t k"
  shows "length (t_data t) = length (t_columns t)
    \<and> (\<forall>c. c < length (t_columns t) \<longrightarrow> dom (t_data t ! c) = {..<t_rows t}
         \<and> (\<forall>v \<in> ran (t_data t ! c). value_type v = col_type (t_columns t ! c) \<and> wf_value v))
    \<and> t_bufferSize t = word_of_nat (8 + content_size (rows_of t)) + k
    \<and> (k = 0 \<longrightarrow> table_inv t)"
  using history_drifted [OF assms]
  by (auto simp: drifted_def columns_ok_def column_ok_def table_inv_columns_ok list_all2_conv_all_nth)

definition sample_types :: "std_type list" where
  "sample_types = [TUint16, TOptionalInt8, TString]"

definition sample_row :: "std_value list" where
  "sample_row = [Scalar (SUint16 513), Optional TInt8 (Some (SInt8 7)), Str ''ab'']"

definition sample_table :: table where
  "sample_table = add_row sample_row (table_default sample_types)"

lemma sample_default: "table_reachable (table_default sample_types)"
  by (rule table_reachable.default) (simp add: sample_types_def column_supported_def)

lemma sample_typed: "typed_row (table_default sample_types) sample_row"
  by (simp add: typed_row_def table_default_def add_columns_def empty_table_def sample_types_def
      sample_row_def optional_base_def upt_rec)

lemma sample_reachable: "table_reachable sample_table"
  unfolding sample_table_def
  by (rule table_reachable.step [OF sample_default table_step.row [OF sample_typed]])

lemma sample_columns: "map col_type (t_columns sample_table) = sample_types" "t_columns sample_table \<noteq> []"
  by (simp_all add: sample_table_def add_row_def table_default_def add_columns_def empty_table_def
      sample_types_def sample_row_def upt_rec split: prod.splits)

lemma sample_rows: "rows_of sample_table = [sample_row]"
  using add_row_typed [OF table_default_inv sample_typed]
  by (simp add: sample_table_def sample_types_def column_supported_def table_default_def
      add_columns_def empty_table_def rows_of_def)

lemma sample_content [simp]: "row_size sample_row = 14"
  by (simp add: sample_row_def)

text \<open>A row with a filled optional, which \<open>UpdateCell\<close> empties: the size is then one byte short.\<close>

lemma sample_history: "table_history (update_cell 1 0 (Optional TInt8 None) sample_table) (- 1)"
proof -
  have "table_history sample_table 0"
    unfolding sample_table_def
    by (rule table_history.row [OF table_history.default sample_typed]) (simp add: sample_types_def column_supported_def)
  then have "table_history (update_cell 1 0 (Optional TInt8 None) sample_table)
      (0 + update_drift 1 0 (Optional TInt8 None) sample_table)"
    by (rule table_history.update) (simp add: optional_base_def)
  moreover have "get_cell 1 0 sample_table = Some (Optional TInt8 (Some (SInt8 7)))"
    by (simp add: sample_table_def add_row_def table_default_def add_columns_def empty_table_def
        sample_types_def sample_row_def upt_rec get_cell_def add_cell_def emplace_def optional_base_def)
  moreover have "col_type (t_columns sample_table ! 1) = TOptionalInt8"
    using arg_cong [OF sample_columns(1), of "\<lambda>xs. xs ! 1"] arg_cong [OF sample_columns(1), of length]
    by (simp add: sample_types_def)
  ultimately show ?thesis by (simp add: update_drift_def optional_drift_def optional_base_def)
qed

theorem table_size_invariant_witness:
  "t_bufferSize (update_cell 1 0 (Optional TInt8 None) sample_table)
    = word_of_nat (8 + content_size (rows_of (update_cell 1 0 (Optional TInt8 None) sample_table))) + (- 1)"
  using table_size_invariant [OF sample_history] by blast

text \<open>
  C4: The operations implement a list of rows: on a reachable table \<open>AddRow\<close> appends a row,
  \<open>UpdateCell\<close> of an existing cell replaces that cell and nothing else, \<open>Clear\<close> empties the list,
  \<open>GetCell\<close> reads it and the row count is its length.
\<close>

theorem table_refines_rows:
  assumes "table_reachable t"
  shows "(\<forall>vs. typed_row t vs \<longrightarrow> rows_of (add_row vs t) = rows_of t @ [vs]) \<and>
    (\<forall>c r v. c < length (t_columns t) \<and> r < t_rows t \<and> value_type v = col_type (t_columns t ! c) \<and>
       wf_value v \<longrightarrow> rows_of (update_cell c r v t) = (rows_of t)[r := (rows_of t ! r)[c := v]]) \<and>
    rows_of (table_clear t) = [] \<and>
    (\<forall>c r. get_cell c r t =
       (if c < length (t_columns t) \<and> r < t_rows t then Some (rows_of t ! r ! c) else None)) \<and>
    (table_empty t \<longleftrightarrow> rows_of t = [])"
proof (intro conjI allI impI)
  note inv = reachable_inv [OF assms]
  show "rows_of (add_row vs t) = rows_of t @ [vs]" if "typed_row t vs" for vs
    using add_row_typed [OF inv that] by simp
  show "rows_of (update_cell c r v t) = (rows_of t)[r := (rows_of t ! r)[c := v]]"
    if "c < length (t_columns t) \<and> r < t_rows t \<and> value_type v = col_type (t_columns t ! c) \<and> wf_value v"
    for c r v
    using update_cell_existing(2) [OF inv] that by (simp add: put_cell_def)
  show "rows_of (table_clear t) = []"
    using table_clear_inv [OF inv] by simp
  show "get_cell c r t =
      (if c < length (t_columns t) \<and> r < t_rows t then Some (rows_of t ! r ! c) else None)" for c r
    using get_cell_rows [OF inv] by (auto simp: get_cell_def)
  show "table_empty t \<longleftrightarrow> rows_of t = []"
    by (simp add: table_empty_def rows_of_def)
qed

theorem table_refines_rows_witness:
  "get_cell 2 0 sample_table = Some (Str ''ab'') \<and> rows_of (table_clear sample_table) = []"
  using table_refines_rows [OF sample_reachable] sample_rows
    arg_cong [OF sample_columns(1), of length] length_rows_of [of sample_table]
  by (simp add: sample_types_def sample_row_def)

text \<open>
  For a reachable table whose encoding fits in \<open>size_t\<close>, \<open>Encode\<close> writes exactly the allocated
  block when \<open>malloc\<close> succeeds: the size in 8 bytes and then every cell of every row in order. It
  neither writes outside the block nor falls back to the zeroed buffer.
\<close>

theorem table_encode_layout:
  assumes "table_reachable t" "malloc_ok malloc" "8 + content_size (rows_of t) < size_t_bound"
  shows "table_encode malloc t =
    (case malloc (8 + content_size (rows_of t)) of
       None \<Rightarrow> EncNull
     | Some _ \<Rightarrow> EncBuffer (size_bytes (8 + content_size (rows_of t)) @ payload (rows_of t)))"
proof (cases "malloc (8 + content_size (rows_of t))")
  case None
  have "unat (t_bufferSize t) = 8 + content_size (rows_of t)"
    using reachable_inv [OF assms(1)] assms(3) by (rule buffer_size_nat)
  with None show ?thesis by (simp add: table_encode_def Let_def)
next
  case (Some buf)
  then show ?thesis
    using encode_inv [OF reachable_inv [OF assms(1)] assms(2,3)] by simp
qed

theorem table_encode_layout_witness:
  "table_encode zero_malloc sample_table =
     EncBuffer [22, 0, 0, 0, 0, 0, 0, 0, 1, 2, 0, 7, 2, 0, 0, 0, 0, 0, 0, 0, 97, 98]"
  using table_encode_layout [OF sample_reachable zero_malloc_ok]
  by (simp add: sample_rows zero_malloc_def payload_def sample_row_def word_bytes_def
      le_bytes_numeral byte_of_char_def)

text \<open>
  C17: What \<open>Encode\<close> writes is what \<open>Copy\<close> reads: a table with the same column types, whatever it
  held before, has exactly the rows of the encoded table after \<open>Copy\<close> (the memory may continue
  behind the encoding), and stays well formed.
\<close>

theorem table_copy_encode:
  assumes "table_reachable t" "table_reachable u" "t_columns u \<noteq> []"
    and "map col_type (t_columns u) = map col_type (t_columns t)"
    and "malloc_ok malloc" "8 + content_size (rows_of t) < size_t_bound"
    and "table_encode malloc t = EncBuffer buf"
  shows "\<exists>u'. table_copy (buf @ post) u = Some (Copied u') \<and> rows_of u' = rows_of t \<and>
    t_columns u' = t_columns u \<and> t_bufferSize u' = t_bufferSize t \<and> table_inv u'"
proof -
  note inv = reachable_inv [OF assms(1)]
  have "buf = size_bytes (8 + content_size (rows_of t)) @ payload (rows_of t)"
    using assms(7) table_encode_layout [OF assms(1,5,6)] by (auto split: option.splits)
  moreover have "\<forall>vs \<in> set (rows_of t). typed_row u vs"
  proof
    fix vs assume "vs \<in> set (rows_of t)"
    then have "list_all2 (\<lambda>ty v. value_type v = ty \<and> wf_value v) (map col_type (t_columns t)) vs"
      using rows_of_typed [OF inv] by (simp add: typed_row_def list_all2_map1)
    then show "typed_row u vs"
      unfolding assms(4) [symmetric] by (simp add: typed_row_def list_all2_map1)
  qed
  ultimately show ?thesis
    using copy_encoded [OF reachable_inv [OF assms(2)] assms(3) _ assms(6), of post] inv
    by (auto simp: table_inv_columns_ok)
qed

theorem table_copy_encode_witness:
  "\<exists>u'. table_copy ([22, 0, 0, 0, 0, 0, 0, 0, 1, 2, 0, 7, 2, 0, 0, 0, 0, 0, 0, 0, 97, 98] @ [5])
      (table_default sample_types) = Some (Copied u') \<and> rows_of u' = [sample_row]"
proof -
  have "t_columns (table_default sample_types) = t_columns sample_table"
    by (simp add: sample_table_def add_row_def split: prod.splits)
  moreover have "table_encode zero_malloc sample_table =
      EncBuffer [22, 0, 0, 0, 0, 0, 0, 0, 1, 2, 0, 7, 2, 0, 0, 0, 0, 0, 0, 0, 97, 98]"
    using encode_inv [OF reachable_inv [OF sample_reachable] zero_malloc_ok]
    by (simp add: sample_rows zero_malloc_def payload_def sample_row_def
        word_bytes_def le_bytes_numeral byte_of_char_def)
  ultimately show ?thesis
    using table_copy_encode [OF sample_reachable sample_default _ _ zero_malloc_ok, of _ "[5]"]
      sample_columns by (auto simp: sample_rows)
qed

lemma optional_old:
  assumes "table_inv t" "c < length (t_columns t)" "r < t_rows t"
    and "rows_of t ! r ! c = Optional b x"
  shows "wf_value (Optional b x) \<and> optional_base b \<and> col_type (t_columns t ! c) = optional_of b"
proof -
  obtain w where "(t_data t ! c) r = Some w" "value_type w = col_type (t_columns t ! c)" "wf_value w"
    using column_at(1) [OF assms(1,2)] assms(3) by (rule column_ok_cell)
  moreover from this have "w = Optional b x"
    using assms column_at(2) [OF assms(1,2)] by (simp add: rows_of_def)
  ultimately show ?thesis using wf_optional by auto
qed

lemma scalar_size_le: "scalar_size b \<le> 8"
  by (cases b) simp_all

lemma cell_size_le:
  assumes "r < length rows" "c < length (rows ! r)"
  shows "value_size (rows ! r ! c) \<le> content_size rows"
proof -
  have "value_size (rows ! r ! c) \<le> row_size (rows ! r)"
    unfolding row_size_def by (rule member_le_sum_list) (use assms in auto)
  also have "\<dots> \<le> content_size rows"
    unfolding content_size_def by (rule member_le_sum_list) (use assms in auto)
  finally show ?thesis .
qed

lemma table_encode_small:
  assumes "unat (t_bufferSize t) \<noteq> 0" "unat (t_bufferSize t) < 8"
    and "malloc (unat (t_bufferSize t)) = Some buf" "malloc_ok malloc"
  shows "table_encode malloc t = EncOverflow"
proof -
  have "length buf = unat (t_bufferSize t)" using assms(3,4) by (simp add: malloc_ok_def)
  then show ?thesis using assms by (simp add: table_encode_def Let_def write_at_def)
qed

lemma table_encode_declared:
  assumes "columns_ok t" "t_rows t \<noteq> 0" "malloc_ok malloc" "\<forall>n. malloc n \<noteq> None"
    and sz: "unat (t_bufferSize t) = sz" and "0 < sz"
  shows "sz < 8 + content_size (rows_of t) \<Longrightarrow> table_encode malloc t = EncOverflow"
    and "8 + content_size (rows_of t) < sz \<Longrightarrow>
      table_encode malloc t = EncBuffer (size_bytes sz @ replicate (sz - 8) 0)"
proof -
  obtain buf where buf: "malloc sz = Some buf" using assms(4) by blast
  with assms(3) have len: "length buf = sz" by (simp add: malloc_ok_def)
  show "table_encode malloc t = EncOverflow" if "sz < 8 + content_size (rows_of t)"
  proof (cases "sz < 8")
    case True
    then show ?thesis using table_encode_small [of t malloc buf] assms buf by simp
  next
    case False
    have "table_encode malloc t = (if sz < 8 + content_size (rows_of t) then EncOverflow
        else if sz = 8 + content_size (rows_of t) then EncBuffer (size_bytes sz @ payload (rows_of t))
        else EncBuffer (size_bytes sz @ replicate (sz - 8) 0))"
      by (rule table_encode_any_size) (use False assms(1,2) buf len sz in auto)
    then show ?thesis using that by simp
  qed
  show "table_encode malloc t = EncBuffer (size_bytes sz @ replicate (sz - 8) 0)"
    if "8 + content_size (rows_of t) < sz"
  proof -
    have "table_encode malloc t = (if sz < 8 + content_size (rows_of t) then EncOverflow
        else if sz = 8 + content_size (rows_of t) then EncBuffer (size_bytes sz @ payload (rows_of t))
        else EncBuffer (size_bytes sz @ replicate (sz - 8) 0))"
      by (rule table_encode_any_size) (use that assms(1,2) buf len sz in auto)
    then show ?thesis using that by simp
  qed
qed

text \<open>
  C34: \<open>UpdateCell\<close> miscounts an optional that is filled or emptied, because it uses the size of
  \<open>std::optional<T>\<close> (twice the scalar) for the scalar. Emptying one makes the declared size too
  small by the scalar's size, and \<open>Encode\<close> then writes behind the block it allocated. Filling one
  makes the size too large, and \<open>Encode\<close> replaces all rows by zero bytes.
\<close>

theorem update_optional_breaks_encode:
  assumes "table_reachable t" "malloc_ok malloc" "\<forall>n. malloc n \<noteq> None"
    and "c < length (t_columns t)" "r < t_rows t" "rows_of t ! r ! c = Optional b x"
    and "x = None \<longleftrightarrow> y \<noteq> None" "wf_value (Optional b y)"
    and "24 + content_size (rows_of t) < size_t_bound"
  defines "t' \<equiv> update_cell c r (Optional b y) t"
  shows "rows_of t' = (rows_of t)[r := (rows_of t ! r)[c := Optional b y]] \<and>
    (if y = None then table_encode malloc t' = EncOverflow
     else table_encode malloc t' =
       EncBuffer (size_bytes (8 + content_size (rows_of t) + 2 * scalar_size b) @
         replicate (content_size (rows_of t) + 2 * scalar_size b) 0))"
proof -
  note inv = reachable_inv [OF assms(1)]
  let ?s = "scalar_size b" and ?n = "content_size (rows_of t)"
  have b: "wf_value (Optional b x)" "optional_base b"
    and ty: "value_type (Optional b y) = col_type (t_columns t ! c)"
    using optional_old [OF inv assms(4-6)] by simp_all
  note u = update_cell_existing [OF inv assms(4,5) ty assms(8), folded t'_def]
  have rows: "rows_of t' = put_cell c r (Optional b y) t" by (rule u(2))
  have ok: "columns_ok t'" using u(3) by (simp add: columns_ok_def)
  have rows_pos: "t_rows t' \<noteq> 0" using u(5) assms(5) by simp
  have content: "content_size (rows_of t') + value_size (Optional b x) = ?n + value_size (Optional b y)"
    using put_cell_size [OF inv assms(4,5), of "Optional b y"] assms(6) rows by simp
  have size: "t_bufferSize t' = update_size (Optional b x) (Optional b y) (word_of_nat (8 + ?n))"
    using u(4) assms(6) inv by (simp add: table_inv_columns_ok)
  have le: "value_size (Optional b x) \<le> ?n"
    using cell_size_le [of r "rows_of t" c] assms(4-6) table_inv_lengths [OF inv]
    by (simp add: rows_of_def)
  have s: "?s \<le> 8" by (rule scalar_size_le)
  have unat: "unat (word_of_nat k :: u64) = k" if "k < size_t_bound" for k
    using that by (simp add: unat_of_nat)
  show ?thesis
  proof (cases y)
    case None
    with assms(7) obtain z where x: "x = Some z" by auto
    have pos: "0 < ?s" using b x scalar_size_pos [of z] by simp
    have "t_bufferSize t' = word_of_nat (8 + ?n) - word_of_nat (2 * ?s)"
      using size None x by (simp add: update_size_def sizeof_optional_def)
    also have "\<dots> = word_of_nat (8 + ?n - 2 * ?s)"
      using le s x by (subst of_nat_diff) simp_all
    finally have "unat (t_bufferSize t') = 8 + ?n - 2 * ?s"
      by (simp only:) (rule unat, use assms(9) in simp)
    then have "table_encode malloc t' = EncOverflow"
      using table_encode_declared(1) [OF ok rows_pos assms(2,3)] content le s x None pos by simp
    then show ?thesis using rows None by (simp add: put_cell_def)
  next
    case (Some z)
    with assms(7) have x: "x = None" by auto
    have pos: "0 < ?s" using assms(8) Some scalar_size_pos [of z] by simp
    have "t_bufferSize t' = word_of_nat (8 + ?n + 2 * ?s)"
      using size Some x by (simp add: update_size_def sizeof_optional_def)
    then have "unat (t_bufferSize t') = 8 + ?n + 2 * ?s"
      by (simp only:) (rule unat, use assms(9) s in simp)
    then have "table_encode malloc t' =
        EncBuffer (size_bytes (8 + ?n + 2 * ?s) @ replicate (8 + ?n + 2 * ?s - 8) 0)"
      by (rule table_encode_declared(2) [OF ok rows_pos assms(2,3)])
        (use content x Some pos in simp_all)
    then show ?thesis using rows Some by (simp add: put_cell_def)
  qed
qed

theorem update_optional_breaks_encode_witness:
  "table_encode zero_malloc (update_cell 1 0 (Optional TInt8 None) sample_table) = EncOverflow"
  using update_optional_breaks_encode [OF sample_reachable zero_malloc_ok, of 1 0 TInt8 "Some (SInt8 7)" None]
    arg_cong [OF sample_columns(1), of length] length_rows_of [of sample_table]
  by (simp add: zero_malloc_def sample_rows sample_types_def optional_base_def) (simp add: sample_row_def)

text \<open>
  C32: \<open>Copy\<close> returns for every buffer when the table has a column, with a well-formed table or at a
  read behind the memory. On a table without columns, which a constructor gives for a wrong list of
  ids, it runs for ever exactly when the buffer declares a size of more than 8 bytes.
\<close>

theorem table_copy_terminates:
  assumes "table_reachable t"
  shows "if t_columns t \<noteq> []
    then table_copy buf t = Some CopyOob \<or>
      (\<exists>t'. table_copy buf t = Some (Copied t') \<and> table_inv t' \<and> t_columns t' = t_columns t)
    else (table_copy buf t = None) = (\<exists>n. read_size buf 0 = Some n \<and> 8 < n)"
proof (cases "t_columns t = []")
  case False
  note inv = reachable_inv [OF assms]
  have "table_copy buf t \<noteq> None"
    using copy_rows_ends [of "if t_rows t \<noteq> 0 then table_clear t else t"] copy_start [OF inv] False
    by (auto simp: table_copy_def Let_def split: option.splits)
  then show ?thesis using table_copy_sound [OF inv] False by auto
next
  case True
  let ?t = "if t_rows t \<noteq> 0 then table_clear t else t"
  have c: "t_columns ?t = []" using True by (simp add: table_clear_def)
  have "copy_rows buf n 8 ?t = None \<longleftrightarrow> 8 < n" for n
    using copy_rows_no_columns [OF _ c, of 8 n buf] copy_rows.simps [of buf n 8 ?t] by (cases "8 < n") simp_all
  then show ?thesis
    using True by (cases "read_size buf 0") (simp_all add: table_copy_def Let_def)
qed

theorem table_copy_terminates_witness:
  "table_copy [9, 0, 0, 0, 0, 0, 0, 0] (table_with_ids [TInt8, TInt8] [4, 4]) = None \<and>
   table_copy [8, 0, 0, 0, 0, 0, 0, 0] (table_with_ids [TInt8, TInt8] [4, 4]) \<noteq> None \<and>
   table_copy [9, 0, 0, 0, 0, 0, 0, 0] sample_table \<noteq> None"
proof -
  have ids: "table_with_ids [TInt8, TInt8] [4, 4] = empty_table"
    by (simp add: table_with_ids_def)
  have e: "table_reachable empty_table"
    unfolding ids [symmetric] by (rule table_reachable.ids) (simp add: column_supported_def)
  have "read_size [9, 0, 0, 0, 0, 0, 0, 0] 0 = Some 9" "read_size [8, 0, 0, 0, 0, 0, 0, 0] 0 = Some 8"
    by (simp_all add: read_size_def read_at_def)
  then have "table_copy [9, 0, 0, 0, 0, 0, 0, 0] empty_table = None"
    "table_copy [8, 0, 0, 0, 0, 0, 0, 0] empty_table \<noteq> None"
    using table_copy_terminates [OF e] by (simp_all add: empty_table_def)
  then show ?thesis unfolding ids
    using table_copy_terminates [OF sample_reachable, where buf = "[9, 0, 0, 0, 0, 0, 0, 0]"]
      sample_columns by auto
qed

end
