(* ===== verification/TableBuffers.thy ===== *)
theory TableBuffers
  imports TablesSpec
begin

text \<open>
  Encoded tables, \<open>help/table.cpp\<close>: the class \<open>TableData\<close>, which owns the encoding of a table or
  views one in the memory of a message, its construction from rows of Json values and the text
  \<open>LookUpToJson\<close> makes of it, with the properties of these.

  A value behind a pointer is the list of the bytes that may be read from there on. \<open>malloc\<close> and
  \<open>realloc\<close> are arguments, as are the conversions that round to a float or double.
\<close>

section \<open>TableData\<close>

text \<open>
  \<open>td_own\<close> is the shared pointer: absent, or with the pointer it holds (which may be null);
  \<open>td_shared\<close> is null or the memory of another owner.
\<close>

record table_data =
  td_own :: "byte list option option"
  td_shared :: "byte list option"
  td_size :: u64

definition table_data_empty :: table_data where
  "table_data_empty = \<lparr>td_own = None, td_shared = None, td_size = 8\<rparr>"

definition table_data_of_table :: "(nat \<Rightarrow> byte list option) \<Rightarrow> table \<Rightarrow> table_data option" where
  "table_data_of_table malloc t =
     (case table_encode malloc t of
        EncOverflow \<Rightarrow> None
      | EncNull \<Rightarrow> Some \<lparr>td_own = Some None, td_shared = None, td_size = t_bufferSize t\<rparr>
      | EncBuffer b \<Rightarrow> Some \<lparr>td_own = Some (Some b), td_shared = None, td_size = t_bufferSize t\<rparr>)"

definition table_data_of_memory :: "byte list option \<Rightarrow> table_data option" where
  "table_data_of_memory p =
     (case p of
        None \<Rightarrow> Some table_data_empty
      | Some mem \<Rightarrow>
          map_option (\<lambda>n. \<lparr>td_own = None, td_shared = Some mem, td_size = word_of_nat n\<rparr>)
            (read_size mem 0))"

text \<open>Without a buffer, a size of 8 makes the size field itself the buffer.\<close>

definition get_buffer :: "table_data \<Rightarrow> byte list option" where
  "get_buffer d =
     (case td_shared d of
        Some mem \<Rightarrow> Some mem
      | None \<Rightarrow>
          (case td_own d of
             None \<Rightarrow> (if td_size d = 8 then Some (word_bytes 8 (td_size d)) else None)
           | Some p \<Rightarrow> p))"

definition table_data_to_string :: "table_data \<Rightarrow> string" where
  "table_data_to_string d = ''Encoded table with '' @ show_nat (unat (td_size d)) @ '' bytes size''"

text \<open>
  \<open>operator==\<close>. Equal addresses make the objects equal: \<open>same\<close> tells whether the two pointers are
  equal (two null pointers always are). \<open>None\<close> is a comparison behind the end of a buffer.
\<close>

definition table_data_eq :: "bool \<Rightarrow> table_data \<Rightarrow> table_data \<Rightarrow> bool option" where
  "table_data_eq same a b =
     (if td_size a \<noteq> td_size b then Some False
      else if same \<or> get_buffer a = None \<and> get_buffer b = None then Some True
      else
        (case (get_buffer a, get_buffer b) of
           (Some x, Some y) \<Rightarrow>
             (case (read_at x 0 (unat (td_size a)), read_at y 0 (unat (td_size a))) of
                (Some v, Some w) \<Rightarrow> Some (v = w)
              | _ \<Rightarrow> None)
         | _ \<Rightarrow> Some False))"

section \<open>Rows of Json values\<close>

text \<open>The alternatives of \<open>JsonNode\<close>; a double is its bit pattern.\<close>

datatype json =
  JObject "(string \<times> json) list" | JArray "json list" | JString string
| JDouble u64 | JInt u64 | JUint u64 | JBool bool | JNull

text \<open>The conversions of the hardware: integer to double, integer to float, double to float.\<close>

record float_ops =
  fo_double :: "int \<Rightarrow> u64"
  fo_float :: "int \<Rightarrow> u32"
  fo_narrow :: "u64 \<Rightarrow> u32"

fun uint_scalar :: "float_ops \<Rightarrow> std_type \<Rightarrow> u64 \<Rightarrow> scalar option" where
  "uint_scalar fo TInt8 v = Some (SInt8 (ucast v))"
| "uint_scalar fo TInt16 v = Some (SInt16 (ucast v))"
| "uint_scalar fo TInt32 v = Some (SInt32 (ucast v))"
| "uint_scalar fo TInt64 v = Some (SInt64 v)"
| "uint_scalar fo TUint8 v = Some (SUint8 (ucast v))"
| "uint_scalar fo TUint16 v = Some (SUint16 (ucast v))"
| "uint_scalar fo TUint32 v = Some (SUint32 (ucast v))"
| "uint_scalar fo TUint64 v = Some (SUint64 v)"
| "uint_scalar fo TDouble v = Some (SDouble (fo_double fo (uint v)))"
| "uint_scalar fo TFloat v = Some (SFloat (fo_float fo (uint v)))"
| "uint_scalar fo _ v = None"

fun int_scalar :: "float_ops \<Rightarrow> std_type \<Rightarrow> u64 \<Rightarrow> scalar option" where
  "int_scalar fo TInt8 v = Some (SInt8 (ucast v))"
| "int_scalar fo TInt16 v = Some (SInt16 (ucast v))"
| "int_scalar fo TInt32 v = Some (SInt32 (ucast v))"
| "int_scalar fo TInt64 v = Some (SInt64 v)"
| "int_scalar fo TDouble v = Some (SDouble (fo_double fo (sint v)))"
| "int_scalar fo TFloat v = Some (SFloat (fo_float fo (sint v)))"
| "int_scalar fo _ v = None"

definition json_scalar :: "float_ops \<Rightarrow> std_type \<Rightarrow> json \<Rightarrow> scalar option" where
  "json_scalar fo ty j =
     (case j of
        JUint v \<Rightarrow> uint_scalar fo ty v
      | JInt v \<Rightarrow> int_scalar fo ty v
      | JDouble v \<Rightarrow>
          (if ty = TDouble then Some (SDouble v)
           else if ty = TFloat then Some (SFloat (fo_narrow fo v)) else None)
      | JBool b \<Rightarrow> (if ty = TBool then Some (SBool b) else None)
      | _ \<Rightarrow> None)"

text \<open>The cell a Json value is written as for a column type, \<open>None\<close> for an unexpected type.\<close>

definition json_value :: "float_ops \<Rightarrow> std_type \<Rightarrow> json \<Rightarrow> std_value option" where
  "json_value fo ty j =
     (case base_of ty of
        Some b \<Rightarrow>
          (if j = JNull then Some (Optional b None)
           else map_option (\<lambda>s. Optional b (Some s)) (json_scalar fo b j))
      | None \<Rightarrow>
          (if ty = TString then (case j of JString s \<Rightarrow> Some (Str s) | _ \<Rightarrow> None)
           else if ty = TTimer then
             (case j of
                JUint v \<Rightarrow>
                  map_option TimerV (timer_make (sint v sdiv 1000000000) (sint v smod 1000000000))
              | _ \<Rightarrow> None)
           else if ty = TDuration then
             (case j of
                JUint v \<Rightarrow> Some (DurationV (Duration v))
              | JInt v \<Rightarrow> Some (DurationV (Duration v))
              | _ \<Rightarrow> None)
           else map_option Scalar (json_scalar fo ty j)))"

text \<open>The bytes of a column in the first allocation, \<open>None\<close> for a type that is not supported.\<close>

definition allocation_step :: "std_type \<Rightarrow> nat option" where
  "allocation_step ty =
     (if ty = TString then Some 72
      else if ty = TTimer \<or> ty = TDuration then Some 8
      else
        (case base_of ty of
           Some b \<Rightarrow> Some (1 + scalar_size b)
         | None \<Rightarrow> (if 0 < scalar_size ty then Some (scalar_size ty) else None)))"

fun allocation_steps :: "std_type list \<Rightarrow> nat option" where
  "allocation_steps [] = Some 0"
| "allocation_steps (ty # tys) =
     (case allocation_step ty of
        None \<Rightarrow> None
      | Some n \<Rightarrow> map_option ((+) n) (allocation_steps tys))"

text \<open>
  Filling the block. It grows when a cell does not fit; \<open>BuildStop\<close> is the end with a message and
  no table (a value of an unexpected type or no memory), \<open>BuildOob\<close> a write behind the block.
\<close>

datatype build = BuildStop | BuildOob | BuildDone "byte list" nat

definition ensure_size ::
    "(byte list \<Rightarrow> nat \<Rightarrow> byte list option) \<Rightarrow> nat \<Rightarrow> nat \<Rightarrow> byte list \<Rightarrow> nat \<Rightarrow> byte list option" where
  "ensure_size realloc step n buf off =
     (if off + n > length buf then realloc buf (length buf + max step (n * 2)) else Some buf)"

fun build_cells ::
    "float_ops \<Rightarrow> (byte list \<Rightarrow> nat \<Rightarrow> byte list option) \<Rightarrow> nat \<Rightarrow> std_type list \<Rightarrow> json list \<Rightarrow>
     byte list \<Rightarrow> nat \<Rightarrow> build" where
  "build_cells fo realloc step (ty # tys) (j # js) buf off =
     (case json_value fo ty j of
        None \<Rightarrow> BuildStop
      | Some v \<Rightarrow>
          (case ensure_size realloc step (value_size v) buf off of
             None \<Rightarrow> BuildStop
           | Some buf' \<Rightarrow>
               (case write_at buf' off (value_bytes v) of
                  None \<Rightarrow> BuildOob
                | Some buf'' \<Rightarrow>
                    build_cells fo realloc step tys js buf'' (off + value_size v))))"
| "build_cells fo realloc step _ _ buf off = BuildDone buf off"

fun build_rows ::
    "float_ops \<Rightarrow> (byte list \<Rightarrow> nat \<Rightarrow> byte list option) \<Rightarrow> nat \<Rightarrow> std_type list \<Rightarrow> json list \<Rightarrow>
     byte list \<Rightarrow> nat \<Rightarrow> build" where
  "build_rows fo realloc step tys [] buf off = BuildDone buf off"
| "build_rows fo realloc step tys (row # rows) buf off =
     (case row of
        JArray js \<Rightarrow>
          (if length js \<noteq> length tys then BuildStop
           else
             (case build_cells fo realloc step tys js buf off of
                BuildStop \<Rightarrow> BuildStop
              | BuildOob \<Rightarrow> BuildOob
              | BuildDone buf' off' \<Rightarrow> build_rows fo realloc step tys rows buf' off'))
      | _ \<Rightarrow> BuildStop)"

text \<open>The constructor. \<open>None\<close> is undefined behaviour, an object without a buffer a rejection.\<close>

definition table_data_of_rows ::
    "float_ops \<Rightarrow> (nat \<Rightarrow> byte list option) \<Rightarrow> (byte list \<Rightarrow> nat \<Rightarrow> byte list option) \<Rightarrow>
     json list \<Rightarrow> std_type list \<Rightarrow> table_data option" where
  "table_data_of_rows fo malloc realloc rows tys =
     (if rows = [] then Some table_data_empty
      else
        (case allocation_steps tys of
           None \<Rightarrow> Some table_data_empty
         | Some step \<Rightarrow>
             (case malloc (step * length rows + 8) of
                None \<Rightarrow> Some table_data_empty
              | Some buf \<Rightarrow>
                  (case build_rows fo realloc step tys rows buf 8 of
                     BuildStop \<Rightarrow> Some table_data_empty
                   | BuildOob \<Rightarrow> None
                   | BuildDone buf' off \<Rightarrow>
                       (case realloc buf' off of
                          None \<Rightarrow> Some table_data_empty
                        | Some buf'' \<Rightarrow>
                            (case write_at buf'' 0 (size_bytes off) of
                               None \<Rightarrow> None
                             | Some b \<Rightarrow>
                                 Some \<lparr>td_own = Some (Some b), td_shared = None,
                                   td_size = word_of_nat off\<rparr>))))))"

section \<open>LookUpToJson\<close>

text \<open>
  The text of a cell: floats of optionals are printed by \<open>std::format\<close> with an empty specification
  (\<open>fo\<close>), the others as in \<open>_S\<close> (\<open>fp\<close>); timers and durations as nanoseconds.
\<close>

fun lookup_text :: "(scalar \<Rightarrow> string) \<Rightarrow> (scalar \<Rightarrow> string) \<Rightarrow> std_value \<Rightarrow> string" where
  "lookup_text fp fo (Scalar s) = show_scalar fp s"
| "lookup_text fp fo (Optional _ None) = ''null''"
| "lookup_text fp fo (Optional _ (Some s)) = show_scalar fo s"
| "lookup_text fp fo (Str s) = quoted s"
| "lookup_text fp fo (TimerV t) = show_int (timer_ns t)"
| "lookup_text fp fo (DurationV d) = show_int (duration_ns d)"

text \<open>
  A row, one column after the other: \<open>LookOob\<close> for a read outside the memory (or of
  \<open>columnTypes[0]\<close> when there is none), \<open>LookStop\<close> for the empty result at an unsupported type.
\<close>

datatype look = LookOob | LookStop | LookText string nat

fun lookup_row ::
    "(scalar \<Rightarrow> string) \<Rightarrow> (scalar \<Rightarrow> string) \<Rightarrow> std_type list \<Rightarrow> byte list \<Rightarrow> nat \<Rightarrow> look" where
  "lookup_row fp fo [] mem off = LookOob"
| "lookup_row fp fo (ty # tys) mem off =
     (if \<not> column_supported ty then LookStop
      else
        (case cell_decode ty mem off of
           None \<Rightarrow> LookOob
         | Some (v, off') \<Rightarrow>
             (if tys = [] then LookText (lookup_text fp fo v) off'
              else
                (case lookup_row fp fo tys mem off' of
                   LookOob \<Rightarrow> LookOob
                 | LookStop \<Rightarrow> LookStop
                 | LookText s off'' \<Rightarrow> LookText (lookup_text fp fo v @ '','' @ s) off''))))"

partial_function (option) lookup_rows ::
    "(scalar \<Rightarrow> string) \<Rightarrow> (scalar \<Rightarrow> string) \<Rightarrow> std_type list \<Rightarrow> byte list \<Rightarrow> nat \<Rightarrow> nat \<Rightarrow> string \<Rightarrow>
     look option" where
  "lookup_rows fp fo tys mem sz off acc =
     (case lookup_row fp fo tys mem off of
        LookOob \<Rightarrow> Some LookOob
      | LookStop \<Rightarrow> Some LookStop
      | LookText s off' \<Rightarrow>
          (if off' > sz then Some LookStop
           else if off' = sz then Some (LookText (acc @ s @ '']]}'') off')
           else lookup_rows fp fo tys mem sz off' (acc @ s @ ''],['')))"

text \<open>The outer \<open>None\<close> is an endless loop, the inner one undefined behaviour.\<close>

definition lookup_to_json ::
    "(scalar \<Rightarrow> string) \<Rightarrow> (scalar \<Rightarrow> string) \<Rightarrow> std_type list \<Rightarrow> table_data \<Rightarrow> string option option" where
  "lookup_to_json fp fo tys d =
     (case get_buffer d of
        None \<Rightarrow> Some (Some [])
      | Some mem \<Rightarrow>
          (let head = ''{'' @ quoted ''Buffer size'' @ '':'' @ show_nat (unat (td_size d)) @ '','' @
                 quoted ''Rows'' @ '':[''
           in if td_size d = 8 then Some (Some (head @ '']}''))
              else
                map_option (\<lambda>r. case r of
                    LookOob \<Rightarrow> None | LookStop \<Rightarrow> Some [] | LookText s _ \<Rightarrow> Some s)
                  (lookup_rows fp fo tys mem (unat (td_size d)) 8 (head @ ''[''))))"

section \<open>Facts on building\<close>

lemma uint_scalar_type: "uint_scalar fo ty v = Some s \<Longrightarrow> scalar_type s = ty"
  by (cases ty) auto

lemma int_scalar_type: "int_scalar fo ty v = Some s \<Longrightarrow> scalar_type s = ty"
  by (cases ty) auto

lemma json_scalar_type: "json_scalar fo ty j = Some s \<Longrightarrow> scalar_type s = ty"
  by (auto simp: json_scalar_def uint_scalar_type int_scalar_type split: json.splits if_splits)

lemma json_value_typed:
  assumes "json_value fo ty j = Some v"
  shows "value_type v = ty \<and> length (value_bytes v) = value_size v \<and>
    (value_size v < size_t_bound \<longrightarrow> wf_value v)"
proof (cases "base_of ty")
  case None
  with assms show ?thesis
    by (auto simp: json_value_def json_scalar_type split: if_splits json.splits)
next
  case (Some b)
  with assms base_of_base [OF Some] show ?thesis
    by (auto simp: json_value_def dest: json_scalar_type split: if_splits)
qed

lemma allocation_step_supported: "allocation_step ty = None \<longleftrightarrow> \<not> column_supported ty"
  by (auto simp: allocation_step_def column_supported_def split: option.splits)

lemma allocation_steps_supported:
  "allocation_steps tys \<noteq> None \<longleftrightarrow> (\<forall>ty \<in> set tys. column_supported ty)"
proof (induction tys)
  case (Cons ty tys)
  then show ?case using allocation_step_supported [of ty]
    by (cases "allocation_step ty") auto
qed simp

text \<open>\<open>realloc\<close>: the new block has the size asked for and keeps the old contents.\<close>

definition realloc_ok :: "(byte list \<Rightarrow> nat \<Rightarrow> byte list option) \<Rightarrow> bool" where
  "realloc_ok realloc \<longleftrightarrow>
     (\<forall>b n b'. realloc b n = Some b' \<longrightarrow> length b' = n \<and> take (min n (length b)) b' = take n b)"

lemma realloc_prefix:
  assumes "realloc_ok realloc" "realloc b n = Some b'" "off \<le> length b" "off \<le> n"
  shows "take off b' = take off b"
proof -
  have "take off (take (min n (length b)) b') = take off (take n b)"
    using assms(1,2) by (simp add: realloc_ok_def)
  with assms(3,4) show ?thesis by (simp add: min_def split: if_splits)
qed

lemma ensure_size_ok:
  assumes "realloc_ok realloc" "ensure_size realloc step n buf off = Some buf'" "off \<le> length buf"
  shows "off + n \<le> length buf' \<and> take off buf' = take off buf"
proof (cases "off + n > length buf")
  case True
  then have r: "realloc buf (length buf + max step (n * 2)) = Some buf'"
    using assms(2) by (simp add: ensure_size_def)
  then have "length buf' = length buf + max step (n * 2)"
    using assms(1) by (simp add: realloc_ok_def)
  moreover have "take off buf' = take off buf"
    by (rule realloc_prefix [OF assms(1) r]) (use assms(3) in auto)
  moreover have "n * 2 \<le> max step (n * 2)" by simp
  ultimately show ?thesis using assms(3) by linarith
next
  case False
  with assms show ?thesis by (simp add: ensure_size_def)
qed

lemma write_at_end:
  assumes "off + length bs \<le> length buf"
  shows "\<exists>buf'. write_at buf off bs = Some buf' \<and> take (off + length bs) buf' = take off buf @ bs \<and>
    off + length bs \<le> length buf'"
  using assms by (simp add: write_at_def)

text \<open>What the rows say: the cells of each row, if every row is an array of as many convertible values.\<close>

fun row_values :: "float_ops \<Rightarrow> std_type list \<Rightarrow> json list \<Rightarrow> std_value list option" where
  "row_values fo [] [] = Some []"
| "row_values fo (ty # tys) (j # js) =
     (case json_value fo ty j of
        None \<Rightarrow> None
      | Some v \<Rightarrow> map_option ((#) v) (row_values fo tys js))"
| "row_values fo _ _ = None"

fun rows_values :: "float_ops \<Rightarrow> std_type list \<Rightarrow> json list \<Rightarrow> std_value list list option" where
  "rows_values fo tys [] = Some []"
| "rows_values fo tys (row # rows) =
     (case row of
        JArray js \<Rightarrow>
          (case row_values fo tys js of
             None \<Rightarrow> None
           | Some vs \<Rightarrow> map_option ((#) vs) (rows_values fo tys rows))
      | _ \<Rightarrow> None)"

definition built :: "byte list \<Rightarrow> nat \<Rightarrow> byte list \<Rightarrow> byte list \<Rightarrow> nat \<Rightarrow> bool" where
  "built buf off bs buf' off' \<longleftrightarrow>
     off' = off + length bs \<and> off' \<le> length buf' \<and> take off' buf' = take off buf @ bs"

lemma built_trans:
  "built buf off bs buf' off' \<Longrightarrow> built buf' off' cs buf'' off'' \<Longrightarrow> built buf off (bs @ cs) buf'' off''"
  by (auto simp: built_def)

lemma build_cells_spec:
  assumes "realloc_ok realloc" "length js = length tys" "off \<le> length buf"
  shows "(case build_cells fo realloc step tys js buf off of
      BuildOob \<Rightarrow> False
    | BuildStop \<Rightarrow> row_values fo tys js = None \<or> (\<exists>b n. realloc b n = None)
    | BuildDone buf' off' \<Rightarrow>
        (\<exists>vs. row_values fo tys js = Some vs \<and> built buf off (row_bytes vs) buf' off'))"
  using assms(2,1,3)
proof (induction js tys arbitrary: buf off rule: list_induct2)
  case Nil
  then show ?case by (simp add: built_def)
next
  case (Cons j js ty tys)
  show ?case
  proof (cases "json_value fo ty j")
    case None
    then show ?thesis by simp
  next
    case (Some v)
    note v = json_value_typed [OF Some]
    show ?thesis
    proof (cases "ensure_size realloc step (value_size v) buf off")
      case None
      then have "\<exists>b n. realloc b n = None" by (auto simp: ensure_size_def split: if_splits)
      with None Some show ?thesis by simp
    next
      case (Some buf1)
      note e = ensure_size_ok [OF Cons.prems(1) Some Cons.prems(2)]
      obtain buf2 where w: "write_at buf1 off (value_bytes v) = Some buf2"
        "take (off + value_size v) buf2 = take off buf1 @ value_bytes v" "off + value_size v \<le> length buf2"
        using write_at_end [of off "value_bytes v" buf1] e v by auto
      have b: "built buf off (value_bytes v) buf2 (off + value_size v)"
        using w e v by (simp add: built_def)
      from Cons.IH [OF Cons.prems(1) w(3)] show ?thesis
        using \<open>json_value fo ty j = Some v\<close> Some w(1) b
        by (auto split: build.splits dest: built_trans)
    qed
  qed
qed

lemma build_rows_spec:
  assumes "realloc_ok realloc" "off \<le> length buf"
  shows "(case build_rows fo realloc step tys rows buf off of
      BuildOob \<Rightarrow> False
    | BuildStop \<Rightarrow> rows_values fo tys rows = None \<or> (\<exists>b n. realloc b n = None)
    | BuildDone buf' off' \<Rightarrow>
        (\<exists>vss. rows_values fo tys rows = Some vss \<and> built buf off (payload vss) buf' off'))"
  using assms
proof (induction rows arbitrary: buf off)
  case Nil
  then show ?case by (simp add: built_def payload_def)
next
  case (Cons row rows)
  show ?case
  proof (cases "\<exists>js. row = JArray js \<and> length js = length tys")
    case False
    have "row_values fo tys js = None" if "length js \<noteq> length tys" for js
      using that by (induction fo tys js rule: row_values.induct) (auto split: option.splits)
    with False show ?thesis by (auto split: json.splits)
  next
    case True
    then obtain js where js: "row = JArray js" "length js = length tys" by blast
    note cells = build_cells_spec [OF Cons.prems(1) js(2) Cons.prems(2), of fo step]
    show ?thesis
    proof (cases "build_cells fo realloc step tys js buf off")
      case (BuildDone buf1 off1)
      with cells obtain vs where vs: "row_values fo tys js = Some vs"
        "built buf off (row_bytes vs) buf1 off1" by auto
      then have "off1 \<le> length buf1" by (simp add: built_def)
      from Cons.IH [OF Cons.prems(1) this] show ?thesis
        using BuildDone vs js by (auto simp: payload_def split: build.splits dest: built_trans)
    qed (use cells js in auto)
  qed
qed

lemma row_values_typed:
  "row_values fo tys js = Some vs \<Longrightarrow>
    list_all2 (\<lambda>ty v. value_type v = ty \<and> (value_size v < size_t_bound \<longrightarrow> wf_value v)) tys vs \<and>
    length (row_bytes vs) = row_size vs"
proof (induction fo tys js arbitrary: vs rule: row_values.induct)
  case (2 fo ty tys j js)
  then show ?case using json_value_typed [of fo ty j] by (auto split: option.splits)
qed simp_all

lemma rows_values_typed:
  "rows_values fo tys rows = Some vss \<Longrightarrow>
    (\<forall>vs \<in> set vss. list_all2 (\<lambda>ty v. value_type v = ty \<and> (value_size v < size_t_bound \<longrightarrow> wf_value v)) tys vs) \<and>
    length (payload vss) = content_size vss"
proof (induction fo tys rows arbitrary: vss rule: rows_values.induct)
  case (2 fo tys row rows)
  then show ?case using row_values_typed [of fo tys]
    by (fastforce simp: payload_def content_size_def split: option.splits json.splits)
qed (simp add: payload_def)

text \<open>The object that owns an encoding.\<close>

definition owned :: "byte list \<Rightarrow> table_data" where
  "owned b = \<lparr>td_own = Some (Some b), td_shared = None, td_size = word_of_nat (length b)\<rparr>"

definition encoding :: "std_value list list \<Rightarrow> byte list" where
  "encoding vss = size_bytes (8 + length (payload vss)) @ payload vss"

lemma get_buffer_owned [simp]: "get_buffer (owned b) = Some b"
  by (simp add: get_buffer_def owned_def)

lemma sdiv_mult_range:
  assumes "0 < p"
  shows "\<bar>x sdiv p * p\<bar> \<le> \<bar>x :: int\<bar>"
proof -
  have "x sdiv p = sgn x * (\<bar>x\<bar> div p)"
    using assms by (simp add: signed_divide_int_def)
  moreover have "\<bar>x\<bar> div p * p \<le> \<bar>x\<bar>"
    using assms pos_mod_sign [of p "\<bar>x\<bar>"] div_mult_mod_eq [of "\<bar>x\<bar>" p] by linarith
  moreover have "0 \<le> \<bar>x\<bar> div p"
    using assms by (simp add: pos_imp_zdiv_nonneg_iff)
  ultimately show ?thesis
    using assms by (cases x rule: linorder_cases [of 0]) (simp_all add: abs_mult)
qed

lemma timer_make_split:
  "timer_make (sint (v :: u64) sdiv 1000000000) (sint v smod 1000000000) = Some (Timer v)"
proof -
  let ?x = "sint v" and ?p = "1000000000 :: int"
  have sum: "?x sdiv ?p * ?p + ?x smod ?p = ?x" by (rule sdiv_mult_smod_eq)
  have x: "in_int64 ?x" using timer_ns_range [of "Timer v"] by (simp add: timer_ns_def)
  have "\<bar>?x sdiv ?p * ?p\<bar> \<le> \<bar>?x\<bar>" by (rule sdiv_mult_range) simp
  moreover have "?x sdiv ?p * ?p \<noteq> 2 ^ 63"
  proof
    assume "?x sdiv ?p * ?p = 2 ^ 63"
    then have "?p dvd 2 ^ 63" by (metis dvd_triv_right)
    then show False by simp
  qed
  ultimately have "in_int64 (?x sdiv ?p * ?p)" using x by (auto simp: in_int64_def)
  with sum x have "map_option timer_of (timespec_to_duration (?x sdiv ?p) (?x smod ?p)) = Some (timer_of ?x)"
    by (simp add: timespec_to_duration_def int64_chk_def)
  moreover have "?x = 0" if "?x sdiv ?p = 0 \<and> ?x smod ?p = 0" using that sum by simp
  moreover have "timer_of ?x = Timer v" by (simp add: timer_of_def)
  ultimately show ?thesis by (auto simp: timer_make_def)
qed

lemma json_timer: "json_value fo TTimer (JUint v) = Some (TimerV (Timer v))"
  by (simp add: json_value_def timer_make_split)

section \<open>Facts on looking up\<close>

fun row_text :: "(scalar \<Rightarrow> string) \<Rightarrow> (scalar \<Rightarrow> string) \<Rightarrow> std_value list \<Rightarrow> string" where
  "row_text fp fo vs = join '','' (map (lookup_text fp fo) vs)"

lemma join_Cons: "ss \<noteq> [] \<Longrightarrow> join sep (s # ss) = s @ sep @ join sep ss"
  by (cases ss) simp_all

lemma typed_supported:
  "list_all2 (\<lambda>ty v. value_type v = ty \<and> wf_value v) tys vs \<Longrightarrow> \<forall>ty \<in> set tys. column_supported ty"
  by (induction rule: list_all2_induct) (auto dest: supported_value_type)

lemma lookup_row_decoded:
  assumes "cells.dec_seq tys mem off = Some (vs, off')" "\<forall>ty \<in> set tys. column_supported ty" "tys \<noteq> []"
  shows "lookup_row fp fo tys mem off = LookText (row_text fp fo vs) off'"
  using assms
proof (induction tys arbitrary: off vs)
  case (Cons ty tys)
  from Cons.prems(1) obtain v off1 vs1 where v: "cell_decode ty mem off = Some (v, off1)"
    "cells.dec_seq tys mem off1 = Some (vs1, off')" "vs = v # vs1"
    by (auto split: option.splits)
  show ?case
  proof (cases tys)
    case Nil
    with v Cons.prems show ?thesis by simp
  next
    case (Cons ty' tys')
    then have "vs1 \<noteq> []" using v(2) by (auto split: option.splits)
    with Cons v Cons.IH [OF v(2)] Cons.prems show ?thesis by (simp add: join_Cons)
  qed
qed simp

lemma lookup_row_progress:
  "lookup_row fp fo tys mem off = LookText s off' \<Longrightarrow> off < off' \<and> off' \<le> length mem"
proof (induction tys arbitrary: off s)
  case (Cons ty tys)
  from Cons.prems obtain v off1 where v: "cell_decode ty mem off = Some (v, off1)"
    by (auto split: if_splits option.splits)
  have "off < off1" "off1 \<le> length mem"
    using cell_decode_sound [OF v] value_size_pos [of v] by auto
  with Cons v show ?case by (fastforce split: if_splits look.splits)
qed simp

lemma lookup_rows_ends: "lookup_rows fp fo tys mem sz off acc \<noteq> None"
proof (induction "length mem - off" arbitrary: off acc rule: less_induct)
  case less
  show ?case
  proof (cases "lookup_row fp fo tys mem off")
    case (LookText s off')
    from lookup_row_progress [OF this] have "length mem - off' < length mem - off" by auto
    from less.hyps [OF this] LookText show ?thesis by (subst lookup_rows.simps) simp
  qed (subst lookup_rows.simps, simp)+
qed

lemma payload_Cons: "payload (vs # vss) = row_bytes vs @ payload vss"
  by (simp add: payload_def)

lemma lookup_rows_payload:
  assumes "\<forall>vs \<in> set (vs # vss). list_all2 (\<lambda>ty v. value_type v = ty \<and> wf_value v) tys vs"
    and "tys \<noteq> []" "off = length pre" "sz = length pre + length (payload (vs # vss))"
  shows "lookup_rows fp fo tys (pre @ payload (vs # vss) @ post) sz off acc =
    Some (LookText (acc @ join ''],['' (map (row_text fp fo) (vs # vss)) @ '']]}'') sz)"
  using assms
proof (induction vss arbitrary: vs pre off acc)
  case Nil
  then have vs: "list_all2 (\<lambda>ty v. value_type v = ty \<and> wf_value v) tys vs" by simp
  have dec: "cells.dec_seq tys (pre @ row_bytes vs @ post) (length pre)
      = Some (vs, length pre + length (row_bytes vs))"
    unfolding row_bytes_def by (rule cells.dec_seq_enc [OF vs])
  show ?case
    by (subst lookup_rows.simps)
      (use lookup_row_decoded [OF dec typed_supported [OF vs] Nil(2)] Nil in \<open>simp add: payload_def\<close>)
next
  case (Cons w vss)
  then have vs: "list_all2 (\<lambda>ty v. value_type v = ty \<and> wf_value v) tys vs" by simp
  let ?post = "payload (w # vss) @ post"
  have dec: "cells.dec_seq tys (pre @ row_bytes vs @ ?post) (length pre)
      = Some (vs, length pre + length (row_bytes vs))"
    unfolding row_bytes_def by (rule cells.dec_seq_enc [OF vs])
  obtain v ws where w: "w = v # ws" "wf_value v"
    using Cons.prems(1,2) by (cases w) (auto simp: list_all2_Cons2)
  have "0 < length (payload (w # vss))"
    using w value_size_pos [of v] length_value_bytes [of v] by (simp add: payload_def)
  then have step: "lookup_rows fp fo tys (pre @ row_bytes vs @ ?post) sz (length pre) acc =
      lookup_rows fp fo tys (pre @ row_bytes vs @ ?post) sz (length pre + length (row_bytes vs))
        (acc @ row_text fp fo vs @ ''],['')"
    by (subst lookup_rows.simps)
      (use lookup_row_decoded [OF dec typed_supported [OF vs] Cons.prems(2)] Cons.prems(4)
        in \<open>auto simp add: payload_Cons simp del: row_text.simps row_bytes_Cons\<close>)
  have "lookup_rows fp fo tys ((pre @ row_bytes vs) @ ?post) sz
      (length (pre @ row_bytes vs)) (acc @ row_text fp fo vs @ ''],['') =
    Some (LookText ((acc @ row_text fp fo vs @ ''],['') @
      join ''],['' (map (row_text fp fo) (w # vss)) @ '']]}'') sz)"
    by (rule Cons.IH) (use Cons.prems in \<open>simp_all add: payload_Cons\<close>)
  then show ?case using step Cons.prems(3)
    by (simp add: payload_Cons join_Cons del: row_text.simps row_bytes_Cons)
qed

section \<open>Properties of encoded tables\<close>

lemma rows_built:
  assumes "malloc_ok malloc" "realloc_ok realloc" "rows \<noteq> []" "\<forall>ty \<in> set tys. column_supported ty"
  shows "case rows_values fo tys rows of
      None \<Rightarrow> table_data_of_rows fo malloc realloc rows tys = Some table_data_empty
    | Some vss \<Rightarrow>
        table_data_of_rows fo malloc realloc rows tys = Some (owned (encoding vss)) \<or>
        ((\<exists>n. malloc n = None) \<or> (\<exists>b n. realloc b n = None)) \<and>
        table_data_of_rows fo malloc realloc rows tys = Some table_data_empty"
proof -
  obtain step where step: "allocation_steps tys = Some step"
    using allocation_steps_supported [of tys] assms(4) by auto
  show ?thesis
  proof (cases "malloc (step * length rows + 8)")
    case None
    then show ?thesis using assms(3) step
      by (auto simp: table_data_of_rows_def split: option.splits)
  next
    case (Some buf)
    then have "8 \<le> length buf" using assms(1) by (simp add: malloc_ok_def)
    note spec = build_rows_spec [OF assms(2) this, where fo = fo and step = step and tys = tys and rows = rows]
    show ?thesis
    proof (cases "build_rows fo realloc step tys rows buf 8")
      case (BuildDone buf1 off)
      with spec obtain vss where vss: "rows_values fo tys rows = Some vss"
        and built: "built buf 8 (payload vss) buf1 off" by auto
      show ?thesis
      proof (cases "realloc buf1 off")
        case None
        with Some step BuildDone vss assms(3) show ?thesis
          by (auto simp: table_data_of_rows_def)
      next
        case (Some b)
        have b: "length b = off" "take off b = take off buf1"
          using Some assms(2) built realloc_prefix [OF assms(2) Some, of off]
          by (auto simp: realloc_ok_def built_def)
        then have "b = take 8 buf @ payload vss" and off: "off = 8 + length (payload vss)"
          using built by (auto simp: built_def)
        then have "write_at b 0 (size_bytes off) = Some (encoding vss)"
          using \<open>8 \<le> length buf\<close> by (simp add: write_at_def encoding_def)
        then have "table_data_of_rows fo malloc realloc rows tys = Some (owned (encoding vss))"
          using Some \<open>malloc (step * length rows + 8) = Some buf\<close> step BuildDone assms(3) off
          by (simp add: table_data_of_rows_def owned_def encoding_def)
        with vss show ?thesis by simp
      qed
    qed (use spec Some step assms(3) in \<open>auto simp: table_data_of_rows_def split: option.splits\<close>)
  qed
qed

text \<open>
  Building the transferable form from rows of Json values never writes outside its block,
  however the block has to grow. If every row is an array with one convertible value per column
  the object owns the encoding of exactly these cells, unless memory runs out; if one is not, the
  object holds no table.
\<close>

theorem table_rows_built:
  assumes "malloc_ok malloc" "realloc_ok realloc" "rows \<noteq> []" "\<forall>ty \<in> set tys. column_supported ty"
  shows "case rows_values fo tys rows of
      None \<Rightarrow> table_data_of_rows fo malloc realloc rows tys = Some table_data_empty
    | Some vss \<Rightarrow>
        table_data_of_rows fo malloc realloc rows tys = Some (owned (encoding vss)) \<or>
        ((\<exists>n. malloc n = None) \<or> (\<exists>b n. realloc b n = None)) \<and>
        table_data_of_rows fo malloc realloc rows tys = Some table_data_empty"
  by (rule rows_built [OF assms])

definition copy_realloc :: "byte list \<Rightarrow> nat \<Rightarrow> byte list option" where
  "copy_realloc b n = Some (take n b @ replicate (n - length b) 0)"

lemma copy_realloc_ok: "realloc_ok copy_realloc"
  by (auto simp: realloc_ok_def copy_realloc_def min_def)

definition no_floats :: float_ops where
  "no_floats = \<lparr>fo_double = (\<lambda>_. 0), fo_float = (\<lambda>_. 0), fo_narrow = (\<lambda>_. 0)\<rparr>"

definition json_row_sample :: "json list" where
  "json_row_sample = [JUint 513, JInt 7, JString ''ab'']"

lemma json_sample_values:
  "rows_values no_floats sample_types [JArray json_row_sample] = Some [sample_row]"
  by (simp add: sample_types_def json_row_sample_def sample_row_def json_value_def json_scalar_def)

theorem table_rows_built_witness:
  "table_data_of_rows no_floats zero_malloc copy_realloc [JArray json_row_sample] sample_types =
     Some (owned (encoding [sample_row]))"
  using table_rows_built [OF zero_malloc_ok copy_realloc_ok, of "[JArray json_row_sample]" sample_types no_floats]
    json_sample_values
  by (simp add: zero_malloc_def copy_realloc_def sample_types_def column_supported_def)

lemma rows_values_wf:
  assumes "rows_values fo tys rows = Some vss" "8 + content_size vss < size_t_bound" "vs \<in> set vss"
  shows "list_all2 (\<lambda>ty v. value_type v = ty \<and> wf_value v) tys vs"
proof -
  have typed: "list_all2 (\<lambda>ty v. value_type v = ty \<and> (value_size v < size_t_bound \<longrightarrow> wf_value v)) tys vs"
    using rows_values_typed [OF assms(1)] assms(3) by blast
  have "value_size v < size_t_bound" if v: "v \<in> set vs" for v
  proof -
    have "value_size v \<le> row_size vs"
      unfolding row_size_def by (rule member_le_sum_list) (use v in auto)
    also have "\<dots> \<le> content_size vss"
      unfolding content_size_def by (rule member_le_sum_list) (use assms(3) in auto)
    finally show ?thesis using assms(2) by simp
  qed
  with typed show ?thesis by (auto simp: list_all2_conv_all_nth)
qed

text \<open>
  Rows posted as Json reach the table: when the object built from them is copied into a
  reachable table of these column types, the table holds exactly the converted rows.
\<close>

theorem json_rows_reach_table:
  assumes "table_data_of_rows fo malloc realloc rows tys = Some d" "rows_values fo tys rows = Some vss"
    and "malloc_ok malloc" "realloc_ok realloc" "\<forall>n. malloc n \<noteq> None" "\<forall>b n. realloc b n \<noteq> None"
    and "table_reachable t" "map col_type (t_columns t) = tys" "tys \<noteq> []" "rows \<noteq> []"
    and "8 + content_size vss < size_t_bound"
  shows "\<exists>buf t'. get_buffer d = Some buf \<and> table_copy buf t = Some (Copied t') \<and> rows_of t' = vss"
proof -
  have inv: "table_inv t" by (rule reachable_inv [OF assms(7)])
  have "\<forall>ty \<in> set tys. column_supported ty"
    using inv assms(8) by (auto simp: table_inv_def column_ok_def list_all2_conv_all_nth in_set_conv_nth)
  then have "d = owned (encoding vss)"
    using rows_built [OF assms(3,4,10), of tys fo] assms(1,2,5,6) by auto
  then have "get_buffer d = Some (encoding vss)" by simp
  moreover have "length (payload vss) = content_size vss"
    using rows_values_typed [OF assms(2)] by blast
  moreover have "\<forall>vs \<in> set vss. typed_row t vs"
    using rows_values_wf [OF assms(2,11)] assms(8) by (auto simp: typed_row_def list_all2_map1)
  moreover have "t_columns t \<noteq> []" using assms(8,9) by auto
  ultimately show ?thesis
    using copy_encoded [OF inv _ _ assms(11), of "[]"] by (auto simp: encoding_def)
qed

theorem json_rows_reach_table_witness:
  "\<exists>buf t'. get_buffer (owned (encoding [sample_row])) = Some buf \<and>
     table_copy buf (table_default sample_types) = Some (Copied t') \<and> rows_of t' = [sample_row]"
proof -
  have types: "map col_type (t_columns (table_default sample_types)) = sample_types"
    using sample_columns(1) by (simp add: sample_table_def add_row_def split: if_splits prod.splits)
  have built: "table_data_of_rows no_floats zero_malloc copy_realloc [JArray json_row_sample] sample_types =
      Some (owned (encoding [sample_row]))"
    using rows_built [OF zero_malloc_ok copy_realloc_ok, of "[JArray json_row_sample]" sample_types no_floats]
      json_sample_values
    by (simp add: zero_malloc_def copy_realloc_def sample_types_def column_supported_def)
  show ?thesis
    by (rule json_rows_reach_table [OF built json_sample_values zero_malloc_ok copy_realloc_ok _ _ sample_default types])
      (simp_all add: zero_malloc_def copy_realloc_def sample_types_def)
qed

text \<open>
  The text \<open>LookUpToJson\<close> makes of an encoding names its size and has the cells of its rows in
  order, whatever memory follows it; and for any object and any column types it ends.
\<close>

theorem lookup_text_of_encoding:
  assumes "\<forall>vs \<in> set vss. list_all2 (\<lambda>ty v. value_type v = ty \<and> wf_value v) tys vs"
    and "tys \<noteq> []" "vss \<noteq> []" "length (encoding vss) < size_t_bound"
    and "table_data_of_memory (Some (encoding vss @ post)) = Some d"
  shows "lookup_to_json fp fo tys d =
      Some (Some (''{'' @ quoted ''Buffer size'' @ '':'' @ show_nat (length (encoding vss)) @ '','' @
        quoted ''Rows'' @ '':[['' @ join ''],['' (map (row_text fp fo) vss) @ '']]}'')) \<and>
    (\<forall>d' tys'. lookup_to_json fp fo tys' d' \<noteq> None)"
proof
  let ?n = "8 + length (payload vss)"
  have n: "?n < size_t_bound" using assms(4) by (simp add: encoding_def)
  have "read_size ([] @ size_bytes ?n @ (payload vss @ post)) 0 = Some ?n"
    by (rule read_size_append) (use n in simp_all)
  then have d: "d = \<lparr>td_own = None, td_shared = Some (encoding vss @ post), td_size = word_of_nat ?n\<rparr>"
    using assms(5) by (simp add: table_data_of_memory_def encoding_def)
  have unat: "unat (word_of_nat ?n :: u64) = ?n" using n by (simp only: unat_of_nat) simp
  obtain w ws where w: "vss = w # ws" using assms(3) by (cases vss) auto
  then obtain v vs where v: "w = v # vs" "wf_value v"
    using assms(1,2) by (cases w) (auto simp: list_all2_Cons2)
  have "0 < length (payload vss)"
    using w v value_size_pos [of v] length_value_bytes [of v] by (simp add: payload_def)
  then have "unat (word_of_nat ?n :: u64) \<noteq> unat (8 :: u64)" unfolding unat by simp
  then have ne: "(word_of_nat ?n :: u64) \<noteq> 8" by metis
  have rows: "lookup_rows fp fo tys (size_bytes ?n @ payload vss @ post) ?n 8 acc =
      Some (LookText (acc @ join ''],['' (map (row_text fp fo) vss) @ '']]}'') ?n)" for acc
    unfolding w by (rule lookup_rows_payload) (use assms(1,2) w in simp_all)
  show "lookup_to_json fp fo tys d =
      Some (Some (''{'' @ quoted ''Buffer size'' @ '':'' @ show_nat (length (encoding vss)) @ '','' @
        quoted ''Rows'' @ '':[['' @ join ''],['' (map (row_text fp fo) vss) @ '']]}''))"
    using ne unat rows
    by (simp add: d lookup_to_json_def get_buffer_def encoding_def del: of_nat_add)
  show "\<forall>d' tys'. lookup_to_json fp fo tys' d' \<noteq> None"
    using lookup_rows_ends by (auto simp: lookup_to_json_def Let_def split: option.splits)
qed

theorem lookup_text_of_encoding_witness:
  "lookup_to_json (\<lambda>_. []) (\<lambda>_. []) [TUint8, TBool]
     \<lparr>td_own = None, td_shared = Some [10, 0, 0, 0, 0, 0, 0, 0, 7, 1], td_size = 10\<rparr> =
   Some (Some (''{'' @ quoted ''Buffer size'' @ '':10,'' @ quoted ''Rows'' @ '':[[7,true]]}''))"
proof -
  let ?vss = "[[Scalar (SUint8 7), Scalar (SBool True)]]"
  have enc: "encoding ?vss = [10, 0, 0, 0, 0, 0, 0, 0, 7, 1]"
    by (simp add: encoding_def payload_def word_bytes_def le_bytes_numeral)
  have "table_data_of_memory (Some (encoding ?vss @ [])) =
      Some \<lparr>td_own = None, td_shared = Some [10, 0, 0, 0, 0, 0, 0, 0, 7, 1], td_size = 10\<rparr>"
    unfolding enc by (simp add: table_data_of_memory_def read_size_def read_at_def)
  from lookup_text_of_encoding [OF _ _ _ _ this, of "[TUint8, TBool]" "\<lambda>_. []" "\<lambda>_. []"] show ?thesis
    unfolding enc by (simp add: show_nat.simps show_int_def digit_chars)
qed

end
