(* ===== verification/Standard.thy ===== *)
theory Standard
  imports TableBuffers
begin

text \<open>
  The standard protocol, \<open>protocol/dataHeader.cpp\<close>, \<open>protocol/standard.h\<close> and
  \<open>protocol/standard.cpp\<close>: the header of a message, the class \<open>Data\<close> with its items, the encoding
  of a message and the constructor that parses one, and the messages without items.

  A \<open>std::map\<close> is an association list in the order of its keys. The memory behind a pointer is the
  list of the bytes that may be read from there on; it is smaller than the address space, so that
  only a size field added to the offset without a read can make the offset wrap.
\<close>

section \<open>Header\<close>

record data_header =
  h_cipher :: u64
  h_bufferSize :: u64

definition header_of_buffer :: "byte list \<Rightarrow> data_header option" where
  "header_of_buffer buf =
     (case (read_at buf 0 8, read_at buf 8 8) of
        (Some c, Some n) \<Rightarrow> Some \<lparr>h_cipher = word_of_bytes c, h_bufferSize = word_of_bytes n\<rparr>
      | _ \<Rightarrow> None)"

definition header_of_cipher :: "u64 \<Rightarrow> data_header" where
  "header_of_cipher c = \<lparr>h_cipher = c, h_bufferSize = 16\<rparr>"

definition header_to_string :: "data_header \<Rightarrow> string" where
  "header_to_string h = ''Data header:'' @ newline @ ''{'' @ newline @ tabs 1 @ ''cipher      : '' @
     show_nat (unat (h_cipher h)) @ newline @ tabs 1 @ ''buffer size : '' @
     show_nat (unat (h_bufferSize h)) @ newline @ ''}''"

definition header_eq :: "data_header \<Rightarrow> data_header \<Rightarrow> bool" where
  "header_eq a b \<longleftrightarrow> h_cipher a = h_cipher b \<and> h_bufferSize a = h_bufferSize b"

section \<open>Ordered maps\<close>

text \<open>\<open>std::map::emplace\<close>: an existing entry is kept.\<close>

fun ordered_emplace :: "'k::linorder \<Rightarrow> 'v \<Rightarrow> ('k \<times> 'v) list \<Rightarrow> ('k \<times> 'v) list" where
  "ordered_emplace k v [] = [(k, v)]"
| "ordered_emplace k v ((k', v') # xs) =
     (if k < k' then (k, v) # (k', v') # xs
      else if k = k' then (k', v') # xs
      else (k', v') # ordered_emplace k v xs)"

section \<open>Items\<close>

datatype item = Value std_value | Table table_data

text \<open>The type of a value on the wire: empty optionals and strings have types of their own.\<close>

fun wire_type :: "std_value \<Rightarrow> std_type" where
  "wire_type (Scalar s) = scalar_type s"
| "wire_type (Optional t (Some _)) = optional_of t"
| "wire_type (Optional t None) = optional_empty_of t"
| "wire_type (Str s) = (if s = [] then TStringEmpty else TString)"
| "wire_type (TimerV _) = TTimer"
| "wire_type (DurationV _) = TDuration"

fun item_type :: "item \<Rightarrow> std_type" where
  "item_type (Value v) = wire_type v"
| "item_type (Table _) = TTableData"

text \<open>The bytes after the type and the key.\<close>

fun wire_bytes :: "std_value \<Rightarrow> byte list" where
  "wire_bytes (Scalar s) = scalar_bytes s"
| "wire_bytes (Optional _ (Some s)) = scalar_bytes s"
| "wire_bytes (Optional _ None) = []"
| "wire_bytes (Str s) = (if s = [] then [] else size_bytes (length s) @ map byte_of_char s)"
| "wire_bytes (TimerV t) = word_bytes 8 (m_point t)"
| "wire_bytes (DurationV d) = word_bytes 8 (m_nanoseconds d)"

fun wire_size :: "std_value \<Rightarrow> nat" where
  "wire_size (Scalar s) = scalar_size (scalar_type s)"
| "wire_size (Optional t (Some _)) = scalar_size t"
| "wire_size (Optional _ None) = 0"
| "wire_size (Str s) = (if s = [] then 0 else 8 + length s)"
| "wire_size (TimerV _) = 8"
| "wire_size (DurationV _) = 8"

text \<open>What \<open>SetData\<close> adds to the buffer size: the type, the key and the value.\<close>

fun item_size :: "item \<Rightarrow> u64" where
  "item_size (Value v) = word_of_nat (1 + 8 + wire_size v)"
| "item_size (Table d) = 1 + 8 + td_size d"

text \<open>\<open>None\<close>: a table's bytes are copied from a null pointer or from behind its memory.\<close>

fun item_bytes :: "item \<Rightarrow> byte list option" where
  "item_bytes (Value v) = Some (wire_bytes v)"
| "item_bytes (Table d) =
     (case get_buffer d of None \<Rightarrow> None | Some mem \<Rightarrow> read_at mem 0 (unat (td_size d)))"

section \<open>Data\<close>

record std_data =
  sd_cipher :: u64
  sd_bufferSize :: u64
  sd_data :: "(u64 \<times> item) list"
  sd_types :: "(u64 \<times> std_type) list"

definition data_make :: "u64 \<Rightarrow> std_data" where
  "data_make c = \<lparr>sd_cipher = c, sd_bufferSize = 16, sd_data = [], sd_types = []\<rparr>"

definition set_data :: "u64 \<Rightarrow> item \<Rightarrow> std_data \<Rightarrow> std_data" where
  "set_data k v d =
     (if map_of (sd_data d) k \<noteq> None then d
      else d\<lparr>sd_data := ordered_emplace k v (sd_data d),
             sd_types := ordered_emplace k (item_type v) (sd_types d),
             sd_bufferSize := sd_bufferSize d + item_size v\<rparr>)"

text \<open>A table is encoded first; the size counted is the one the table has.\<close>

definition set_table :: "(nat \<Rightarrow> byte list option) \<Rightarrow> u64 \<Rightarrow> table \<Rightarrow> std_data \<Rightarrow> std_data option" where
  "set_table malloc k t d =
     (if map_of (sd_data d) k \<noteq> None then Some d
      else
        (case table_data_of_table malloc t of
           None \<Rightarrow> None
         | Some td \<Rightarrow>
             Some (d\<lparr>sd_types := ordered_emplace k TTableData (sd_types d),
                     sd_bufferSize := sd_bufferSize d + (1 + 8 + t_bufferSize t),
                     sd_data := ordered_emplace k (Table td) (sd_data d)\<rparr>)))"

definition data_clear :: "std_data \<Rightarrow> std_data" where
  "data_clear d = d\<lparr>sd_data := [], sd_types := [], sd_bufferSize := 16\<rparr>"

section \<open>Encode\<close>

text \<open>An item without a type is skipped. \<open>None\<close> is a write or read outside the memory.\<close>

definition encode_item ::
    "(u64 \<times> std_type) list \<Rightarrow> u64 \<times> item \<Rightarrow> byte list \<times> nat \<Rightarrow> (byte list \<times> nat) option" where
  "encode_item types = (\<lambda>(k, v) (buf, off).
     (case map_of types k of
        None \<Rightarrow> Some (buf, off)
      | Some ty \<Rightarrow>
          (case item_bytes v of
             None \<Rightarrow> None
           | Some bs \<Rightarrow>
               map_option (\<lambda>buf'. (buf', off + (1 + 8 + length bs)))
                 (write_at buf off (type_code ty # word_bytes 8 k @ bs)))))"

fun encode_items ::
    "(u64 \<times> std_type) list \<Rightarrow> (u64 \<times> item) list \<Rightarrow> byte list \<times> nat \<Rightarrow> (byte list \<times> nat) option" where
  "encode_items types [] s = Some s"
| "encode_items types (kv # kvs) s =
     (case encode_item types kv s of None \<Rightarrow> None | Some s' \<Rightarrow> encode_items types kvs s')"

definition data_encode :: "(nat \<Rightarrow> byte list option) \<Rightarrow> std_data \<Rightarrow> byte list option" where
  "data_encode malloc d =
     (case malloc (unat (sd_bufferSize d)) of
        None \<Rightarrow> None
      | Some buf \<Rightarrow>
          (case write_at buf 0 (word_bytes 8 (sd_cipher d) @ word_bytes 8 (sd_bufferSize d)) of
             None \<Rightarrow> None
           | Some buf' \<Rightarrow>
               (if sd_data d = [] then Some buf'
                else map_option fst (encode_items (sd_types d) (sd_data d) (buf', 16)))))"

section \<open>Parsing\<close>

definition wire_decode :: "std_type \<Rightarrow> byte list \<Rightarrow> nat \<Rightarrow> (std_value \<times> nat) option" where
  "wire_decode t buf off =
     (if t = TString then
        (case read_size buf off of
           None \<Rightarrow> None
         | Some n \<Rightarrow>
             map_option (\<lambda>bs. (Str (map char_of_byte bs), off + 8 + n)) (read_at buf (off + 8) n))
      else if t = TStringEmpty then Some (Str [], off)
      else if t = TTimer then
        map_option (\<lambda>bs. (TimerV (Timer (word_of_bytes bs)), off + 8)) (read_at buf off 8)
      else if t = TDuration then
        map_option (\<lambda>bs. (DurationV (Duration (word_of_bytes bs)), off + 8)) (read_at buf off 8)
      else
        (case (base_of t, base_of_empty t) of
           (Some b, _) \<Rightarrow>
             (case read_at buf off (scalar_size b) of
                None \<Rightarrow> None
              | Some bs \<Rightarrow>
                  map_option (\<lambda>s. (Optional b (Some s), off + scalar_size b)) (scalar_of_bytes b bs))
         | (None, Some b) \<Rightarrow> Some (Optional b None, off)
         | (None, None) \<Rightarrow>
             (case read_at buf off (scalar_size t) of
                None \<Rightarrow> None
              | Some bs \<Rightarrow>
                  map_option (\<lambda>s. (Scalar s, off + scalar_size t)) (scalar_of_bytes t bs))))"

definition wire_supported :: "std_type \<Rightarrow> bool" where
  "wire_supported t \<longleftrightarrow>
     0 < scalar_size t \<or> base_of t \<noteq> None \<or> base_of_empty t \<noteq> None \<or>
     t \<in> {TString, TStringEmpty, TTimer, TDuration}"

text \<open>
  One pass of the loop: a read outside the memory (\<open>ItemFault\<close>), a type without a case
  (\<open>ItemUnknown\<close>, the constructor returns), or the item and the next offset. The table's object
  is a view of the memory from here on; the size it declares is added to the offset unchecked.
\<close>

datatype item_result = ItemFault | ItemUnknown | ItemAt u64 std_type item nat

definition item_decode :: "byte list \<Rightarrow> nat \<Rightarrow> item_result" where
  "item_decode buf off =
     (case (read_at buf off 1, read_at buf (off + 1) 8) of
        (Some tb, Some kb) \<Rightarrow>
          (case type_of_code (word_of_bytes tb) of
             None \<Rightarrow> ItemUnknown
           | Some t \<Rightarrow>
               (if t = TTableData then
                  (case (table_data_of_memory (Some (drop (off + 9) buf)), read_size buf (off + 9)) of
                     (Some td, Some n) \<Rightarrow>
                       ItemAt (word_of_bytes kb) t (Table td) ((off + 9 + n) mod size_t_bound)
                   | _ \<Rightarrow> ItemFault)
                else if wire_supported t then
                  (case wire_decode t buf (off + 9) of
                     None \<Rightarrow> ItemFault
                   | Some (v, off') \<Rightarrow> ItemAt (word_of_bytes kb) t (Value v) off')
                else ItemUnknown))
      | _ \<Rightarrow> ItemFault)"

datatype parse_result = ParseFault | Parsed std_data

partial_function (option) parse_items :: "byte list \<Rightarrow> nat \<Rightarrow> std_data \<Rightarrow> parse_result option" where
  "parse_items buf off d =
     (if unat (sd_bufferSize d) > off then
        (case item_decode buf off of
           ItemFault \<Rightarrow> Some ParseFault
         | ItemUnknown \<Rightarrow> Some (Parsed d)
         | ItemAt k t v off' \<Rightarrow>
             parse_items buf off'
               (d\<lparr>sd_data := ordered_emplace k v (sd_data d),
                  sd_types := ordered_emplace k t (sd_types d)\<rparr>))
      else Some (Parsed d))"

definition data_parse :: "data_header \<Rightarrow> byte list \<Rightarrow> parse_result option" where
  "data_parse h buf =
     parse_items buf 16
       \<lparr>sd_cipher = h_cipher h, sd_bufferSize = h_bufferSize h, sd_data = [], sd_types = []\<rparr>"

section \<open>Text\<close>

fun item_text :: "(scalar \<Rightarrow> string) \<Rightarrow> item \<Rightarrow> string" where
  "item_text fp (Value v) = show_value fp v"
| "item_text fp (Table d) = table_data_to_string d"

definition data_to_string :: "(scalar \<Rightarrow> string) \<Rightarrow> std_data \<Rightarrow> string" where
  "data_to_string fp d =
     ''Standard data:'' @ newline @ ''{'' @ newline @ tabs 1 @ ''Cipher : '' @
     show_nat (unat (sd_cipher d)) @ newline @ tabs 1 @ ''Buffer size : '' @
     show_nat (unat (sd_bufferSize d)) @
     concat (map (\<lambda>(k, v).
       case map_of (sd_types d) k of
         None \<Rightarrow> []
       | Some ty \<Rightarrow> newline @ tabs 1 @ show_nat (unat k) @ '' ('' @ type_name ty @ '') : '' @
           item_text fp v) (sd_data d)) @
     newline @ ''}''"

section \<open>Sending\<close>

text \<open>The ciphers of the protocol.\<close>

datatype action =
  ActionHello | MetadataResponse | ParametersResponse | MetadataRequest | ParametersRequest
| ActionPause | ActionRun | ActionDelete | ActionModify

fun cipher :: "action \<Rightarrow> u64" where
  "cipher ActionHello = 934875930"
| "cipher MetadataResponse = 934875931"
| "cipher ParametersResponse = 934875932"
| "cipher MetadataRequest = 934875933"
| "cipher ParametersRequest = 934875934"
| "cipher ActionPause = 934875935"
| "cipher ActionRun = 934875936"
| "cipher ActionDelete = 934875937"
| "cipher ActionModify = 934875938"

text \<open>
  \<open>send\<close> gives \<open>None\<close> for success or the error number; a reset connection (104) is not an error.
\<close>

datatype send_result = Sent | SendReset | SendFailed int

definition send_bytes :: "(byte list \<Rightarrow> int option) \<Rightarrow> byte list \<Rightarrow> send_result" where
  "send_bytes send bs =
     (case send bs of
        None \<Rightarrow> Sent
      | Some e \<Rightarrow> (if e = 104 then SendReset else SendFailed e))"

definition send_data ::
    "(nat \<Rightarrow> byte list option) \<Rightarrow> (byte list \<Rightarrow> int option) \<Rightarrow> std_data \<Rightarrow> send_result option" where
  "send_data malloc send d =
     (case data_encode malloc d of
        None \<Rightarrow> None
      | Some buf \<Rightarrow> map_option (send_bytes send) (read_at buf 0 (unat (sd_bufferSize d))))"

text \<open>The messages without items are two static fields.\<close>

definition action_bytes :: "action \<Rightarrow> byte list" where
  "action_bytes a = word_bytes 8 (cipher a) @ word_bytes 8 (16 :: u64)"

definition send_action :: "(byte list \<Rightarrow> int option) \<Rightarrow> action \<Rightarrow> send_result" where
  "send_action send a = send_bytes send (action_bytes a)"

end
