(* ===== verification/StandardSpec.thy ===== *)
theory StandardSpec
  imports Standard
begin

text \<open>
  What the standard protocol promises: the invariant of a message under \<open>SetData\<close> and \<open>Clear\<close>, the
  layout of its encoding, the round trip through the parsing constructor, and where the parser
  does not end. The values of items are an instance of the codec interface.
\<close>

section \<open>Values as a codec\<close>

lemma optional_empty_of_neq [simp]:
  "optional_base t \<Longrightarrow> base_of (optional_empty_of t) = None"
  "optional_base t \<Longrightarrow> optional_empty_of t \<noteq> TString"
  "optional_base t \<Longrightarrow> optional_empty_of t \<noteq> TStringEmpty"
  "optional_base t \<Longrightarrow> optional_empty_of t \<noteq> TTimer"
  "optional_base t \<Longrightarrow> optional_empty_of t \<noteq> TDuration"
  "optional_base t \<Longrightarrow> optional_empty_of t \<noteq> TTableData"
  by (auto simp: optional_base_def)

lemma optional_of_wire [simp]: "optional_of t \<noteq> TStringEmpty" "optional_of t \<noteq> TTableData"
  by (cases t; simp)+

lemma scalar_type_wire [simp]:
  "scalar_type s \<noteq> TStringEmpty" "scalar_type s \<noteq> TTableData" "base_of_empty (scalar_type s) = None"
  by (cases s; simp)+

lemma length_wire_bytes [simp, buffer_simps]:
  "wf_value v \<Longrightarrow> length (wire_bytes v) = wire_size v"
  by (cases v rule: wf_value.cases) auto

lemma wire_type_supported: "wf_value v \<Longrightarrow> wire_supported (wire_type v) \<and> wire_type v \<noteq> TTableData"
  by (cases v rule: wf_value.cases)
    (auto simp: wire_supported_def scalar_size_pos)

lemma wire_decode_bytes:
  assumes "wire_type v = c" "wf_value v"
  shows "wire_decode c (pre @ wire_bytes v @ post) (length pre)
           = Some (v, length pre + length (wire_bytes v))"
  using assms(2)
proof (cases v rule: value_cases)
  case (empty t)
  then show ?thesis using assms by (auto simp: wire_decode_def)
next
  case (filled t s)
  have "read_at (pre @ scalar_bytes s @ post) (length pre) (scalar_size t) = Some (scalar_bytes s)"
    by (rule read_at_pre) (use filled assms in auto)
  then show ?thesis using filled assms by (auto simp: wire_decode_def)
next
  case (str s)
  have size: "read_size (pre @ size_bytes (length s) @ (map byte_of_char s @ post)) (length pre)
      = Some (length s)"
    by (rule read_size_append) (use str assms in simp_all)
  have "read_at ((pre @ size_bytes (length s)) @ map byte_of_char s @ post)
      (length pre + 8) (length s) = Some (map byte_of_char s)"
    by (rule read_at_pre) simp_all
  then show ?thesis using str assms size
    by (cases "s = []") (auto simp: wire_decode_def add.assoc)
next
  case (scalar s)
  have "read_at (pre @ scalar_bytes s @ post) (length pre) (scalar_size (scalar_type s))
      = Some (scalar_bytes s)"
    by (rule read_at_pre) simp_all
  then show ?thesis using scalar assms by (auto simp: wire_decode_def)
next
  case (timer t)
  then show ?thesis using assms
    by (cases t) (auto simp: wire_decode_def read_at_pre word_of_bytes_word_bytes)
next
  case (duration d)
  then show ?thesis using assms
    by (cases d) (auto simp: wire_decode_def read_at_pre word_of_bytes_word_bytes)
qed

interpretation wires: codec "\<lambda>t v. wire_type v = t \<and> wf_value v" wire_bytes wire_decode
  by unfold_locales (simp add: wire_decode_bytes)

section \<open>Ordered maps\<close>

lemma map_of_ordered_emplace:
  "map_of (ordered_emplace k v xs) =
    (if map_of xs k = None then (map_of xs)(k \<mapsto> v) else map_of xs)" if "sorted (map fst xs)"
  using that
proof (induction xs)
  case (Cons x xs)
  obtain k' v' where x: "x = (k', v')" by force
  have "map_of xs k = None" if "k < k'"
    using Cons.prems that by (force simp: x map_of_eq_None_iff)
  with Cons show ?case by (auto simp: x fun_upd_twist)
qed simp

lemma keys_ordered_emplace [simp]:
  "fst ` set (ordered_emplace k v xs) = insert k (fst ` set xs)"
  by (induction k v xs rule: ordered_emplace.induct) (simp_all add: insert_commute)

lemma sorted_ordered_emplace:
  "sorted_wrt (<) (map fst xs) \<Longrightarrow> sorted_wrt (<) (map fst (ordered_emplace k v xs))"
proof (induction xs)
  case (Cons x xs)
  obtain k' v' where x: "x = (k', v')" by force
  with Cons show ?case by (auto simp: x)
qed simp

lemma ordered_emplace_last:
  "\<forall>k' \<in> fst ` set xs. k' < k \<Longrightarrow> ordered_emplace k v xs = xs @ [(k, v)]"
  by (induction xs) (auto simp: less_le_not_le)

lemma ordered_emplace_map:
  "ordered_emplace k (f v) (map (\<lambda>(k, v). (k, f v)) xs) = map (\<lambda>(k, v). (k, f v)) (ordered_emplace k v xs)"
  by (induction xs) auto

section \<open>Messages\<close>

text \<open>A table in a message has its whole encoding in memory, with its own size in front.\<close>

definition table_item_ok :: "table_data \<Rightarrow> bool" where
  "table_item_ok td \<longleftrightarrow>
     (\<exists>bs. item_bytes (Table td) = Some bs \<and> read_size bs 0 = Some (unat (td_size td)))"

fun item_ok :: "item \<Rightarrow> bool" where
  "item_ok (Value v) \<longleftrightarrow> wf_value v"
| "item_ok (Table td) \<longleftrightarrow> table_item_ok td"

fun item_length :: "item \<Rightarrow> nat" where
  "item_length (Value v) = wire_size v"
| "item_length (Table td) = unat (td_size td)"

definition items_size :: "(u64 \<times> item) list \<Rightarrow> nat" where
  "items_size kvs = sum_list (map (\<lambda>(k, v). 9 + item_length v) kvs)"

definition item_types :: "(u64 \<times> item) list \<Rightarrow> (u64 \<times> std_type) list" where
  "item_types kvs = map (\<lambda>(k, v). (k, item_type v)) kvs"

definition std_inv :: "std_data \<Rightarrow> bool" where
  "std_inv d \<longleftrightarrow>
     sorted_wrt (<) (map fst (sd_data d)) \<and> sd_types d = item_types (sd_data d) \<and>
     (\<forall>(k, v) \<in> set (sd_data d). item_ok v) \<and>
     sd_bufferSize d = word_of_nat (16 + items_size (sd_data d))"

lemma items_size_Cons [simp]:
  "items_size [] = 0" "items_size ((k, v) # kvs) = 9 + item_length v + items_size kvs"
  by (simp_all add: items_size_def)

lemma item_size_length: "item_size v = word_of_nat (9 + item_length v)"
  by (cases v) simp_all

lemma items_size_emplace:
  "map_of kvs k = None \<Longrightarrow> items_size (ordered_emplace k v kvs) = 9 + item_length v + items_size kvs"
  by (induction kvs) (auto split: if_splits)

lemma set_ordered_emplace: "set (ordered_emplace k v kvs) \<subseteq> insert (k, v) (set kvs)"
  by (induction k v kvs rule: ordered_emplace.induct) auto

lemma item_types_emplace:
  "item_types (ordered_emplace k v kvs) = ordered_emplace k (item_type v) (item_types kvs)"
  by (simp add: item_types_def ordered_emplace_map)

lemma map_of_item_types: "map_of (item_types kvs) k = map_option item_type (map_of kvs k)"
  by (induction kvs) (auto simp: item_types_def)

lemma data_make_inv: "std_inv (data_make c)"
  by (simp add: std_inv_def data_make_def item_types_def)

lemma data_clear_inv: "std_inv (data_clear d)"
  by (simp add: std_inv_def data_clear_def item_types_def)

lemma set_data_inv:
  assumes "std_inv d" "item_ok v"
  shows "std_inv (set_data k v d)"
proof (cases "map_of (sd_data d) k")
  case None
  have "sd_bufferSize d + item_size v = word_of_nat (16 + items_size (ordered_emplace k v (sd_data d)))"
    using assms(1) None by (simp add: std_inv_def item_size_length items_size_emplace ac_simps)
  moreover have "\<forall>(k', v') \<in> set (ordered_emplace k v (sd_data d)). item_ok v'"
    using assms set_ordered_emplace [of k v "sd_data d"] by (auto simp: std_inv_def)
  ultimately show ?thesis using assms(1) None
    by (simp add: set_data_def std_inv_def item_types_emplace sorted_ordered_emplace)
qed (use assms in \<open>simp add: set_data_def\<close>)

lemma table_data_of_table_ok:
  assumes "table_inv t" "malloc_ok malloc" "8 + content_size (rows_of t) < size_t_bound"
    and "malloc (8 + content_size (rows_of t)) \<noteq> None"
  shows "table_data_of_table malloc t =
      Some \<lparr>td_own = Some (Some (size_bytes (8 + content_size (rows_of t)) @ payload (rows_of t))),
        td_shared = None, td_size = t_bufferSize t\<rparr>"
    and "table_item_ok \<lparr>td_own = Some (Some (size_bytes (8 + content_size (rows_of t)) @ payload (rows_of t))),
        td_shared = None, td_size = t_bufferSize t\<rparr>"
proof -
  let ?n = "8 + content_size (rows_of t)"
  obtain buf where "malloc ?n = Some buf" using assms(4) by blast
  from encode_inv [OF assms(1-3) this]
  show "table_data_of_table malloc t = Some \<lparr>td_own = Some (Some (size_bytes ?n @ payload (rows_of t))),
      td_shared = None, td_size = t_bufferSize t\<rparr>"
    by (simp add: table_data_of_table_def)
  have "length (payload (rows_of t)) = content_size (rows_of t)"
    using assms(1) by (simp add: table_inv_columns_ok columns_ok_length)
  moreover have "read_size ([] @ size_bytes ?n @ payload (rows_of t)) 0 = Some ?n"
    by (rule read_size_append) (use assms(3) in simp_all)
  moreover have "unat (t_bufferSize t) = ?n"
    using assms(1,3) by (rule buffer_size_nat)
  ultimately show "table_item_ok \<lparr>td_own = Some (Some (size_bytes ?n @ payload (rows_of t))),
      td_shared = None, td_size = t_bufferSize t\<rparr>"
    by (simp add: table_item_ok_def get_buffer_def read_at_def)
qed

lemma set_table_set_data:
  assumes "table_data_of_table malloc t = Some td"
  shows "set_table malloc k t d = Some (set_data k (Table td) d)"
  using assms
  by (auto simp: set_table_def set_data_def table_data_of_table_def split: encode_result.splits)

section \<open>Encoding a message\<close>

definition item_encoding :: "u64 \<times> item \<Rightarrow> byte list" where
  "item_encoding = (\<lambda>(k, v). type_code (item_type v) # word_bytes 8 k @ the (item_bytes v))"

definition header_bytes :: "std_data \<Rightarrow> byte list" where
  "header_bytes d = word_bytes 8 (sd_cipher d) @ word_bytes 8 (sd_bufferSize d)"

definition data_encoding :: "std_data \<Rightarrow> byte list" where
  "data_encoding d = header_bytes d @ concat (map item_encoding (sd_data d))"

lemma item_bytes_ok: "item_ok v \<Longrightarrow> \<exists>bs. item_bytes v = Some bs \<and> length bs = item_length v"
  by (cases v) (auto simp: table_item_ok_def dest: read_at_length split: option.splits)

lemma length_item_encoding: "item_ok v \<Longrightarrow> length (item_encoding (k, v)) = 9 + item_length v"
  using item_bytes_ok [of v] by (auto simp: item_encoding_def)

lemma length_item_encodings:
  "\<forall>(k, v) \<in> set kvs. item_ok v \<Longrightarrow> length (concat (map item_encoding kvs)) = items_size kvs"
proof (induction kvs)
  case (Cons kv kvs)
  then show ?case using length_item_encoding [of "snd kv" "fst kv"] by (cases kv) auto
qed simp

lemma encode_items_spec:
  assumes "\<forall>(k, v) \<in> set kvs. item_ok v \<and> map_of types k = Some (item_type v)"
    and "items_size kvs \<le> length rest"
  shows "encode_items types kvs (pre @ rest, length pre) =
    Some (pre @ concat (map item_encoding kvs) @ drop (items_size kvs) rest, length pre + items_size kvs)"
  using assms
proof (induction kvs arbitrary: pre rest)
  case (Cons kv kvs)
  obtain k v where kv: "kv = (k, v)" by force
  with Cons.prems obtain bs where bs: "item_bytes v = Some bs" "length bs = item_length v"
    and ty: "map_of types k = Some (item_type v)"
    using item_bytes_ok [of v] by auto
  have enc: "type_code (item_type v) # word_bytes 8 k @ bs = item_encoding kv"
    using bs by (simp add: kv item_encoding_def)
  have len: "length (item_encoding kv) = 9 + item_length v"
    using bs by (simp add: kv item_encoding_def)
  have "encode_item types kv (pre @ rest, length pre) =
      Some ((pre @ item_encoding kv) @ drop (9 + item_length v) rest, length (pre @ item_encoding kv))"
    using Cons.prems(2) bs ty enc len
    by (simp add: kv encode_item_def write_at_spec)
  moreover have "encode_items types kvs ((pre @ item_encoding kv) @ drop (9 + item_length v) rest,
      length (pre @ item_encoding kv)) =
    Some ((pre @ item_encoding kv) @ concat (map item_encoding kvs) @
      drop (items_size kvs) (drop (9 + item_length v) rest),
      length (pre @ item_encoding kv) + items_size kvs)"
    by (rule Cons.IH) (use Cons.prems kv in auto)
  ultimately show ?case using len by (simp add: kv ac_simps)
qed simp

lemma std_size_nat:
  assumes "std_inv d" "16 + items_size (sd_data d) < size_t_bound"
  shows "unat (sd_bufferSize d) = 16 + items_size (sd_data d)"
proof -
  have "unat (sd_bufferSize d) = (16 + items_size (sd_data d)) mod size_t_bound"
    using assms(1) by (simp only: std_inv_def unat_of_nat len_of_numeral_defs) simp
  with assms(2) show ?thesis by simp
qed

lemma sorted_map_of:
  "sorted_wrt (<) (map fst kvs) \<Longrightarrow> (k :: u64, v) \<in> set kvs \<Longrightarrow> map_of kvs k = Some v"
  by (rule map_of_is_SomeI) (auto simp: strict_sorted_imp_sorted strict_sorted_iff)

lemma length_data_encoding:
  "std_inv d \<Longrightarrow> length (data_encoding d) = 16 + items_size (sd_data d)"
  using length_item_encodings [of "sd_data d"]
  by (simp add: std_inv_def data_encoding_def header_bytes_def)

lemma data_encode_inv:
  assumes "std_inv d" "malloc_ok malloc" "16 + items_size (sd_data d) < size_t_bound"
    and "malloc (16 + items_size (sd_data d)) = Some buf"
  shows "data_encode malloc d = Some (data_encoding d)"
proof -
  have size: "unat (sd_bufferSize d) = 16 + items_size (sd_data d)"
    using assms(1,3) by (rule std_size_nat)
  have len: "length buf = 16 + items_size (sd_data d)"
    using assms(2,4) by (simp add: malloc_ok_def)
  have head: "write_at buf 0 (header_bytes d) = Some (header_bytes d @ drop 16 buf)"
    using len by (simp add: write_at_def header_bytes_def)
  have "encode_items (sd_types d) (sd_data d) (header_bytes d @ drop 16 buf, length (header_bytes d)) =
    Some (header_bytes d @ concat (map item_encoding (sd_data d)) @ drop (items_size (sd_data d)) (drop 16 buf),
      length (header_bytes d) + items_size (sd_data d))"
    by (rule encode_items_spec)
      (use assms(1) len in \<open>auto simp: std_inv_def map_of_item_types dest: sorted_map_of\<close>)
  then show ?thesis using size len head assms(4)
    by (simp add: data_encode_def data_encoding_def header_bytes_def)
qed

section \<open>Parsing a message\<close>

text \<open>A parsed item is the one that was encoded: a table is equal by the code's \<open>operator==\<close>.\<close>

fun same_item :: "item \<Rightarrow> item \<Rightarrow> bool" where
  "same_item (Value v) w \<longleftrightarrow> w = Value v"
| "same_item (Table a) w \<longleftrightarrow> (\<exists>b. w = Table b \<and> table_data_eq False a b = Some True)"

lemma same_item_type: "same_item v w \<Longrightarrow> item_type v = item_type w"
  by (cases v) auto

definition same_items :: "(u64 \<times> item) list \<Rightarrow> (u64 \<times> item) list \<Rightarrow> bool" where
  "same_items = list_all2 (\<lambda>(k, v) (k', v'). k = k' \<and> same_item v v')"

lemma same_items_types: "same_items kvs kvs' \<Longrightarrow> item_types kvs = item_types kvs'"
  unfolding same_items_def by (induction rule: list_all2_induct) (auto simp: item_types_def same_item_type)

lemma item_decode_encoding:
  assumes "item_ok v" "length pre + length (item_encoding (k, v)) < size_t_bound"
  shows "\<exists>w. item_decode (pre @ item_encoding (k, v) @ post) (length pre) =
      ItemAt k (item_type v) w (length pre + length (item_encoding (k, v))) \<and> same_item v w"
proof -
  obtain bs where bs: "item_bytes v = Some bs" "length bs = item_length v"
    using item_bytes_ok [OF assms(1)] by blast
  let ?t = "type_code (item_type v)"
  define buf where "buf = pre @ item_encoding (k, v) @ post"
  have buf: "buf = pre @ [?t] @ word_bytes 8 k @ bs @ post"
    by (simp add: buf_def item_encoding_def bs(1))
  have len: "length (item_encoding (k, v)) = 9 + item_length v"
    by (simp add: item_encoding_def bs)
  have r1: "read_at buf (length pre) 1 = Some [?t]"
    unfolding buf by (rule read_at_pre) simp_all
  have "read_at ((pre @ [?t]) @ word_bytes 8 k @ bs @ post) (length pre + 1) 8 = Some (word_bytes 8 k)"
    by (rule read_at_pre) simp_all
  then have r2: "read_at buf (length pre + 1) 8 = Some (word_bytes 8 k)"
    unfolding buf by simp
  have code: "word_of_bytes [?t] = ?t"
    by (simp add: word_of_bytes_def)
  have key: "word_of_bytes (word_bytes 8 k) = k"
    by (rule word_of_bytes_word_bytes) simp
  define p where "p = pre @ [?t] @ word_bytes 8 k"
  have p: "length p = length pre + 9" "buf = p @ bs @ post"
    by (simp_all add: p_def buf)
  have "\<exists>w. item_decode buf (length pre) =
      ItemAt k (item_type v) w (length pre + length (item_encoding (k, v))) \<and> same_item v w"
  proof (cases v)
    case (Value x)
    then have x: "wf_value x" "bs = wire_bytes x" using assms(1) bs by simp_all
    have "wire_decode (wire_type x) (p @ bs @ post) (length pre + 9) = Some (x, length pre + 9 + length bs)"
      using wire_decode_bytes [OF refl x(1), of p post] p(1) x(2) by simp
    then show ?thesis
      using r1 r2 code key wire_type_supported [OF x(1)] Value len bs
      by (simp add: item_decode_def p(2))
  next
    case (Table td)
    let ?view = "\<lparr>td_own = None, td_shared = Some (bs @ post), td_size = td_size td\<rparr>"
    have n: "read_size bs 0 = Some (unat (td_size td))" "length bs = unat (td_size td)"
      using assms(1) bs Table by (auto simp: table_item_ok_def)
    then have "8 \<le> length bs" by (auto simp: read_size_def read_at_def split: if_splits)
    then have n': "read_size (bs @ post) 0 = Some (unat (td_size td))"
      using n by (simp add: read_size_def read_at_def)
    then have "read_size (p @ bs @ post) (length pre + 9) = Some (unat (td_size td))"
      using p(1) by (simp add: read_size_def read_at_def split: if_splits)
    moreover have "length pre + 9 + unat (td_size td) < size_t_bound"
      using assms(2) len Table by simp
    ultimately have "item_decode buf (length pre) =
        ItemAt k TTableData (Table ?view) (length pre + 9 + unat (td_size td))"
      using r1 r2 code key Table n' type_of_code_type_code [of TTableData] p(1)
      by (simp add: item_decode_def p(2) table_data_of_memory_def)
    moreover have "table_data_eq False td ?view = Some True"
      using bs(1) n(2) Table
      by (auto simp: table_data_eq_def get_buffer_def read_at_def split: option.splits if_splits)
    ultimately show ?thesis using Table len by simp
  qed
  then show ?thesis unfolding buf_def .
qed

lemma parse_items_encoding:
  assumes "\<forall>(k, v) \<in> set kvs. item_ok v" "sorted_wrt (<) (map fst (sd_data d @ kvs))"
    and "off = length pre" "unat (sd_bufferSize d) = length pre + items_size kvs"
    and "sd_types d = item_types (sd_data d)"
  shows "\<exists>kvs'. parse_items (pre @ concat (map item_encoding kvs) @ post) off d =
      Some (Parsed (d\<lparr>sd_data := sd_data d @ kvs', sd_types := item_types (sd_data d @ kvs')\<rparr>)) \<and>
    same_items kvs kvs'"
  using assms
proof (induction kvs arbitrary: d pre off)
  case Nil
  then show ?case
    by (subst parse_items.simps) (simp add: same_items_def)
next
  case (Cons kv kvs)
  obtain k v where kv: "kv = (k, v)" by force
  let ?e = "item_encoding kv" and ?post = "concat (map item_encoding kvs) @ post"
  have v: "item_ok v" and len: "length ?e = 9 + item_length v"
    using Cons.prems(1) length_item_encoding by (auto simp: kv)
  have fit: "length pre + length ?e < size_t_bound"
    using unat_bound [of "sd_bufferSize d"] Cons.prems(4) len by (simp add: kv)
  obtain w where w: "item_decode (pre @ ?e @ ?post) (length pre) =
      ItemAt k (item_type v) w (length pre + length ?e)" "same_item v w"
    using item_decode_encoding [OF v, of pre k ?post] fit by (auto simp: kv)
  let ?d = "d\<lparr>sd_data := sd_data d @ [(k, w)], sd_types := item_types (sd_data d @ [(k, w)])\<rparr>"
  have new: "\<forall>k' \<in> fst ` set (sd_data d). k' < k"
    using Cons.prems(2) by (auto simp: kv sorted_wrt_append)
  then have last: "ordered_emplace k w (sd_data d) = sd_data d @ [(k, w)]"
    by (rule ordered_emplace_last)
  moreover have "ordered_emplace k (item_type v) (sd_types d) = item_types (sd_data d @ [(k, w)])"
    using item_types_emplace [of k w "sd_data d"] same_item_type [OF w(2)] Cons.prems(5)
    by (simp add: last)
  ultimately have "parse_items (pre @ ?e @ ?post) off d =
      parse_items (pre @ ?e @ ?post) (length pre + length ?e) ?d"
    using Cons.prems(3,4) w(1) kv by (subst parse_items.simps) simp
  moreover have "\<exists>kvs'. parse_items ((pre @ ?e) @ ?post) (length pre + length ?e) ?d =
      Some (Parsed (?d\<lparr>sd_data := sd_data ?d @ kvs', sd_types := item_types (sd_data ?d @ kvs')\<rparr>)) \<and>
    same_items kvs kvs'"
    by (rule Cons.IH) (use Cons.prems len kv in auto)
  ultimately obtain kvs' where "same_items kvs kvs'"
    "parse_items (pre @ ?e @ ?post) off d =
      Some (Parsed (d\<lparr>sd_data := sd_data d @ (k, w) # kvs', sd_types := item_types (sd_data d @ (k, w) # kvs')\<rparr>))"
    by auto
  then show ?case using w(2) kv
    by (intro exI [of _ "(k, w) # kvs'"]) (simp add: same_items_def)
qed

lemma header_of_encoding:
  "header_of_buffer (data_encoding d @ post) = Some \<lparr>h_cipher = sd_cipher d, h_bufferSize = sd_bufferSize d\<rparr>"
proof -
  let ?rest = "concat (map item_encoding (sd_data d)) @ post"
  have "read_at ([] @ word_bytes 8 (sd_cipher d) @ (word_bytes 8 (sd_bufferSize d) @ ?rest)) 0 8
      = Some (word_bytes 8 (sd_cipher d))"
    by (rule read_at_pre) simp_all
  moreover have "read_at (word_bytes 8 (sd_cipher d) @ word_bytes 8 (sd_bufferSize d) @ ?rest) 8 8
      = Some (word_bytes 8 (sd_bufferSize d))"
    by (rule read_at_pre) simp_all
  ultimately show ?thesis
    by (simp add: header_of_buffer_def data_encoding_def header_bytes_def word_of_bytes_word_bytes)
qed

lemma data_parse_encoding:
  assumes "std_inv d" "16 + items_size (sd_data d) < size_t_bound"
  shows "\<exists>kvs. data_parse \<lparr>h_cipher = sd_cipher d, h_bufferSize = sd_bufferSize d\<rparr> (data_encoding d @ post) =
      Some (Parsed (d\<lparr>sd_data := kvs\<rparr>)) \<and> same_items (sd_data d) kvs"
proof -
  let ?d = "\<lparr>sd_cipher = sd_cipher d, sd_bufferSize = sd_bufferSize d, sd_data = [], sd_types = []\<rparr>"
  have "\<exists>kvs. parse_items (header_bytes d @ concat (map item_encoding (sd_data d)) @ post) 16 ?d =
      Some (Parsed (?d\<lparr>sd_data := sd_data ?d @ kvs, sd_types := item_types (sd_data ?d @ kvs)\<rparr>)) \<and>
    same_items (sd_data d) kvs"
    by (rule parse_items_encoding)
      (use assms std_size_nat [OF assms] in \<open>simp_all add: std_inv_def header_bytes_def item_types_def\<close>)
  then obtain kvs where "parse_items (data_encoding d @ post) 16 ?d =
      Some (Parsed (?d\<lparr>sd_data := kvs, sd_types := item_types kvs\<rparr>))" "same_items (sd_data d) kvs"
    by (auto simp: data_encoding_def)
  moreover have "?d\<lparr>sd_data := kvs, sd_types := item_types kvs\<rparr> = d\<lparr>sd_data := kvs\<rparr>"
    using same_items_types [OF calculation(2)] assms(1) by (simp add: std_inv_def)
  ultimately show ?thesis by (auto simp: data_parse_def)
qed

text \<open>An item behind which the offset is where it was is read for ever.\<close>

lemma parse_items_loop:
  assumes "item_decode buf off = ItemAt k t v off" "off < unat (sd_bufferSize d)"
  shows "parse_items buf off d = None"
proof -
  have False if "parse_items buf off d = Some res" "item_decode buf off = ItemAt k t v off"
      "off < unat (sd_bufferSize d)" for buf off d res
    using that
  proof (induction rule: parse_items.raw_induct [rotated, consumes 1, case_names step])
    case (step rec buf off d res)
    then have "rec buf off (d\<lparr>sd_data := ordered_emplace k v (sd_data d),
        sd_types := ordered_emplace k t (sd_types d)\<rparr>) = Some res"
      by simp
    from step.IH [OF this] step.prems show False by simp
  qed
  with assms show ?thesis by (cases "parse_items buf off d") auto
qed

section \<open>Properties of the standard protocol\<close>

text \<open>The messages a program builds: items by \<open>SetData\<close>, tables of the program, \<open>Clear\<close>.\<close>

inductive message :: "std_data \<Rightarrow> bool" where
  make: "message (data_make c)"
| item: "message d \<Longrightarrow> item_ok v \<Longrightarrow> message (set_data k v d)"
| table: "message d \<Longrightarrow> table_reachable t \<Longrightarrow> malloc_ok malloc \<Longrightarrow>
    8 + content_size (rows_of t) < size_t_bound \<Longrightarrow> malloc (8 + content_size (rows_of t)) \<noteq> None \<Longrightarrow>
    set_table malloc k t d = Some d' \<Longrightarrow> message d'"
| clear: "message d \<Longrightarrow> message (data_clear d)"

lemma message_std_inv: "message d \<Longrightarrow> std_inv d"
proof (induction rule: message.induct)
  case (make c)
  show ?case by (rule data_make_inv)
next
  case (item d v k)
  then show ?case by (simp add: set_data_inv)
next
  case (table d t malloc k d')
  let ?td = "\<lparr>td_own = Some (Some (size_bytes (8 + content_size (rows_of t)) @ payload (rows_of t))),
    td_shared = None, td_size = t_bufferSize t\<rparr>"
  note ok = table_data_of_table_ok [OF reachable_inv [OF table.hyps(2)] table.hyps(3-5)]
  have "d' = set_data k (Table ?td) d"
    using set_table_set_data [OF ok(1), of k d] table.hyps(6) by simp
  then show ?case using set_data_inv [OF table.IH, of "Table ?td" k] ok(2) by simp
next
  case (clear d)
  show ?case by (rule data_clear_inv)
qed

text \<open>
  In every message a program builds, the keys are in strictly rising order, each has the type
  tag of its item, and the buffer size is 16 plus, for every item, its type byte, its key and the
  bytes of its value.
\<close>

theorem message_invariant:
  assumes "message d"
  shows "sorted_wrt (<) (map fst (sd_data d)) \<and>
    sd_types d = map (\<lambda>(k, v). (k, item_type v)) (sd_data d) \<and>
    sd_bufferSize d = word_of_nat (16 + sum_list (map (\<lambda>(k, v). 9 + item_length v) (sd_data d)))"
  using message_std_inv [OF assms] by (simp add: std_inv_def item_types_def items_size_def)

definition sample_message :: std_data where
  "sample_message =
     set_data 5 (Value (Str ''hi''))
       (set_data 9 (Value (Optional TInt16 None)) (data_make (cipher ActionModify)))"

lemma sample_message: "message sample_message"
  unfolding sample_message_def
  by (intro message.item message.make) (simp_all add: optional_base_def)

lemma sample_message_data:
  "sample_message = \<lparr>sd_cipher = 934875938, sd_bufferSize = 44,
     sd_data = [(5, Value (Str ''hi'')), (9, Value (Optional TInt16 None))],
     sd_types = [(5, TString), (9, TOptionalInt16Empty)]\<rparr>"
  by (simp add: sample_message_def set_data_def data_make_def)

theorem message_invariant_witness:
  "sorted_wrt (<) (map fst (sd_data sample_message)) \<and> sd_bufferSize sample_message = 44"
  using message_invariant [OF sample_message] by (simp add: sample_message_data)

text \<open>
  A message is a map from keys to items: \<open>SetData\<close> with a new key adds the item and changes no
  other, with a used key it changes nothing at all, \<open>Clear\<close> removes all, and the types are those of
  the items.
\<close>

theorem message_refines_map:
  assumes "message d"
  shows "map_of (sd_data (set_data k v d)) =
      (if map_of (sd_data d) k = None then (map_of (sd_data d))(k \<mapsto> v) else map_of (sd_data d)) \<and>
    (map_of (sd_data d) k \<noteq> None \<longrightarrow> set_data k v d = d) \<and>
    map_of (sd_data (data_clear d)) = Map.empty \<and>
    map_of (sd_types d) = map_option item_type \<circ> map_of (sd_data d)"
proof -
  have "sorted_wrt (<) (map fst (sd_data d))" "sd_types d = item_types (sd_data d)"
    using message_std_inv [OF assms] by (simp_all add: std_inv_def)
  then show ?thesis
    by (auto simp: set_data_def data_clear_def map_of_ordered_emplace strict_sorted_iff
        map_of_item_types fun_eq_iff)
qed

theorem message_refines_map_witness:
  "map_of (sd_data (set_data 5 (Value (Scalar (SBool True))) sample_message)) 5 = Some (Value (Str ''hi'')) \<and>
   map_of (sd_data (set_data 6 (Value (Scalar (SBool True))) sample_message)) 6 =
     Some (Value (Scalar (SBool True)))"
  using message_refines_map [OF sample_message, of 5] message_refines_map [OF sample_message, of 6]
  by (simp add: sample_message_data)

text \<open>
  \<open>Encode\<close> of a message that fits in \<open>size_t\<close> fills its allocation exactly, without a read or
  write outside memory: the cipher, the size, and then for each key in rising order the type byte,
  the key and the value.
\<close>

theorem message_encode_layout:
  assumes "message d" "malloc_ok malloc" "16 + items_size (sd_data d) < size_t_bound"
    and "malloc (16 + items_size (sd_data d)) = Some buf"
  shows "data_encode malloc d =
      Some (word_bytes 8 (sd_cipher d) @ word_bytes 8 (sd_bufferSize d) @
        concat (map (\<lambda>(k, v). type_code (item_type v) # word_bytes 8 k @ the (item_bytes v)) (sd_data d))) \<and>
    length (the (data_encode malloc d)) = unat (sd_bufferSize d)"
  using data_encode_inv [OF message_std_inv [OF assms(1)] assms(2-4)]
    length_data_encoding [OF message_std_inv [OF assms(1)]]
    std_size_nat [OF message_std_inv [OF assms(1)] assms(3)]
  by (simp add: data_encoding_def header_bytes_def item_encoding_def)

theorem message_encode_layout_witness:
  "data_encode zero_malloc sample_message =
     Some (word_bytes 8 (934875938 :: u64) @ word_bytes 8 (44 :: u64) @
       [32, 5, 0, 0, 0, 0, 0, 0, 0, 2, 0, 0, 0, 0, 0, 0, 0, 104, 105] @ [21, 9, 0, 0, 0, 0, 0, 0, 0])"
proof -
  have "zero_malloc (16 + items_size (sd_data sample_message)) = Some (replicate 44 0)"
    by (simp add: sample_message_data zero_malloc_def)
  from message_encode_layout [OF sample_message zero_malloc_ok _ this] show ?thesis
    by (simp add: sample_message_data word_bytes_def le_bytes_numeral byte_of_char_def)
qed

text \<open>
  C2: Parsing what \<open>Encode\<close> wrote gives the message back, whatever follows it in memory: the same
  cipher, size, keys and types, equal values, and tables that are equal by \<open>operator==\<close> of
  \<open>TableData\<close> to those that were sent.
\<close>

theorem message_roundtrip:
  assumes "message d" "malloc_ok malloc" "16 + items_size (sd_data d) < size_t_bound"
    and "data_encode malloc d = Some buf" "header_of_buffer (buf @ post) = Some h"
  shows "\<exists>kvs. data_parse h (buf @ post) = Some (Parsed (d\<lparr>sd_data := kvs\<rparr>)) \<and>
    list_all2 (\<lambda>(k, v) (k', v'). k = k' \<and> same_item v v') (sd_data d) kvs"
proof -
  note inv = message_std_inv [OF assms(1)]
  obtain b where "malloc (16 + items_size (sd_data d)) = Some b"
    using assms(4) std_size_nat [OF inv assms(3)] by (auto simp: data_encode_def split: option.splits)
  from data_encode_inv [OF inv assms(2,3) this] assms(4) have "buf = data_encoding d" by simp
  then show ?thesis
    using data_parse_encoding [OF inv assms(3), of post] header_of_encoding [of d post] assms(5)
    by (simp add: same_items_def)
qed

theorem message_roundtrip_witness:
  "\<exists>kvs. data_parse \<lparr>h_cipher = 934875938, h_bufferSize = 44\<rparr> (data_encoding sample_message @ [1]) =
     Some (Parsed (sample_message\<lparr>sd_data := kvs\<rparr>)) \<and> length kvs = 2"
proof -
  have "zero_malloc (16 + items_size (sd_data sample_message)) = Some (replicate 44 0)"
    by (simp add: sample_message_data zero_malloc_def)
  from data_encode_inv [OF message_std_inv [OF sample_message] zero_malloc_ok _ this]
  have "data_encode zero_malloc sample_message = Some (data_encoding sample_message)"
    by (simp add: sample_message_data)
  from message_roundtrip [OF sample_message zero_malloc_ok _ this header_of_encoding]
  obtain kvs where "data_parse \<lparr>h_cipher = 934875938, h_bufferSize = 44\<rparr> (data_encoding sample_message @ [1]) =
     Some (Parsed (sample_message\<lparr>sd_data := kvs\<rparr>))"
    "list_all2 (\<lambda>(k, v) (k', v'). k = k' \<and> same_item v v') (sd_data sample_message) kvs"
    by (auto simp: sample_message_data)
  then show ?thesis by (auto simp: sample_message_data dest: list_all2_lengthD)
qed

text \<open>
  C33: The parser does not check the size a table in a message declares. With the size
  \<open>2 ^ 64 - 9\<close> the offset behind the table is the offset of the table again, and the constructor
  never returns, for every key and every message size above 16.
\<close>

theorem hostile_table_size_loops:
  assumes "16 < unat (h_bufferSize h)" "length head = 16"
  shows "data_parse h (head @ [36] @ word_bytes 8 (k :: u64) @ size_bytes (2 ^ 64 - 9) @ post) = None"
proof -
  define buf where "buf = head @ [36] @ word_bytes 8 k @ size_bytes (2 ^ 64 - 9) @ post"
  have r1: "read_at buf 16 1 = Some [36]"
    unfolding buf_def by (rule read_at_pre) (use assms in simp_all)
  have "read_at ((head @ [36]) @ word_bytes 8 k @ (size_bytes (2 ^ 64 - 9) @ post)) (16 + 1) 8
      = Some (word_bytes 8 k)"
    by (rule read_at_pre) (use assms in simp_all)
  then have r2: "read_at buf (16 + 1) 8 = Some (word_bytes 8 k)" by (simp add: buf_def)
  have r3: "read_size ([] @ size_bytes (2 ^ 64 - 9) @ post) 0 = Some (2 ^ 64 - 9)"
    by (rule read_size_append) simp_all
  have "read_size ((head @ [36] @ word_bytes 8 k) @ size_bytes (2 ^ 64 - 9) @ post) 25 = Some (2 ^ 64 - 9)"
    by (rule read_size_append) (use assms in simp_all)
  then have r4: "read_size buf 25 = Some (2 ^ 64 - 9)" by (simp add: buf_def)
  have "drop 25 buf = size_bytes (2 ^ 64 - 9) @ post"
    using assms(2) by (simp add: buf_def)
  with r1 r2 r3 r4 have "item_decode buf 16 =
      ItemAt k TTableData (Table \<lparr>td_own = None, td_shared = Some (size_bytes (2 ^ 64 - 9) @ post),
        td_size = word_of_nat (2 ^ 64 - 9)\<rparr>) 16"
    using type_of_code_type_code [of TTableData] word_of_bytes_word_bytes [of 8 k]
    by (simp add: item_decode_def table_data_of_memory_def word_of_bytes_def)
  then have "parse_items buf 16
      \<lparr>sd_cipher = h_cipher h, sd_bufferSize = h_bufferSize h, sd_data = [], sd_types = []\<rparr> = None"
    by (rule parse_items_loop) (use assms(1) in simp)
  then show ?thesis by (simp add: data_parse_def buf_def)
qed

theorem hostile_table_size_loops_witness:
  "data_parse \<lparr>h_cipher = 934875938, h_bufferSize = 33\<rparr>
     (replicate 16 0 @ [36] @ word_bytes 8 (1 :: u64) @ size_bytes (2 ^ 64 - 9) @ []) = None"
  by (rule hostile_table_size_loops) simp_all

text \<open>
  The messages without items carry what their receiver reads: the header is the action's
  cipher and the size 16, the parser finds no items, no two actions share a cipher, and the bytes
  are those of an empty \<open>Data\<close> with this cipher.
\<close>

theorem action_messages:
  assumes "malloc_ok malloc" "malloc 16 = Some buf"
  shows "header_of_buffer (action_bytes a @ post) = Some (header_of_cipher (cipher a)) \<and>
    data_parse (header_of_cipher (cipher a)) (action_bytes a @ post) = Some (Parsed (data_make (cipher a))) \<and>
    data_encode malloc (data_make (cipher a)) = Some (action_bytes a) \<and>
    (cipher a = cipher b \<longrightarrow> a = b)"
proof (intro conjI impI)
  have enc: "data_encoding (data_make (cipher a)) = action_bytes a"
    by (simp add: data_encoding_def header_bytes_def data_make_def action_bytes_def)
  show "header_of_buffer (action_bytes a @ post) = Some (header_of_cipher (cipher a))"
    using header_of_encoding [of "data_make (cipher a)" post] unfolding enc
    by (simp add: header_of_cipher_def data_make_def)
  show "data_parse (header_of_cipher (cipher a)) (action_bytes a @ post) = Some (Parsed (data_make (cipher a)))"
    by (simp add: data_parse_def header_of_cipher_def data_make_def parse_items.simps)
  show "data_encode malloc (data_make (cipher a)) = Some (action_bytes a)"
    using data_encode_inv [OF data_make_inv assms(1), of "cipher a" buf] assms(2)
    by (simp add: enc) (simp add: data_make_def)
  show "a = b" if "cipher a = cipher b"
    using that by (cases a; cases b) simp_all
qed

theorem action_messages_witness:
  "header_of_buffer (action_bytes ActionPause @ []) = Some (header_of_cipher 934875935)"
  using action_messages [OF zero_malloc_ok, of "replicate 16 0" ActionPause "[]"]
  by (simp add: zero_malloc_def)

end
