(* ===== verification/Parameters.thy ===== *)
theory Parameters
  imports StandardSpec
begin

text \<open>
  Applications, \<open>server/application.h\<close> and \<open>server/application.cpp\<close>: parameters with limits and
  errors, their registration, the merge of updates that arrive from the network, custom errors, the
  metadata and parameter texts, and the dispatch of the messages of the standard protocol. The
  handlers a server runs are the presets of \<open>application.h\<close> that \<open>server/server.cpp\<close> uses.

  A parameter holds a pointer to a field of the application; here it holds the field's value, which
  only the operations below change. Log output is left out. What the hardware or \<open>std::format\<close> does
  with floating-point values is the argument \<open>env\<close>.
\<close>

section \<open>Parameters\<close>

datatype pvalue = PValue std_value | PTable table

datatype limit = LScalar scalar | LDuration duration

text \<open>
  Comparisons of floats up to an epsilon (\<open>Helper::FloatLess\<close>, \<open>FloatGreater\<close>, \<open>FloatEqual\<close>) and
  their texts.
\<close>

record env =
  e_fp :: "scalar \<Rightarrow> string"
  e_quot :: "int \<Rightarrow> int \<Rightarrow> string"
  e_less :: "scalar \<Rightarrow> scalar \<Rightarrow> bool"
  e_greater :: "scalar \<Rightarrow> scalar \<Rightarrow> bool"
  e_equal :: "scalar \<Rightarrow> scalar \<Rightarrow> bool"

record parameter =
  p_name :: string
  p_value :: pvalue
  p_min :: "limit option"
  p_max :: "limit option"
  p_canBeEmpty :: bool
  p_error :: string
  p_durationType :: duration_type
  p_printFunc :: "(int \<Rightarrow> string) option"
  p_interpretations :: string

text \<open>The constructors. A print function of an enum also gives the texts of its values.\<close>

definition parameter_make ::
    "string \<Rightarrow> pvalue \<Rightarrow> limit option \<Rightarrow> limit option \<Rightarrow> bool \<Rightarrow> parameter" where
  "parameter_make name v mn mx canBeEmpty =
     \<lparr>p_name = name, p_value = v, p_min = mn, p_max = mx, p_canBeEmpty = canBeEmpty, p_error = [],
      p_durationType = DtNanoseconds, p_printFunc = None, p_interpretations = []\<rparr>"

definition parameter_duration ::
    "string \<Rightarrow> duration \<Rightarrow> duration_type \<Rightarrow> duration option \<Rightarrow> duration option \<Rightarrow> bool \<Rightarrow> parameter" where
  "parameter_duration name d ty mn mx canBeEmpty =
     (parameter_make name (PValue (DurationV d)) (map_option LDuration mn) (map_option LDuration mx)
        canBeEmpty)\<lparr>p_durationType := ty\<rparr>"

definition interpretations :: "int \<Rightarrow> (int \<Rightarrow> string) \<Rightarrow> string" where
  "interpretations max_value print =
     butlast (''{'' @ concat (map (\<lambda>i. quoted (show_int i) @ '':'' @ quoted (print i) @ '','')
                                [0..max_value - 1])) @ ''}''"

text \<open>
  An enum with the values \<open>undef\<close> and \<open>max_value\<close> of \<open>Undefined\<close> and \<open>Max\<close>; \<open>scalar_of\<close> is the
  scalar of the underlying type.
\<close>

definition parameter_enum ::
    "string \<Rightarrow> (int \<Rightarrow> scalar) \<Rightarrow> int \<Rightarrow> int \<Rightarrow> int \<Rightarrow> (int \<Rightarrow> string) option \<Rightarrow> bool \<Rightarrow> parameter" where
  "parameter_enum name scalar_of v undef max_value print canBeUndefined =
     (parameter_make name (PValue (Scalar (scalar_of v)))
        (Some (LScalar (scalar_of (if canBeUndefined then undef else undef + 1))))
        (Some (LScalar (scalar_of max_value))) False)
     \<lparr>p_printFunc := print,
      p_interpretations := (case print of None \<Rightarrow> [] | Some f \<Rightarrow> interpretations max_value f)\<rparr>"

section \<open>Limits\<close>

definition scalar_below :: "env \<Rightarrow> scalar \<Rightarrow> scalar \<Rightarrow> bool" where
  "scalar_below env a b =
     (case (scalar_int a, scalar_int b) of
        (Some i, Some j) \<Rightarrow> i < j
      | _ \<Rightarrow> e_less env a b)"

definition scalar_above :: "env \<Rightarrow> scalar \<Rightarrow> scalar \<Rightarrow> bool" where
  "scalar_above env a b =
     (case (scalar_int a, scalar_int b) of
        (Some i, Some j) \<Rightarrow> i > j
      | _ \<Rightarrow> e_greater env a b)"

fun below_limit :: "env \<Rightarrow> std_value \<Rightarrow> limit option \<Rightarrow> bool" where
  "below_limit env (Scalar s) (Some (LScalar l)) \<longleftrightarrow> scalar_below env s l"
| "below_limit env (Optional _ (Some s)) (Some (LScalar l)) \<longleftrightarrow> scalar_below env s l"
| "below_limit env (DurationV d) (Some (LDuration l)) \<longleftrightarrow> duration_less d l"
| "below_limit env _ _ \<longleftrightarrow> False"

fun above_limit :: "env \<Rightarrow> std_value \<Rightarrow> limit option \<Rightarrow> bool" where
  "above_limit env (Scalar s) (Some (LScalar l)) \<longleftrightarrow> scalar_above env s l"
| "above_limit env (Optional _ (Some s)) (Some (LScalar l)) \<longleftrightarrow> scalar_above env s l"
| "above_limit env (DurationV d) (Some (LDuration l)) \<longleftrightarrow> duration_greater d l"
| "above_limit env _ _ \<longleftrightarrow> False"

fun empty_value :: "pvalue \<Rightarrow> bool" where
  "empty_value (PValue (Optional _ x)) \<longleftrightarrow> x = None"
| "empty_value (PValue (Str s)) \<longleftrightarrow> s = []"
| "empty_value (PValue (TimerV t)) \<longleftrightarrow> timer_empty t"
| "empty_value (PValue (DurationV d)) \<longleftrightarrow> duration_empty d"
| "empty_value (PValue (Scalar _)) \<longleftrightarrow> False"
| "empty_value (PTable t) \<longleftrightarrow> table_empty t"

text \<open>The texts in messages: integers through the print function if there is one.\<close>

definition print_scalar :: "env \<Rightarrow> parameter \<Rightarrow> scalar \<Rightarrow> string" where
  "print_scalar env p s =
     (case (p_printFunc p, scalar_int s) of
        (Some f, Some i) \<Rightarrow> f (signed_take_bit 31 i)
      | _ \<Rightarrow> show_scalar (e_fp env) s)"

fun print_limit :: "env \<Rightarrow> parameter \<Rightarrow> limit option \<Rightarrow> string" where
  "print_limit env p None = []"
| "print_limit env p (Some (LScalar s)) = print_scalar env p s"
| "print_limit env p (Some (LDuration d)) = duration_to_string (e_quot env) (p_durationType p) d"

fun print_value :: "env \<Rightarrow> parameter \<Rightarrow> std_value \<Rightarrow> string" where
  "print_value env p (Scalar s) = print_scalar env p s"
| "print_value env p (Optional _ None) = []"
| "print_value env p (Optional _ (Some s)) = print_scalar env p s"
| "print_value env p (Str s) = s"
| "print_value env p (TimerV t) = timer_to_string t"
| "print_value env p (DurationV d) = duration_to_string (e_quot env) (p_durationType p) d"

definition parameter_head :: "u64 \<Rightarrow> parameter \<Rightarrow> string" where
  "parameter_head pid p = ''Parameter '' @ p_name p @ ''('' @ show_nat (unat pid) @ '')''"

text \<open>
  The check of a value shared by registration and merge: the text of the error or \<open>None\<close>. An empty
  value is only checked for being allowed, any other one only against the limits.
\<close>

definition value_error :: "env \<Rightarrow> u64 \<Rightarrow> parameter \<Rightarrow> pvalue \<Rightarrow> string option" where
  "value_error env pid p v =
     (if empty_value v then
        (if p_canBeEmpty p then None else Some (parameter_head pid p @ '' is empty''))
      else
        (case v of
           PTable _ \<Rightarrow> None
         | PValue x \<Rightarrow>
             (if below_limit env x (p_min p) then
                Some (parameter_head pid p @ '' is less than min value: '' @ print_value env p x @
                  '' < '' @ print_limit env p (p_min p))
              else if above_limit env x (p_max p) then
                Some (parameter_head pid p @ '' is greater than max value: '' @ print_value env p x @
                  '' > '' @ print_limit env p (p_max p))
              else None)))"

definition register_validation :: "env \<Rightarrow> u64 \<Rightarrow> parameter \<Rightarrow> bool \<times> parameter" where
  "register_validation env pid p =
     (case value_error env pid p (p_value p) of
        None \<Rightarrow> (True, p)
      | Some e \<Rightarrow> (False, p\<lparr>p_error := e\<rparr>))"

section \<open>Merge\<close>

definition scalar_same :: "env \<Rightarrow> scalar \<Rightarrow> scalar \<Rightarrow> bool" where
  "scalar_same env a b =
     (if scalar_type a \<in> {TFloat, TDouble} then e_equal env a b else a = b)"

fun same_value :: "env \<Rightarrow> std_value \<Rightarrow> std_value \<Rightarrow> bool" where
  "same_value env (Scalar a) (Scalar b) \<longleftrightarrow> scalar_same env a b"
| "same_value env (Optional _ None) (Optional _ None) \<longleftrightarrow> True"
| "same_value env (Optional _ (Some a)) (Optional _ (Some b)) \<longleftrightarrow> scalar_same env a b"
| "same_value env (Str a) (Str b) \<longleftrightarrow> a = b"
| "same_value env (TimerV a) (TimerV b) \<longleftrightarrow> timer_equal a b"
| "same_value env (DurationV a) (DurationV b) \<longleftrightarrow> duration_equal a b"
| "same_value env _ _ \<longleftrightarrow> False"

text \<open>
  \<open>Merge\<close> gives whether the parameter is correct now. \<open>None\<close>: the copy of the table does not return
  or reads outside its memory.
\<close>

fun merge :: "env \<Rightarrow> u64 \<Rightarrow> item \<Rightarrow> parameter \<Rightarrow> (bool \<times> parameter) option" where
  "merge env pid (Value v) p =
     (case p_value p of
        PTable _ \<Rightarrow> Some (p_error p = [], p)
      | PValue old \<Rightarrow>
          (if value_type v \<noteq> value_type old then Some (p_error p = [], p)
           else if same_value env old v then Some (p_error p = [], p)
           else
             (case value_error env pid p (PValue v) of
                Some e \<Rightarrow> Some (False, p\<lparr>p_value := PValue v, p_error := e\<rparr>)
              | None \<Rightarrow> Some (True, p\<lparr>p_value := PValue v, p_error := []\<rparr>))))"
| "merge env pid (Table td) p =
     (case p_value p of
        PValue _ \<Rightarrow> Some (p_error p = [], p)
      | PTable t \<Rightarrow>
          (case get_buffer td of
             None \<Rightarrow> None
           | Some mem \<Rightarrow>
               (case table_copy mem t of
                  None \<Rightarrow> None
                | Some CopyOob \<Rightarrow> None
                | Some (CopyStop t') \<Rightarrow>
                    (case value_error env pid p (PTable t') of
                       Some e \<Rightarrow> Some (False, p\<lparr>p_value := PTable t', p_error := e\<rparr>)
                     | None \<Rightarrow> Some (True, p\<lparr>p_value := PTable t'\<rparr>))
                | Some (Copied t') \<Rightarrow>
                    (case value_error env pid p (PTable t') of
                       Some e \<Rightarrow> Some (False, p\<lparr>p_value := PTable t', p_error := e\<rparr>)
                     | None \<Rightarrow> Some (True, p\<lparr>p_value := PTable t'\<rparr>)))))"

section \<open>Application\<close>

datatype app_state = StateUndefined | StatePaused | StateRunning | StateMax

fun state_name :: "app_state \<Rightarrow> string" where
  "state_name StateUndefined = ''Undefined''"
| "state_name StatePaused = ''Paused''"
| "state_name StateRunning = ''Running''"
| "state_name StateMax = ''Max''"

fun state_number :: "app_state \<Rightarrow> int" where
  "state_number StateUndefined = 0"
| "state_number StatePaused = 1"
| "state_number StateRunning = 2"
| "state_number StateMax = 3"

text \<open>A constant parameter points to the name, to the state, or to another field.\<close>

datatype const_value = CName | CState | CValue pvalue

record const_parameter =
  c_name :: string
  c_value :: const_value
  c_durationType :: duration_type
  c_printFunc :: "(int \<Rightarrow> string) option"
  c_interpretations :: string

text \<open>\<open>a_errors\<close> are the keys of \<open>m_errorParameters\<close>; the pointers are those of \<open>m_parameters\<close>.\<close>

record app =
  a_name :: string
  a_metadata :: string
  a_state :: app_state
  a_params :: "(u64 \<times> parameter) list"
  a_errors :: "u64 set"
  a_const :: "(u64 \<times> const_parameter) list"

fun state_of_number :: "int \<Rightarrow> string" where
  "state_of_number i =
     (if i = 0 then ''Undefined'' else if i = 1 then ''Paused'' else if i = 2 then ''Running''
      else if i = 3 then ''Max'' else ''Unknown'')"

definition app_make :: app where
  "app_make =
     \<lparr>a_name = [], a_metadata = [], a_state = StatePaused, a_params = [], a_errors = {},
      a_const =
        [(2000001, \<lparr>c_name = ''Name'', c_value = CName, c_durationType = DtNanoseconds,
            c_printFunc = None, c_interpretations = []\<rparr>),
         (2000002, \<lparr>c_name = ''Application state'', c_value = CState, c_durationType = DtNanoseconds,
            c_printFunc = Some state_of_number,
            c_interpretations = interpretations 3 state_of_number\<rparr>)]\<rparr>"

definition register_parameter :: "env \<Rightarrow> u64 \<Rightarrow> parameter \<Rightarrow> app \<Rightarrow> app" where
  "register_parameter env pid p a =
     (if map_of (a_params a) pid \<noteq> None then a
      else
        (let (valid, p') = register_validation env pid p;
             a' = a\<lparr>a_params := ordered_emplace pid p' (a_params a)\<rparr>
         in if valid then a' else a'\<lparr>a_errors := insert pid (a_errors a)\<rparr>))"

definition register_const_parameter :: "u64 \<Rightarrow> const_parameter \<Rightarrow> app \<Rightarrow> app" where
  "register_const_parameter pid c a =
     (if map_of (a_const a) pid \<noteq> None then a
      else a\<lparr>a_const := ordered_emplace pid c (a_const a)\<rparr>)"

text \<open>Replacing the parameter behind a reference.\<close>

definition set_param :: "u64 \<Rightarrow> parameter \<Rightarrow> app \<Rightarrow> app" where
  "set_param pid p a =
     a\<lparr>a_params := map (\<lambda>(k, q). (k, if k = pid then p else q)) (a_params a)\<rparr>"

definition merge_parameter :: "env \<Rightarrow> u64 \<Rightarrow> item \<Rightarrow> app \<Rightarrow> app option" where
  "merge_parameter env pid v a =
     (case map_of (a_params a) pid of
        None \<Rightarrow> Some a
      | Some p \<Rightarrow>
          (case merge env pid v p of
             None \<Rightarrow> None
           | Some (valid, p') \<Rightarrow>
               Some ((set_param pid p' a)\<lparr>a_errors :=
                 (if valid then a_errors a - {pid} else insert pid (a_errors a))\<rparr>)))"

fun merge_parameters :: "env \<Rightarrow> (u64 \<times> item) list \<Rightarrow> app \<Rightarrow> app option" where
  "merge_parameters env [] a = Some a"
| "merge_parameters env ((pid, v) # kvs) a =
     (case merge_parameter env pid v a of
        None \<Rightarrow> None
      | Some a' \<Rightarrow> merge_parameters env kvs a')"

definition set_custom_error :: "u64 \<Rightarrow> string \<Rightarrow> app \<Rightarrow> app" where
  "set_custom_error pid e a =
     (case map_of (a_params a) pid of
        None \<Rightarrow> a
      | Some p \<Rightarrow>
          (if p_error p = [] then
             (set_param pid (p\<lparr>p_error := parameter_head pid p @ '' custom error: '' @ e\<rparr>) a)
               \<lparr>a_errors := insert pid (a_errors a)\<rparr>
           else set_param pid (p\<lparr>p_error := p_error p @ ''. Custom error: '' @ e\<rparr>) a))"

definition are_parameters_valid :: "app \<Rightarrow> bool" where
  "are_parameters_valid a \<longleftrightarrow> a_errors a = {}"

definition set_name :: "string \<Rightarrow> app \<Rightarrow> app" where
  "set_name s a = a\<lparr>a_name := s\<rparr>"

definition is_running :: "app \<Rightarrow> bool" where
  "is_running a \<longleftrightarrow> a_state a = StateRunning"

section \<open>The handlers of a server\<close>

definition set_state :: "app_state \<Rightarrow> app \<Rightarrow> app" where
  [simp]: "set_state st a = a\<lparr>a_state := st\<rparr>"

definition handle_run :: "app \<Rightarrow> app" where
  "handle_run a =
     (if is_running a then a
      else if \<not> are_parameters_valid a then a
      else set_state StateRunning a)"

definition handle_pause :: "app \<Rightarrow> app" where
  "handle_pause a = (if \<not> is_running a then a else set_state StatePaused a)"

definition handle_modify :: "env \<Rightarrow> (u64 \<times> item) list \<Rightarrow> app \<Rightarrow> app option" where
  "handle_modify env kvs a =
     (case merge_parameters env kvs a of
        None \<Rightarrow> None
      | Some a' \<Rightarrow> Some (if are_parameters_valid a' then a' else handle_pause a'))"

section \<open>Metadata\<close>

definition metadata_limits :: "env \<Rightarrow> parameter \<Rightarrow> string" where
  "metadata_limits env p =
     (let text = (\<lambda>l. case l of LScalar s \<Rightarrow> show_scalar (e_fp env) s
                              | LDuration d \<Rightarrow> show_int (duration_ns d))
      in (case p_min p of None \<Rightarrow> [] | Some l \<Rightarrow> '','' @ quoted ''min'' @ '':'' @ text l) @
         (case p_max p of None \<Rightarrow> [] | Some l \<Rightarrow> '','' @ quoted ''max'' @ '':'' @ text l))"

definition metadata_interpretations :: "string \<Rightarrow> string" where
  "metadata_interpretations s =
     (if s = [] then [] else '','' @ quoted ''stringInterpretations'' @ '':'' @ s)"

definition metadata_empty :: "bool \<Rightarrow> string" where
  "metadata_empty b =
     '','' @ quoted ''canBeEmpty'' @ '':'' @ (if b then ''true'' else ''false'')"

definition metadata_columns :: "column list \<Rightarrow> string" where
  "metadata_columns cs =
     '','' @ quoted ''columns'' @ '':{'' @
     join '','' (map (\<lambda>c. quoted (show_nat (unat (col_id c))) @ '':{'' @ quoted ''type'' @ '':'' @
                        quoted (type_name (col_type c)) @
                        (if col_metadata c \<noteq> [] then '','' @ col_metadata c @ ''}'' else ''}'')) cs) @
     ''}''"

definition metadata_name :: "u64 \<Rightarrow> string \<Rightarrow> string" where
  "metadata_name pid name =
     quoted (show_nat (unat pid)) @ '':{'' @ quoted ''name'' @ '':'' @ quoted name @ '','' @
     quoted ''type'' @ '':''"

definition metadata_parameter :: "env \<Rightarrow> u64 \<times> parameter \<Rightarrow> string" where
  "metadata_parameter env = (\<lambda>(pid, p).
     metadata_name pid (p_name p) @
     (case p_value p of
        PTable t \<Rightarrow>
          quoted ''TableData'' @ metadata_empty (p_canBeEmpty p) @ metadata_columns (t_columns t)
      | PValue v \<Rightarrow>
          quoted (type_name (value_type v)) @
          (case v of
             Scalar s \<Rightarrow>
               (if scalar_type s = TBool then []
                else if scalar_type s \<in> {TFloat, TDouble} then metadata_limits env p
                else metadata_limits env p @ metadata_interpretations (p_interpretations p))
           | Optional _ _ \<Rightarrow> metadata_limits env p @ metadata_empty (p_canBeEmpty p)
           | DurationV _ \<Rightarrow>
               metadata_limits env p @ metadata_empty (p_canBeEmpty p) @ '','' @
               quoted ''durationType'' @ '':'' @ quoted (duration_type_to_string (p_durationType p))
           | _ \<Rightarrow> metadata_empty (p_canBeEmpty p))) @
     ''},'')"

definition metadata_const :: "u64 \<times> const_parameter \<Rightarrow> string" where
  "metadata_const = (\<lambda>(pid, c).
     metadata_name pid (c_name c) @
     (case c_value c of
        CName \<Rightarrow> quoted ''String''
      | CState \<Rightarrow> quoted ''Int16'' @ metadata_interpretations (c_interpretations c)
      | CValue (PTable t) \<Rightarrow> quoted ''TableData'' @ metadata_columns (t_columns t)
      | CValue (PValue v) \<Rightarrow>
          quoted (type_name (value_type v)) @
          (case v of
             Scalar s \<Rightarrow>
               (if scalar_int s = None then [] else metadata_interpretations (c_interpretations c))
           | _ \<Rightarrow> [])) @
     ''},'')"

text \<open>The closing bracket of a group replaces the comma behind its last parameter.\<close>

definition metadata_group :: "string \<Rightarrow> bool \<Rightarrow> string" where
  "metadata_group s nonempty = (if nonempty then butlast s @ ''}'' else s)"

definition metadata :: "env \<Rightarrow> app \<Rightarrow> string" where
  "metadata env a =
     (let mutable = metadata_group (''{'' @ quoted ''mutable'' @ '':{'' @
            concat (map (metadata_parameter env) (a_params a))) (a_params a \<noteq> [])
      in metadata_group (mutable @ '','' @ quoted ''const'' @ '':{'' @
           concat (map metadata_const (a_const a))) (a_const a \<noteq> []) @ ''}'')"

section \<open>Texts of parameters\<close>

definition print_pvalue :: "env \<Rightarrow> parameter \<Rightarrow> string" where
  "print_pvalue env p =
     (case p_value p of
        PValue v \<Rightarrow> print_value env p v
      | PTable t \<Rightarrow> table_to_string (e_fp env) t)"

definition const_as_parameter :: "app \<Rightarrow> const_parameter \<Rightarrow> parameter" where
  "const_as_parameter a c =
     (parameter_make (c_name c)
        (case c_value c of
           CName \<Rightarrow> PValue (Str (a_name a))
         | CState \<Rightarrow> PValue (Scalar (SInt16 (word_of_int (state_number (a_state a)))))
         | CValue v \<Rightarrow> v) None None False)
     \<lparr>p_durationType := c_durationType c, p_printFunc := c_printFunc c\<rparr>"

definition get_parameters :: "env \<Rightarrow> app \<Rightarrow> string" where
  "get_parameters env a =
     ''Parameters:'' @ newline @ ''{'' @
     concat (map (\<lambda>(pid, p). newline @ tabs 1 @ p_name p @ ''('' @ show_nat (unat pid) @ '') : '' @
                    print_pvalue env p) (a_params a)) @
     concat (map (\<lambda>(pid, c). newline @ tabs 1 @ c_name c @ ''('' @ show_nat (unat pid) @ '') const : '' @
                    print_pvalue env (const_as_parameter a c)) (a_const a)) @
     newline @ ''}''"

section \<open>Messages\<close>

text \<open>\<open>SetData\<close> of a parameter's field.\<close>

definition set_pvalue ::
    "(nat \<Rightarrow> byte list option) \<Rightarrow> u64 \<Rightarrow> pvalue \<Rightarrow> std_data \<Rightarrow> std_data option" where
  "set_pvalue malloc pid v d =
     (case v of
        PValue x \<Rightarrow> Some (set_data pid (Value x) d)
      | PTable t \<Rightarrow> set_table malloc pid t d)"

fun set_pvalues ::
    "(nat \<Rightarrow> byte list option) \<Rightarrow> (u64 \<times> pvalue) list \<Rightarrow> std_data \<Rightarrow> std_data option" where
  "set_pvalues malloc [] d = Some d"
| "set_pvalues malloc ((pid, v) # kvs) d =
     (case set_pvalue malloc pid v d of
        None \<Rightarrow> None
      | Some d' \<Rightarrow> set_pvalues malloc kvs d')"

definition parameters_response :: "(nat \<Rightarrow> byte list option) \<Rightarrow> app \<Rightarrow> std_data option" where
  "parameters_response malloc a =
     set_pvalues malloc
       (map (\<lambda>(pid, p). (pid, p_value p)) (a_params a) @
        map (\<lambda>(pid, c). (pid, p_value (const_as_parameter a c))) (a_const a))
       (data_make (cipher ParametersResponse))"

text \<open>What \<open>Collect\<close> does beside changing the application.\<close>

datatype effect =
  NoEffect | Reply std_data | StopServer | Hello | GotMetadata string
| GotParameters "(u64 \<times> item) list" | CollectError

definition collect ::
    "env \<Rightarrow> (nat \<Rightarrow> byte list option) \<Rightarrow> std_data \<Rightarrow> app \<Rightarrow> (app \<times> effect) option" where
  "collect env malloc d a =
     (let c = sd_cipher d in
      if c = cipher ActionPause then Some (handle_pause a, NoEffect)
      else if c = cipher ActionRun then Some (handle_run a, NoEffect)
      else if c = cipher ActionDelete then Some (handle_pause a, StopServer)
      else if c = cipher ActionModify then
        map_option (\<lambda>a'. (a', NoEffect)) (handle_modify env (sd_data d) a)
      else if c = cipher ActionHello then Some (a, Hello)
      else if c = cipher MetadataRequest then
        (let text = (if a_metadata a \<noteq> [] then a_metadata a else metadata env a)
         in Some (a\<lparr>a_metadata := text\<rparr>,
              Reply (set_data 0 (Value (Str text)) (data_make (cipher MetadataResponse)))))
      else if c = cipher ParametersResponse then Some (a, GotParameters (sd_data d))
      else if c = cipher ParametersRequest then
        map_option (\<lambda>r. (a, Reply r)) (parameters_response malloc a)
      else if c = cipher MetadataResponse then
        (case map_of (sd_data d) 0 of
           Some (Value (Str s)) \<Rightarrow> Some (a, GotMetadata s)
         | _ \<Rightarrow> Some (a, CollectError))
      else Some (a, CollectError))"

end
