(* ===== verification/ParametersSpec.thy ===== *)
theory ParametersSpec
  imports Parameters
begin

text \<open>
  What an application promises about its parameters: a merge stores the value and reports whether
  it is within the limits, a running application has only such values whatever messages arrive, the
  network cannot change the declared of a parameter, and the set of erroneous parameters mirrors
  the errors as long as no parameter is a table.
\<close>

section \<open>Limits\<close>

text \<open>A value a parameter may have.\<close>

definition within :: "env \<Rightarrow> parameter \<Rightarrow> pvalue \<Rightarrow> bool" where
  "within env p v \<longleftrightarrow>
     (if empty_value v then p_canBeEmpty p
      else (case v of
              PTable _ \<Rightarrow> True
            | PValue x \<Rightarrow> \<not> below_limit env x (p_min p) \<and> \<not> above_limit env x (p_max p)))"

lemma value_error_within: "value_error env pid p v = None \<longleftrightarrow> within env p v"
  by (auto simp: value_error_def within_def split: pvalue.splits)

lemma value_error_text: "value_error env pid p v = Some e \<Longrightarrow> e \<noteq> [] \<and> \<not> within env p v"
  by (auto simp: value_error_def within_def parameter_head_def split: pvalue.splits if_splits)

lemma within_upd [simp]:
  "within env (p\<lparr>p_value := w\<rparr>) v = within env p v"
  "within env (p\<lparr>p_error := e\<rparr>) v = within env p v"
  by (simp_all add: within_def split: pvalue.splits)

text \<open>What a program declares of a parameter, and the kind of its value.\<close>

definition declared :: "parameter \<Rightarrow> string \<times> limit option \<times> limit option \<times> bool \<times> std_type option" where
  "declared p =
     (p_name p, p_min p, p_max p, p_canBeEmpty p,
      (case p_value p of PValue v \<Rightarrow> Some (value_type v) | PTable _ \<Rightarrow> None))"

definition param_ok :: "env \<Rightarrow> parameter \<Rightarrow> bool" where
  "param_ok env p \<longleftrightarrow> (p_error p = [] \<longrightarrow> within env p (p_value p))"

section \<open>Merge\<close>

lemma merge_facts:
  assumes "merge env pid v p = Some (valid, p')" "param_ok env p"
  shows "param_ok env p' \<and> (valid \<longrightarrow> within env p' (p_value p')) \<and> declared p' = declared p"
proof (cases v)
  case (Value x)
  show ?thesis
  proof (cases "p_value p")
    case (PTable t)
    with assms Value show ?thesis by (auto simp: param_ok_def)
  next
    case (PValue old)
    with assms Value show ?thesis
      by (auto simp: param_ok_def declared_def value_error_within dest: value_error_text
          split: if_splits option.splits)
  qed
next
  case (Table td)
  show ?thesis
  proof (cases "p_value p")
    case (PValue old)
    with assms Table show ?thesis by (auto simp: param_ok_def)
  next
    case (PTable t)
    with assms Table show ?thesis
      by (auto simp: param_ok_def declared_def value_error_within dest: value_error_text
          split: option.splits copy_result.splits)
  qed
qed

lemma merge_value_errors:
  assumes "merge env pid v p = Some (valid, p')" "p_value p = PValue old"
  shows "valid \<longleftrightarrow> p_error p' = []"
  using assms
  by (cases v) (auto dest: value_error_text split: if_splits option.splits)

section \<open>Invariants of an application\<close>

definition app_inv :: "env \<Rightarrow> app \<Rightarrow> bool" where
  "app_inv env a \<longleftrightarrow>
     (\<forall>(k, p) \<in> set (a_params a).
        param_ok env p \<and> (k \<notin> a_errors a \<longrightarrow> within env p (p_value p)))"

definition all_within :: "env \<Rightarrow> app \<Rightarrow> bool" where
  "all_within env a \<longleftrightarrow> (\<forall>(k, p) \<in> set (a_params a). within env p (p_value p))"

definition declarations :: "app \<Rightarrow> (u64 \<times> string \<times> limit option \<times> limit option \<times> bool \<times> std_type option) list" where
  "declarations a = map (\<lambda>(k, p). (k, declared p)) (a_params a)"

lemma app_invI:
  "(\<And>k q. (k, q) \<in> set (a_params a) \<Longrightarrow>
      param_ok env q \<and> (k \<notin> a_errors a \<longrightarrow> within env q (p_value q))) \<Longrightarrow> app_inv env a"
  by (auto simp: app_inv_def)

lemma app_invD:
  "app_inv env a \<Longrightarrow> (k, q) \<in> set (a_params a) \<Longrightarrow>
    param_ok env q \<and> (k \<notin> a_errors a \<longrightarrow> within env q (p_value q))"
  by (auto simp: app_inv_def)

lemma app_inv_valid: "app_inv env a \<Longrightarrow> are_parameters_valid a \<Longrightarrow> all_within env a"
  by (fastforce simp: app_inv_def all_within_def are_parameters_valid_def)

lemma set_param_fields [simp]:
  "a_errors (set_param k p a) = a_errors a" "a_state (set_param k p a) = a_state a"
  "a_const (set_param k p a) = a_const a" "a_name (set_param k p a) = a_name a"
  "a_metadata (set_param k p a) = a_metadata a"
  by (simp_all add: set_param_def)

lemma set_param_in:
  "(k, q) \<in> set (a_params (set_param pid p a)) \<Longrightarrow>
    (k = pid \<and> q = p) \<or> (k \<noteq> pid \<and> (k, q) \<in> set (a_params a))"
  by (auto simp: set_param_def split: if_splits)

lemma map_of_set_param [simp]:
  "map_of (a_params (set_param pid p a)) k =
    (if k = pid then map_option (\<lambda>_. p) (map_of (a_params a) k) else map_of (a_params a) k)"
proof -
  have "map_of (map (\<lambda>(k, q). (k, if k = pid then p else q)) xs) k =
      (if k = pid then map_option (\<lambda>_. p) (map_of xs k) else map_of xs k)" for xs
    by (induction xs) auto
  then show ?thesis by (simp add: set_param_def)
qed

lemma set_param_declarations:
  assumes "map_of (a_params a) pid = Some p" "declared p' = declared p"
    and "distinct (map fst (a_params a))"
  shows "declarations (set_param pid p' a) = declarations a"
proof -
  have "declared (if k = pid then p' else q) = declared q" if kq: "(k, q) \<in> set (a_params a)" for k q
  proof (cases "k = pid")
    case True
    then have "q = p"
      using eq_key_imp_eq_value [OF assms(3) map_of_SomeD [OF assms(1)]] kq by simp
    with True assms(2) show ?thesis by simp
  qed simp
  then show ?thesis by (auto simp: declarations_def set_param_def)
qed

lemma map_of_param: "map_of (a_params a) pid = Some p \<Longrightarrow> (pid, p) \<in> set (a_params a)"
  by (rule map_of_SomeD)

lemma register_inv:
  assumes "app_inv env a"
  shows "app_inv env (register_parameter env pid p a)"
proof (cases "map_of (a_params a) pid")
  case None
  let ?r = "register_validation env pid p"
  have ok: "param_ok env (snd ?r)" "fst ?r \<longrightarrow> within env (snd ?r) (p_value (snd ?r))"
    by (auto simp: register_validation_def param_ok_def value_error_within dest: value_error_text
        split: option.splits)
  have reg: "a_params (register_parameter env pid p a) = ordered_emplace pid (snd ?r) (a_params a)"
    "a_errors (register_parameter env pid p a) = (if fst ?r then a_errors a else insert pid (a_errors a))"
    using None by (simp_all add: register_parameter_def Let_def split: prod.splits)
  show ?thesis
  proof (rule app_invI)
    fix k q assume "(k, q) \<in> set (a_params (register_parameter env pid p a))"
    then consider "k = pid" "q = snd ?r" | "(k, q) \<in> set (a_params a)"
      using set_ordered_emplace [of pid "snd ?r" "a_params a"] by (auto simp: reg)
    then show "param_ok env q \<and> (k \<notin> a_errors (register_parameter env pid p a) \<longrightarrow> within env q (p_value q))"
    proof cases
      case 1
      with ok show ?thesis by (simp add: reg)
    next
      case 2
      with app_invD [OF assms 2] show ?thesis by (auto simp: reg)
    qed
  qed
qed (use assms in \<open>simp add: register_parameter_def\<close>)

lemma merge_parameter_inv:
  assumes "app_inv env a" "merge_parameter env pid v a = Some a'"
  shows "app_inv env a'"
proof (cases "map_of (a_params a) pid")
  case None
  with assms show ?thesis by (simp add: merge_parameter_def)
next
  case (Some p)
  with assms(2) obtain valid p' where m: "merge env pid v p = Some (valid, p')"
    and a': "a' = (set_param pid p' a)\<lparr>a_errors := (if valid then a_errors a - {pid} else insert pid (a_errors a))\<rparr>"
    by (auto simp: merge_parameter_def split: option.splits)
  have "param_ok env p" using app_invD [OF assms(1) map_of_param [OF Some]] by simp
  note new = merge_facts [OF m this]
  show ?thesis
  proof (rule app_invI)
    fix k q assume "(k, q) \<in> set (a_params a')"
    then consider "k = pid" "q = p'" | "k \<noteq> pid" "(k, q) \<in> set (a_params a)"
      using set_param_in [of k q pid p' a] by (auto simp: a')
    then show "param_ok env q \<and> (k \<notin> a_errors a' \<longrightarrow> within env q (p_value q))"
      by cases (use new app_invD [OF assms(1)] in \<open>auto simp: a'\<close>)
  qed
qed

lemma merge_parameter_rest:
  assumes "merge_parameter env pid v a = Some a'"
  shows "a_state a' = a_state a \<and> a_const a' = a_const a \<and> a_name a' = a_name a \<and>
    map fst (a_params a') = map fst (a_params a)"
  using assms
  by (auto simp: merge_parameter_def set_param_def comp_def case_prod_beta split: option.splits prod.splits)

lemma merge_parameter_declarations:
  assumes "app_inv env a" "distinct (map fst (a_params a))" "merge_parameter env pid v a = Some a'"
  shows "declarations a' = declarations a"
proof (cases "map_of (a_params a) pid")
  case None
  with assms show ?thesis by (simp add: merge_parameter_def)
next
  case (Some p)
  with assms(3) obtain valid p' where m: "merge env pid v p = Some (valid, p')"
    and a': "a' = (set_param pid p' a)\<lparr>a_errors := (if valid then a_errors a - {pid} else insert pid (a_errors a))\<rparr>"
    by (auto simp: merge_parameter_def split: option.splits)
  have "param_ok env p" using app_invD [OF assms(1) map_of_param [OF Some]] by simp
  from merge_facts [OF m this] have "declared p' = declared p" by simp
  from set_param_declarations [OF Some this assms(2)] show ?thesis by (simp add: a' declarations_def)
qed

lemma merge_parameters_facts:
  assumes "merge_parameters env kvs a = Some a'" "app_inv env a"
  shows "app_inv env a' \<and> a_state a' = a_state a \<and> a_const a' = a_const a \<and> a_name a' = a_name a \<and>
    map fst (a_params a') = map fst (a_params a) \<and>
    (distinct (map fst (a_params a)) \<longrightarrow> declarations a' = declarations a)"
  using assms
proof (induction env kvs a rule: merge_parameters.induct)
  case (2 env k v kvs a)
  then obtain a1 where a1: "merge_parameter env k v a = Some a1" "merge_parameters env kvs a1 = Some a'"
    by (auto split: option.splits)
  have inv: "app_inv env a1" by (rule merge_parameter_inv [OF 2(3) a1(1)])
  note ih = 2(1) [OF a1(1) a1(2) inv]
  note r = merge_parameter_rest [OF a1(1)]
  have d: "distinct (map fst (a_params a)) \<longrightarrow> declarations a1 = declarations a"
    using merge_parameter_declarations [OF 2(3) _ a1(1)] by blast
  show ?case
  proof (intro conjI impI)
    assume "distinct (map fst (a_params a))"
    with ih r d show "declarations a' = declarations a" by simp
  qed (use ih r in simp_all)
qed simp

lemma merge_parameters_state: "merge_parameters env kvs a = Some a' \<Longrightarrow> a_state a' = a_state a"
  by (induction env kvs a rule: merge_parameters.induct)
    (auto dest!: merge_parameter_rest split: option.splits)

lemma set_custom_error_inv:
  assumes "app_inv env a"
  shows "app_inv env (set_custom_error pid e a)"
proof (cases "map_of (a_params a) pid")
  case None
  with assms show ?thesis by (simp add: set_custom_error_def)
next
  case (Some p)
  note old = app_invD [OF assms map_of_param [OF Some]]
  obtain e' where e': "e' \<noteq> []" "a_params (set_custom_error pid e a) = a_params (set_param pid (p\<lparr>p_error := e'\<rparr>) a)"
    and err: "a_errors a \<subseteq> a_errors (set_custom_error pid e a)"
    using Some by (cases "p_error p = []") (auto simp: set_custom_error_def parameter_head_def)
  show ?thesis
  proof (rule app_invI)
    fix k q assume "(k, q) \<in> set (a_params (set_custom_error pid e a))"
    then consider "k = pid" "q = p\<lparr>p_error := e'\<rparr>" | "(k, q) \<in> set (a_params a)"
      using set_param_in [of k q pid "p\<lparr>p_error := e'\<rparr>" a] by (auto simp: e')
    then show "param_ok env q \<and> (k \<notin> a_errors (set_custom_error pid e a) \<longrightarrow> within env q (p_value q))"
      by cases (use old e' err app_invD [OF assms] in \<open>auto simp: param_ok_def\<close>)
  qed
qed

text \<open>Custom errors leave the values as they are.\<close>

lemma set_custom_error_within:
  assumes "all_within env a"
  shows "all_within env (set_custom_error pid e a)"
proof (cases "map_of (a_params a) pid")
  case None
  with assms show ?thesis by (simp add: set_custom_error_def)
next
  case (Some p)
  obtain e' where e': "a_params (set_custom_error pid e a) = a_params (set_param pid (p\<lparr>p_error := e'\<rparr>) a)"
    using Some by (cases "p_error p = []") (auto simp: set_custom_error_def)
  show ?thesis
    using assms map_of_param [OF Some] set_param_in [of _ _ pid "p\<lparr>p_error := e'\<rparr>" a]
    by (fastforce simp: all_within_def e')
qed

section \<open>Reachable applications\<close>

text \<open>
  What happens to an application: its own program registers parameters and merges updates while it
  does not run, sets names and custom errors at any time, and messages arrive at any time.
\<close>

inductive app_step :: "env \<Rightarrow> (nat \<Rightarrow> byte list option) \<Rightarrow> app \<Rightarrow> app \<Rightarrow> bool"
  for env malloc where
  register: "\<not> is_running a \<Longrightarrow> p_error p = [] \<Longrightarrow>
    app_step env malloc a (register_parameter env pid p a)"
| register_const: "app_step env malloc a (register_const_parameter pid c a)"
| rename: "app_step env malloc a (set_name s a)"
| custom: "app_step env malloc a (set_custom_error pid e a)"
| merge: "\<not> is_running a \<Longrightarrow> merge_parameters env kvs a = Some a' \<Longrightarrow> app_step env malloc a a'"
| message: "collect env malloc d a = Some (a', eff) \<Longrightarrow> app_step env malloc a a'"

inductive app_reachable :: "env \<Rightarrow> (nat \<Rightarrow> byte list option) \<Rightarrow> app \<Rightarrow> bool"
  for env malloc where
  make: "app_reachable env malloc app_make"
| step: "app_reachable env malloc a \<Longrightarrow> app_step env malloc a a' \<Longrightarrow> app_reachable env malloc a'"

definition app_ok :: "env \<Rightarrow> app \<Rightarrow> bool" where
  "app_ok env a \<longleftrightarrow>
     app_inv env a \<and> sorted_wrt (<) (map fst (a_params a)) \<and> (is_running a \<longrightarrow> all_within env a)"

lemma app_ok_distinct: "app_ok env a \<Longrightarrow> distinct (map fst (a_params a))"
  by (simp add: app_ok_def strict_sorted_iff)

lemma app_ok_same:
  "app_ok env a \<Longrightarrow> a_params a' = a_params a \<Longrightarrow> a_errors a' = a_errors a \<Longrightarrow> a_state a' = a_state a \<Longrightarrow>
    app_ok env a'"
  by (simp add: app_ok_def app_inv_def all_within_def is_running_def)

lemma handle_pause_ok: "app_inv env a \<Longrightarrow> sorted_wrt (<) (map fst (a_params a)) \<Longrightarrow> app_ok env (handle_pause a)"
  by (auto simp: app_ok_def handle_pause_def is_running_def app_inv_def)

lemma handle_run_ok: "app_ok env a \<Longrightarrow> app_ok env (handle_run a)"
  using app_inv_valid [of env a]
  by (auto simp: app_ok_def handle_run_def is_running_def app_inv_def all_within_def)

lemma handle_modify_ok:
  assumes "app_ok env a" "handle_modify env kvs a = Some a'"
  shows "app_ok env a' \<and> declarations a' = declarations a \<and> a_const a' = a_const a \<and> a_name a' = a_name a"
proof -
  from assms(2) obtain b where b: "merge_parameters env kvs a = Some b"
    and a': "a' = (if are_parameters_valid b then b else handle_pause b)"
    by (auto simp: handle_modify_def split: option.splits)
  have inv: "app_inv env a" and sorted: "sorted_wrt (<) (map fst (a_params a))"
    using assms(1) by (simp_all add: app_ok_def)
  note m = merge_parameters_facts [OF b inv]
  have "app_ok env a'"
  proof (cases "are_parameters_valid b")
    case True
    then have "all_within env b" using m app_inv_valid by blast
    with True m sorted show ?thesis by (simp add: a' app_ok_def)
  next
    case False
    with m sorted handle_pause_ok show ?thesis by (simp add: a')
  qed
  then show ?thesis
    using m app_ok_distinct [OF assms(1)] by (auto simp: a' handle_pause_def declarations_def)
qed

text \<open>The effect of a message that is not a modification on the parameters.\<close>

lemma collect_cases:
  assumes "collect env malloc d a = Some (a', eff)"
  obtains (modify) "handle_modify env (sd_data d) a = Some a'"
  | (run) "a' = handle_run a"
  | (pause) "a' = handle_pause a"
  | (other) "a_params a' = a_params a" "a_errors a' = a_errors a" "a_state a' = a_state a"
      "a_const a' = a_const a" "a_name a' = a_name a"
proof -
  let ?other = "a_params a' = a_params a \<and> a_errors a' = a_errors a \<and> a_state a' = a_state a \<and>
      a_const a' = a_const a \<and> a_name a' = a_name a"
  have "handle_modify env (sd_data d) a = Some a' \<or> a' = handle_run a \<or> a' = handle_pause a \<or> ?other"
    using assms unfolding collect_def
    by (simp only: Let_def)
      (auto simp del: cipher.simps split: if_splits option.splits item.splits std_value.splits)
  with modify run pause other show thesis by blast
qed

lemma collect_ok:
  assumes "app_ok env a" "collect env malloc d a = Some (a', eff)"
  shows "app_ok env a' \<and> declarations a' = declarations a \<and> a_const a' = a_const a \<and> a_name a' = a_name a"
  using assms(2)
proof (cases rule: collect_cases)
  case modify
  then show ?thesis using handle_modify_ok [OF assms(1)] by blast
next
  case run
  then show ?thesis using handle_run_ok [OF assms(1)] by (simp add: handle_run_def declarations_def)
next
  case pause
  have "app_ok env (handle_pause a)"
    using assms(1) by (intro handle_pause_ok) (simp_all add: app_ok_def)
  with pause show ?thesis by (simp add: handle_pause_def declarations_def)
next
  case other
  then show ?thesis using app_ok_same [OF assms(1)] by (simp add: declarations_def)
qed

lemma app_step_ok:
  assumes "app_step env malloc a a'" "app_ok env a"
  shows "app_ok env a'"
  using assms
proof (induction rule: app_step.induct)
  case (register a p pid)
  then have "\<not> is_running (register_parameter env pid p a)"
    by (simp add: register_parameter_def is_running_def Let_def split: prod.splits)
  moreover have "sorted_wrt (<) (map fst (a_params (register_parameter env pid p a)))"
    using register(3) sorted_ordered_emplace [of "a_params a" pid]
    by (auto simp: app_ok_def register_parameter_def Let_def split: prod.splits)
  ultimately show ?case using register(3) register_inv [of env a] by (simp add: app_ok_def)
next
  case (register_const a pid c)
  show ?case by (rule app_ok_same [OF register_const]) (simp_all add: register_const_parameter_def)
next
  case (rename a s)
  show ?case by (rule app_ok_same [OF rename]) (simp_all add: set_name_def)
next
  case (custom a pid e)
  have "map fst (a_params (set_custom_error pid e a)) = map fst (a_params a)"
    by (simp add: set_custom_error_def set_param_def comp_def case_prod_beta split: option.splits)
  moreover have "a_state (set_custom_error pid e a) = a_state a"
    by (simp add: set_custom_error_def split: option.splits)
  ultimately show ?case
    using custom set_custom_error_inv [of env a] set_custom_error_within [of env a]
    by (simp add: app_ok_def is_running_def)
next
  case (merge a kvs a')
  from merge_parameters_facts [OF merge(2)] merge(1,3) show ?case
    by (simp add: app_ok_def is_running_def)
next
  case (message d a a' eff)
  then show ?case using collect_ok by blast
qed

lemma reachable_app_ok: "app_reachable env malloc a \<Longrightarrow> app_ok env a"
proof (induction rule: app_reachable.induct)
  case make
  show ?case by (simp add: app_ok_def app_inv_def app_make_def is_running_def)
next
  case (step a a')
  then show ?case using app_step_ok by blast
qed

section \<open>Errors of applications without tables\<close>

definition no_tables :: "app \<Rightarrow> bool" where
  "no_tables a \<longleftrightarrow> (\<forall>(k, p) \<in> set (a_params a). \<exists>v. p_value p = PValue v)"

definition errors_mirror :: "app \<Rightarrow> bool" where
  "errors_mirror a \<longleftrightarrow>
     a_errors a \<subseteq> fst ` set (a_params a) \<and>
     (\<forall>(k, p) \<in> set (a_params a). k \<in> a_errors a \<longleftrightarrow> p_error p \<noteq> [])"

lemma errors_mirrorI:
  "a_errors a \<subseteq> fst ` set (a_params a) \<Longrightarrow>
    (\<And>k q. (k, q) \<in> set (a_params a) \<Longrightarrow> k \<in> a_errors a \<longleftrightarrow> p_error q \<noteq> []) \<Longrightarrow> errors_mirror a"
  by (auto simp: errors_mirror_def)

lemma errors_mirrorD:
  "errors_mirror a \<Longrightarrow> (k, q) \<in> set (a_params a) \<Longrightarrow> k \<in> a_errors a \<longleftrightarrow> p_error q \<noteq> []"
  "errors_mirror a \<Longrightarrow> a_errors a \<subseteq> fst ` set (a_params a)"
  by (auto simp: errors_mirror_def)

lemma errors_mirror_same:
  "errors_mirror a \<Longrightarrow> a_params a' = a_params a \<Longrightarrow> a_errors a' = a_errors a \<Longrightarrow> errors_mirror a'"
  by (simp add: errors_mirror_def)

lemma no_tables_declared:
  "no_tables a \<longleftrightarrow> (\<forall>(k, n, l, u, b, ty) \<in> set (declarations a). ty \<noteq> None)"
  by (force simp: no_tables_def declarations_def declared_def split: pvalue.splits)

lemma set_param_keys [simp]: "fst ` set (a_params (set_param pid p a)) = fst ` set (a_params a)"
  by (force simp: set_param_def image_iff)

lemma set_param_mem: "(pid, q) \<in> set (a_params a) \<Longrightarrow> (pid, p) \<in> set (a_params (set_param pid p a))"
  by (force simp: set_param_def)

lemma merge_parameter_mirror:
  assumes "errors_mirror a" "no_tables a" "merge_parameter env pid v a = Some a'"
  shows "errors_mirror a' \<and> no_tables a'"
proof (cases "map_of (a_params a) pid")
  case None
  with assms show ?thesis by (simp add: merge_parameter_def)
next
  case (Some p)
  note mem = map_of_param [OF Some]
  with assms(3) Some obtain valid p' where m: "merge env pid v p = Some (valid, p')"
    and a': "a' = (set_param pid p' a)\<lparr>a_errors := (if valid then a_errors a - {pid} else insert pid (a_errors a))\<rparr>"
    by (auto simp: merge_parameter_def split: option.splits)
  obtain old where old: "p_value p = PValue old"
    using assms(2) mem by (auto simp: no_tables_def)
  have valid: "valid \<longleftrightarrow> p_error p' = []" by (rule merge_value_errors [OF m old])
  have "\<exists>w. p_value p' = PValue w"
    using m old by (cases v) (auto split: if_splits option.splits)
  then have "no_tables a'"
    using assms(2) set_param_in [of _ _ pid p' a] by (fastforce simp: no_tables_def a')
  moreover have "errors_mirror a'"
  proof (rule errors_mirrorI)
    have "pid \<in> fst ` set (a_params a)" using mem by force
    then show "a_errors a' \<subseteq> fst ` set (a_params a')"
      using errors_mirrorD(2) [OF assms(1)] by (auto simp: a')
    fix k q assume "(k, q) \<in> set (a_params a')"
    then consider "k = pid" "q = p'" | "k \<noteq> pid" "(k, q) \<in> set (a_params a)"
      using set_param_in [of k q pid p' a] by (auto simp: a')
    then show "k \<in> a_errors a' \<longleftrightarrow> p_error q \<noteq> []"
      by cases (use valid errors_mirrorD(1) [OF assms(1)] in \<open>auto simp: a'\<close>)
  qed
  ultimately show ?thesis by simp
qed

lemma merge_parameters_mirror:
  "merge_parameters env kvs a = Some a' \<Longrightarrow> errors_mirror a \<Longrightarrow> no_tables a \<Longrightarrow> errors_mirror a' \<and> no_tables a'"
proof (induction env kvs a rule: merge_parameters.induct)
  case (2 env k v kvs a)
  then obtain a1 where a1: "merge_parameter env k v a = Some a1" "merge_parameters env kvs a1 = Some a'"
    by (auto split: option.splits)
  have "errors_mirror a1 \<and> no_tables a1" by (rule merge_parameter_mirror [OF 2(3,4) a1(1)])
  with 2(1) [OF a1(1) a1(2)] show ?case by blast
qed simp

lemma set_custom_error_mirror:
  assumes "errors_mirror a"
  shows "errors_mirror (set_custom_error pid e a)"
proof (cases "map_of (a_params a) pid")
  case None
  with assms show ?thesis by (simp add: set_custom_error_def)
next
  case (Some p)
  note mem = map_of_param [OF Some]
  obtain e' where e': "e' \<noteq> []" "a_params (set_custom_error pid e a) = a_params (set_param pid (p\<lparr>p_error := e'\<rparr>) a)"
    and err: "a_errors (set_custom_error pid e a) = insert pid (a_errors a)"
    using Some errors_mirrorD(1) [OF assms mem]
    by (cases "p_error p = []") (auto simp: set_custom_error_def parameter_head_def)
  show ?thesis
  proof (rule errors_mirrorI)
    have "pid \<in> fst ` set (a_params a)" using mem by force
    then show "a_errors (set_custom_error pid e a) \<subseteq> fst ` set (a_params (set_custom_error pid e a))"
      using errors_mirrorD(2) [OF assms] by (simp add: e' err)
    fix k q assume "(k, q) \<in> set (a_params (set_custom_error pid e a))"
    then consider "k = pid" "q = p\<lparr>p_error := e'\<rparr>" | "k \<noteq> pid" "(k, q) \<in> set (a_params a)"
      using set_param_in [of k q pid "p\<lparr>p_error := e'\<rparr>" a] by (auto simp: e')
    then show "k \<in> a_errors (set_custom_error pid e a) \<longleftrightarrow> p_error q \<noteq> []"
      by cases (use e'(1) err errors_mirrorD(1) [OF assms] in auto)
  qed
qed

lemma register_mirror:
  assumes "errors_mirror a" "p_error p = []"
  shows "errors_mirror (register_parameter env pid p a)"
proof (cases "map_of (a_params a) pid")
  case None
  let ?r = "register_validation env pid p"
  have ok: "fst ?r \<longleftrightarrow> p_error (snd ?r) = []"
    using assms(2) by (auto simp: register_validation_def dest: value_error_text split: option.splits)
  have reg: "a_params (register_parameter env pid p a) = ordered_emplace pid (snd ?r) (a_params a)"
    "a_errors (register_parameter env pid p a) = (if fst ?r then a_errors a else insert pid (a_errors a))"
    using None by (simp_all add: register_parameter_def Let_def split: prod.splits)
  have fresh: "pid \<notin> fst ` set (a_params a)"
    using None by (simp add: map_of_eq_None_iff)
  show ?thesis
  proof (rule errors_mirrorI)
    show "a_errors (register_parameter env pid p a) \<subseteq> fst ` set (a_params (register_parameter env pid p a))"
      using errors_mirrorD(2) [OF assms(1)] by (auto simp: reg)
    fix k q assume "(k, q) \<in> set (a_params (register_parameter env pid p a))"
    then consider "k = pid" "q = snd ?r" | "(k, q) \<in> set (a_params a)"
      using set_ordered_emplace [of pid "snd ?r" "a_params a"] by (auto simp: reg)
    then show "k \<in> a_errors (register_parameter env pid p a) \<longleftrightarrow> p_error q \<noteq> []"
    proof cases
      case 1
      with ok fresh errors_mirrorD(2) [OF assms(1)] show ?thesis by (auto simp: reg)
    next
      case 2
      then have "k \<noteq> pid" using fresh by force
      with 2 errors_mirrorD(1) [OF assms(1)] show ?thesis by (auto simp: reg)
    qed
  qed
qed (use assms in \<open>simp add: register_parameter_def\<close>)

lemma emplace_keeps: "x \<in> set xs \<Longrightarrow> x \<in> set (ordered_emplace k v xs)"
  by (induction k v xs rule: ordered_emplace.induct) auto

lemma set_custom_error_declarations:
  "app_ok env a \<Longrightarrow> declarations (set_custom_error pid e a) = declarations a"
proof (cases "map_of (a_params a) pid")
  case (Some p)
  assume ok: "app_ok env a"
  have "declared (p\<lparr>p_error := e'\<rparr>) = declared p" for e' by (simp add: declared_def)
  from set_param_declarations [OF Some this app_ok_distinct [OF ok]] Some show ?thesis
    by (auto simp: set_custom_error_def declarations_def)
qed (simp add: set_custom_error_def)

lemma step_no_tables:
  assumes "app_step env malloc a a'" "app_ok env a" "no_tables a'"
  shows "no_tables a"
  using assms
proof (induction rule: app_step.induct)
  case (register a p pid)
  then have "set (a_params a) \<subseteq> set (a_params (register_parameter env pid p a))"
    by (auto simp: register_parameter_def Let_def emplace_keeps split: prod.splits)
  with register show ?case by (fastforce simp: no_tables_def)
next
  case (custom a pid e)
  then show ?case using set_custom_error_declarations [of env a] by (simp add: no_tables_declared)
next
  case (merge a kvs a')
  have "declarations a' = declarations a"
    using merge_parameters_facts [OF merge(2)] merge(3) app_ok_distinct [OF merge(3)]
    by (simp add: app_ok_def)
  with merge(4) show ?case by (simp add: no_tables_declared)
next
  case (message d a a' eff)
  then show ?case using collect_ok [of env a malloc d a' eff] by (simp add: no_tables_declared)
qed (simp_all add: no_tables_def register_const_parameter_def set_name_def)

lemma collect_mirror:
  assumes "collect env malloc d a = Some (a', eff)" "errors_mirror a" "no_tables a"
  shows "errors_mirror a'"
  using assms(1)
proof (cases rule: collect_cases)
  case modify
  then obtain b where "merge_parameters env (sd_data d) a = Some b"
    "a' = (if are_parameters_valid b then b else handle_pause b)"
    by (auto simp: handle_modify_def split: option.splits)
  moreover from this have "errors_mirror b"
    using merge_parameters_mirror [of env _ a b] assms(2,3) by blast
  ultimately show ?thesis
    using errors_mirror_same [of b "handle_pause b"] by (simp add: handle_pause_def)
next
  case run
  then show ?thesis using errors_mirror_same [OF assms(2)] by (simp add: handle_run_def)
next
  case pause
  then show ?thesis using errors_mirror_same [OF assms(2)] by (simp add: handle_pause_def)
next
  case other
  then show ?thesis using errors_mirror_same [OF assms(2)] by simp
qed

lemma step_mirror:
  assumes "app_step env malloc a a'" "errors_mirror a" "no_tables a"
  shows "errors_mirror a'"
  using assms
proof (induction rule: app_step.induct)
  case (register a p pid)
  then show ?case by (simp add: register_mirror)
next
  case (register_const a pid c)
  show ?case by (rule errors_mirror_same [OF register_const(1)]) (simp_all add: register_const_parameter_def)
next
  case (rename a s)
  show ?case by (rule errors_mirror_same [OF rename(1)]) (simp_all add: set_name_def)
next
  case (custom a pid e)
  then show ?case by (simp add: set_custom_error_mirror)
next
  case (merge a kvs a')
  then show ?case using merge_parameters_mirror by blast
next
  case (message d a a' eff)
  then show ?case using collect_mirror by blast
qed

lemma reachable_mirror:
  "app_reachable env malloc a \<Longrightarrow> no_tables a \<Longrightarrow> errors_mirror a"
proof (induction rule: app_reachable.induct)
  case make
  show ?case by (simp add: errors_mirror_def app_make_def)
next
  case (step a a')
  have "no_tables a" by (rule step_no_tables [OF step.hyps(2) reachable_app_ok [OF step.hyps(1)] step.prems])
  then show ?case using step_mirror [OF step.hyps(2)] step.IH by blast
qed

section \<open>Answers to requests\<close>

definition value_item :: "pvalue \<Rightarrow> item option" where
  "value_item v = (case v of PValue x \<Rightarrow> Some (Value x) | PTable _ \<Rightarrow> None)"

definition plain_items :: "(u64 \<times> pvalue) list \<Rightarrow> (u64 \<times> item) list" where
  "plain_items kvs = map (\<lambda>(k, v). (k, the (value_item v))) kvs"

lemma plain_items_Cons [simp]:
  "plain_items [] = []" "plain_items ((k, PValue x) # kvs) = (k, Value x) # plain_items kvs"
  by (simp_all add: plain_items_def value_item_def)

lemma set_data_sorted:
  "sorted_wrt (<) (map fst (sd_data d)) \<Longrightarrow> sorted_wrt (<) (map fst (sd_data (set_data k v d)))"
  by (simp add: set_data_def sorted_ordered_emplace)

lemma set_data_map:
  "sorted_wrt (<) (map fst (sd_data d)) \<Longrightarrow>
    map_of (sd_data (set_data k v d)) = Map.empty(k \<mapsto> v) ++ map_of (sd_data d)"
  by (auto simp: set_data_def map_of_ordered_emplace strict_sorted_iff fun_eq_iff map_add_def
      split: option.splits)

lemma map_of_plain_items:
  "\<forall>(k, v) \<in> set kvs. \<exists>x. v = PValue x \<Longrightarrow>
    map_of (plain_items kvs) k = (case map_of kvs k of None \<Rightarrow> None | Some v \<Rightarrow> value_item v)"
  by (induction kvs) (auto simp: value_item_def)

lemma map_of_map_values: "map_of (map (\<lambda>(k, x). (k, f x)) xs) k = map_option f (map_of xs k)"
  by (induction xs) auto

text \<open>Of two items with the same key the first one is sent.\<close>

lemma set_pvalues_plain:
  assumes "\<forall>(k, v) \<in> set kvs. \<exists>x. v = PValue x" "sorted_wrt (<) (map fst (sd_data d))"
  shows "\<exists>r. set_pvalues malloc kvs d = Some r \<and> sd_cipher r = sd_cipher d \<and>
    map_of (sd_data r) = map_of (plain_items kvs) ++ map_of (sd_data d)"
  using assms
proof (induction malloc kvs d rule: set_pvalues.induct)
  case (2 malloc k v kvs d)
  then obtain x where v: "v = PValue x" by auto
  let ?d = "set_data k (Value x) d"
  have "\<exists>r. set_pvalues malloc kvs ?d = Some r \<and> sd_cipher r = sd_cipher ?d \<and>
      map_of (sd_data r) = map_of (plain_items kvs) ++ map_of (sd_data ?d)"
    by (rule 2(1)) (use 2(2,3) in \<open>auto simp: v set_pvalue_def set_data_sorted\<close>)
  moreover have "sd_cipher ?d = sd_cipher d" by (simp add: set_data_def)
  moreover have "map_of (plain_items kvs) ++ (Map.empty(k \<mapsto> Value x) ++ map_of (sd_data d)) =
      map_of (plain_items ((k, v) # kvs)) ++ map_of (sd_data d)" for d :: std_data
    by (auto simp: v fun_eq_iff map_add_def split: option.splits)
  ultimately show ?case using set_data_map [OF 2(3), of k "Value x"]
    by (simp add: v set_pvalue_def fun_upd_def)
qed simp

section \<open>The text of the metadata\<close>

lemma join_entries:
  assumes "\<And>x. f x = butlast (f x) @ '',''" "xs \<noteq> []"
  shows "concat (map f xs) \<noteq> [] \<and> butlast (concat (map f xs)) = join '','' (map (\<lambda>x. butlast (f x)) xs)"
  using assms(2)
proof (induction xs)
  case (Cons x xs)
  obtain g where g: "f x = g @ '',''" using assms(1) by blast
  show ?case
  proof (cases xs)
    case (Cons y ys)
    then show ?thesis using Cons.IH g by (simp add: butlast_append)
  qed (simp add: g)
qed simp

lemma metadata_parameter_comma: "metadata_parameter env x = butlast (metadata_parameter env x) @ '',''"
  by (simp add: metadata_parameter_def butlast_append split: prod.splits)

lemma metadata_const_comma: "metadata_const x = butlast (metadata_const x) @ '',''"
  by (simp add: metadata_const_def butlast_append split: prod.splits)

lemma const_kept: "app_step env malloc a a' \<Longrightarrow> app_ok env a \<Longrightarrow> a_const a \<noteq> [] \<Longrightarrow> a_const a' \<noteq> []"
proof (induction rule: app_step.induct)
  case (register_const a pid c)
  then have "ordered_emplace pid c (a_const a) \<noteq> []"
    by (metis keys_ordered_emplace list.set(1) image_empty insert_not_empty)
  with register_const show ?case by (simp add: register_const_parameter_def)
next
  case (merge a kvs a')
  then show ?case using merge_parameters_facts [OF merge(2)] by (simp add: app_ok_def)
next
  case (message d a a' eff)
  then show ?case using collect_ok [of env a malloc d a' eff] by simp
qed (simp_all add: register_parameter_def set_name_def set_custom_error_def Let_def
    split: prod.splits option.splits)

lemma reachable_const: "app_reachable env malloc a \<Longrightarrow> a_const a \<noteq> []"
proof (induction rule: app_reachable.induct)
  case make
  show ?case by (simp add: app_make_def)
next
  case (step a a')
  then show ?case using const_kept [OF _ reachable_app_ok] by blast
qed

section \<open>Properties of applications\<close>

text \<open>A platform whose float operations compare nothing, and an application with one parameter.\<close>

definition plain_env :: env where
  "plain_env = \<lparr>e_fp = (\<lambda>_. []), e_quot = (\<lambda>_ _. []), e_less = (\<lambda>_ _. False),
     e_greater = (\<lambda>_ _. False), e_equal = (\<lambda>_ _. True)\<rparr>"

definition port :: parameter where
  "port = parameter_make ''port'' (PValue (Scalar (SUint16 80)))
     (Some (LScalar (SUint16 1))) (Some (LScalar (SUint16 1024))) False"

definition sample_app :: app where
  "sample_app = register_parameter plain_env 1 port app_make"

definition running_app :: app where
  "running_app = handle_run sample_app"

lemma sample_app_reachable: "app_reachable plain_env malloc sample_app"
  unfolding sample_app_def
  by (rule app_reachable.step [OF app_reachable.make app_step.register])
    (simp_all add: port_def parameter_make_def is_running_def app_make_def)

lemma running_app_reachable: "app_reachable plain_env malloc running_app"
  unfolding running_app_def
  by (rule app_reachable.step [OF sample_app_reachable app_step.message
        [where d = "data_make (cipher ActionRun)" and eff = NoEffect]])
    (simp add: collect_def data_make_def)

lemma sample_app_fields [simp]:
  "a_params sample_app = [(1, port)]" "a_errors sample_app = {}" "a_state sample_app = StatePaused"
  by (simp_all add: sample_app_def register_parameter_def app_make_def register_validation_def
      value_error_def port_def parameter_make_def scalar_below_def scalar_above_def)

lemma running_app_fields [simp]:
  "a_params running_app = [(1, port)]" "a_errors running_app = {}" "is_running running_app"
  by (simp_all add: running_app_def handle_run_def is_running_def are_parameters_valid_def)

text \<open>
  C1: A running application has only values that its parameters allow: whatever messages it gets
  and whatever its own program registers and merges while it does not run, every value of a running
  application is within the limits and empty only if that is allowed.
\<close>

theorem running_is_valid:
  assumes "app_reachable env malloc a" "is_running a" "map_of (a_params a) pid = Some p"
  shows "within env p (p_value p)"
  using reachable_app_ok [OF assms(1)] assms(2) map_of_param [OF assms(3)]
  by (auto simp: app_ok_def all_within_def)

theorem running_is_valid_witness: "within plain_env port (PValue (Scalar (SUint16 80)))"
  using running_is_valid [OF running_app_reachable [where malloc = zero_malloc], of 1 port]
  by (simp add: port_def parameter_make_def)

text \<open>
  C25: Merging into a parameter that is not a table: a value of the parameter's type that differs from
  the current one is stored; the parameter is in the set of erroneous parameters, and has an error
  text, exactly when the value is not one it may have; name, limits and type stay; every other
  parameter stays as it is. The current value again, a value of another type, or one for an unknown
  key, changes no parameter: a custom error stays, and with it the place in the set, also when the
  value is correct.
\<close>

theorem merge_semantics:
  assumes "map_of (a_params a) pid = Some p" "p_value p = PValue old"
    and "distinct (map fst (a_params a))"
  shows "\<exists>a'. merge_parameter env pid (Value v) a = Some a' \<and>
    (if value_type v = value_type old \<and> \<not> same_value env old v
     then (\<exists>p'. map_of (a_params a') = (map_of (a_params a))(pid \<mapsto> p') \<and>
            p_value p' = PValue v \<and> declared p' = declared p \<and>
            (pid \<in> a_errors a' \<longleftrightarrow> \<not> within env p (PValue v)) \<and>
            (p_error p' \<noteq> [] \<longleftrightarrow> \<not> within env p (PValue v)) \<and>
            (\<forall>k. k \<noteq> pid \<longrightarrow> (k \<in> a_errors a' \<longleftrightarrow> k \<in> a_errors a)))
     else a_params a' = a_params a \<and>
       a_errors a' = (if p_error p = [] then a_errors a - {pid} else insert pid (a_errors a))) \<and>
    (map_of (a_params a) k = None \<longrightarrow> merge_parameter env k (Value v) a = Some a)"
proof -
  have same: "map (\<lambda>(k, q). (k, if k = pid then p else q)) (a_params a) = a_params a"
  proof (rule map_idI)
    fix x assume x: "x \<in> set (a_params a)"
    obtain k q where "x = (k, q)" by force
    with x show "(case x of (k, q) \<Rightarrow> (k, if k = pid then p else q)) = x"
      using eq_key_imp_eq_value [OF assms(3) map_of_param [OF assms(1)], of q] by auto
  qed
  have upd: "map_of (a_params (set_param pid p' a)) = (map_of (a_params a))(pid \<mapsto> p')" for p'
    using assms(1) by (simp add: fun_eq_iff)
  show ?thesis
  proof (cases "value_type v = value_type old \<and> \<not> same_value env old v")
    case True
    note within = value_error_within [of env pid p "PValue v", symmetric]
    define p' where "p' = p\<lparr>p_value := PValue v,
      p_error := (case value_error env pid p (PValue v) of None \<Rightarrow> [] | Some e \<Rightarrow> e)\<rparr>"
    have m: "merge env pid (Value v) p = Some (within env p (PValue v), p')"
      using True assms(2)
      by (auto simp: p'_def within split: option.splits)
    have err: "p_error p' \<noteq> [] \<longleftrightarrow> \<not> within env p (PValue v)"
      by (auto simp: p'_def within dest: value_error_text split: option.splits)
    have p': "p_value p' = PValue v" "declared p' = declared p"
      using True assms(2) by (simp_all add: p'_def declared_def)
    show ?thesis
      using True m err p' upd assms(1)
      by (auto simp: merge_parameter_def simp del: map_of_set_param)
  next
    case False
    with assms(1,2) same show ?thesis by (auto simp: merge_parameter_def set_param_def)
  qed
qed

text \<open>The new port 0 is below the limit, 8080 above, 443 allowed.\<close>

theorem merge_semantics_witness:
  "\<exists>a' p'. merge_parameter plain_env 1 (Value (Scalar (SUint16 0))) running_app = Some a' \<and>
     map_of (a_params a') 1 = Some p' \<and> p_value p' = PValue (Scalar (SUint16 0)) \<and> 1 \<in> a_errors a'"
  using merge_semantics [where a = running_app and pid = 1 and p = port and env = plain_env
      and v = "Scalar (SUint16 0)" and k = 1 and old = "Scalar (SUint16 80)"]
  by (force simp: port_def parameter_make_def scalar_same_def within_def scalar_below_def)

text \<open>
  The comments of \<open>SetCustomError\<close> and \<open>MergeParameter\<close> say that a merge of a correct value clears a
  custom error. A merge of the correct value that the parameter has already does not.
\<close>

theorem custom_error_survives_merge:
  assumes "map_of (a_params a) pid = Some p" "p_value p = PValue v" "p_error p = []" "same_value env v v"
  shows "\<exists>a' p'. merge_parameter env pid (Value v) (set_custom_error pid e a) = Some a' \<and> pid \<in> a_errors a' \<and>
    map_of (a_params a') pid = Some p' \<and> p_value p' = PValue v \<and>
    p_error p' = parameter_head pid p @ '' custom error: '' @ e"
  using assms by (simp add: merge_parameter_def set_custom_error_def parameter_head_def)

theorem custom_error_survives_merge_witness:
  "\<exists>a'. merge_parameter plain_env 1 (Value (Scalar (SUint16 80))) (set_custom_error 1 ''bad'' running_app) = Some a'
     \<and> 1 \<in> a_errors a'"
  using custom_error_survives_merge [where a = running_app and pid = 1 and p = port and env = plain_env
      and v = "Scalar (SUint16 80)" and e = "''bad''"]
  by (force simp: port_def parameter_make_def scalar_same_def)

text \<open>
  A modification that arrives merges every update and then pauses the application exactly when
  a parameter has become or is still erroneous; it never starts one. Only the run message does, and
  only without erroneous parameters.
\<close>

theorem messages_and_running:
  assumes "collect env malloc d a = Some (a', eff)"
  shows "(sd_cipher d = cipher ActionModify \<longrightarrow>
      (\<exists>b. merge_parameters env (sd_data d) a = Some b \<and> a_params a' = a_params b \<and>
        a_errors a' = a_errors b \<and> (is_running a' \<longleftrightarrow> is_running a \<and> a_errors b = {}))) \<and>
    (sd_cipher d = cipher ActionRun \<longrightarrow> (is_running a' \<longleftrightarrow> is_running a \<or> a_errors a = {})) \<and>
    (sd_cipher d \<in> {cipher ActionPause, cipher ActionDelete} \<longrightarrow> \<not> is_running a') \<and>
    (sd_cipher d \<notin> cipher ` {ActionModify, ActionRun, ActionPause, ActionDelete} \<longrightarrow>
      a' = a\<lparr>a_metadata := a_metadata a'\<rparr>)"
proof (cases "sd_cipher d \<in> cipher ` {ActionModify, ActionRun, ActionPause, ActionDelete}")
  case True
  then show ?thesis
    using assms merge_parameters_state [of env "sd_data d" a]
    by (auto simp: collect_def handle_modify_def handle_run_def handle_pause_def is_running_def
        are_parameters_valid_def split: option.splits if_splits)
next
  case False
  then show ?thesis using assms unfolding collect_def
    by (auto simp: Let_def simp del: cipher.simps
        split: if_splits option.splits item.splits std_value.splits)
qed

text \<open>The port 0 pauses the application.\<close>

theorem messages_and_running_witness:
  "\<exists>a' b. collect plain_env zero_malloc
       (set_data 1 (Value (Scalar (SUint16 0))) (data_make (cipher ActionModify))) running_app = Some (a', NoEffect) \<and>
     merge_parameters plain_env [(1, Value (Scalar (SUint16 0)))] running_app = Some b \<and> \<not> is_running a'"
proof -
  let ?d = "set_data 1 (Value (Scalar (SUint16 0))) (data_make (cipher ActionModify))"
  obtain b where b: "merge_parameters plain_env (sd_data ?d) running_app = Some b" "a_errors b \<noteq> {}"
    by (simp add: set_data_def data_make_def merge_parameter_def port_def parameter_make_def
        scalar_same_def value_error_def scalar_below_def)
  then obtain a' where "collect plain_env zero_malloc ?d running_app = Some (a', NoEffect)"
    by (simp add: collect_def handle_modify_def set_data_def data_make_def)
  from messages_and_running [OF this] this b show ?thesis
    by (auto simp: set_data_def data_make_def)
qed

text \<open>
  No message changes what an application declares: names, limits, emptiness and value types of
  its parameters, their keys, its constant parameters and its name stay through every message.
\<close>

theorem network_keeps_declarations:
  assumes "app_reachable env malloc a" "collect env malloc d a = Some (a', eff)"
  shows "declarations a' = declarations a \<and> a_const a' = a_const a \<and> a_name a' = a_name a"
  using collect_ok [OF reachable_app_ok [OF assms(1)] assms(2)] by simp

theorem network_keeps_declarations_witness:
  "declarations (handle_pause running_app) = declarations running_app"
  using network_keeps_declarations [OF running_app_reachable,
      where d = "data_make (cipher ActionPause)" and eff = NoEffect and malloc = zero_malloc]
  by (simp add: collect_def data_make_def)

text \<open>
  While no parameter is a table, the set of erroneous parameters and the error texts agree: a
  parameter is in the set exactly when it has an error text.
\<close>

theorem errors_mirror_texts:
  assumes "app_reachable env malloc a" "no_tables a" "map_of (a_params a) pid = Some p"
  shows "pid \<in> a_errors a \<longleftrightarrow> p_error p \<noteq> []"
  using errors_mirrorD(1) [OF reachable_mirror [OF assms(1,2)] map_of_param [OF assms(3)]] .

theorem errors_mirror_texts_witness: "1 \<notin> a_errors running_app"
  using errors_mirror_texts [OF running_app_reachable [where malloc = zero_malloc], of 1 port]
  by (simp add: no_tables_def port_def parameter_make_def)

text \<open>
  With a table it does not hold: once a table parameter has an error text, a merge that makes
  it correct takes it out of the set and leaves the text, and from then on a custom error is added
  to that text without making the application erroneous again.
\<close>

theorem table_error_stale:
  assumes "map_of (a_params a) pid = Some p" "p_value p = PTable t" "p_error p \<noteq> []"
    and "merge_parameter env pid (Table td) a = Some a'" "pid \<notin> a_errors a'"
  shows "\<exists>p'. map_of (a_params a') pid = Some p' \<and> p_error p' = p_error p \<and>
    a_errors (set_custom_error pid e a') = a_errors a'"
proof -
  obtain valid p' where m: "merge env pid (Table td) p = Some (valid, p')"
    and a': "a' = (set_param pid p' a)\<lparr>a_errors := (if valid then a_errors a - {pid} else insert pid (a_errors a))\<rparr>"
    using assms(1,4) by (auto simp: merge_parameter_def split: option.splits)
  with assms(5) have valid by (auto split: if_splits)
  with m assms(2) have "p_error p' = p_error p"
    by (auto split: option.splits copy_result.splits)
  moreover have "map_of (a_params a') pid = Some p'" using assms(1) by (simp add: a')
  ultimately show ?thesis using assms(3) by (simp add: set_custom_error_def)
qed

text \<open>A table parameter that must not be empty, registered empty and then filled.\<close>

definition grid :: parameter where
  "grid = parameter_make ''grid'' (PTable (table_default [TUint8])) None None False"

definition grid_app :: app where
  "grid_app = register_parameter plain_env 7 grid app_make"

definition grid_data :: table_data where
  "grid_data = \<lparr>td_own = None, td_shared = Some [9, 0, 0, 0, 0, 0, 0, 0, 5], td_size = 9\<rparr>"

definition filled_grid :: table where
  "filled_grid = (table_default [TUint8])\<lparr>t_data := [[0 \<mapsto> Scalar (SUint8 5)]], t_rows := 1, t_bufferSize := 9\<rparr>"

lemma grid_copy: "table_copy [9, 0, 0, 0, 0, 0, 0, 0, 5] (table_default [TUint8]) = Some (Copied filled_grid)"
  by (simp add: filled_grid_def table_copy_def read_size_def read_at_def table_default_def add_columns_def
      empty_table_def word_of_bytes_def copy_rows.simps column_supported_def cell_decode_def emplace_def)

lemma grid_registered:
  "map_of (a_params grid_app) 7 = Some (grid\<lparr>p_error := parameter_head 7 grid @ '' is empty''\<rparr>)"
  "a_errors grid_app = {7}"
  by (simp_all add: grid_app_def register_parameter_def app_make_def register_validation_def
      value_error_def grid_def parameter_make_def table_default_def add_columns_def empty_table_def table_empty_def
      parameter_head_def)

theorem table_error_stale_witness:
  "\<exists>a'. merge_parameter plain_env 7 (Table grid_data) grid_app = Some a' \<and>
    a_errors grid_app = {7} \<and> a_errors a' = {} \<and> a_errors (set_custom_error 7 ''bad'' a') = {}"
proof -
  obtain a' where a': "merge_parameter plain_env 7 (Table grid_data) grid_app = Some a'" "a_errors a' = {}"
    using grid_copy grid_registered
    by (simp add: merge_parameter_def grid_data_def get_buffer_def grid_def parameter_make_def
        value_error_def filled_grid_def table_empty_def)
  have "p_value (grid\<lparr>p_error := e\<rparr>) = PTable (table_default [TUint8])" for e
    by (simp add: grid_def parameter_make_def)
  from table_error_stale [OF grid_registered(1) this _ a'(1), of "''bad''"] a'(2)
  have "a_errors (set_custom_error 7 ''bad'' a') = {}" by (auto simp: parameter_head_def)
  with a' grid_registered(2) show ?thesis by blast
qed

text \<open>
  The metadata of an application with parameters is one object with the group of the parameters
  and the group of the constant parameters, each a comma-separated list of entries in the order of
  the keys. Without parameters the brace of the first group is never closed.
\<close>

theorem metadata_layout:
  assumes "app_reachable env malloc a"
  shows "metadata env a =
    ''{'' @ quoted ''mutable'' @ '':{'' @
    (if a_params a \<noteq> [] then join '','' (map (\<lambda>x. butlast (metadata_parameter env x)) (a_params a)) @ ''}''
     else []) @
    '','' @ quoted ''const'' @ '':{'' @ join '','' (map (\<lambda>x. butlast (metadata_const x)) (a_const a)) @ ''}}''"
proof -
  note const = join_entries [of metadata_const, OF metadata_const_comma reachable_const [OF assms]]
  note params = join_entries [of "metadata_parameter env", OF metadata_parameter_comma]
  show ?thesis
    using reachable_const [OF assms] const params [of "a_params a"]
    by (simp add: metadata_def Let_def metadata_group_def butlast_append del: concat_eq_Nil_conv)
qed

theorem metadata_layout_witness:
  "take 21 (metadata plain_env app_make) = ''{'' @ quoted ''mutable'' @ '':{,'' @ quoted ''const'' @ '':''"
proof -
  have "a_params app_make = []" by (simp add: app_make_def)
  with metadata_layout [OF app_reachable.make [of plain_env zero_malloc]] show ?thesis
    by (simp add: quoted_def)
qed

text \<open>
  The answer to a request for parameters has the value of every parameter and of every constant
  parameter under its key, a parameter before a constant one with the same key, and nothing else,
  and the request changes nothing; for applications whose parameters are not tables.
\<close>

theorem parameters_answer:
  assumes "no_tables a" "\<forall>(k, c) \<in> set (a_const a). \<forall>t. c_value c \<noteq> CValue (PTable t)"
    and "sd_cipher d = cipher ParametersRequest"
  shows "\<exists>r. collect env malloc d a = Some (a, Reply r) \<and> sd_cipher r = cipher ParametersResponse \<and>
    map_of (sd_data r) k =
      (case map_of (a_params a) k of
         Some p \<Rightarrow> value_item (p_value p)
       | None \<Rightarrow> (case map_of (a_const a) k of
             Some c \<Rightarrow> value_item (p_value (const_as_parameter a c))
           | None \<Rightarrow> None))"
proof -
  let ?kvs = "map (\<lambda>(k, p). (k, p_value p)) (a_params a) @
        map (\<lambda>(k, c). (k, p_value (const_as_parameter a c))) (a_const a)"
  have plain: "\<exists>x. p_value (const_as_parameter a c) = PValue x" if "(k, c) \<in> set (a_const a)" for k c
  proof (cases "c_value c")
    case (CValue v)
    then have "\<forall>t. v \<noteq> PTable t" using assms(2) that by force
    with CValue show ?thesis
      by (cases v) (simp_all add: const_as_parameter_def parameter_make_def)
  qed (simp_all add: const_as_parameter_def parameter_make_def)
  have vals: "\<forall>(k, v) \<in> set ?kvs. \<exists>x. v = PValue x"
    using assms(1) plain by (auto simp: no_tables_def)
  then obtain r where r: "set_pvalues malloc ?kvs (data_make (cipher ParametersResponse)) = Some r"
    "sd_cipher r = cipher ParametersResponse" "map_of (sd_data r) = map_of (plain_items ?kvs)"
    using set_pvalues_plain [OF vals, of "data_make (cipher ParametersResponse)" malloc]
    by (auto simp: data_make_def)
  have "map_of (plain_items ?kvs) k =
      (case map_of (a_params a) k of
         Some p \<Rightarrow> value_item (p_value p)
       | None \<Rightarrow> (case map_of (a_const a) k of
             Some c \<Rightarrow> value_item (p_value (const_as_parameter a c))
           | None \<Rightarrow> None))"
    using vals by (simp add: map_of_plain_items map_add_def map_of_map_values split: option.split)
  moreover have "collect env malloc d a = map_option (\<lambda>r. (a, Reply r)) (parameters_response malloc a)"
    using assms(3) by (simp add: collect_def)
  ultimately show ?thesis
    using r by (simp add: parameters_response_def del: cipher.simps)
qed

text \<open>The answer with the port, the name and the state.\<close>

theorem parameters_answer_witness:
  "\<exists>r. collect plain_env zero_malloc (data_make (cipher ParametersRequest)) running_app = Some (running_app, Reply r) \<and>
     map_of (sd_data r) 1 = Some (Value (Scalar (SUint16 80)))"
proof -
  have "a_const running_app = a_const app_make"
    by (simp add: running_app_def handle_run_def sample_app_def register_parameter_def Let_def app_make_def
        split: prod.splits)
  then have "\<forall>(k, c) \<in> set (a_const running_app). \<forall>t. c_value c \<noteq> CValue (PTable t)"
    by (simp add: app_make_def)
  moreover have "no_tables running_app" by (simp add: no_tables_def port_def parameter_make_def)
  ultimately show ?thesis
    using parameters_answer [of running_app "data_make (cipher ParametersRequest)" plain_env zero_malloc 1]
    by (auto simp: data_make_def port_def parameter_make_def value_item_def)
qed

end
