(* ===== verification/Receive.thy ===== *)
theory Receive
  imports ParametersSpec
begin

text \<open>
  How a server receives, \<open>server/server.h\<close> and \<open>server/server.cpp\<close>: the growing buffer of a
  connection (\<open>RecvBufferInfo\<close>), the reads of more data behind a header, and one round of the loop
  of a connection's thread, which hands messages of the standard protocol to the application and
  everything else to the handler of the derived server.

  The kernel's side of a connection is the bytes that have arrived and the portions that arrive
  later; a portion becomes available at a system call, and a blocking \<open>recv\<close> waits for the next
  one. No more portions means that the peer has closed the connection, or an error: the code stops
  either way. \<open>realloc\<close> and \<open>splice\<close> are parameters. A read or write outside the memory of the
  buffer gives \<open>ReadOob\<close>.
\<close>

section \<open>Sockets\<close>

record socket =
  s_available :: "byte list"
  s_arrivals :: "byte list list"

text \<open>A portion that has arrived since the last system call.\<close>

definition sock_poll :: "socket \<Rightarrow> socket" where
  "sock_poll s =
     (case s_arrivals s of
        [] \<Rightarrow> s
      | bs # bss \<Rightarrow> \<lparr>s_available = s_available s @ bs, s_arrivals = bss\<rparr>)"

fun sock_wait :: "byte list \<Rightarrow> byte list list \<Rightarrow> byte list \<times> byte list list" where
  "sock_wait [] (bs # bss) = sock_wait bs bss"
| "sock_wait av bss = (av, bss)"

text \<open>\<open>recv\<close> of at most \<open>n\<close> bytes: the bytes it copies, none at the end or for \<open>n = 0\<close>.\<close>

definition sock_recv :: "nat \<Rightarrow> socket \<Rightarrow> byte list \<times> socket" where
  "sock_recv n s =
     (if n = 0 then ([], s)
      else
        (let s' = sock_poll s;
             (av, bss) = sock_wait (s_available s') (s_arrivals s')
         in (take n av, \<lparr>s_available = drop n av, s_arrivals = bss\<rparr>)))"

section \<open>The buffer of a connection\<close>

datatype recv_action = ActUndefined | ActReturn | ActRead | ActDrop | ActMax

text \<open>The length of the buffer is \<open>m_currentRecvBufferSize\<close>.\<close>

record recv_info =
  rb_buffer :: "byte list"
  rb_limit :: u64
  rb_readDataSize :: u64
  rb_socket :: socket

definition default_read_data_size :: u64 where
  "default_read_data_size = 16"

definition manage_buffer ::
    "(byte list \<Rightarrow> nat \<Rightarrow> byte list option) \<Rightarrow> u64 \<Rightarrow> recv_info \<Rightarrow> recv_action \<times> recv_info" where
  "manage_buffer realloc sz info =
     (if unat sz \<le> length (rb_buffer info) then (ActRead, info)
      else if sz > rb_limit info then (ActDrop, info)
      else
        (case realloc (rb_buffer info) (unat sz) of
           None \<Rightarrow> (ActDrop, info)
         | Some buf \<Rightarrow> (ActRead, info\<lparr>rb_buffer := buf\<rparr>)))"

definition set_read_data_size ::
    "(byte list \<Rightarrow> nat \<Rightarrow> byte list option) \<Rightarrow> u64 \<Rightarrow> recv_info \<Rightarrow> recv_info" where
  "set_read_data_size realloc sz info =
     (if sz < 1 then info
      else
        (case manage_buffer realloc sz info of
           (ActRead, info') \<Rightarrow> info'\<lparr>rb_readDataSize := sz\<rparr>
         | (_, info') \<Rightarrow> info'))"

section \<open>Reading behind the header\<close>

datatype read_result = ReadTrue recv_info | ReadFalse recv_info | ReadOob

text \<open>\<open>recv\<close> into the buffer at an offset.\<close>

definition do_recv :: "nat \<Rightarrow> nat \<Rightarrow> recv_info \<Rightarrow> (byte list \<times> recv_info) option" where
  "do_recv off n info =
     (let (bs, s) = sock_recv n (rb_socket info); info' = info\<lparr>rb_socket := s\<rparr> in
      if bs = [] then Some (bs, info')
      else map_option (\<lambda>buf. (bs, info'\<lparr>rb_buffer := buf\<rparr>)) (write_at (rb_buffer info) off bs))"

function recv_all :: "nat \<Rightarrow> nat \<Rightarrow> recv_info \<Rightarrow> read_result" where
  "recv_all off n info =
     (case do_recv off n info of
        None \<Rightarrow> ReadOob
      | Some (bs, info') \<Rightarrow>
          (if bs = [] then ReadFalse info'
           else if n - length bs = 0 then ReadTrue info'
           else recv_all (off + length bs) (n - length bs) info'))"
  by pat_completeness auto
termination
  by (relation "measure (\<lambda>(off, n, info). n)") auto

declare recv_all.simps [simp del]

text \<open>
  \<open>off = 0\<close> stands for the bytes the loop has read. The other case of the available bytes reads
  once and does not look at how many bytes it got.
\<close>

definition read_additional_data ::
    "(byte list \<Rightarrow> nat \<Rightarrow> byte list option) \<Rightarrow> (nat \<Rightarrow> socket \<Rightarrow> socket) \<Rightarrow> u64 \<Rightarrow> u64 \<Rightarrow>
     recv_info \<Rightarrow> read_result" where
  "read_additional_data realloc discard sz off info =
     (case manage_buffer realloc sz info of
        (ActRead, info') \<Rightarrow>
          (let off' = (if off = 0 then rb_readDataSize info' else off);
               s = sock_poll (rb_socket info');
               info'' = info'\<lparr>rb_socket := s\<rparr>;
               available = length (s_available s);
               readData = unat (sz - off')
           in
           if available > 0 then
             (if available < readData then recv_all (unat off') readData info''
              else
                (case do_recv (unat off') readData info'' of
                   None \<Rightarrow> ReadOob
                 | Some (bs, i) \<Rightarrow> (if bs = [] then ReadFalse i else ReadTrue i)))
           else ReadFalse info'')
      | (ActDrop, info') \<Rightarrow>
          ReadFalse (info'\<lparr>rb_socket := discard (unat (sz - off)) (rb_socket info')\<rparr>)
      | (_, info') \<Rightarrow> ReadFalse info')"

text \<open>\<open>MSG_PEEK\<close>: the bytes stay available. The result has the new size.\<close>

definition sock_peek :: "nat \<Rightarrow> socket \<Rightarrow> byte list \<times> socket" where
  "sock_peek n s =
     (if n = 0 then ([], s)
      else
        (let s' = sock_poll s;
             (av, bss) = sock_wait (s_available s') (s_arrivals s')
         in (take n av, \<lparr>s_available = av, s_arrivals = bss\<rparr>)))"

datatype look_result = LookTrue u64 recv_info | LookFalse recv_info | LookOob

definition look_for_additional_data ::
    "(byte list \<Rightarrow> nat \<Rightarrow> byte list option) \<Rightarrow> (nat \<Rightarrow> socket \<Rightarrow> socket) \<Rightarrow> u64 \<Rightarrow> u64 \<Rightarrow>
     recv_info \<Rightarrow> look_result" where
  "look_for_additional_data realloc discard sz off info =
     (case manage_buffer realloc sz info of
        (ActRead, info') \<Rightarrow>
          (let off' = (if off = 0 then rb_readDataSize info' else off);
               s = sock_poll (rb_socket info')
           in
           if s_available s \<noteq> [] then
             (let (bs, s') = sock_peek (unat (sz - off')) s; info'' = info'\<lparr>rb_socket := s'\<rparr> in
              if bs = [] then LookFalse info''
              else
                (case write_at (rb_buffer info'') (unat off') bs of
                   None \<Rightarrow> LookOob
                 | Some buf \<Rightarrow>
                     LookTrue (word_of_nat (length bs) + off') (info''\<lparr>rb_buffer := buf\<rparr>)))
           else LookFalse (info'\<lparr>rb_socket := s\<rparr>))
      | (ActDrop, info') \<Rightarrow>
          LookFalse (info'\<lparr>rb_socket := discard (unat (sz - off)) (rb_socket info')\<rparr>)
      | (_, info') \<Rightarrow> LookFalse info')"

section \<open>The loop of a connection\<close>

datatype processing = Manager | Outcome | Income

text \<open>The ciphers from \<open>cipherActionHello\<close> on that a connection of this kind may send.\<close>

fun cipher_limit :: "processing \<Rightarrow> u64" where
  "cipher_limit Manager = 10"
| "cipher_limit _ = 3"

text \<open>A round: the connection ends, data is skipped, collected, or handed to the server's handler.\<close>

datatype loop_round =
  RoundClosed recv_info | RoundSkipped recv_info | RoundCollect std_data recv_info
| RoundHandle recv_info | RoundOob | RoundEndless

definition dispatch ::
    "(byte list \<Rightarrow> nat \<Rightarrow> byte list option) \<Rightarrow> (nat \<Rightarrow> socket \<Rightarrow> socket) \<Rightarrow> processing \<Rightarrow>
     recv_info \<Rightarrow> loop_round" where
  "dispatch realloc discard ty info =
     (if rb_readDataSize info \<ge> default_read_data_size then
        (case header_of_buffer (rb_buffer info) of
           None \<Rightarrow> RoundOob
         | Some h \<Rightarrow>
             (if h_cipher h mod 934875930 < cipher_limit ty then
                (let collected = (\<lambda>info'.
                   case header_of_buffer (rb_buffer info') of
                     None \<Rightarrow> RoundOob
                   | Some h' \<Rightarrow>
                       (case data_parse h' (rb_buffer info') of
                          None \<Rightarrow> RoundEndless
                        | Some (Parsed d) \<Rightarrow> RoundCollect d info'
                        | Some ParseFault \<Rightarrow> RoundOob))
                 in
                 if h_bufferSize h > default_read_data_size then
                   (case read_additional_data realloc discard (h_bufferSize h) 0 info of
                      ReadTrue info' \<Rightarrow> collected info'
                    | ReadFalse info' \<Rightarrow> RoundSkipped info'
                    | ReadOob \<Rightarrow> RoundOob)
                 else collected info)
              else RoundHandle info))
      else RoundHandle info)"

text \<open>The first read takes exactly the read size, in as many portions as it needs.\<close>

definition connection_round ::
    "(byte list \<Rightarrow> nat \<Rightarrow> byte list option) \<Rightarrow> (nat \<Rightarrow> socket \<Rightarrow> socket) \<Rightarrow> processing \<Rightarrow>
     recv_info \<Rightarrow> loop_round" where
  "connection_round realloc discard ty info =
     (case recv_all 0 (unat (rb_readDataSize info)) info of
        ReadOob \<Rightarrow> RoundOob
      | ReadFalse info' \<Rightarrow> RoundClosed info'
      | ReadTrue info' \<Rightarrow> dispatch realloc discard ty info')"

text \<open>The buffer and its sizes when the thread of a connection starts.\<close>

definition recv_info_make :: "(nat \<Rightarrow> byte list) \<Rightarrow> u64 \<Rightarrow> u64 \<Rightarrow> socket \<Rightarrow> recv_info" where
  "recv_info_make allocate recvBufferSize recvBufferSizeLimit s =
     \<lparr>rb_buffer = allocate (unat recvBufferSize), rb_limit = recvBufferSizeLimit,
      rb_readDataSize = default_read_data_size, rb_socket = s\<rparr>"

end
