(* ===== verification/ReceiveSpec.thy ===== *)
theory ReceiveSpec
  imports Receive
begin

text \<open>
  What a connection delivers: reads take bytes from the front of what the peer sent and lose none, a
  message that a program built reaches the application as it was sent however it is cut into
  portions, provided that a byte behind its header has arrived in time, and only the manager's
  connection can change the application.
\<close>

section \<open>The stream of a connection\<close>

definition stream_of :: "socket \<Rightarrow> byte list" where
  "stream_of s = s_available s @ concat (s_arrivals s)"

lemma stream_poll [simp]: "stream_of (sock_poll s) = stream_of s"
  by (simp add: stream_of_def sock_poll_def split: list.split)

lemma available_poll: "length (s_available s) \<le> length (s_available (sock_poll s))"
  by (simp add: sock_poll_def split: list.split)

lemma poll_keeps_available: "s_available s \<noteq> [] \<Longrightarrow> s_available (sock_poll s) \<noteq> []"
  using available_poll [of s] by auto

lemma sock_wait_stream:
  "sock_wait av bss = (av', bss') \<Longrightarrow> av' @ concat bss' = av @ concat bss \<and> (av' = [] \<longrightarrow> bss' = []) \<and>
    (av \<noteq> [] \<longrightarrow> av' = av)"
  by (induction av bss rule: sock_wait.induct) auto

lemma sock_recv_stream:
  assumes "sock_recv n s = (bs, s')"
  shows "stream_of s = bs @ stream_of s'" "length bs \<le> n" "bs = [] \<Longrightarrow> n = 0 \<or> stream_of s = []"
    and "length (s_available s) \<le> length bs + length (s_available s')"
proof -
  obtain av bss where w: "sock_wait (s_available (sock_poll s)) (s_arrivals (sock_poll s)) = (av, bss)"
    by force
  note facts = sock_wait_stream [OF w]
  have st: "stream_of s = av @ concat bss"
    using facts by (metis stream_of_def stream_poll)
  have av: "length (s_available s) \<le> length av"
    using facts available_poll [of s] by (cases "s_available (sock_poll s) = []") auto
  have "stream_of s = bs @ stream_of s' \<and> length bs \<le> n \<and> (bs = [] \<longrightarrow> n = 0 \<or> stream_of s = []) \<and>
      length (s_available s) \<le> length bs + length (s_available s')"
  proof (cases "n = 0")
    case True
    then show ?thesis using assms by (simp add: sock_recv_def)
  next
    case False
    then have bs: "bs = take n av" and s': "s' = \<lparr>s_available = drop n av, s_arrivals = bss\<rparr>"
      using assms w by (simp_all add: sock_recv_def Let_def)
    have "stream_of s' = drop n av @ concat bss" by (simp add: s' stream_of_def)
    then have "stream_of s = bs @ stream_of s'" by (simp add: st bs)
    moreover have "bs = [] \<longrightarrow> stream_of s = []"
      unfolding st bs using False facts by auto
    moreover have "length (s_available s) \<le> length bs + length (s_available s')"
      using av by (simp add: bs s')
    ultimately show ?thesis by (simp add: bs)
  qed
  then show "stream_of s = bs @ stream_of s'" "length bs \<le> n" "bs = [] \<Longrightarrow> n = 0 \<or> stream_of s = []"
    "length (s_available s) \<le> length bs + length (s_available s')"
    by blast+
qed

section \<open>Reads\<close>

definition put_at :: "nat \<Rightarrow> byte list \<Rightarrow> byte list \<Rightarrow> byte list" where
  "put_at off bs buf = take off buf @ bs @ drop (off + length bs) buf"

lemma write_at_put: "off + length bs \<le> length buf \<Longrightarrow> write_at buf off bs = Some (put_at off bs buf)"
  by (simp add: write_at_def put_at_def)

lemma put_at_put:
  "off + length bs \<le> length buf \<Longrightarrow>
    put_at (off + length bs) bs' (put_at off bs buf) = put_at off (bs @ bs') buf"
  by (simp add: put_at_def ac_simps)

lemma length_put_at [simp]: "off + length bs \<le> length buf \<Longrightarrow> length (put_at off bs buf) = length buf"
  by (simp add: put_at_def)

text \<open>However the bytes are cut into portions, a read of \<open>n\<close> bytes gets the next \<open>n\<close> bytes.\<close>

lemma recv_all_stream:
  assumes "stream_of (rb_socket info) = xs @ rest" "length xs = n" "0 < n"
    and "off + n \<le> length (rb_buffer info)"
  shows "\<exists>s. recv_all off n info =
      ReadTrue (info\<lparr>rb_buffer := put_at off xs (rb_buffer info), rb_socket := s\<rparr>) \<and> stream_of s = rest \<and>
      length (s_available (rb_socket info)) \<le> n + length (s_available s)"
  using assms
proof (induction off n info arbitrary: xs rule: recv_all.induct)
  case (1 off n info)
  obtain bs s where r: "sock_recv n (rb_socket info) = (bs, s)" by force
  note facts = sock_recv_stream [OF r]
  have ne: "bs \<noteq> []" using facts(3) 1(2-4) by auto
  obtain ys where xs: "xs = bs @ ys" "stream_of s = ys @ rest"
    using facts(1,2) 1(2,3)
    by (metis append_eq_append_conv_if append_take_drop_id append.assoc same_append_eq)
  have d: "do_recv off n info =
      Some (bs, info\<lparr>rb_buffer := put_at off bs (rb_buffer info), rb_socket := s\<rparr>)"
    using r ne facts(2) 1(5) by (simp add: do_recv_def write_at_put)
  show ?case
  proof (cases "ys = []")
    case True
    then show ?thesis
      using d ne facts(4) xs 1(3) by (subst recv_all.simps) auto
  next
    case False
    let ?info = "info\<lparr>rb_buffer := put_at off bs (rb_buffer info), rb_socket := s\<rparr>"
    have n: "n - length bs = length ys" using xs(1) 1(3) by simp
    have "\<exists>s'. recv_all (off + length bs) (n - length bs) ?info =
        ReadTrue (?info\<lparr>rb_buffer := put_at (off + length bs) ys (rb_buffer ?info), rb_socket := s'\<rparr>) \<and>
        stream_of s' = rest \<and>
        length (s_available (rb_socket ?info)) \<le> n - length bs + length (s_available s')"
      by (rule 1(1) [OF d refl ne _ _ n [symmetric]]) (use False xs 1(3,5) n facts(2) in auto)
    then show ?thesis
      using d ne facts(4) False n xs(1) 1(3,5) facts(2)
      by (subst recv_all.simps) (auto simp: put_at_put)
  qed
qed

lemma sock_recv_available:
  assumes "sock_recv n s = (bs, s')" "n \<le> length (s_available s)"
  shows "length bs = n"
proof (cases "s_available (sock_poll s)")
  case Nil
  with assms available_poll [of s] show ?thesis by (simp add: sock_recv_def)
next
  case (Cons x xs)
  obtain av bss where w: "sock_wait (s_available (sock_poll s)) (s_arrivals (sock_poll s)) = (av, bss)"
    by force
  then have "av = s_available (sock_poll s)" using sock_wait_stream [OF w] Cons by simp
  with assms w available_poll [of s] show ?thesis by (auto simp: sock_recv_def Let_def split: if_splits)
qed

text \<open>Both ways of reading behind the header get the same bytes when at least one has arrived.\<close>

definition read_more :: "nat \<Rightarrow> nat \<Rightarrow> recv_info \<Rightarrow> read_result" where
  "read_more off n info =
     (if length (s_available (rb_socket info)) < n then recv_all off n info
      else
        (case do_recv off n info of
           None \<Rightarrow> ReadOob
         | Some (bs, i) \<Rightarrow> (if bs = [] then ReadFalse i else ReadTrue i)))"

lemma read_more_recv_all:
  assumes "0 < n"
  shows "read_more off n info = recv_all off n info"
proof (cases "length (s_available (rb_socket info)) < n")
  case False
  obtain bs s where "sock_recv n (rb_socket info) = (bs, s)" by force
  then show ?thesis
    using assms False sock_recv_available [of n "rb_socket info" bs s]
    unfolding recv_all.simps [of off n info]
    by (auto simp: read_more_def do_recv_def split: option.splits)
qed (simp add: read_more_def)

lemma manage_buffer_read:
  assumes "realloc_ok realloc" "\<forall>b n. realloc b n \<noteq> None" "sz \<le> rb_limit info"
  shows "\<exists>buf. manage_buffer realloc sz info = (ActRead, info\<lparr>rb_buffer := buf\<rparr>) \<and>
    unat sz \<le> length buf \<and> length (rb_buffer info) \<le> length buf \<and>
    take (length (rb_buffer info)) buf = rb_buffer info"
proof (cases "unat sz \<le> length (rb_buffer info)")
  case True
  then show ?thesis by (intro exI [of _ "rb_buffer info"]) (simp add: manage_buffer_def)
next
  case False
  obtain buf where buf: "realloc (rb_buffer info) (unat sz) = Some buf" using assms(2) by blast
  then have "length buf = unat sz" using assms(1) by (simp add: realloc_ok_def)
  moreover have "take (length (rb_buffer info)) buf = rb_buffer info"
    using realloc_prefix [OF assms(1) buf, of "length (rb_buffer info)"] False by simp
  ultimately show ?thesis
    using False buf assms(3) by (intro exI [of _ buf]) (auto simp: manage_buffer_def)
qed

lemma read_additional_at:
  assumes "realloc_ok realloc" "\<forall>b n. realloc b n \<noteq> None" "sz \<le> rb_limit info"
    and "off = (if off0 = 0 then rb_readDataSize info else off0)" "off < sz"
    and "unat off \<le> length (rb_buffer info)"
    and "stream_of (rb_socket info) = xs @ rest" "length xs = unat sz - unat off"
    and "s_available (sock_poll (rb_socket info)) \<noteq> []"
  shows "\<exists>buf s. read_additional_data realloc discard sz off0 info =
      ReadTrue (info\<lparr>rb_buffer := take (unat off) (rb_buffer info) @ xs @ buf, rb_socket := s\<rparr>) \<and>
      stream_of s = rest \<and>
      length (s_available (rb_socket info)) \<le> length xs + length (s_available s)"
proof -
  obtain b where b: "manage_buffer realloc sz info = (ActRead, info\<lparr>rb_buffer := b\<rparr>)"
    "unat sz \<le> length b" "take (length (rb_buffer info)) b = rb_buffer info"
    using manage_buffer_read [OF assms(1-3)] by blast
  let ?i = "info\<lparr>rb_buffer := b, rb_socket := sock_poll (rb_socket info)\<rparr>"
  have n: "unat (sz - off) = unat sz - unat off" using assms(5) by (simp add: unat_sub less_imp_le)
  have pos: "0 < unat sz - unat off" using assms(5) by (simp add: word_less_nat_alt)
  have "0 < length (s_available (rb_socket ?i))" using assms(9) by simp
  then have "read_additional_data realloc discard sz off0 info = read_more (unat off) (unat sz - unat off) ?i"
    using n assms(4) [symmetric] by (cases "off0 = 0") (simp_all add: read_additional_data_def b read_more_def Let_def)
  also have "\<dots> = recv_all (unat off) (unat sz - unat off) ?i"
    using pos by (rule read_more_recv_all)
  finally obtain s where s: "read_additional_data realloc discard sz off0 info =
      ReadTrue (?i\<lparr>rb_buffer := put_at (unat off) xs b, rb_socket := s\<rparr>)" "stream_of s = rest"
    "length (s_available (sock_poll (rb_socket info))) \<le> unat sz - unat off + length (s_available s)"
    using recv_all_stream [of ?i xs rest "unat sz - unat off" "unat off"] assms(7,8) pos b(2) by auto
  have "take (unat off) b = take (unat off) (rb_buffer info)"
    using b(3) assms(6) by (metis min.absorb1 take_take)
  then show ?thesis
    using s available_poll [of "rb_socket info"] assms(8)
    by (intro exI [of _ "drop (unat off + length xs) b"] exI [of _ s]) (simp add: put_at_def)
qed

section \<open>A round for a message\<close>

lemma header_of_header_bytes:
  "header_of_buffer (header_bytes d @ post) = Some \<lparr>h_cipher = sd_cipher d, h_bufferSize = sd_bufferSize d\<rparr>"
  using header_of_encoding [of "d\<lparr>sd_data := []\<rparr>" post]
  by (simp add: data_encoding_def header_bytes_def)

lemma length_header_bytes [simp]: "length (header_bytes d) = 16"
  by (simp add: header_bytes_def)

lemma dispatch_message:
  assumes "std_inv d" "16 + items_size (sd_data d) < size_t_bound"
    and "realloc_ok realloc" "\<forall>b n. realloc b n \<noteq> None" "sd_bufferSize d \<le> rb_limit info"
    and "rb_readDataSize info = 16" "16 \<le> length (rb_buffer info)"
    and "sd_cipher d mod 934875930 < cipher_limit ty"
    and "take 16 (rb_buffer info) = header_bytes d"
    and "stream_of (rb_socket info) = concat (map item_encoding (sd_data d)) @ rest"
    and "sd_data d \<noteq> [] \<longrightarrow> s_available (sock_poll (rb_socket info)) \<noteq> []"
  shows "\<exists>kvs buf s. dispatch realloc discard ty info =
      RoundCollect (d\<lparr>sd_data := kvs\<rparr>) (info\<lparr>rb_buffer := header_bytes d @ buf, rb_socket := s\<rparr>) \<and>
    same_items (sd_data d) kvs \<and> stream_of s = rest"
proof -
  let ?items = "concat (map item_encoding (sd_data d))"
  have ok: "\<forall>(k, v) \<in> set (sd_data d). item_ok v" using assms(1) by (simp add: std_inv_def)
  have size: "unat (sd_bufferSize d) = 16 + items_size (sd_data d)"
    by (rule std_size_nat [OF assms(1,2)])
  have len: "length ?items = items_size (sd_data d)" by (rule length_item_encodings [OF ok])
  have h: "header_of_buffer (header_bytes d @ post) =
      Some \<lparr>h_cipher = sd_cipher d, h_bufferSize = sd_bufferSize d\<rparr>" for post
    by (rule header_of_header_bytes)
  have buf: "rb_buffer info = header_bytes d @ drop 16 (rb_buffer info)"
    using assms(9) by (metis append_take_drop_id)
  then have hb: "header_of_buffer (rb_buffer info) =
      Some \<lparr>h_cipher = sd_cipher d, h_bufferSize = sd_bufferSize d\<rparr>"
    using h by metis
  have parse: "\<exists>kvs. data_parse \<lparr>h_cipher = sd_cipher d, h_bufferSize = sd_bufferSize d\<rparr>
      (header_bytes d @ ?items @ post) = Some (Parsed (d\<lparr>sd_data := kvs\<rparr>)) \<and> same_items (sd_data d) kvs" for post
    using data_parse_encoding [OF assms(1,2), of post] by (simp add: data_encoding_def)
  show ?thesis
  proof (cases "sd_data d = []")
    case True
    then have "\<not> sd_bufferSize d > 16" using size by (simp add: word_less_nat_alt items_size_def)
    moreover obtain kvs where "data_parse \<lparr>h_cipher = sd_cipher d, h_bufferSize = sd_bufferSize d\<rparr>
        (rb_buffer info) = Some (Parsed (d\<lparr>sd_data := kvs\<rparr>))" "same_items (sd_data d) kvs"
      using parse [of "drop 16 (rb_buffer info)"] buf True by auto
    ultimately show ?thesis
      using assms(6,8,10) hb True buf
      by (intro exI [of _ kvs] exI [of _ "drop 16 (rb_buffer info)"] exI [of _ "rb_socket info"])
        (simp add: dispatch_def default_read_data_size_def)
  next
    case False
    then have "0 < items_size (sd_data d)" by (cases "sd_data d") (auto simp: items_size_def)
    then have gt: "sd_bufferSize d > 16" using size by (simp add: word_less_nat_alt)
    obtain b s where r: "read_additional_data realloc discard (sd_bufferSize d) 0 info =
        ReadTrue (info\<lparr>rb_buffer := take (unat (16::u64)) (rb_buffer info) @ ?items @ b, rb_socket := s\<rparr>)"
      "stream_of s = rest"
      using read_additional_at [OF assms(3-5), of 16 0, OF _ gt _ assms(10)] assms(6,7,11) size len False
      by force
    obtain kvs where "data_parse \<lparr>h_cipher = sd_cipher d, h_bufferSize = sd_bufferSize d\<rparr>
        (header_bytes d @ ?items @ b) = Some (Parsed (d\<lparr>sd_data := kvs\<rparr>))" "same_items (sd_data d) kvs"
      using parse [of b] by blast
    then show ?thesis
      using assms(6,8,9) hb h gt r
      by (intro exI [of _ kvs] exI [of _ "?items @ b"] exI [of _ s])
        (simp add: dispatch_def default_read_data_size_def)
  qed
qed

lemma parse_items_cipher:
  "parse_items buf off d = Some (Parsed d') \<Longrightarrow> sd_cipher d' = sd_cipher d"
proof -
  have "res = Parsed d' \<Longrightarrow> sd_cipher d' = sd_cipher d" if "parse_items buf off d = Some res" for res
    using that
  proof (induction rule: parse_items.raw_induct [rotated, consumes 1, case_names step])
    case (step rec buf off d res)
    then show ?case by (auto split: if_splits item_result.splits)
  qed
  then show "parse_items buf off d = Some (Parsed d') \<Longrightarrow> sd_cipher d' = sd_cipher d" by blast
qed

text \<open>Bytes in front of the offset stay as they are, so the header is the one that was checked.\<close>

lemma do_recv_prefix:
  "do_recv off n info = Some (bs, i) \<Longrightarrow> k \<le> off \<Longrightarrow> take k (rb_buffer i) = take k (rb_buffer info)"
  by (auto simp: do_recv_def write_at_def Let_def min_def split: prod.splits if_splits)

lemma recv_all_prefix:
  "recv_all off n info = ReadTrue i \<Longrightarrow> k \<le> off \<Longrightarrow> take k (rb_buffer i) = take k (rb_buffer info)"
proof (induction off n info rule: recv_all.induct)
  case (1 off n info)
  obtain bs i' where d: "do_recv off n info = Some (bs, i')"
    using 1(2) by (cases "do_recv off n info") (auto simp: recv_all.simps [of off n info])
  note p = do_recv_prefix [OF d 1(3)]
  show ?case
  proof (cases "n - length bs = 0")
    case True
    then show ?thesis using 1(2) d p by (auto simp: recv_all.simps [of off n info] split: if_splits)
  next
    case False
    then have ne: "bs \<noteq> []" and r: "recv_all (off + length bs) (n - length bs) i' = ReadTrue i"
      using 1(2) d by (auto simp: recv_all.simps [of off n info] split: if_splits)
    show ?thesis using 1(1) [OF d refl ne False r] 1(3) p by simp
  qed
qed

lemma manage_buffer_prefix:
  assumes "manage_buffer realloc sz info = (act, i)" "realloc_ok realloc"
  shows "take (length (rb_buffer info)) (rb_buffer i) = rb_buffer info \<and> rb_readDataSize i = rb_readDataSize info"
proof (cases "i = info")
  case False
  then obtain buf where r: "realloc (rb_buffer info) (unat sz) = Some buf" and i: "i = info\<lparr>rb_buffer := buf\<rparr>"
    and less: "length (rb_buffer info) < unat sz"
    using assms(1) by (auto simp: manage_buffer_def split: if_splits option.splits)
  have "take (length (rb_buffer info)) buf = take (length (rb_buffer info)) (rb_buffer info)"
    by (rule realloc_prefix [OF assms(2) r]) (use less in simp_all)
  then show ?thesis by (simp add: i)
qed simp

lemma read_additional_prefix:
  assumes "read_additional_data realloc discard sz 0 info = ReadTrue i" "realloc_ok realloc"
    and "k \<le> unat (rb_readDataSize info)" "k \<le> length (rb_buffer info)"
  shows "take k (rb_buffer i) = take k (rb_buffer info)"
proof -
  obtain act b where m: "manage_buffer realloc sz info = (act, b)" by force
  note mp = manage_buffer_prefix [OF m assms(2)]
  have "take k (rb_buffer b) = take k (take (length (rb_buffer info)) (rb_buffer b))"
    using assms(4) by (simp add: min_absorb1)
  also have "\<dots> = take k (rb_buffer info)" using mp by (simp only:)
  finally have kb: "take k (rb_buffer b) = take k (rb_buffer info)" .
  let ?b = "b\<lparr>rb_socket := sock_poll (rb_socket b)\<rparr>"
  let ?n = "unat (sz - rb_readDataSize info)" and ?off = "unat (rb_readDataSize info)"
  have act: "act = ActRead" using assms(1) m by (cases act) (simp_all add: read_additional_data_def)
  have "read_more ?off ?n ?b = ReadTrue i"
    using assms(1) mp by (auto simp: read_additional_data_def m act read_more_def Let_def split: if_splits)
  then have "recv_all ?off ?n ?b = ReadTrue i \<or> (\<exists>bs. do_recv ?off ?n ?b = Some (bs, i))"
    by (auto simp: read_more_def split: if_splits option.splits)
  then have "take k (rb_buffer i) = take k (rb_buffer ?b)"
    using recv_all_prefix [OF _ assms(3)] do_recv_prefix [OF _ assms(3)] by blast
  with kb show ?thesis by simp
qed

lemma header_front:
  "length x = 16 \<Longrightarrow> header_of_buffer (x @ y) =
    Some \<lparr>h_cipher = word_of_bytes (take 8 x), h_bufferSize = word_of_bytes (take 8 (drop 8 x))\<rparr>"
  by (simp add: header_of_buffer_def read_at_def)

lemma header_prefix:
  assumes "take 16 b = take 16 b'" "16 \<le> length b"
  shows "header_of_buffer b = header_of_buffer b'"
proof -
  have len: "length (take 16 b) = 16" "length (take 16 b') = 16"
    using assms(2) by (simp, simp flip: assms(1))
  show ?thesis
    using header_front [OF len(1), of "drop 16 b"] header_front [OF len(2), of "drop 16 b'"]
    unfolding assms(1) [symmetric] append_take_drop_id by (simp add: assms(1))
qed

lemma dispatch_cipher:
  assumes "dispatch realloc discard ty info = RoundCollect d info'" "realloc_ok realloc"
  shows "sd_cipher d mod 934875930 < cipher_limit ty"
proof -
  obtain h where h: "header_of_buffer (rb_buffer info) = Some h" "h_cipher h mod 934875930 < cipher_limit ty"
    and sixteen: "rb_readDataSize info \<ge> 16"
    using assms(1)
    by (auto simp: dispatch_def default_read_data_size_def split: if_splits option.splits)
  have len: "16 \<le> length (rb_buffer info)"
    using h(1) by (auto simp: header_of_buffer_def read_at_def split: option.splits if_splits)
  have "header_of_buffer (rb_buffer i) = Some h"
    if "read_additional_data realloc discard sz 0 info = ReadTrue i" for sz i
    using header_prefix [OF read_additional_prefix [OF that assms(2), of 16, symmetric]] sixteen len h(1)
    by (simp add: word_le_nat_alt)
  then show ?thesis
    using assms(1) h
    by (auto simp: dispatch_def data_parse_def Let_def dest!: parse_items_cipher
        split: if_splits option.splits read_result.splits parse_result.splits)
qed

lemma collect_harmless:
  assumes "collect env malloc d a = Some (a', eff)" "sd_cipher d mod 934875930 < 3"
  shows "a' = a"
proof -
  have "sd_cipher d \<notin> cipher ` {ActionPause, ActionRun, ActionDelete, ActionModify, MetadataRequest}"
    using assms(2) by auto
  with assms(1) show ?thesis
    unfolding collect_def
    by (auto simp: Let_def simp del: cipher.simps
        split: if_splits option.splits item.splits std_value.splits)
qed

section \<open>Properties of connections\<close>

text \<open>
  The case in which \<open>ReadAdditionalData\<close> goes on: when the header has been read, its look at the
  available bytes finds at least one behind the header.
\<close>

definition body_in_time :: "recv_info \<Rightarrow> bool" where
  "body_in_time info =
     (case recv_all 0 16 info of
        ReadTrue i \<Rightarrow> s_available (sock_poll (rb_socket i)) \<noteq> []
      | _ \<Rightarrow> False)"

lemma body_in_time_available:
  assumes "stream_of (rb_socket info) = xs @ rest" "length xs = 16" "16 \<le> length (rb_buffer info)"
    and "16 < length (s_available (rb_socket info))"
  shows "body_in_time info"
proof -
  obtain s where s: "recv_all 0 16 info = ReadTrue (info\<lparr>rb_buffer := put_at 0 xs (rb_buffer info), rb_socket := s\<rparr>)"
    "length (s_available (rb_socket info)) \<le> 16 + length (s_available s)"
    using recv_all_stream [of info xs rest 16 0] assms by auto
  then have "s_available s \<noteq> []" using assms(4) by auto
  then show ?thesis using s(1) poll_keeps_available by (simp add: body_in_time_def)
qed

text \<open>
  C3: A message that a program built arrives: when a connection of a kind that may send its cipher
  has the bytes of the message in front, one round of the loop collects exactly this message, with
  tables equal to those sent, and leaves what follows it for the next round. The bytes may come in
  any portions as long as, for a message with data, the first byte behind the header is there when
  the header has been read; the buffer may grow to the message's size.
\<close>

theorem message_received:
  assumes "message d" "malloc_ok malloc" "16 + items_size (sd_data d) < size_t_bound"
    and "data_encode malloc d = Some bs"
    and "realloc_ok realloc" "\<forall>b n. realloc b n \<noteq> None" "sd_bufferSize d \<le> rb_limit info"
    and "rb_readDataSize info = 16" "16 \<le> length (rb_buffer info)"
    and "sd_cipher d mod 934875930 < cipher_limit ty"
    and "stream_of (rb_socket info) = bs @ rest"
    and "sd_data d \<noteq> [] \<longrightarrow> body_in_time info"
  shows "\<exists>kvs info'. connection_round realloc discard ty info = RoundCollect (d\<lparr>sd_data := kvs\<rparr>) info' \<and>
    list_all2 (\<lambda>(k, v) (k', v'). k = k' \<and> same_item v v') (sd_data d) kvs \<and>
    stream_of (rb_socket info') = rest \<and> rb_readDataSize info' = 16"
proof -
  note inv = message_std_inv [OF assms(1)]
  obtain b where "malloc (16 + items_size (sd_data d)) = Some b"
    using assms(4) std_size_nat [OF inv assms(3)] by (auto simp: data_encode_def split: option.splits)
  from data_encode_inv [OF inv assms(2,3) this] assms(4)
  have bs: "bs = header_bytes d @ concat (map item_encoding (sd_data d))"
    by (simp add: data_encoding_def)
  obtain s where s: "recv_all 0 16 info =
      ReadTrue (info\<lparr>rb_buffer := put_at 0 (header_bytes d) (rb_buffer info), rb_socket := s\<rparr>)"
    "stream_of s = concat (map item_encoding (sd_data d)) @ rest"
    "length (s_available (rb_socket info)) \<le> 16 + length (s_available s)"
    using recv_all_stream [of info "header_bytes d" "concat (map item_encoding (sd_data d)) @ rest" 16 0]
      assms(9,11) by (auto simp: bs)
  let ?info = "info\<lparr>rb_buffer := put_at 0 (header_bytes d) (rb_buffer info), rb_socket := s\<rparr>"
  have "s_available (sock_poll s) \<noteq> []" if "sd_data d \<noteq> []"
    using assms(12) s(1) that by (simp add: body_in_time_def)
  then obtain kvs buf s' where "dispatch realloc discard ty ?info =
      RoundCollect (d\<lparr>sd_data := kvs\<rparr>) (?info\<lparr>rb_buffer := header_bytes d @ buf, rb_socket := s'\<rparr>)"
    "same_items (sd_data d) kvs" "stream_of s' = rest"
    using dispatch_message [OF inv assms(3,5,6), of ?info ty rest discard] assms(7-10) s(2)
    by (auto simp: put_at_def)
  then show ?thesis
    using s(1) assms(8) by (auto simp: connection_round_def same_items_def)
qed

definition sample_info :: "byte list \<Rightarrow> byte list list \<Rightarrow> recv_info" where
  "sample_info av bss =
     recv_info_make (\<lambda>n. replicate n 0) 1024 8388608 \<lparr>s_available = av, s_arrivals = bss\<rparr>"

lemma sample_info_fields [simp]:
  "rb_buffer (sample_info av bss) = replicate 1024 0" "rb_limit (sample_info av bss) = 8388608"
  "rb_readDataSize (sample_info av bss) = 16"
  "rb_socket (sample_info av bss) = \<lparr>s_available = av, s_arrivals = bss\<rparr>"
  by (simp_all add: sample_info_def recv_info_make_def default_read_data_size_def)

text \<open>A message in three portions on the manager's connection.\<close>

theorem message_received_witness:
  "\<exists>kvs info'. connection_round copy_realloc (\<lambda>_ s. s) Manager
       (sample_info (take 17 (data_encoding sample_message)) [drop 17 (data_encoding sample_message), [1, 2]]) =
     RoundCollect (sample_message\<lparr>sd_data := kvs\<rparr>) info' \<and> stream_of (rb_socket info') = [1, 2]"
proof -
  have "zero_malloc (16 + items_size (sd_data sample_message)) = Some (replicate 44 0)"
    by (simp add: sample_message_data zero_malloc_def)
  from data_encode_inv [OF message_std_inv [OF sample_message] zero_malloc_ok _ this]
  have enc: "data_encode zero_malloc sample_message = Some (data_encoding sample_message)"
    by (simp add: sample_message_data)
  have len: "length (data_encoding sample_message) = 44"
    by (simp add: data_encoding_def item_encoding_def sample_message_data)
  let ?info = "sample_info (take 17 (data_encoding sample_message)) [drop 17 (data_encoding sample_message), [1, 2]]"
  have "\<forall>b n. copy_realloc b n \<noteq> None" by (simp add: copy_realloc_def)
  moreover have "stream_of (rb_socket ?info) = data_encoding sample_message @ [1, 2]"
    by (simp add: stream_of_def)
  moreover have "body_in_time ?info"
    using len by (intro body_in_time_available [of ?info "take 16 (data_encoding sample_message)"
        "drop 16 (data_encoding sample_message) @ [1, 2]"]) (simp_all add: stream_of_def)
  moreover have "sd_bufferSize sample_message \<le> rb_limit ?info"
    "sd_cipher sample_message mod 934875930 < cipher_limit Manager"
    "16 + items_size (sd_data sample_message) < size_t_bound"
    by (simp_all add: sample_message_data)
  ultimately have "\<exists>kvs info'. connection_round copy_realloc (\<lambda>_ s. s) Manager ?info =
      RoundCollect (sample_message\<lparr>sd_data := kvs\<rparr>) info' \<and>
      list_all2 (\<lambda>(k, v) (k', v'). k = k' \<and> same_item v v') (sd_data sample_message) kvs \<and>
      stream_of (rb_socket info') = [1, 2] \<and> rb_readDataSize info' = 16"
    by (intro message_received [OF sample_message zero_malloc_ok _ enc copy_realloc_ok]) simp_all
  then show ?thesis by blast
qed

text \<open>
  C29: Only the manager's connection commands: whatever bytes an income or outcome connection sends,
  in whatever portions, a message that the loop collects from it leaves the application as it is.
\<close>

theorem only_manager_commands:
  assumes "connection_round realloc discard ty info = RoundCollect d info'" "ty \<noteq> Manager"
    and "realloc_ok realloc" "collect env malloc d a = Some (a', eff)"
  shows "a' = a"
proof -
  have "\<exists>i. dispatch realloc discard ty i = RoundCollect d info'"
    using assms(1) by (auto simp: connection_round_def split: read_result.splits)
  then have "sd_cipher d mod 934875930 < cipher_limit ty" using dispatch_cipher assms(3) by blast
  moreover have "cipher_limit ty = 3" using assms(2) by (cases ty) simp_all
  ultimately show ?thesis using collect_harmless [OF assms(4)] by simp
qed

theorem only_manager_commands_witness:
  "\<exists>d info'. connection_round copy_realloc (\<lambda>_ s. s) Income (sample_info (action_bytes ActionHello) []) =
       RoundCollect d info' \<and> collect plain_env zero_malloc d running_app = Some (running_app, Hello)"
proof -
  let ?info = "sample_info (action_bytes ActionHello) []"
  have enc: "action_bytes ActionHello = data_encoding (data_make (cipher ActionHello))"
    by (simp add: data_encoding_def header_bytes_def data_make_def action_bytes_def)
  have d: "dispatch copy_realloc (\<lambda>_ s. s) Income i = RoundCollect (data_make (cipher ActionHello)) i"
    if "rb_readDataSize i = 16" "rb_buffer i = action_bytes ActionHello @ post" for i post
    using that header_of_encoding [of "data_make (cipher ActionHello)" post]
    by (simp add: dispatch_def default_read_data_size_def enc data_make_def data_parse_def parse_items.simps)
  have "length (action_bytes ActionHello) = 16" by (simp add: action_bytes_def)
  then obtain s where "recv_all 0 16 ?info =
      ReadTrue (?info\<lparr>rb_buffer := put_at 0 (action_bytes ActionHello) (replicate 1024 0), rb_socket := s\<rparr>)"
    using recv_all_stream [of ?info "action_bytes ActionHello" "[]" 16 0] by (auto simp: stream_of_def)
  then obtain i where round: "connection_round copy_realloc (\<lambda>_ s. s) Income ?info =
      RoundCollect (data_make (cipher ActionHello)) i"
    by (simp add: connection_round_def d put_at_def)
  have coll: "collect plain_env zero_malloc (data_make (cipher ActionHello)) running_app = Some (running_app, Hello)"
    by (simp add: collect_def data_make_def)
  then have "running_app = running_app"
    using only_manager_commands [OF round _ copy_realloc_ok] by blast
  with round coll show ?thesis by blast
qed

text \<open>
  C35: A body that is late is lost: when nothing behind the header has arrived at the moment the
  header has been read, the round skips the message, the body stays in the stream, and the next
  round takes its bytes for a header.
\<close>

theorem late_body_desynchronises:
  assumes "message d" "16 + items_size (sd_data d) < size_t_bound" "sd_data d \<noteq> []"
    and "realloc_ok realloc" "\<forall>b n. realloc b n \<noteq> None" "sd_bufferSize d \<le> rb_limit info"
    and "rb_readDataSize info = 16" "16 \<le> length (rb_buffer info)"
    and "sd_cipher d mod 934875930 < cipher_limit ty"
    and "rb_socket info = \<lparr>s_available = header_bytes d, s_arrivals = [] # [] # later\<rparr>"
  shows "\<exists>info'. connection_round realloc discard ty info = RoundSkipped info' \<and>
    stream_of (rb_socket info') = concat later \<and> rb_readDataSize info' = 16"
proof -
  let ?s = "\<lparr>s_available = [], s_arrivals = [] # later\<rparr>"
  let ?info = "info\<lparr>rb_buffer := put_at 0 (header_bytes d) (rb_buffer info), rb_socket := ?s\<rparr>"
  have "sock_wait (header_bytes d) ([] # later) = (header_bytes d, [] # later)"
    by (cases "header_bytes d") (simp_all add: header_bytes_def word_bytes_def le_bytes_numeral)
  then have "sock_recv 16 (rb_socket info) = (header_bytes d, ?s)"
    by (simp add: assms(10) sock_recv_def sock_poll_def)
  moreover have "header_bytes d \<noteq> []" by (simp flip: length_greater_0_conv)
  ultimately have r: "recv_all 0 16 info = ReadTrue ?info"
    using assms(8) by (subst recv_all.simps) (simp add: do_recv_def write_at_put)
  have size: "unat (sd_bufferSize d) = 16 + items_size (sd_data d)"
    by (rule std_size_nat [OF message_std_inv [OF assms(1)] assms(2)])
  have "0 < items_size (sd_data d)" using assms(3) by (cases "sd_data d") (auto simp: items_size_def)
  then have gt: "sd_bufferSize d > 16" using size by (simp add: word_less_nat_alt)
  obtain buf where "manage_buffer realloc (sd_bufferSize d) ?info = (ActRead, ?info\<lparr>rb_buffer := buf\<rparr>)"
    using manage_buffer_read [OF assms(4,5), of "sd_bufferSize d" ?info] assms(6) by auto
  then have "read_additional_data realloc discard (sd_bufferSize d) 0 ?info =
      ReadFalse (?info\<lparr>rb_buffer := buf, rb_socket := \<lparr>s_available = [], s_arrivals = later\<rparr>\<rparr>)"
    by (simp add: read_additional_data_def sock_poll_def)
  then have "dispatch realloc discard ty ?info =
      RoundSkipped (?info\<lparr>rb_buffer := buf, rb_socket := \<lparr>s_available = [], s_arrivals = later\<rparr>\<rparr>)"
    using gt assms(7,9) header_of_header_bytes [of d "drop 16 (rb_buffer info)"]
    by (simp add: dispatch_def default_read_data_size_def put_at_def)
  with r assms(7) show ?thesis by (simp add: connection_round_def stream_of_def)
qed

theorem late_body_desynchronises_witness:
  "\<exists>info'. connection_round copy_realloc (\<lambda>_ s. s) Manager
       (sample_info (header_bytes sample_message) [[], [], [32, 5, 0]]) = RoundSkipped info' \<and>
     stream_of (rb_socket info') = [32, 5, 0]"
proof -
  have "\<forall>b n. copy_realloc b n \<noteq> None" by (simp add: copy_realloc_def)
  then show ?thesis
    using late_body_desynchronises [OF sample_message _ _ copy_realloc_ok, where ty = Manager
        and info = "sample_info (header_bytes sample_message) [[], [], [32, 5, 0]]"
        and later = "[[32, 5, 0]]" and discard = "\<lambda>_ s. s"]
    by (auto simp: sample_message_data)
qed

text \<open>
  A receive buffer smaller than a header overflows. The parameter of its size has the minimum 3
  and the loop reads 16 bytes, so with a size from 3 to 15 the first 16 bytes of a peer are written
  behind the allocated memory.
\<close>

theorem small_buffer_overflows:
  assumes "recvBufferSize < 16" "\<And>n. length (allocate n) = n" "16 \<le> length (s_available s)"
  shows "connection_round realloc discard ty (recv_info_make allocate recvBufferSize limit s) = RoundOob"
proof -
  let ?info = "recv_info_make allocate recvBufferSize limit s"
  obtain bs s' where r: "sock_recv 16 s = (bs, s')" by force
  have len: "length bs = 16" by (rule sock_recv_available [OF r assms(3)])
  have "unat recvBufferSize < 16" using assms(1) by (simp add: word_less_nat_alt)
  with r len assms(2) have "recv_all 0 16 ?info = ReadOob"
    by (subst recv_all.simps) (auto simp: do_recv_def recv_info_make_def write_at_def Let_def)
  then show ?thesis
    by (simp add: connection_round_def recv_info_make_def default_read_data_size_def)
qed

theorem small_buffer_overflows_witness:
  "connection_round copy_realloc (\<lambda>_ s. s) Income
     (recv_info_make (\<lambda>n. replicate n 0) 3 1024 \<lparr>s_available = replicate 16 65, s_arrivals = []\<rparr>) = RoundOob"
  by (rule small_buffer_overflows) simp_all

end
