(* ===== verification/WebSocketFrames.thy ===== *)
theory WebSocketFrames
  imports ReceiveSpec
begin

text \<open>
  WebSocket frames, class \<open>Data\<close> of \<open>protocol/webSocket.inl\<close>: construction, the constructor that
  reads a frame from a connection, the fields, the merge of fragments, close frames and the
  generator that splits a payload. A frame is the buffer \<open>m_buffer\<close> and the number \<open>m_headerSize\<close>.
  Numbers in the header are big-endian; the masking key lies in memory as the processor stores it.
  \<open>None\<close> is a read or write outside the memory of a buffer.
\<close>

unbundle bit_operations_syntax

section \<open>Opcodes and close codes\<close>

text \<open>\<open>GetOpcode\<close> casts any four bits, so a value of the enum may be none of its names.\<close>

datatype opcode = Continuation | Text | Binary | Close | Ping | Pong | OtherOpcode byte

fun opcode_code :: "opcode \<Rightarrow> byte" where
  "opcode_code Continuation = 0"
| "opcode_code Text = 1"
| "opcode_code Binary = 2"
| "opcode_code Close = 8"
| "opcode_code Ping = 9"
| "opcode_code Pong = 10"
| "opcode_code (OtherOpcode b) = b"

definition opcode_of :: "byte \<Rightarrow> opcode" where
  "opcode_of b =
     (if b = 0 then Continuation else if b = 1 then Text else if b = 2 then Binary
      else if b = 8 then Close else if b = 9 then Ping else if b = 10 then Pong else OtherOpcode b)"

fun opcode_to_string :: "opcode \<Rightarrow> string" where
  "opcode_to_string Continuation = ''Continuation''"
| "opcode_to_string Text = ''Text''"
| "opcode_to_string Binary = ''Binary''"
| "opcode_to_string Close = ''Close''"
| "opcode_to_string Ping = ''Ping''"
| "opcode_to_string Pong = ''Pong''"
| "opcode_to_string (OtherOpcode _) = ''Unknown''"

definition close_code_to_string :: "int \<Rightarrow> string" where
  "close_code_to_string c =
     (case map_of
        [(1000, ''Normal closure''), (1001, ''Going away''), (1002, ''Protocol error''),
         (1003, ''Unsupported data''), (1004, ''Reserved''), (1005, ''No status received''),
         (1006, ''Abnormal closure''), (1007, ''Invalid frame payload data''),
         (1008, ''Policy violation''), (1009, ''Message too big''), (1010, ''Mandatory extension''),
         (1011, ''Internal error''), (1012, ''Service restart''), (1013, ''Try again later''),
         (1014, ''Bad gateway''), (1015, ''TLS handshake failure'')] c of
        None \<Rightarrow> ''Unknown'' | Some s \<Rightarrow> s)"

section \<open>Frames\<close>

record frame =
  f_buffer :: "byte list"
  f_headerSize :: nat

definition empty_frame :: frame where
  "empty_frame = \<lparr>f_buffer = [0, 0], f_headerSize = 2\<rparr>"

text \<open>\<open>htobe16\<close>, \<open>htobe64\<close> and back.\<close>

definition be_bytes :: "nat \<Rightarrow> nat \<Rightarrow> byte list" where
  "be_bytes n v = rev (le_bytes n v)"

definition be_nat :: "byte list \<Rightarrow> nat" where
  "be_nat bs = le_nat (rev bs)"

text \<open>\<open>std::vector::resize\<close>.\<close>

definition resize :: "nat \<Rightarrow> byte list \<Rightarrow> byte list" where
  "resize n bs = take n bs @ replicate (n - length bs) 0"

text \<open>\<open>ApplyMask\<close> of a payload; \<open>i\<close> is the index of its first byte.\<close>

fun apply_mask_from :: "nat \<Rightarrow> u32 \<Rightarrow> byte list \<Rightarrow> byte list" where
  "apply_mask_from i key [] = []"
| "apply_mask_from i key (b # bs) =
     (b XOR ucast (drop_bit (8 * (i mod 4)) key)) # apply_mask_from (Suc i) key bs"

definition apply_mask :: "u32 \<Rightarrow> byte list \<Rightarrow> byte list" where
  "apply_mask key bs = apply_mask_from 0 key bs"

text \<open>\<open>ApplyMask\<close> in the middle of a buffer.\<close>

definition mask_at :: "nat \<Rightarrow> nat \<Rightarrow> u32 \<Rightarrow> byte list \<Rightarrow> byte list option" where
  "mask_at off n key buf =
     (case read_at buf off n of
        None \<Rightarrow> None
      | Some bs \<Rightarrow> write_at buf off (apply_mask key bs))"

text \<open>The first byte of a header.\<close>

definition first_byte :: "opcode \<Rightarrow> bool \<Rightarrow> bool \<Rightarrow> bool \<Rightarrow> bool \<Rightarrow> byte" where
  "first_byte op isFinal rsv1 rsv2 rsv3 =
     (opcode_code op AND 15) OR push_bit 7 (of_bool isFinal) OR push_bit 6 (of_bool rsv1) OR
     push_bit 5 (of_bool rsv2) OR push_bit 4 (of_bool rsv3)"

definition check_and_add_mask :: "u32 \<Rightarrow> byte \<Rightarrow> frame" where
  "check_and_add_mask key b0 =
     (if key \<noteq> 0 then \<lparr>f_buffer = [b0, 128] @ word_bytes 4 key, f_headerSize = 6\<rparr>
      else \<lparr>f_buffer = [b0, 0], f_headerSize = 2\<rparr>)"

text \<open>A header with the size field \<open>field\<close>, its extension and, with a key, the key and the masked payload.\<close>

definition frame_with :: "byte \<Rightarrow> byte \<Rightarrow> byte list \<Rightarrow> u32 \<Rightarrow> byte list \<Rightarrow> frame" where
  "frame_with b0 field ext key body =
     (if key = 0
      then \<lparr>f_buffer = [b0, field] @ ext @ body, f_headerSize = 2 + length ext\<rparr>
      else \<lparr>f_buffer = [b0, field OR 128] @ ext @ word_bytes 4 key @ apply_mask key body,
            f_headerSize = 2 + length ext + 4\<rparr>)"

definition frame_make ::
    "byte list \<Rightarrow> opcode \<Rightarrow> u32 \<Rightarrow> bool \<Rightarrow> bool \<Rightarrow> bool \<Rightarrow> bool \<Rightarrow> frame" where
  "frame_make body op key isFinal rsv1 rsv2 rsv3 =
     (let b0 = first_byte op isFinal rsv1 rsv2 rsv3; n = length body in
      if body = [] then check_and_add_mask key b0
      else if n \<le> 125 then frame_with b0 (word_of_nat n) [] key body
      else if sint (opcode_code op) > 2 then check_and_add_mask key b0
      else if n \<le> 65535 then frame_with b0 126 (be_bytes 2 n) key body
      else frame_with b0 127 (be_bytes 8 n) key body)"

section \<open>Fields\<close>

definition is_final :: "frame \<Rightarrow> bool" where
  "is_final f \<longleftrightarrow> bit (f_buffer f ! 0) 7"

definition is_rsv1 :: "frame \<Rightarrow> bool" where
  "is_rsv1 f \<longleftrightarrow> bit (f_buffer f ! 0) 6"

definition is_rsv2 :: "frame \<Rightarrow> bool" where
  "is_rsv2 f \<longleftrightarrow> bit (f_buffer f ! 0) 5"

definition is_rsv3 :: "frame \<Rightarrow> bool" where
  "is_rsv3 f \<longleftrightarrow> bit (f_buffer f ! 0) 4"

definition get_opcode :: "frame \<Rightarrow> opcode" where
  "get_opcode f = opcode_of (f_buffer f ! 0 AND 15)"

definition is_masked :: "frame \<Rightarrow> bool" where
  "is_masked f \<longleftrightarrow> bit (f_buffer f ! 1) 7"

definition get_masking_key :: "frame \<Rightarrow> u32 option" where
  "get_masking_key f =
     (if is_masked f then map_option word_of_bytes (read_at (f_buffer f) (f_headerSize f - 4) 4)
      else Some 0)"

definition get_payload_size :: "frame \<Rightarrow> u64" where
  "get_payload_size f = word_of_nat (length (f_buffer f)) - word_of_nat (f_headerSize f)"

definition get_payload :: "frame \<Rightarrow> byte list" where
  "get_payload f = drop (f_headerSize f) (f_buffer f)"

definition get_expected_header_size :: "nat \<Rightarrow> bool \<Rightarrow> nat" where
  "get_expected_header_size n isMasked =
     (let result = (if isMasked then 4 else 0) in
      if n \<le> 125 then result + 2 else if n \<le> 65535 then result + 4 else result + 10)"

definition is_valid :: "frame \<Rightarrow> bool" where
  "is_valid f \<longleftrightarrow>
     get_opcode f \<in> {Continuation, Text, Binary, Close, Ping, Pong} \<and>
     f_headerSize f \<le> length (f_buffer f) \<and>
     f_headerSize f = get_expected_header_size (unat (get_payload_size f)) (is_masked f)"

definition frame_eq :: "frame \<Rightarrow> frame \<Rightarrow> bool" where
  "frame_eq f g \<longleftrightarrow> f_buffer f = f_buffer g \<and> f_headerSize f = f_headerSize g"

fun bits_text :: "nat \<Rightarrow> byte \<Rightarrow> string" where
  "bits_text 0 b = []"
| "bits_text (Suc n) b = (if bit b n then CHR ''1'' else CHR ''0'') # bits_text n b"

definition bool_text :: "bool \<Rightarrow> string" where
  "bool_text b = (if b then ''true'' else ''false'')"

text \<open>\<open>None\<close>: the masking key is read outside the buffer.\<close>

definition frame_to_string :: "frame \<Rightarrow> string option" where
  "frame_to_string f =
     map_option (\<lambda>key.
       ''WebSocket data:'' @ newline @ ''{'' @
       newline @ tabs 1 @ ''FIN          : '' @ bool_text (is_final f) @
       newline @ tabs 1 @ ''RSV1         : '' @ bool_text (is_rsv1 f) @
       newline @ tabs 1 @ ''RSV2         : '' @ bool_text (is_rsv2 f) @
       newline @ tabs 1 @ ''RSV3         : '' @ bool_text (is_rsv3 f) @
       newline @ tabs 1 @ ''OPCODE       : '' @ opcode_to_string (get_opcode f) @
       newline @ tabs 1 @ ''MASK         : '' @ show_nat (unat key) @
       newline @ tabs 1 @ ''Header size  : '' @ show_nat (f_headerSize f) @ '' | '' @
         bits_text 8 (f_buffer f ! 0) @ '' '' @ bits_text 8 (f_buffer f ! 1) @
       newline @ tabs 1 @ ''Payload size : '' @ show_nat (unat (get_payload_size f)) @
       newline @ tabs 1 @ ''Is valid     : '' @ bool_text (is_valid f) @ newline @ ''}'')
     (get_masking_key f)"

section \<open>Reading a frame from a connection\<close>

text \<open>
  The copy of a body of \<open>n\<close> bytes behind a header whose size field has \<open>ext\<close> more bytes, when the
  connection's buffer has been filled: resize, copy, unmask with the key in front of the payload.
\<close>

definition take_body :: "byte list \<Rightarrow> bool \<Rightarrow> nat \<Rightarrow> nat \<Rightarrow> u64 \<Rightarrow> byte list \<Rightarrow> frame option" where
  "take_body front isMasked header ext n memory =
     (let total = word_of_nat header + n :: u64;
          buf = resize (unat total) front;
          count = n + word_of_nat ext + (if isMasked then 4 else 0) :: u64
      in
      case read_at memory 2 (unat count) of
        None \<Rightarrow> None
      | Some bs \<Rightarrow>
          (case write_at buf 2 bs of
             None \<Rightarrow> None
           | Some buf' \<Rightarrow>
               (if isMasked then
                  (case read_at buf' (header - 4) 4 of
                     None \<Rightarrow> None
                   | Some key \<Rightarrow>
                       map_option (\<lambda>b. \<lparr>f_buffer = b, f_headerSize = header\<rparr>)
                         (mask_at header (unat n) (word_of_bytes key) buf'))
                else Some \<lparr>f_buffer = buf', f_headerSize = header\<rparr>)))"

text \<open>The object when a read has failed: the two bytes of the header.\<close>

definition cut_frame :: "byte list \<Rightarrow> nat \<Rightarrow> frame" where
  "cut_frame front header = \<lparr>f_buffer = front, f_headerSize = header\<rparr>"

definition receive_extended ::
    "(byte list \<Rightarrow> nat \<Rightarrow> byte list option) \<Rightarrow> (nat \<Rightarrow> socket \<Rightarrow> socket) \<Rightarrow> byte list \<Rightarrow> bool \<Rightarrow>
     nat \<Rightarrow> nat \<Rightarrow> recv_info \<Rightarrow> (frame \<times> recv_info) option" where
  "receive_extended realloc discard front isMasked header ext info =
     (case read_additional_data realloc discard (word_of_nat header) 0 info of
        ReadOob \<Rightarrow> None
      | ReadFalse info' \<Rightarrow> Some (cut_frame front header, info')
      | ReadTrue info' \<Rightarrow>
          (case read_at (rb_buffer info') 2 ext of
             None \<Rightarrow> None
           | Some bs \<Rightarrow>
               (let n = word_of_nat (be_nat bs) :: u64 in
                case read_additional_data realloc discard (word_of_nat header + n)
                       (word_of_nat header) info' of
                  ReadOob \<Rightarrow> None
                | ReadFalse info'' \<Rightarrow> Some (cut_frame front header, info'')
                | ReadTrue info'' \<Rightarrow>
                    map_option (\<lambda>f. (f, info'')) (take_body front isMasked header ext n (rb_buffer info'')))))"

definition frame_receive ::
    "(byte list \<Rightarrow> nat \<Rightarrow> byte list option) \<Rightarrow> (nat \<Rightarrow> socket \<Rightarrow> socket) \<Rightarrow> recv_info \<Rightarrow>
     (frame \<times> recv_info) option" where
  "frame_receive realloc discard info =
     (case read_at (rb_buffer info) 0 2 of
        None \<Rightarrow> None
      | Some front \<Rightarrow>
          (let n = unat (front ! 1 AND 127); isMasked = bit (front ! 1) 7; header = (if isMasked then 6 else 2) in
           if n = 0 then
             (if isMasked then
                (case read_additional_data realloc discard 6 0 info of
                   ReadOob \<Rightarrow> None
                 | ReadFalse info' \<Rightarrow> Some (cut_frame front 6, info')
                 | ReadTrue info' \<Rightarrow>
                     map_option (\<lambda>bs. (\<lparr>f_buffer = front @ bs, f_headerSize = 6\<rparr>, info'))
                       (read_at (rb_buffer info') 2 4))
              else Some (cut_frame front 2, info))
           else if n \<le> 125 then
             (case read_additional_data realloc discard (word_of_nat (header + n)) 0 info of
                ReadOob \<Rightarrow> None
              | ReadFalse info' \<Rightarrow> Some (cut_frame front header, info')
              | ReadTrue info' \<Rightarrow>
                  map_option (\<lambda>f. (f, info')) (take_body front isMasked header 0 (word_of_nat n) (rb_buffer info')))
           else if n = 126 then receive_extended realloc discard front isMasked (header + 2) 2 info
           else receive_extended realloc discard front isMasked (header + 8) 8 info))"

section \<open>Merging fragments\<close>

text \<open>
  The header gets \<open>add\<close> more bytes: resize, \<open>memmove\<close> of the payload, the new size field, and the
  other payload behind the own one.
\<close>

definition grow_header :: "nat \<Rightarrow> byte \<Rightarrow> byte list \<Rightarrow> byte list \<Rightarrow> nat \<Rightarrow> frame \<Rightarrow> frame option" where
  "grow_header add field ext other cur f =
     (let header = f_headerSize f + add;
          buf = resize (header + (cur + length other)) (f_buffer f)
      in
      case read_at buf (header - add) cur of
        None \<Rightarrow> None
      | Some moved \<Rightarrow>
          (case write_at buf header moved of
             None \<Rightarrow> None
           | Some buf1 \<Rightarrow>
               (let buf2 = buf1[1 := field OR (if is_masked f then 128 else 0)] in
                case write_at buf2 2 ext of
                  None \<Rightarrow> None
                | Some buf3 \<Rightarrow>
                    map_option (\<lambda>b. \<lparr>f_buffer = b, f_headerSize = header\<rparr>)
                      (write_at buf3 (header + cur) other))))"

definition merge_payload :: "frame \<Rightarrow> frame \<Rightarrow> frame option" where
  "merge_payload f g =
     (let n = unat (get_payload_size g); cur = unat (get_payload_size f); total = cur + n in
      if n = 0 then Some f
      else if cur = 0 then
        map_option (\<lambda>b. \<lparr>f_buffer = b, f_headerSize = f_headerSize g\<rparr>)
          (write_at (resize (length (f_buffer g)) (f_buffer f)) 1 (drop 1 (f_buffer g)))
      else if size_t_bound - 1 - cur < n then Some f
      else
        (case read_at (f_buffer g) (f_headerSize g) n of
           None \<Rightarrow> None
         | Some other \<Rightarrow>
             (if cur \<ge> 65536 then
                map_option (\<lambda>b. f\<lparr>f_buffer := b @ other\<rparr>) (write_at (f_buffer f) 2 (be_bytes 8 total))
              else if cur \<le> 125 then
                (if total \<le> 125 then
                   Some (f\<lparr>f_buffer := (f_buffer f)[1 := word_of_nat total OR (if is_masked f then 128 else 0)]
                     @ other\<rparr>)
                 else if total \<le> 65535 then grow_header 2 126 (be_bytes 2 total) other cur f
                 else grow_header 8 127 (be_bytes 8 total) other cur f)
              else if total \<le> 65535 then
                map_option (\<lambda>b. f\<lparr>f_buffer := b @ other\<rparr>) (write_at (f_buffer f) 2 (be_bytes 2 total))
              else grow_header 6 127 (be_bytes 8 total) other cur f)))"

section \<open>Answers\<close>

text \<open>\<open>GenerateMaskingKey\<close> at a moment; the sum of the 32-bit numbers and the products wrap.\<close>

definition generate_masking_key :: "timer \<Rightarrow> u32" where
  "generate_masking_key now =
     (let n = word_of_int (timer_ns now) :: u32;
          s = word_of_int (timer_seconds now) :: u32;
          k = ucast (n + s) * ucast n * ucast s :: u64;
          d = k * k + 1
      in ucast (drop_bit 32 d) + ucast d)"

text \<open>\<open>ReverseMaskingInDataWithSmallPayload\<close> with the key that is generated.\<close>

definition reverse_masking :: "u32 \<Rightarrow> frame \<Rightarrow> frame option" where
  "reverse_masking key f =
     (let n = unat (get_payload_size f); buf = f_buffer f in
      if is_masked f then
        (let buf1 = buf[1 := buf ! 1 AND 127] in
         if n \<noteq> 0 then
           (case read_at buf1 6 n of
              None \<Rightarrow> None
            | Some moved \<Rightarrow>
                map_option (\<lambda>b. \<lparr>f_buffer = resize (2 + n) b, f_headerSize = 2\<rparr>) (write_at buf1 2 moved))
         else Some \<lparr>f_buffer = resize 2 buf1, f_headerSize = 2\<rparr>)
      else
        (let header = f_headerSize f + 4;
             buf1 = resize (header + n) (buf[1 := buf ! 1 OR 128]);
             buf2 =
               (if n \<noteq> 0 then
                  (case read_at buf1 2 n of
                     None \<Rightarrow> None
                   | Some moved \<Rightarrow>
                       (case write_at buf1 header moved of
                          None \<Rightarrow> None
                        | Some b \<Rightarrow> mask_at header n key b))
                else Some buf1)
         in
         case buf2 of
           None \<Rightarrow> None
         | Some b \<Rightarrow>
             map_option (\<lambda>b'. \<lparr>f_buffer = b', f_headerSize = header\<rparr>) (write_at b 2 (word_bytes 4 key))))"

text \<open>\<open>CreateClose\<close>; the status \<open>-1\<close> stands for none.\<close>

definition create_close :: "u16 \<Rightarrow> byte list \<Rightarrow> u32 \<Rightarrow> frame" where
  "create_close status reason key =
     (if status \<noteq> - 1 then
        (let code = be_bytes 2 (unat status);
             body = (if reason \<noteq> [] \<and> length reason \<le> 123 then code @ reason else code)
         in frame_with 136 (word_of_nat (length body)) [] key body)
      else check_and_add_mask key 136)"

section \<open>Splitting a payload\<close>

record split_generator =
  g_frame :: frame
  g_buffer :: "byte list"
  g_step :: nat
  g_offset :: nat
  g_masking :: bool

text \<open>A generator that is refused has its offset at the end; its step is never read.\<close>

definition split_make :: "frame \<Rightarrow> byte list \<Rightarrow> nat \<Rightarrow> bool \<Rightarrow> split_generator" where
  "split_make f buffer step masking =
     (let n = length buffer;
          g = \<lparr>g_frame = f, g_buffer = buffer, g_step = 0, g_offset = 0, g_masking = masking\<rparr>
      in
      if n < 4 then g\<lparr>g_offset := n\<rparr>
      else if get_opcode f \<noteq> Text \<and> get_opcode f \<noteq> Binary then g\<lparr>g_offset := n\<rparr>
      else if step = 0 \<or> step \<ge> n then g\<lparr>g_step := min (n div 4) 65535\<rparr>
      else g\<lparr>g_step := step\<rparr>)"

text \<open>
  The next piece in the buffer of the frame: the payload, the size field if it changes, the key at
  \<open>keypos\<close> and the mask, the extension of the size if it changes.
\<close>

definition put_piece ::
    "nat \<Rightarrow> nat option \<Rightarrow> byte option \<Rightarrow> byte list \<Rightarrow> u32 option \<Rightarrow> byte list \<Rightarrow> byte list \<Rightarrow>
     byte list option" where
  "put_piece header keypos field ext key piece buf =
     (case write_at buf header piece of
        None \<Rightarrow> None
      | Some buf1 \<Rightarrow>
          (let buf2 = (case field of
                 None \<Rightarrow> buf1 | Some x \<Rightarrow> buf1[1 := x OR (if key \<noteq> None then 128 else 0)]);
               buf3 = (case key of
                 None \<Rightarrow> Some buf2
               | Some k \<Rightarrow>
                   (case keypos of
                      None \<Rightarrow> None
                    | Some pos \<Rightarrow>
                        (case write_at buf2 pos (word_bytes 4 k) of
                           None \<Rightarrow> None
                         | Some b \<Rightarrow> mask_at header (length piece) k b)))
           in case buf3 of None \<Rightarrow> None | Some b \<Rightarrow> write_at b 2 ext))"

text \<open>
  The frame of a piece that is not the first: \<open>step\<close> is the size of the pieces, \<open>remaining\<close> what is
  left of the payload. The last piece may be smaller, and its header then too.
\<close>

definition split_piece :: "u32 \<Rightarrow> nat \<Rightarrow> nat \<Rightarrow> bool \<Rightarrow> byte list \<Rightarrow> frame \<Rightarrow> frame option" where
  "split_piece key step remaining masking piece f =
     (let h = f_headerSize f;
          op = opcode_code (get_opcode f);
          k = (if masking then Some key else None);
          own = (if h < 4 then None else Some (h - 4));
          b0 = (f_buffer f)[0 := f_buffer f ! 0 XOR op];
          last = b0[0 := b0 ! 0 OR 128];
          small = Some (word_of_nat remaining);
          end_with = (\<lambda>h' keypos field ext.
            map_option (\<lambda>b. \<lparr>f_buffer = resize (h' + remaining) b, f_headerSize = h'\<rparr>)
              (put_piece h' (Some keypos) field ext k piece last))
      in
      if remaining > step then map_option (\<lambda>b. f\<lparr>f_buffer := b\<rparr>) (put_piece h own None [] k piece b0)
      else if remaining = step then map_option (\<lambda>b. f\<lparr>f_buffer := b\<rparr>) (put_piece h own None [] k piece last)
      else if step \<le> 125 then end_with h 2 small []
      else if step \<le> 65535 then
        (if remaining > 125 then end_with h 4 None (be_bytes 2 remaining) else end_with (h - 2) 2 small [])
      else if remaining > 65535 then end_with h 10 None (be_bytes 8 remaining)
      else if remaining > 125 then end_with (h - 6) 4 (Some 126) (be_bytes 2 remaining)
      else end_with (h - 8) 2 small [])"

definition split_get :: "u32 \<Rightarrow> split_generator \<Rightarrow> (bool \<times> split_generator) option" where
  "split_get key g =
     (if g_offset g \<ge> length (g_buffer g) then Some (False, g)
      else if g_offset g = 0 then
        (let f = g_frame g in
         Some (True, g\<lparr>g_frame := frame_make (take (g_step g) (g_buffer g)) (get_opcode f)
             (if g_masking g then key else 0) False (is_rsv1 f) (is_rsv2 f) (is_rsv3 f),
           g_offset := g_step g\<rparr>))
      else
        (let remaining = length (g_buffer g) - g_offset g;
             piece = take (g_step g) (drop (g_offset g) (g_buffer g))
         in
         map_option (\<lambda>f. (True, g\<lparr>g_frame := f, g_offset := g_offset g + length piece\<rparr>))
           (split_piece key (g_step g) remaining (g_masking g) piece (g_frame g))))"

end
