(* ===== verification/WebSocketFramesSpec.thy ===== *)
theory WebSocketFramesSpec
  imports WebSocketFrames
begin

text \<open>
  WebSocket frames: the layout a frame has, that masking twice is no masking, that a frame read from
  a connection is the one that was built, what a length that wraps does, and what the merge of two
  frames is.
\<close>

section \<open>The layout of a frame\<close>

definition size_field :: "nat \<Rightarrow> byte" where
  "size_field n = (if n \<le> 125 then word_of_nat n else if n \<le> 65535 then 126 else 127)"

definition size_ext :: "nat \<Rightarrow> byte list" where
  "size_ext n = (if n \<le> 125 then [] else if n \<le> 65535 then be_bytes 2 n else be_bytes 8 n)"

text \<open>The first byte, the masking key (none or four bytes) and the payload as it is stored.\<close>

definition frame_shape :: "byte \<Rightarrow> byte list \<Rightarrow> byte list \<Rightarrow> frame" where
  "frame_shape b0 kb p =
     \<lparr>f_buffer = [b0, size_field (length p) OR (if kb = [] then 0 else 128)] @ size_ext (length p) @ kb @ p,
      f_headerSize = 2 + length (size_ext (length p)) + length kb\<rparr>"

text \<open>The payload on the wire.\<close>

definition mask_body :: "byte list \<Rightarrow> byte list \<Rightarrow> byte list" where
  "mask_body kb p = (if kb = [] then p else apply_mask (word_of_bytes kb) p)"

definition key_bytes :: "u32 \<Rightarrow> byte list" where
  "key_bytes key = (if key = 0 then [] else word_bytes 4 key)"

lemma length_be_bytes [simp]: "length (be_bytes n v) = n"
  by (simp add: be_bytes_def)

lemma be_nat_be_bytes: "v < 256 ^ n \<Longrightarrow> be_nat (be_bytes n v) = v"
  by (simp add: be_nat_def be_bytes_def le_nat_le_bytes)

lemma length_apply_mask [simp]: "length (apply_mask key bs) = length bs"
proof -
  have "length (apply_mask_from i key bs) = length bs" for i by (induction bs arbitrary: i) simp_all
  then show ?thesis by (simp add: apply_mask_def)
qed

lemma apply_mask_twice [simp]: "apply_mask key (apply_mask key bs) = bs"
proof -
  have "apply_mask_from i key (apply_mask_from i key bs) = bs" for i
    by (induction bs arbitrary: i) (simp_all add: xor.assoc)
  then show ?thesis by (simp add: apply_mask_def)
qed

lemma length_mask_body [simp]: "length (mask_body kb p) = length p"
  by (simp add: mask_body_def)

lemma word_of_key_bytes: "word_of_bytes (word_bytes 4 key) = (key :: u32)"
  by (rule word_of_bytes_word_bytes) simp

lemma word_bytes_neq_Nil [simp]: "word_bytes 4 key \<noteq> []"
  by (simp flip: length_greater_0_conv)

lemma key_bytes_Nil [simp]: "key_bytes key = [] \<longleftrightarrow> key = 0"
  by (simp add: key_bytes_def)

lemma length_key_bytes: "length (key_bytes key) = (if key = 0 then 0 else 4)"
  by (simp add: key_bytes_def)

lemma mask_key_bytes: "mask_body (key_bytes key) p = (if key = 0 then p else apply_mask key p)"
  by (simp add: mask_body_def word_of_key_bytes) (simp add: key_bytes_def word_of_key_bytes)

lemma length_size_ext:
  "length (size_ext n) = (if n \<le> 125 then 0 else if n \<le> 65535 then 2 else 8)"
  by (simp add: size_ext_def)

section \<open>Fields of a shape\<close>

lemma byte_low:
  fixes x :: byte
  assumes "unat x < 128"
  shows "x AND 127 = x" "\<not> bit x 7" "(x OR 128) AND 127 = x" "bit (x OR 128) 7"
proof -
  have m: "(127 :: byte) = mask 7" by (simp add: mask_eq_exp_minus_1)
  have t: "take_bit 7 x = x"
    using assms by (simp add: word_unat_eq_iff unsigned_take_bit_eq take_bit_nat_eq_self)
  show a: "x AND 127 = x" using t by (simp add: m flip: take_bit_eq_mask)
  show "\<not> bit x 7" by (subst t [symmetric]) (simp add: bit_take_bit_iff)
  have "(x OR 128) AND 127 = (x AND 127) OR (128 AND 127)" by (simp only: bit.conj_disj_distrib2)
  then show "(x OR 128) AND 127 = x" by (simp add: a)
  show "bit (x OR 128) 7" by (simp add: bit_or_iff)
qed

lemma unat_size_field:
  "unat (size_field n) = (if n \<le> 125 then n else if n \<le> 65535 then 126 else 127)"
  by (simp add: size_field_def unat_of_nat)

lemma size_field_low: "unat (size_field n) < 128"
  by (simp add: unat_size_field)

lemmas size_field_bits = byte_low [OF size_field_low]

definition size_byte :: "nat \<Rightarrow> bool \<Rightarrow> byte" where
  "size_byte n masked = size_field n OR (if masked then 128 else 0)"

lemma size_byte_bits [simp]:
  "size_byte n masked AND 127 = size_field n" "bit (size_byte n masked) 7 = masked"
  by (simp_all add: size_byte_def size_field_bits)

lemma shape_fields:
  "f_buffer (frame_shape b0 kb p) = [b0, size_byte (length p) (kb \<noteq> [])] @ size_ext (length p) @ kb @ p"
  "f_headerSize (frame_shape b0 kb p) = 2 + length (size_ext (length p)) + length kb"
  by (simp_all add: frame_shape_def size_byte_def)

lemma shape_get:
  "is_masked (frame_shape b0 kb p) = (kb \<noteq> [])" "get_payload (frame_shape b0 kb p) = p"
  "is_final (frame_shape b0 kb p) = bit b0 7" "is_rsv1 (frame_shape b0 kb p) = bit b0 6"
  "is_rsv2 (frame_shape b0 kb p) = bit b0 5" "is_rsv3 (frame_shape b0 kb p) = bit b0 4"
  "get_opcode (frame_shape b0 kb p) = opcode_of (b0 AND 15)"
  "unat (get_payload_size (frame_shape b0 kb p)) = length p mod size_t_bound"
  by (simp_all add: shape_fields is_masked_def get_payload_def is_final_def is_rsv1_def is_rsv2_def
      is_rsv3_def get_opcode_def get_payload_size_def unat_of_nat)

lemma shape_key:
  "length kb \<in> {0, 4} \<Longrightarrow> get_masking_key (frame_shape b0 kb p) = Some (if kb = [] then 0 else word_of_bytes kb)"
  by (auto simp: get_masking_key_def shape_get read_at_def shape_fields)

lemma shape_valid:
  assumes "length kb \<in> {0, 4}" "length p < size_t_bound"
  shows "is_valid (frame_shape b0 kb p) \<longleftrightarrow>
    opcode_of (b0 AND 15) \<in> {Continuation, Text, Binary, Close, Ping, Pong}"
proof -
  let ?f = "frame_shape b0 kb p"
  have "kb \<noteq> [] \<longrightarrow> length kb = 4" using assms(1) by auto
  then have "f_headerSize ?f = get_expected_header_size (length p) (kb \<noteq> [])"
    by (simp add: shape_fields length_size_ext get_expected_header_size_def)
  moreover have "unat (get_payload_size ?f) = length p" using assms(2) by (simp add: shape_get)
  moreover have "f_headerSize ?f \<le> length (f_buffer ?f)" by (simp add: shape_fields)
  ultimately show ?thesis unfolding is_valid_def by (simp only: shape_get simp_thms)
qed

section \<open>First bytes\<close>

lemma first_byte_fields:
  "first_byte op fin r1 r2 r3 AND 15 = opcode_code op AND 15"
  "bit (first_byte op fin r1 r2 r3) 7 = fin" "bit (first_byte op fin r1 r2 r3) 6 = r1"
  "bit (first_byte op fin r1 r2 r3) 5 = r2" "bit (first_byte op fin r1 r2 r3) 4 = r3"
proof -
  have m: "x AND 15 = take_bit 4 x" for x :: byte
    by (simp add: take_bit_eq_mask mask_eq_exp_minus_1)
  show "first_byte op fin r1 r2 r3 AND 15 = opcode_code op AND 15"
    unfolding first_byte_def m
    by (intro bit_word_eqI) (auto simp: bit_take_bit_iff bit_or_iff bit_push_bit_iff)
  show "bit (first_byte op fin r1 r2 r3) 7 = fin" "bit (first_byte op fin r1 r2 r3) 6 = r1"
    "bit (first_byte op fin r1 r2 r3) 5 = r2" "bit (first_byte op fin r1 r2 r3) 4 = r3"
    by (simp_all add: first_byte_def m bit_take_bit_iff bit_or_iff bit_push_bit_iff)
qed

section \<open>Built frames\<close>

lemma frame_with_shape:
  assumes "field = size_field (length body)" "ext = size_ext (length body)"
  shows "frame_with b0 field ext key body = frame_shape b0 (key_bytes key) (mask_body (key_bytes key) body)"
proof (cases "key = 0")
  case True
  then show ?thesis using assms by (simp add: frame_with_def frame_shape_def mask_body_def)
next
  case False
  then show ?thesis
    using assms by (simp add: frame_with_def frame_shape_def mask_key_bytes length_key_bytes)
      (simp add: key_bytes_def)
qed

lemma check_and_add_mask_shape: "check_and_add_mask key b0 = frame_shape b0 (key_bytes key) []"
  by (simp add: check_and_add_mask_def frame_shape_def size_field_def size_ext_def key_bytes_def)

lemma frame_make_shape:
  assumes "length body \<le> 125 \<or> op \<in> {Continuation, Text, Binary}"
  shows "frame_make body op key fin r1 r2 r3 =
    frame_shape (first_byte op fin r1 r2 r3) (key_bytes key) (mask_body (key_bytes key) body)"
proof (cases "body = []")
  case True
  moreover have "mask_body kb [] = []" for kb by (simp add: mask_body_def apply_mask_def)
  ultimately show ?thesis by (simp add: frame_make_def check_and_add_mask_shape)
next
  case False
  have "\<not> sint (opcode_code op) > 2" if "\<not> length body \<le> 125"
    using assms that by auto
  with False show ?thesis
    by (simp add: frame_make_def Let_def frame_with_shape size_field_def size_ext_def)
qed

section \<open>Frames from a connection\<close>

lemma read_frame:
  assumes "realloc_ok realloc" "\<forall>b n. realloc b n \<noteq> None" "word_of_nat sz \<le> rb_limit info"
    and "off < sz" "sz < size_t_bound"
    and "off0 = 0 \<and> unat (rb_readDataSize info) = off \<or> off0 = off \<and> 0 < off"
    and "take off (rb_buffer info) = pre" "length pre = off"
    and "stream_of (rb_socket info) = xs @ rest" "length xs = sz - off"
    and "s_available (rb_socket info) \<noteq> []"
  shows "\<exists>b s. read_additional_data realloc discard (word_of_nat sz) (word_of_nat off0) info =
      ReadTrue (info\<lparr>rb_buffer := pre @ xs @ b, rb_socket := s\<rparr>) \<and> stream_of s = rest \<and>
      length (s_available (rb_socket info)) \<le> length xs + length (s_available s)"
proof -
  have n: "unat (word_of_nat sz :: u64) = sz" "unat (word_of_nat off :: u64) = off"
    using assms(4,5) by (simp_all add: unat_of_nat)
  have "(word_of_nat off :: u64) = (if (word_of_nat off0 :: u64) = 0 then rb_readDataSize info else word_of_nat off0)"
  proof (cases "off0 = 0")
    case True
    then show ?thesis using assms(6) n by (auto simp: word_unat_eq_iff)
  next
    case False
    then have "off0 = off" "(word_of_nat off0 :: u64) \<noteq> 0" using assms(6) n by (auto simp: word_unat_eq_iff)
    then show ?thesis by simp
  qed
  moreover have "off \<le> length (rb_buffer info)" using assms(7,8) by auto
  ultimately show ?thesis
    using read_additional_at [of realloc "word_of_nat sz" info "word_of_nat off" "word_of_nat off0" xs rest discard]
      assms n by (auto simp: word_less_nat_alt poll_keeps_available)
qed

lemma unat_add_of_nat:
  "a + b < size_t_bound \<Longrightarrow> unat (word_of_nat a + word_of_nat b :: u64) = a + b"
  by (simp add: unat_of_nat flip: of_nat_add)

lemma word_of_nat_le_mono: "a \<le> b \<Longrightarrow> b < size_t_bound \<Longrightarrow> (word_of_nat a :: u64) \<le> word_of_nat b"
  by (simp add: word_le_nat_alt unat_of_nat)

lemma take_body_shape:
  assumes "length kb \<in> {0, 4}" "2 + length ext + length kb + length q < size_t_bound"
    and "length front = 2"
  shows "take_body front (kb \<noteq> []) (2 + length ext + length kb) (length ext) (word_of_nat (length q))
      (front @ ext @ kb @ q @ post) =
    Some \<lparr>f_buffer = front @ ext @ kb @ mask_body kb q, f_headerSize = 2 + length ext + length kb\<rparr>"
proof -
  have u: "unat (word_of_nat (2 + length ext + length kb) + word_of_nat (length q) :: u64) =
      2 + length ext + length kb + length q"
    using assms(2) by (rule unat_add_of_nat)
  have k: "(if kb \<noteq> [] then 4 else 0) = (word_of_nat (length kb) :: u64)"
    using assms(1) by auto
  have c: "unat (word_of_nat (length q) + word_of_nat (length ext) + word_of_nat (length kb) :: u64) =
      length ext + length kb + length q"
    using unat_add_of_nat [of "length q + length ext" "length kb"] assms(2) by simp
  have r: "read_at (front @ ext @ kb @ q @ post) 2 (length ext + length kb + length q) = Some (ext @ kb @ q)"
    using read_at_append [of 2 front "length ext + length kb + length q" "ext @ kb @ q" post] assms(3) by simp
  have w: "write_at (resize (2 + length ext + length kb + length q) front) 2 (ext @ kb @ q) =
      Some (front @ ext @ kb @ q)"
    using write_at_append [of 2 front "replicate (length ext + length kb + length q) 0" "ext @ kb @ q" "[]"] assms(3)
    by (simp add: resize_def)
  show ?thesis
  proof (cases "kb = []")
    case True
    then show ?thesis using u c r w by (simp add: take_body_def k mask_body_def)
  next
    case False
    then have "length kb = 4" using assms(1) by simp
    then have "read_at (front @ ext @ kb @ q) (2 + length ext) 4 = Some kb"
      using read_at_append [of "2 + length ext" "front @ ext" 4 kb q] assms(3) by simp
    moreover have "mask_at (2 + length ext + length kb) (length q) (word_of_bytes kb) (front @ ext @ kb @ q) =
        Some (front @ ext @ kb @ mask_body kb q)"
      using read_at_append [of _ "front @ ext @ kb" "length q" q "[]"]
        write_at_append [of _ "front @ ext @ kb" q "mask_body kb q" "[]"] assms(3) False
      by (simp add: mask_at_def mask_body_def)
    moreover have "unat (word_of_nat (length q) :: u64) = length q" using assms(2) by (simp add: unat_of_nat)
    ultimately show ?thesis using u c r w False k \<open>length kb = 4\<close> by (simp add: take_body_def)
  qed
qed

text \<open>A peer's connection before a round: the header's first two bytes have been read.\<close>

definition frame_arrives :: "(byte list \<Rightarrow> nat \<Rightarrow> byte list option) \<Rightarrow> byte list \<Rightarrow> byte list \<Rightarrow> recv_info \<Rightarrow> bool" where
  "frame_arrives realloc bs rest info \<longleftrightarrow>
     realloc_ok realloc \<and> (\<forall>b n. realloc b n \<noteq> None) \<and> length bs < size_t_bound \<and>
     word_of_nat (length bs) \<le> rb_limit info \<and> rb_readDataSize info = 2 \<and>
     take 2 (rb_buffer info) = take 2 bs \<and> 2 \<le> length bs \<and>
     stream_of (rb_socket info) = drop 2 bs @ rest \<and>
     length bs - 2 \<le> length (s_available (rb_socket info))"

lemma shape_buffer_split:
  fixes b0 kb q
  defines "front \<equiv> [b0, size_byte (length q) (kb \<noteq> [])]"
  shows "f_buffer (frame_shape b0 kb q) = front @ size_ext (length q) @ kb @ q"
    "take 2 (f_buffer (frame_shape b0 kb q)) = front"
    "drop 2 (f_buffer (frame_shape b0 kb q)) = size_ext (length q) @ kb @ q"
  by (simp_all add: front_def shape_fields)

lemma receive_short:
  assumes "frame_arrives realloc (f_buffer (frame_shape b0 kb q)) rest info"
    and "length kb \<in> {0, 4}" "length q \<le> 125"
  shows "\<exists>info'. frame_receive realloc discard info = Some (frame_shape b0 kb (mask_body kb q), info') \<and>
    stream_of (rb_socket info') = rest \<and> rb_readDataSize info' = 2"
proof -
  define front where "front = [b0, size_byte (length q) (kb \<noteq> [])]"
  let ?h = "2 + length kb"
  have front2: "length front = 2" "front ! 1 AND 127 = size_field (length q)" "bit (front ! 1) 7 = (kb \<noteq> [])"
    by (simp_all add: front_def)
  have ext: "size_ext (length q) = []" using assms(3) by (simp add: size_ext_def)
  have len: "length (f_buffer (frame_shape b0 kb q)) = ?h + length q" by (simp add: shape_fields ext)
  have shape: "frame_shape b0 kb (mask_body kb q) =
      \<lparr>f_buffer = front @ kb @ mask_body kb q, f_headerSize = ?h\<rparr>"
    by (simp add: front_def frame_shape_def ext size_byte_def)
  have facts: "realloc_ok realloc" "\<forall>b n. realloc b n \<noteq> None" "?h + length q < size_t_bound"
    "word_of_nat (?h + length q) \<le> rb_limit info" "rb_readDataSize info = 2"
    "take 2 (rb_buffer info) = front" "stream_of (rb_socket info) = (kb @ q) @ rest"
    "length kb + length q \<le> length (s_available (rb_socket info))"
    using assms(1) shape_buffer_split [of b0 kb q]
    unfolding frame_arrives_def front_def len by (simp_all add: ext)
  have r2: "read_at (rb_buffer info) 0 2 = Some front"
    using facts(6) front2(1) by (auto simp: read_at_def)
  have n: "unat (size_field (length q)) = length q" using assms(3) by (simp add: unat_size_field)
  show ?thesis
  proof (cases "kb @ q = []")
    case True
    then show ?thesis
      using facts(5,7) r2 n front2 shape by (simp add: frame_receive_def cut_frame_def mask_body_def)
  next
    case False
    have "\<exists>b s. read_additional_data realloc discard (word_of_nat (?h + length q)) (word_of_nat 0) info =
        ReadTrue (info\<lparr>rb_buffer := front @ (kb @ q) @ b, rb_socket := s\<rparr>) \<and> stream_of s = rest \<and>
        length (s_available (rb_socket info)) \<le> length (kb @ q) + length (s_available s)"
      by (rule read_frame [OF facts(1,2,4) _ facts(3) _ facts(6) front2(1) facts(7)])
        (use False facts(5,8) in auto)
    then obtain b s where rd: "read_additional_data realloc discard (word_of_nat (?h + length q)) 0 info =
        ReadTrue (info\<lparr>rb_buffer := front @ kb @ q @ b, rb_socket := s\<rparr>)" "stream_of s = rest"
      by auto
    show ?thesis
    proof (cases "q = []")
      case True
      then have kb: "length kb = 4" "kb \<noteq> []" using False assms(2) by auto
      then have "read_at (front @ kb @ b) 2 4 = Some kb"
        using front2(1) by (intro read_at_append) simp_all
      then show ?thesis
        using facts(5) r2 n rd True kb front2 shape
        by (simp add: frame_receive_def mask_body_def apply_mask_def)
    next
      case False
      have "take_body front (kb \<noteq> []) ?h 0 (word_of_nat (length q)) (front @ kb @ q @ b) =
          Some \<lparr>f_buffer = front @ kb @ mask_body kb q, f_headerSize = ?h\<rparr>"
        using take_body_shape [of kb "[]" q front b] assms(2) facts(3) front2(1) by simp
      moreover have "(if kb \<noteq> [] then 6 else 2) = ?h" using assms(2) by auto
      ultimately show ?thesis
        using facts(5) r2 n rd False assms(3) front2 by (simp add: frame_receive_def shape Let_def del: of_nat_add)
    qed
  qed
qed

lemma receive_long:
  assumes "frame_arrives realloc (f_buffer (frame_shape b0 kb q)) rest info"
    and "length kb \<in> {0, 4}" "125 < length q"
  shows "\<exists>info'. frame_receive realloc discard info = Some (frame_shape b0 kb (mask_body kb q), info') \<and>
    stream_of (rb_socket info') = rest \<and> rb_readDataSize info' = 2"
proof -
  define front where "front = [b0, size_byte (length q) (kb \<noteq> [])]"
  define ext where "ext = size_ext (length q)"
  let ?e = "length ext"
  let ?h = "2 + ?e + length kb"
  have front2: "length front = 2" "front ! 1 AND 127 = size_field (length q)" "bit (front ! 1) 7 = (kb \<noteq> [])"
    by (simp_all add: front_def)
  have e: "?e = (if length q \<le> 65535 then 2 else 8)" using assms(3) by (simp add: ext_def length_size_ext)
  have len: "length (f_buffer (frame_shape b0 kb q)) = ?h + length q" by (simp add: shape_fields ext_def)
  have shape: "frame_shape b0 kb (mask_body kb q) =
      \<lparr>f_buffer = front @ ext @ kb @ mask_body kb q, f_headerSize = ?h\<rparr>"
    by (simp add: front_def frame_shape_def ext_def size_byte_def)
  have facts: "realloc_ok realloc" "\<forall>b n. realloc b n \<noteq> None" "?h + length q < size_t_bound"
    "word_of_nat (?h + length q) \<le> rb_limit info" "rb_readDataSize info = 2"
    "take 2 (rb_buffer info) = front" "stream_of (rb_socket info) = (ext @ kb) @ q @ rest"
    "?e + length kb + length q \<le> length (s_available (rb_socket info))"
    using assms(1) shape_buffer_split [of b0 kb q]
    unfolding frame_arrives_def front_def len by (simp_all add: ext_def)
  have r2: "read_at (rb_buffer info) 0 2 = Some front"
    using facts(6) front2(1) by (auto simp: read_at_def)
  have n: "unat (size_field (length q)) = (if length q \<le> 65535 then 126 else 127)"
    using assms(3) by (simp add: unat_size_field)
  have "(word_of_nat ?h :: u64) \<le> word_of_nat (?h + length q)"
    by (rule word_of_nat_le_mono [OF _ facts(3)]) simp
  then have lim: "word_of_nat ?h \<le> rb_limit info" using facts(4) by (rule order_trans)
  have "\<exists>b s. read_additional_data realloc discard (word_of_nat ?h) (word_of_nat 0) info =
      ReadTrue (info\<lparr>rb_buffer := front @ (ext @ kb) @ b, rb_socket := s\<rparr>) \<and> stream_of s = q @ rest \<and>
      length (s_available (rb_socket info)) \<le> length (ext @ kb) + length (s_available s)"
    by (rule read_frame [OF facts(1,2) lim _ _ _ facts(6) front2(1) facts(7)])
      (use facts(3,5,8) e in auto)
  then obtain b s where rd: "read_additional_data realloc discard (word_of_nat ?h) 0 info =
      ReadTrue (info\<lparr>rb_buffer := front @ ext @ kb @ b, rb_socket := s\<rparr>)" "stream_of s = q @ rest"
    "length (s_available (rb_socket info)) \<le> ?e + length kb + length (s_available s)"
    by auto
  let ?info = "info\<lparr>rb_buffer := front @ ext @ kb @ b, rb_socket := s\<rparr>"
  have "\<exists>b' s'. read_additional_data realloc discard (word_of_nat (?h + length q)) (word_of_nat ?h) ?info =
      ReadTrue (?info\<lparr>rb_buffer := (front @ ext @ kb) @ q @ b', rb_socket := s'\<rparr>) \<and> stream_of s' = rest \<and>
      length (s_available (rb_socket ?info)) \<le> length q + length (s_available s')"
    by (rule read_frame [OF facts(1,2)]) (use assms(3) facts(3,4,8) rd front2(1) in auto)
  then obtain b' s' where rd': "read_additional_data realloc discard (word_of_nat (?h + length q)) (word_of_nat ?h) ?info =
      ReadTrue (?info\<lparr>rb_buffer := front @ ext @ kb @ q @ b', rb_socket := s'\<rparr>)" "stream_of s' = rest"
    by auto
  have re: "read_at (front @ ext @ kb @ b) 2 ?e = Some ext"
    using front2(1) by (intro read_at_append) simp_all
  have be: "word_of_nat (be_nat ext) = (word_of_nat (length q) :: u64)"
    using assms(3) facts(3) by (simp add: ext_def size_ext_def be_nat_be_bytes)
  have body: "take_body front (kb \<noteq> []) ?h ?e (word_of_nat (length q)) (front @ ext @ kb @ q @ b') =
      Some \<lparr>f_buffer = front @ ext @ kb @ mask_body kb q, f_headerSize = ?h\<rparr>"
    by (rule take_body_shape [OF assms(2) facts(3) front2(1)])
  have "receive_extended realloc discard front (kb \<noteq> []) ?h ?e info =
      Some (frame_shape b0 kb (mask_body kb q), ?info\<lparr>rb_buffer := front @ ext @ kb @ q @ b', rb_socket := s'\<rparr>)"
    using rd(1) rd'(1) re be body by (simp add: receive_extended_def Let_def shape add.assoc)
  moreover have "(if kb \<noteq> [] then 6 else 2) + ?e = ?h" using assms(2) by auto
  ultimately have "frame_receive realloc discard info =
      Some (frame_shape b0 kb (mask_body kb q), ?info\<lparr>rb_buffer := front @ ext @ kb @ q @ b', rb_socket := s'\<rparr>)"
    using r2 n front2 e by (simp add: frame_receive_def Let_def split: if_splits)
  then show ?thesis using rd'(2) facts(5) by simp
qed

lemmas frame_receive_shape = receive_short receive_long

lemma opcode_of_code:
  "op \<in> {Continuation, Text, Binary, Close, Ping, Pong} \<Longrightarrow> opcode_of (opcode_code op AND 15) = op"
  by (auto simp: opcode_of_def)

lemma key_of_key_bytes: "get_masking_key (frame_shape b0 (key_bytes key) p) = Some key"
  by (simp add: shape_key length_key_bytes) (simp add: key_bytes_def word_of_key_bytes)

text \<open>
  C21: A frame that one side builds is what the other side reads: payload, opcode, flags and masking
  key are the ones given to the constructor, the frame is valid, and the connection is at the first
  byte behind the frame.
\<close>

theorem frame_roundtrip:
  assumes "op \<in> {Continuation, Text, Binary, Close, Ping, Pong}"
    and "length body \<le> 125 \<or> op \<in> {Continuation, Text, Binary}"
    and "frame_arrives realloc (f_buffer (frame_make body op key fin r1 r2 r3)) rest info"
  shows "\<exists>f info'. frame_receive realloc discard info = Some (f, info') \<and>
    get_payload f = body \<and> get_opcode f = op \<and> is_final f = fin \<and>
    is_rsv1 f = r1 \<and> is_rsv2 f = r2 \<and> is_rsv3 f = r3 \<and> get_masking_key f = Some key \<and>
    is_valid f \<and> stream_of (rb_socket info') = rest"
proof -
  let ?kb = "key_bytes key"
  let ?b0 = "first_byte op fin r1 r2 r3"
  have arr: "frame_arrives realloc (f_buffer (frame_shape ?b0 ?kb (mask_body ?kb body))) rest info"
    using assms(3) frame_make_shape [OF assms(2)] by simp
  have kb: "length ?kb \<in> {0, 4}" by (simp add: length_key_bytes)
  obtain info' where r: "frame_receive realloc discard info =
      Some (frame_shape ?b0 ?kb (mask_body ?kb (mask_body ?kb body)), info')" "stream_of (rb_socket info') = rest"
    using frame_receive_shape [OF arr kb] by (cases "length body \<le> 125") auto
  have "length body < size_t_bound" using arr by (auto simp: frame_arrives_def shape_fields)
  then have "is_valid (frame_shape ?b0 ?kb body)"
    using shape_valid [OF kb] assms(1) by (simp add: first_byte_fields opcode_of_code)
  moreover have "mask_body ?kb (mask_body ?kb body) = body" by (simp add: mask_body_def)
  ultimately show ?thesis
    using r by (simp add: shape_get first_byte_fields opcode_of_code [OF assms(1)] key_of_key_bytes)
qed

definition frame_info :: "byte list \<Rightarrow> byte list \<Rightarrow> recv_info" where
  "frame_info bs rest =
     \<lparr>rb_buffer = take 2 bs @ replicate 1022 0, rb_limit = 8388608, rb_readDataSize = 2,
      rb_socket = \<lparr>s_available = drop 2 bs @ rest, s_arrivals = []\<rparr>\<rparr>"

theorem frame_roundtrip_witness:
  "\<exists>f info'. frame_receive copy_realloc (\<lambda>_ s. s)
       (frame_info (f_buffer (frame_make [72, 105] Text 305419896 True False False True)) [129]) = Some (f, info') \<and>
     get_payload f = [72, 105] \<and> get_masking_key f = Some 305419896 \<and> stream_of (rb_socket info') = [129]"
proof -
  let ?f = "frame_make [72, 105] Text 305419896 True False False True"
  have "length (f_buffer ?f) = 8" by (simp add: frame_make_shape shape_fields length_size_ext length_key_bytes)
  then have "frame_arrives copy_realloc (f_buffer ?f) [129] (frame_info (f_buffer ?f) [129])"
    using copy_realloc_ok by (simp add: frame_arrives_def frame_info_def copy_realloc_def stream_of_def)
  then show ?thesis
    using frame_roundtrip [of Text "[72, 105]" copy_realloc 305419896 True False False True "[129]" _ "\<lambda>_ s. s"]
    by force
qed

section \<open>Lengths that wrap\<close>

lemma unat_of_size: "n < size_t_bound \<Longrightarrow> unat (word_of_nat n :: u64) = n"
  by (simp add: unat_of_nat)

lemma unat_wrap:
  "a \<le> size_t_bound \<Longrightarrow> n < size_t_bound \<Longrightarrow> size_t_bound \<le> a + n \<Longrightarrow>
    unat (word_of_nat a + word_of_nat n :: u64) = a + n - size_t_bound"
  by (simp add: unat_of_nat mod_if flip: of_nat_add)

lemma read_fits:
  assumes "unat sz \<le> length (rb_buffer info)" "off = rb_readDataSize info" "off < sz"
    and "stream_of (rb_socket info) = xs @ rest" "length xs = unat sz - unat off"
    and "s_available (rb_socket info) \<noteq> []"
  shows "\<exists>s. read_additional_data realloc discard sz 0 info =
      ReadTrue (info\<lparr>rb_buffer := put_at (unat off) xs (rb_buffer info), rb_socket := s\<rparr>) \<and>
      length (s_available (rb_socket info)) \<le> length xs + length (s_available s)"
proof -
  let ?i = "info\<lparr>rb_socket := sock_poll (rb_socket info)\<rparr>"
  have n: "unat (sz - off) = unat sz - unat off" using assms(3) by (simp add: unat_sub less_imp_le)
  have pos: "0 < unat sz - unat off" using assms(3) by (simp add: word_less_nat_alt)
  have "0 < length (s_available (rb_socket ?i))"
    using available_poll [of "rb_socket info"] assms(6)
    by (cases "s_available (sock_poll (rb_socket info)) = []") auto
  then have "read_additional_data realloc discard sz 0 info = read_more (unat off) (unat sz - unat off) ?i"
    using assms(1,2) n by (simp add: read_additional_data_def manage_buffer_def read_more_def Let_def)
  then show ?thesis
    using recv_all_stream [of ?i xs rest "unat sz - unat off" "unat off"] assms(1,4,5) pos
      available_poll [of "rb_socket info"] by (auto simp: read_more_recv_all)
qed

lemma sock_recv_min:
  assumes "sock_recv n s = (bs, s')"
  shows "min n (length (s_available s)) \<le> length bs"
proof (cases "n \<le> length (s_available s)")
  case True
  then show ?thesis using sock_recv_available [OF assms] by simp
next
  case False
  obtain av bss where w: "sock_wait (s_available (sock_poll s)) (s_arrivals (sock_poll s)) = (av, bss)"
    by force
  have "length (s_available s) \<le> length av"
    using sock_wait_stream [OF w] available_poll [of s] by (cases "s_available (sock_poll s) = []") auto
  then show ?thesis using assms w False by (auto simp: sock_recv_def Let_def)
qed

lemma read_overflows:
  assumes "unat sz \<le> length (rb_buffer info)" "off \<noteq> 0" "sz \<noteq> off"
    and "length (rb_buffer info) < unat off + min (unat (sz - off)) (length (s_available (rb_socket info)))"
    and "s_available (rb_socket info) \<noteq> []"
  shows "read_additional_data realloc discard sz off info = ReadOob"
proof -
  let ?i = "info\<lparr>rb_socket := sock_poll (rb_socket info)\<rparr>"
  let ?n = "unat (sz - off)"
  have pos: "0 < ?n" using assms(3) by (simp add: unat_gt_0)
  have av: "length (s_available (rb_socket info)) \<le> length (s_available (rb_socket ?i))"
    by (simp add: available_poll)
  then have "0 < length (s_available (rb_socket ?i))"
    using assms(5) by (cases "s_available (sock_poll (rb_socket info)) = []") auto
  then have "read_additional_data realloc discard sz off info = read_more (unat off) ?n ?i"
    using assms(1,2) by (simp add: read_additional_data_def manage_buffer_def read_more_def Let_def)
  moreover have "do_recv (unat off) ?n ?i = None"
  proof -
    obtain bs s where r: "sock_recv ?n (rb_socket ?i) = (bs, s)" by force
    have "min ?n (length (s_available (rb_socket info))) \<le> length bs"
      using sock_recv_min [OF r] av by simp
    then have "length (rb_buffer info) < unat off + length bs" using assms(4) by linarith
    moreover have "bs \<noteq> []"
      using \<open>min ?n (length (s_available (rb_socket info))) \<le> length bs\<close> pos assms(5)
      by (auto simp: min_def split: if_splits)
    ultimately show ?thesis using r by (simp add: do_recv_def write_at_def)
  qed
  ultimately show ?thesis using pos by (simp add: read_more_recv_all recv_all.simps)
qed

text \<open>
  C34: A declared length within a header of 2^64 makes the code write behind its buffer: the sum of
  the header and the length wraps to less than the header, so the buffer is taken to be large enough,
  and the difference that is read wraps back to the whole declared length. A peer needs no more than
  the header and as many bytes as fill the buffer.
\<close>

theorem declared_length_overflows:
  assumes "take 2 (rb_buffer info) = [b0, size_byte 65536 (kb \<noteq> [])]" "length kb \<in> {0, 4}"
    and "rb_readDataSize info = 2" "size_t_bound - (10 + length kb) \<le> n" "n < size_t_bound"
    and "rb_socket info = \<lparr>s_available = be_bytes 8 n @ kb @ xs, s_arrivals = arrivals\<rparr>"
    and "10 + length kb \<le> length (rb_buffer info)" "length (rb_buffer info) < 10 + length kb + length xs"
    and "length (rb_buffer info) < size_t_bound"
  shows "frame_receive realloc discard info = None"
proof -
  define front where "front = [b0, size_byte 65536 (kb \<noteq> [])]"
  define h where "h = 10 + length kb"
  have h: "h \<le> 14" "10 \<le> h" "length (be_bytes 8 n @ kb) = h - 2" using assms(2) by (auto simp: h_def)
  have front2: "length front = 2" "front ! 1 AND 127 = size_field 65536" "bit (front ! 1) 7 = (kb \<noteq> [])"
    by (simp_all add: front_def)
  have r2: "read_at (rb_buffer info) 0 2 = Some front"
    using assms(1,7) by (simp add: read_at_def front_def)
  have u: "unat (word_of_nat h :: u64) = h" by (rule unat_of_size) (use h in simp)
  have "\<exists>s. read_additional_data realloc discard (word_of_nat h) 0 info =
      ReadTrue (info\<lparr>rb_buffer := put_at 2 (be_bytes 8 n @ kb) (rb_buffer info), rb_socket := s\<rparr>) \<and>
      length (s_available (rb_socket info)) \<le> length (be_bytes 8 n @ kb) + length (s_available s)"
  proof -
    have "(2 :: u64) < word_of_nat h" "unat (2 :: u64) = 2" using u h by (simp_all add: word_less_nat_alt)
    moreover have "stream_of (rb_socket info) = (be_bytes 8 n @ kb) @ xs @ concat arrivals"
      by (simp add: assms(6) stream_of_def)
    moreover have "length (be_bytes 8 n @ kb) = unat (word_of_nat h :: u64) - unat (2 :: u64)"
      unfolding u by (simp add: h_def)
    moreover have "unat (word_of_nat h :: u64) \<le> length (rb_buffer info)"
      unfolding u using assms(7) by (simp add: h_def)
    moreover have "s_available (rb_socket info) \<noteq> []" unfolding assms(6) by (simp flip: length_greater_0_conv)
    ultimately show ?thesis
      using read_fits [of "word_of_nat h" info 2, OF _ assms(3) [symmetric]] by metis
  qed
  then obtain s where rd: "read_additional_data realloc discard (word_of_nat h) 0 info =
      ReadTrue (info\<lparr>rb_buffer := put_at 2 (be_bytes 8 n @ kb) (rb_buffer info), rb_socket := s\<rparr>)"
    "length xs \<le> length (s_available s)"
    using assms(6) by auto
  let ?info = "info\<lparr>rb_buffer := put_at 2 (be_bytes 8 n @ kb) (rb_buffer info), rb_socket := s\<rparr>"
  have len: "length (rb_buffer ?info) = length (rb_buffer info)" using assms(7) by simp
  have big: "size_t_bound \<le> h + n" using assms(4) by (simp add: h_def)
  have sum: "unat (word_of_nat h + word_of_nat n :: u64) = h + n - size_t_bound"
    using unat_wrap [of h n] assms(4,5) h(1) by (simp add: h_def)
  have "read_additional_data realloc discard (word_of_nat h + word_of_nat n) (word_of_nat h) ?info = ReadOob"
  proof (rule read_overflows)
    have n: "unat (word_of_nat n :: u64) = n" using assms(5) by (simp add: unat_of_nat)
    then show "length (rb_buffer ?info) < unat (word_of_nat h :: u64) +
        min (unat (word_of_nat h + word_of_nat n - word_of_nat h :: u64)) (length (s_available (rb_socket ?info)))"
      using assms(8,9) big len rd(2) u h_def by (simp add: min_def del: of_nat_add)
    show "(word_of_nat h + word_of_nat n :: u64) \<noteq> word_of_nat h"
    proof
      assume "(word_of_nat h + word_of_nat n :: u64) = word_of_nat h"
      with sum u have "h + n - size_t_bound = h" by simp
      with h(2) assms(5) show False by simp
    qed
    show "unat (word_of_nat h + word_of_nat n :: u64) \<le> length (rb_buffer ?info)"
      using sum assms(5,7) len by (simp add: h_def)
    show "(word_of_nat h :: u64) \<noteq> 0" using u h(2) by (simp add: word_unat_eq_iff)
    show "s_available (rb_socket ?info) \<noteq> []" using rd(2) assms(7,8) by auto
  qed
  moreover have "read_at (put_at 2 (be_bytes 8 n @ kb) (rb_buffer info)) 2 8 = Some (be_bytes 8 n)"
    using assms(7) by (simp add: put_at_def read_at_def)
  moreover have "be_nat (be_bytes 8 n) = n" using assms(5) by (simp add: be_nat_be_bytes)
  moreover have "(if kb \<noteq> [] then 6 else 2) + 8 = h" using assms(2) by (auto simp: h_def)
  ultimately show ?thesis
    using r2 front2 rd(1) by (simp add: frame_receive_def receive_extended_def unat_size_field Let_def)
qed

theorem declared_length_overflows_witness:
  "frame_receive copy_realloc (\<lambda>_ s. s)
     \<lparr>rb_buffer = [130, 255] @ replicate 14 0, rb_limit = 8388608, rb_readDataSize = 2,
      rb_socket = \<lparr>s_available = be_bytes 8 18446744073709551615 @ [1, 2, 3, 4] @ [65, 65, 65], s_arrivals = []\<rparr>\<rparr>
    = None"
  by (rule declared_length_overflows [where ?b0.0 = 130 and kb = "[1, 2, 3, 4]" and xs = "[65, 65, 65]"
        and n = 18446744073709551615])
    (simp_all add: size_byte_def size_field_def)

section \<open>Merging\<close>

lemma write_at_mid:
  "off = length pre \<Longrightarrow> length bs \<le> length old \<Longrightarrow>
    write_at (pre @ old) off bs = Some (pre @ bs @ drop (length bs) old)"
  by (simp add: write_at_def)

lemma size_byte_or: "size_field n OR (if masked then 128 else 0) = size_byte n masked"
  by (simp add: size_byte_def)

text \<open>
  The part of the header behind the size when the header grows by \<open>add\<close> bytes: the bytes that
  stood there, of the old key and the start of the payload.
\<close>

definition moved_key :: "nat \<Rightarrow> byte list \<Rightarrow> byte list \<Rightarrow> byte list" where
  "moved_key add kb p = take (length kb) (drop add (kb @ p @ replicate add 0))"

lemma length_moved_key [simp]: "length (moved_key add kb p) = length kb"
proof -
  have "length (kb @ p @ replicate add 0) = length kb + length p + add" by simp
  then show ?thesis unfolding moved_key_def by (simp only: length_take length_drop)
qed

lemma moved_key_split:
  "\<exists>A R. kb @ p @ replicate (add + n) 0 = A @ moved_key add kb p @ R \<and> length A = add \<and> length R = length p + n"
proof -
  define X where "X = kb @ p @ replicate add 0"
  have X: "length X = length kb + length p + add" by (simp add: X_def)
  let ?A = "take add X" and ?K = "take (length kb) (drop add X)" and ?R = "drop (add + length kb) X @ replicate n 0"
  have "X = ?A @ ?K @ drop (add + length kb) X"
    by (metis append_take_drop_id drop_drop add.commute)
  then have "kb @ p @ replicate (add + n) 0 = ?A @ ?K @ ?R"
    by (metis X_def append.assoc replicate_add)
  moreover have "length ?A = add" "length ?R = length p + n" using X by simp_all
  moreover have "?K = moved_key add kb p" by (simp add: moved_key_def X_def)
  ultimately show ?thesis by metis
qed

text \<open>
  The parts of any valid frame: its size bytes are as long as the payload asks for, but need not say
  its length. (A frame cut off by its connection says more.)
\<close>

definition frame_parts ::
    "frame \<Rightarrow> byte \<Rightarrow> byte \<Rightarrow> byte list \<Rightarrow> byte list \<Rightarrow> byte list \<Rightarrow> bool" where
  "frame_parts f b0 x e kb p \<longleftrightarrow>
     f = \<lparr>f_buffer = [b0, x] @ e @ kb @ p, f_headerSize = 2 + length e + length kb\<rparr> \<and>
     length e = length (size_ext (length p)) \<and> length kb = (if bit x 7 then 4 else 0)"

lemma shape_parts:
  "length kb \<in> {0, 4} \<Longrightarrow>
    frame_parts (frame_shape b0 kb p) b0 (size_byte (length p) (kb \<noteq> [])) (size_ext (length p)) kb p"
  by (auto simp: frame_parts_def frame_shape_def size_byte_def size_field_bits)

lemma grow_header_parts:
  assumes f: "frame_parts f b0 x e kb p" and "length ext = add + length e"
    and y: "y = field OR (if bit x 7 then 128 else 0)"
  shows "grow_header add field ext q (length p) f =
    Some \<lparr>f_buffer = [b0, y] @ ext @ moved_key add kb p @ p @ q, f_headerSize = 2 + length ext + length kb\<rparr>"
proof -
  define K where "K = moved_key add kb p"
  obtain A R where split: "kb @ p @ replicate (add + length q) 0 = A @ K @ R" "length A = add"
    "length R = length p + length q"
    using moved_key_split [of kb p add "length q"] by (auto simp: K_def)
  have K: "length K = length kb" by (simp add: K_def)
  have fb: "f_buffer f = [b0, x] @ e @ kb @ p" "f_headerSize f = 2 + length e + length kb"
    using f by (simp_all add: frame_parts_def)
  define h where "h = 2 + length e + length kb + add"
  have res: "resize (h + (length p + length q)) ([b0, x] @ e @ kb @ p) = [b0, x] @ (e @ A) @ K @ R"
  proof -
    have "resize (h + (length p + length q)) ([b0, x] @ e @ kb @ p) = [b0, x] @ e @ kb @ p @ replicate (add + length q) 0"
      by (simp add: resize_def h_def)
    then show ?thesis using split(1) by simp
  qed
  have "[b0, x] @ (e @ A) @ K @ R = ([b0, x] @ e @ kb) @ p @ replicate (add + length q) 0"
    using split(1) by simp
  then have rd: "read_at ([b0, x] @ (e @ A) @ K @ R) (h - add) (length p) = Some p"
    using read_at_append [of "h - add" "[b0, x] @ e @ kb" "length p" p "replicate (add + length q) 0"]
    by (simp add: h_def)
  have w1: "write_at ([b0, x] @ (e @ A) @ K @ R) h p = Some ([b0, x] @ (e @ A) @ K @ p @ drop (length p) R)"
    using write_at_mid [of h "[b0, x] @ (e @ A) @ K" p R] split(2,3) K by (simp add: h_def)
  have w2: "write_at ([b0, z] @ (e @ A) @ K @ p @ drop (length p) R) 2 ext =
      Some ([b0, z] @ ext @ K @ p @ drop (length p) R)" for z
    using write_at_append [of 2 "[b0, z]" "e @ A" ext "K @ p @ drop (length p) R"] split(2) assms(2)
    by simp
  have w3: "write_at ([b0, z] @ ext @ K @ p @ drop (length p) R) (h + length p) q =
      Some ([b0, z] @ ext @ K @ p @ q)" for z
    using write_at_append [of "h + length p" "[b0, z] @ ext @ K @ p" "drop (length p) R" q "[]"] split(3) K assms(2)
    by (simp add: h_def)
  have mask: "is_masked f = bit x 7" by (simp add: is_masked_def fb)
  have header: "2 + length ext + length kb = h" using assms(2) by (simp add: h_def)
  show ?thesis
    using res rd w1 w2 w3
    unfolding grow_header_def fb mask K_def [symmetric] header h_def [symmetric]
    by (simp add: Let_def y)
qed

lemma grow_header_shape:
  assumes "length (size_ext (length p + length q)) = add + length (size_ext (length p))"
    and "ext = size_ext (length p + length q)" "field OR 0 = size_field (length p + length q)"
    and "field OR 128 = size_byte (length p + length q) True" "length kb \<in> {0, 4}"
  shows "grow_header add field ext q (length p) (frame_shape b0 kb p) =
    Some (frame_shape b0 (moved_key add kb p) (p @ q))"
proof -
  have "(moved_key add kb p = []) = (kb = [])" by (simp flip: length_0_conv)
  moreover have "length (moved_key add kb p) = length kb" by simp
  ultimately show ?thesis
    using grow_header_parts [OF shape_parts [OF assms(5)], where ext = ext and add = add and field = field and q = q] assms(1-4)
    by (simp add: frame_shape_def size_byte_def [of "length p + length q"])
qed

lemma moved_key_0 [simp]: "moved_key 0 kb p = kb"
  by (simp add: moved_key_def)

lemma append_size_shape:
  assumes "length (size_ext (length p + length q)) = length (size_ext (length p))"
  shows "frame_shape b0 kb (p @ q) =
    (frame_shape b0 kb p)\<lparr>f_buffer :=
      [b0, size_byte (length p + length q) (kb \<noteq> [])] @ size_ext (length p + length q) @ kb @ p @ q\<rparr>"
  using assms by (simp add: frame_shape_def size_byte_def)

lemma write_size_shape:
  assumes "length ext = length (size_ext (length p))"
  shows "write_at (f_buffer (frame_shape b0 kb p)) 2 ext = Some ([b0, size_byte (length p) (kb \<noteq> [])] @ ext @ kb @ p)"
  using write_at_append [of 2 "[b0, size_byte (length p) (kb \<noteq> [])]" "size_ext (length p)" ext "kb @ p"] assms
  by (simp add: shape_fields)

text \<open>
  The merge of two frames has the first byte of the first frame and both payloads one behind the
  other. A fragment without payload takes the other's key and size; otherwise the key stays where it
  is, so when the size needs more bytes than before, the bytes in the place of the key are the rest
  of the old key and the start of the payload.
\<close>

theorem merge_fragments:
  assumes "length kb \<in> {0, 4}" "length kb' \<in> {0, 4}" "length p + length q < size_t_bound"
  shows "merge_payload (frame_shape b0 kb p) (frame_shape b1 kb' q) = Some
    (if q = [] then frame_shape b0 kb p
     else if p = [] then frame_shape b0 kb' q
     else frame_shape b0
       (moved_key (length (size_ext (length p + length q)) - length (size_ext (length p))) kb p) (p @ q))"
proof -
  let ?f = "frame_shape b0 kb p" and ?g = "frame_shape b1 kb' q"
  let ?n = "length p + length q"
  have sizes: "unat (get_payload_size ?f) = length p" "unat (get_payload_size ?g) = length q"
    using assms(3) by (simp_all add: shape_get)
  consider "q = []" | "q \<noteq> []" "p = []" | "q \<noteq> []" "p \<noteq> []" by blast
  then show ?thesis
  proof cases
    case 1
    then show ?thesis using sizes by (simp add: merge_payload_def)
  next
    case 2
    let ?x = "size_byte (length q) (kb' \<noteq> []) # size_ext (length q) @ kb' @ q"
    have "drop 1 (f_buffer ?g) = ?x" "length (f_buffer ?g) = Suc (length ?x)" by (simp_all add: shape_fields)
    moreover obtain r where "resize (Suc (length ?x)) (f_buffer ?f) = [b0] @ r" "length r = length ?x"
      by (cases "f_buffer ?f") (auto simp: shape_fields resize_def)
    ultimately have "write_at (resize (length (f_buffer ?g)) (f_buffer ?f)) 1 (drop 1 (f_buffer ?g)) = Some (b0 # ?x)"
      using write_at_append [of 1 "[b0]" r ?x "[]"] by simp
    then show ?thesis
      using sizes 2 by (simp add: merge_payload_def Let_def) (simp add: frame_shape_def size_byte_def)
  next
    case 3
    note ne = 3
    have other: "read_at (f_buffer ?g) (f_headerSize ?g) (length q) = Some q"
      by (simp add: read_at_def shape_fields)
    have fits: "\<not> size_t_bound - 1 - length p < length q" using assms(3) by simp
    note merge = merge_payload_def [of ?f ?g, unfolded Let_def sizes other option.case]
    have mask: "is_masked ?f = (kb \<noteq> [])" by (simp add: shape_get)
    consider "?n \<le> 125" | "125 < length p" "?n \<le> 65535" | "65536 \<le> length p"
      | "length p \<le> 125" "125 < ?n" "?n \<le> 65535" | "length p \<le> 125" "65535 < ?n"
      | "125 < length p" "length p \<le> 65535" "65535 < ?n"
      by linarith
    then show ?thesis
    proof cases
      case 1
      then have "(f_buffer ?f)[1 := word_of_nat ?n OR (if is_masked ?f then 128 else 0)] =
          [b0, size_byte ?n (kb \<noteq> [])] @ size_ext ?n @ kb @ p"
        unfolding mask by (simp add: shape_fields size_byte_def size_field_def size_ext_def)
      with 1 ne fits show ?thesis
        using append_size_shape [of p q b0 kb] by (simp add: merge length_size_ext)
    next
      case 2
      then have "size_byte ?n (kb \<noteq> []) = size_byte (length p) (kb \<noteq> [])" "size_ext ?n = be_bytes 2 ?n"
        by (simp_all add: size_byte_def size_field_def size_ext_def)
      with 2 ne fits show ?thesis
        using append_size_shape [of p q b0 kb] write_size_shape [of "be_bytes 2 ?n" p b0 kb]
        by (simp add: merge length_size_ext)
    next
      case 3
      then have "size_byte ?n (kb \<noteq> []) = size_byte (length p) (kb \<noteq> [])" "size_ext ?n = be_bytes 8 ?n"
        by (simp_all add: size_byte_def size_field_def size_ext_def)
      with 3 ne fits show ?thesis
        using append_size_shape [of p q b0 kb] write_size_shape [of "be_bytes 8 ?n" p b0 kb]
        by (simp add: merge length_size_ext)
    next
      case 4
      have "grow_header 2 126 (be_bytes 2 ?n) q (length p) ?f = Some (frame_shape b0 (moved_key 2 kb p) (p @ q))"
        by (rule grow_header_shape)
          (use 4 assms(1) in \<open>simp_all add: length_size_ext size_ext_def size_byte_def size_field_def\<close>)
      with 4 ne fits show ?thesis by (simp add: merge length_size_ext)
    next
      case 5
      have "grow_header 8 127 (be_bytes 8 ?n) q (length p) ?f = Some (frame_shape b0 (moved_key 8 kb p) (p @ q))"
        by (rule grow_header_shape)
          (use 5 assms(1) in \<open>simp_all add: length_size_ext size_ext_def size_byte_def size_field_def\<close>)
      with 5 ne fits show ?thesis by (simp add: merge length_size_ext)
    next
      case 6
      have "grow_header 6 127 (be_bytes 8 ?n) q (length p) ?f = Some (frame_shape b0 (moved_key 6 kb p) (p @ q))"
        by (rule grow_header_shape)
          (use 6 assms(1) in \<open>simp_all add: length_size_ext size_ext_def size_byte_def size_field_def\<close>)
      with 6 ne fits show ?thesis by (simp add: merge length_size_ext)
    qed
  qed
qed

text \<open>A masked fragment of 100 bytes that grows past 125: the key it had is not the one it has then.\<close>

theorem merge_fragments_witness:
  "\<exists>h. merge_payload (frame_shape 1 [1, 2, 3, 4] (replicate 100 65)) (frame_shape 128 [5, 6, 7, 8] (replicate 50 66)) = Some h \<and>
    get_payload h = replicate 100 65 @ replicate 50 66 \<and> is_valid h \<and>
    get_masking_key h = Some (word_of_bytes [3, 4, 65, 65])"
proof -
  have l: "length (replicate 100 (65::byte)) = 100" "length (replicate 50 (66::byte)) = 50"
    by (simp_all only: length_replicate)
  have "moved_key 2 [1, 2, 3, 4] (replicate 100 65) = [3, 4, 65, 65 :: byte]"
    by (simp add: moved_key_def numeral_eq_Suc)
  then have m: "merge_payload (frame_shape 1 [1, 2, 3, 4] (replicate 100 65)) (frame_shape 128 [5, 6, 7, 8] (replicate 50 66)) =
      Some (frame_shape 1 [3, 4, 65, 65] (replicate 100 65 @ replicate 50 66))"
    using merge_fragments [of "[1, 2, 3, 4]" "[5, 6, 7, 8]" "replicate 100 65" "replicate 50 66" 1 128]
    by (simp only: l length_size_ext) simp
  have "is_valid (frame_shape 1 [3, 4, 65, 65] (replicate 100 65 @ replicate 50 66))"
    by (subst shape_valid) (simp_all only: length_append l, simp_all add: opcode_of_def)
  then show ?thesis using m by (simp add: shape_get shape_key)
qed

text \<open>The merge of any two valid frames is valid and has both payloads.\<close>

abbreviation known_opcode :: "byte \<Rightarrow> bool" where
  "known_opcode b0 \<equiv> opcode_of (b0 AND 15) \<in> {Continuation, Text, Binary, Close, Ping, Pong}"

lemma parts_fields:
  assumes "frame_parts f b0 x e kb p"
  shows "f_buffer f = [b0, x] @ e @ kb @ p" "f_headerSize f = 2 + length e + length kb"
    "get_payload f = p" "is_masked f = bit x 7" "get_opcode f = opcode_of (b0 AND 15)"
    "unat (get_payload_size f) = length p mod size_t_bound"
  using assms
  by (simp_all add: frame_parts_def get_payload_def is_masked_def get_opcode_def get_payload_size_def unat_of_nat)

lemma parts_valid:
  assumes "frame_parts f b0 x e kb p" "length p < size_t_bound"
  shows "is_valid f \<longleftrightarrow> known_opcode b0"
proof -
  note fields = parts_fields [OF assms(1)]
  have "f_headerSize f = get_expected_header_size (length p) (is_masked f)"
    unfolding fields using assms(1) by (simp add: frame_parts_def get_expected_header_size_def length_size_ext)
  moreover have "f_headerSize f \<le> length (f_buffer f)" unfolding fields by simp
  moreover have "unat (get_payload_size f) = length p" using assms(2) by (simp add: fields)
  ultimately show ?thesis unfolding is_valid_def by (simp add: fields(5))
qed

lemma valid_parts:
  assumes "is_valid f" "length (f_buffer f) < size_t_bound"
  shows "\<exists>b0 x e kb p. frame_parts f b0 x e kb p"
proof -
  let ?p = "get_payload f"
  have h: "f_headerSize f \<le> length (f_buffer f)" "f_headerSize f = get_expected_header_size (unat (get_payload_size f)) (is_masked f)"
    using assms(1) by (simp_all add: is_valid_def)
  have "unat (get_payload_size f) = length ?p"
    using h(1) assms(2) unfolding get_payload_size_def get_payload_def
    by (simp add: unat_of_nat flip: of_nat_diff)
  then have hs: "f_headerSize f = 2 + length (size_ext (length ?p)) + (if is_masked f then 4 else 0)"
    using h(2) by (simp add: get_expected_header_size_def length_size_ext)
  define hdr where "hdr = take (f_headerSize f) (f_buffer f)"
  have len: "length hdr = f_headerSize f" using h(1) by (simp add: hdr_def)
  then obtain b0 x r where r: "hdr = b0 # x # r"
    using hs by (cases hdr; cases "tl hdr") auto
  define e where "e = take (length (size_ext (length ?p))) r"
  define kb where "kb = drop (length (size_ext (length ?p))) r"
  have buf: "f_buffer f = [b0, x] @ e @ kb @ ?p"
  proof -
    have "f_buffer f = hdr @ ?p" by (simp add: hdr_def get_payload_def)
    moreover have "r = e @ kb" by (simp add: e_def kb_def)
    ultimately show ?thesis using r by simp
  qed
  have lr: "length r = length (size_ext (length ?p)) + (if is_masked f then 4 else 0)"
    using len hs r by simp
  have "length e = length (size_ext (length ?p))" "length kb = (if is_masked f then 4 else 0)"
    using lr by (simp_all add: e_def kb_def)
  moreover have "is_masked f = bit x 7" by (simp add: is_masked_def buf)
  ultimately have "frame_parts f b0 x e kb ?p"
    using hs buf unfolding frame_parts_def by (cases f) simp
  then show ?thesis by blast
qed

lemma bit_size_mask:
  "unat field < 128 \<Longrightarrow> bit (field OR (if m then 128 else 0) :: byte) 7 = m"
  by (cases m) (simp_all add: byte_low)

lemma write_size_parts:
  assumes "frame_parts f b0 x e kb p" "length ext = length e"
  shows "write_at (f_buffer f) 2 ext = Some ([b0, x] @ ext @ kb @ p)"
  using write_at_append [of 2 "[b0, x]" e ext "kb @ p"] assms(2) by (simp add: parts_fields [OF assms(1)])

lemma merged_partsI:
  assumes "merge_payload f g = Some \<lparr>f_buffer = [b0, z] @ ext @ K @ p @ q, f_headerSize = n\<rparr>"
    and "n = 2 + length ext + length K" "length ext = length (size_ext (length p + length q))"
    and "length K = (if bit z 7 then 4 else 0)"
  shows "\<exists>h z ext K. merge_payload f g = Some h \<and> frame_parts h b0 z ext K (p @ q)"
  using assms by (intro exI [of _ "\<lparr>f_buffer = [b0, z] @ ext @ K @ p @ q, f_headerSize = n\<rparr>"]
      exI [of _ z] exI [of _ ext] exI [of _ K]) (simp add: frame_parts_def)

lemma merge_parts:
  assumes f: "frame_parts f b0 x e kb p" and g: "frame_parts g b1 y e' kb' q"
    and len: "length p + length q < size_t_bound"
  shows "\<exists>h z ext K. merge_payload f g = Some h \<and> frame_parts h b0 z ext K (p @ q)"
proof -
  let ?n = "length p + length q"
  have sizes: "unat (get_payload_size f) = length p" "unat (get_payload_size g) = length q"
    using len by (simp_all add: parts_fields [OF f] parts_fields [OF g])
  have e: "length e = length (size_ext (length p))" "length kb = (if bit x 7 then 4 else 0)"
    "f = \<lparr>f_buffer = [b0, x] @ e @ kb @ p, f_headerSize = 2 + length e + length kb\<rparr>"
    using f by (simp_all add: frame_parts_def)
  consider "q = []" | "q \<noteq> []" "p = []" | "q \<noteq> []" "p \<noteq> []" by blast
  then show ?thesis
  proof cases
    case 1
    then have "merge_payload f g = Some f" using sizes by (simp add: merge_payload_def)
    then show ?thesis using f 1 by auto
  next
    case 2
    let ?t = "y # e' @ kb' @ q"
    obtain r where r: "resize (Suc (length ?t)) (f_buffer f) = [b0] @ r" "length r = length ?t"
      using parts_fields(1) [OF f] by (auto simp: resize_def)
    have "f_buffer g = b1 # ?t" using parts_fields(1) [OF g] by simp
    then have "write_at (resize (length (f_buffer g)) (f_buffer f)) 1 (drop 1 (f_buffer g)) = Some (b0 # ?t)"
      using write_at_append [of 1 "[b0]" r ?t "[]"] r by simp
    then have "merge_payload f g = Some \<lparr>f_buffer = b0 # ?t, f_headerSize = f_headerSize g\<rparr>"
      using sizes 2 by (simp add: merge_payload_def Let_def)
    moreover have "frame_parts \<lparr>f_buffer = b0 # ?t, f_headerSize = f_headerSize g\<rparr> b0 y e' kb' q"
      using g by (simp add: frame_parts_def)
    ultimately show ?thesis using 2(2) by auto
  next
    case 3
    note ne = 3
    have other: "read_at (f_buffer g) (f_headerSize g) (length q) = Some q"
      by (simp add: parts_fields [OF g] read_at_def)
    have fits: "\<not> size_t_bound - 1 - length p < length q" using len by simp
    note merge = merge_payload_def [of f g, unfolded Let_def sizes other option.case]
    have mask: "is_masked f = bit x 7" by (rule parts_fields(4) [OF f])
    have pos: "length p \<noteq> 0" "length q \<noteq> 0" using ne by simp_all
    consider "?n \<le> 125" | "125 < length p" "?n \<le> 65535" | "65536 \<le> length p"
      | "length p \<le> 125" "125 < ?n" "?n \<le> 65535" | "length p \<le> 125" "65535 < ?n"
      | "125 < length p" "length p \<le> 65535" "65535 < ?n"
      by linarith
    then show ?thesis
    proof cases
      case 1
      let ?y = "word_of_nat ?n OR (if bit x 7 then 128 else 0) :: byte"
      have y: "bit ?y 7 = bit x 7" using 1 by (intro bit_size_mask) (simp add: unat_of_nat flip: of_nat_add)
      have "merge_payload f g = Some \<lparr>f_buffer = [b0, ?y] @ e @ kb @ p @ q, f_headerSize = 2 + length e + length kb\<rparr>"
        using 1 pos fits e(3) unfolding merge mask by simp
      then show ?thesis by (rule merged_partsI) (use 1 e(1,2) y in \<open>simp_all add: length_size_ext\<close>)
    next
      case 2
      then have "length (be_bytes 2 ?n) = length e" using e(1) by (simp add: length_size_ext)
      from write_size_parts [OF f this]
      have "merge_payload f g = Some \<lparr>f_buffer = [b0, x] @ be_bytes 2 ?n @ kb @ p @ q, f_headerSize = 2 + length e + length kb\<rparr>"
        using 2 pos fits e(3) unfolding merge by simp
      then show ?thesis by (rule merged_partsI) (use 2 e(1,2) in \<open>simp_all add: length_size_ext\<close>)
    next
      case 3
      then have "length (be_bytes 8 ?n) = length e" using e(1) by (simp add: length_size_ext)
      from write_size_parts [OF f this]
      have "merge_payload f g = Some \<lparr>f_buffer = [b0, x] @ be_bytes 8 ?n @ kb @ p @ q, f_headerSize = 2 + length e + length kb\<rparr>"
        using 3 pos fits e(3) unfolding merge by simp
      then show ?thesis by (rule merged_partsI) (use 3 e(1,2) in \<open>simp_all add: length_size_ext\<close>)
    next
      case 4
      have l: "length (be_bytes 2 ?n) = 2 + length e" using 4 e(1) by (simp add: length_size_ext)
      have "merge_payload f g = grow_header 2 126 (be_bytes 2 ?n) q (length p) f"
        using 4 pos fits unfolding merge by simp
      also note grow_header_parts [OF f l refl]
      finally show ?thesis
        by (rule merged_partsI) (use 4 e(2) bit_size_mask [of 126 "bit x 7"] in \<open>simp_all add: length_size_ext\<close>)
    next
      case 5
      have l: "length (be_bytes 8 ?n) = 8 + length e" using 5 e(1) by (simp add: length_size_ext)
      have "merge_payload f g = grow_header 8 127 (be_bytes 8 ?n) q (length p) f"
        using 5 pos fits unfolding merge by simp
      also note grow_header_parts [OF f l refl]
      finally show ?thesis
        by (rule merged_partsI) (use 5 e(2) bit_size_mask [of 127 "bit x 7"] in \<open>simp_all add: length_size_ext\<close>)
    next
      case 6
      have l: "length (be_bytes 8 ?n) = 6 + length e" using 6 e(1) by (simp add: length_size_ext)
      have "merge_payload f g = grow_header 6 127 (be_bytes 8 ?n) q (length p) f"
        using 6 pos fits unfolding merge by simp
      also note grow_header_parts [OF f l refl]
      finally show ?thesis
        by (rule merged_partsI) (use 6 e(2) bit_size_mask [of 127 "bit x 7"] in \<open>simp_all add: length_size_ext\<close>)
    qed
  qed
qed

lemma merge_valid:
  assumes "is_valid f" "is_valid g" "length (f_buffer f) + length (f_buffer g) < size_t_bound"
  shows "\<exists>h. merge_payload f g = Some h \<and> is_valid h \<and> get_payload h = get_payload f @ get_payload g \<and>
    f_buffer h ! 0 = f_buffer f ! 0 \<and> get_opcode h = get_opcode f \<and>
    length (f_buffer h) \<le> 14 + length (get_payload f) + length (get_payload g)"
proof -
  obtain b0 x e kb p where f: "frame_parts f b0 x e kb p" using valid_parts [OF assms(1)] assms(3) by auto
  obtain b1 y e' kb' q where g: "frame_parts g b1 y e' kb' q" using valid_parts [OF assms(2)] assms(3) by auto
  note ff = parts_fields [OF f] and gg = parts_fields [OF g]
  have len: "length p + length q < size_t_bound" using assms(3) by (simp add: ff(1) gg(1))
  obtain h z ext K where h: "merge_payload f g = Some h" "frame_parts h b0 z ext K (p @ q)"
    using merge_parts [OF f g len] by blast
  note hh = parts_fields [OF h(2)]
  have "known_opcode b0" using parts_valid [OF f] len assms(1) by simp
  then have "is_valid h" using parts_valid [OF h(2)] len by simp
  moreover have "length ext \<le> 8" "length K \<le> 4" using h(2) by (simp_all add: frame_parts_def length_size_ext)
  ultimately show ?thesis using h(1) by (simp add: hh ff gg)
qed

lemma payload_size_nat:
  assumes "is_valid f" "length (f_buffer f) < size_t_bound"
  shows "unat (get_payload_size f) = length (get_payload f)"
    and "2 + length (get_payload f) \<le> length (f_buffer f)" "length (f_buffer f) \<le> 14 + length (get_payload f)"
proof -
  obtain b0 x e kb p where f: "frame_parts f b0 x e kb p" using valid_parts [OF assms] by blast
  then have "length e \<le> 8" "length kb \<le> 4" by (simp_all add: frame_parts_def length_size_ext)
  then show "unat (get_payload_size f) = length (get_payload f)"
    "2 + length (get_payload f) \<le> length (f_buffer f)" "length (f_buffer f) \<le> 14 + length (get_payload f)"
    using assms(2) by (simp_all add: parts_fields [OF f])
qed

end
