(* ===== verification/WebSocketSplitSpec.thy ===== *)
theory WebSocketSplitSpec
  imports WebSocketFramesSpec
begin

text \<open>
  The generator that splits a payload, \<open>Data::SplitGenerator\<close>: it rewrites one buffer in place for
  every piece, and the frames it shows are the ones the constructor builds for the pieces.
\<close>

section \<open>The pieces\<close>

text \<open>The pieces of a payload, and the frames the constructor gives for them, one key for each.\<close>

function chunks :: "nat \<Rightarrow> byte list \<Rightarrow> byte list list" where
  "chunks step bs = (if bs = [] \<or> step = 0 then [] else take step bs # chunks step (drop step bs))"
  by pat_completeness auto
termination
  by (relation "measure (\<lambda>(step, bs). length bs)") auto

declare chunks.simps [simp del]

fun piece_frames :: "opcode \<Rightarrow> frame \<Rightarrow> bool \<Rightarrow> u32 list \<Rightarrow> byte list list \<Rightarrow> frame list" where
  "piece_frames op f masking (k # ks) (p # ps) =
     frame_make p op (if masking then k else 0) (ps = []) (is_rsv1 f) (is_rsv2 f) (is_rsv3 f) #
     piece_frames Continuation f masking ks ps"
| "piece_frames op f masking ks ps = []"

text \<open>The calls of \<open>Get\<close> with the keys that are generated, and the frames at their returns.\<close>

fun split_run :: "u32 list \<Rightarrow> split_generator \<Rightarrow> (frame list \<times> split_generator) option" where
  "split_run [] g = Some ([], g)"
| "split_run (k # ks) g =
     (case split_get k g of
        None \<Rightarrow> None
      | Some (False, g') \<Rightarrow> Some ([], g')
      | Some (True, g') \<Rightarrow> map_option (\<lambda>(fs, g''). (g_frame g' # fs, g'')) (split_run ks g'))"

definition split_step :: "nat \<Rightarrow> nat \<Rightarrow> nat" where
  "split_step n step = (if step = 0 \<or> step \<ge> n then min (n div 4) 65535 else step)"

lemma put_piece_shape:
  assumes "length kb = (if key = None then 0 else 4)" "length piece \<le> length old"
    and "key = None \<or> keypos = Some (2 + length e)" "ext = [] \<or> length ext = length e"
    and "h = 2 + length e + length kb"
  shows "put_piece h keypos field ext key piece ([b0, x] @ e @ kb @ old) =
    Some ([b0, case field of None \<Rightarrow> x | Some y \<Rightarrow> y OR (if key \<noteq> None then 128 else 0)] @
      (if ext = [] then e else ext) @
      (case key of None \<Rightarrow> piece | Some k \<Rightarrow> word_bytes 4 k @ apply_mask k piece) @ drop (length piece) old)"
proof -
  define y where "y = (case field of None \<Rightarrow> x | Some y \<Rightarrow> y OR (if key \<noteq> None then 128 else 0))"
  let ?rest = "drop (length piece) old"
  have w: "write_at ([b0, x] @ e @ kb @ old) h piece = Some ([b0, x] @ e @ kb @ piece @ ?rest)"
    using write_at_mid [of h "[b0, x] @ e @ kb" piece old] assms(2,5) by simp
  have field: "(case field of None \<Rightarrow> [b0, x] @ e @ kb @ piece @ ?rest
      | Some z \<Rightarrow> ([b0, x] @ e @ kb @ piece @ ?rest)[1 := z OR (if key \<noteq> None then 128 else 0)]) =
      [b0, y] @ e @ kb @ piece @ ?rest"
    by (simp add: y_def split: option.split)
  have e: "write_at ([b0, y] @ e @ tl) 2 ext = Some ([b0, y] @ (if ext = [] then e else ext) @ tl)" for tl
    using write_at_append [of 2 "[b0, y]" e ext tl] assms(4)
    by (cases "ext = []") (simp_all add: write_at_def)
  show ?thesis
  proof (cases key)
    case None
    then have "kb = []" using assms(1) by simp
    then show ?thesis
      using e [of "piece @ ?rest"] None
      unfolding put_piece_def Let_def w option.case field y_def [symmetric] by simp
  next
    case (Some k)
    then have kb: "length kb = 4" "keypos = Some (2 + length e)" using assms(1,3) by simp_all
    have k: "write_at ([b0, y] @ e @ kb @ piece @ ?rest) (2 + length e) (word_bytes 4 k) =
        Some ([b0, y] @ e @ word_bytes 4 k @ piece @ ?rest)"
      using write_at_append [of "2 + length e" "[b0, y] @ e" kb "word_bytes 4 k" "piece @ ?rest"] kb by simp
    have m: "mask_at h (length piece) k ([b0, y] @ e @ word_bytes 4 k @ piece @ ?rest) =
        Some ([b0, y] @ e @ word_bytes 4 k @ apply_mask k piece @ ?rest)"
      using read_at_append [of h "[b0, y] @ e @ word_bytes 4 k" "length piece" piece ?rest]
        write_at_append [of h "[b0, y] @ e @ word_bytes 4 k" piece "apply_mask k piece" ?rest] kb assms(5)
      by (simp add: mask_at_def)
    show ?thesis
      using e [of "word_bytes 4 k @ apply_mask k piece @ ?rest"] k m Some kb(2)
      unfolding put_piece_def Let_def w option.case field y_def [symmetric] by simp
  qed
qed

section \<open>A piece in place\<close>

lemma put_piece_at:
  fixes piece key x
  defines "n \<equiv> length piece" and "masked \<equiv> key \<noteq> None" and "kb \<equiv> key_bytes (case key of None \<Rightarrow> 0 | Some k \<Rightarrow> k)"
  assumes "key \<noteq> Some 0" "h = 2 + length (size_ext n) + length kb" "h + n \<le> 2 + length tls"
    and "key = None \<or> keypos = Some (2 + length (size_ext n))"
    and "field = Some (size_field n) \<or> field = None \<and> x = size_byte n masked"
    and "ext = size_ext n \<or> ext = [] \<and> take (length (size_ext n)) tls = size_ext n"
  shows "\<exists>r. put_piece h keypos field ext key piece ([b0, x] @ tls) =
      Some (f_buffer (frame_shape b0 kb (mask_body kb piece)) @ r) \<and> h + n + length r = 2 + length tls"
proof -
  define e where "e = take (length (size_ext n)) tls"
  define kb0 where "kb0 = take (length kb) (drop (length (size_ext n)) tls)"
  define old where "old = drop (length kb + length (size_ext n)) tls"
  have tls: "tls = e @ kb0 @ old" by (simp add: e_def kb0_def old_def) (metis append_take_drop_id drop_drop)
  have kb: "length kb = (if key = None then 0 else 4)" "kb = [] \<longleftrightarrow> key = None"
    using assms(4) by (auto simp: kb_def length_key_bytes split: option.split)
  have len: "length e = length (size_ext n)" "length kb0 = (if key = None then 0 else 4)" "n \<le> length old"
    using assms(5,6) kb(1) by (simp_all add: e_def kb0_def old_def)
  have body: "(case key of None \<Rightarrow> piece | Some k \<Rightarrow> word_bytes 4 k @ apply_mask k piece) = kb @ mask_body kb piece"
    using assms(4) by (cases key) (auto simp: kb_def mask_key_bytes, simp_all add: key_bytes_def mask_body_def)
  have ext: "(if ext = [] then e else ext) = size_ext n"
    using assms(9) len(1) by (auto simp: e_def)
  have field: "(case field of None \<Rightarrow> x | Some y \<Rightarrow> y OR (if key \<noteq> None then 128 else 0)) = size_byte n masked"
    using assms(8) by (auto simp: size_byte_def masked_def)
  have "put_piece h keypos field ext key piece ([b0, x] @ e @ kb0 @ old) =
      Some ([b0, size_byte n masked] @ size_ext n @ (kb @ mask_body kb piece) @ drop n old)"
  proof -
    have "key = None \<or> keypos = Some (2 + length e)" "ext = [] \<or> length ext = length e"
      using assms(7,9) len(1) by auto
    moreover have "h = 2 + length e + length kb0" using assms(5) len(1,2) kb(1) by simp
    ultimately show ?thesis
      using put_piece_shape [of kb0 key piece old keypos e ext h field b0 x, unfolded field ext body, OF len(2)]
        len(3) by (simp add: n_def)
  qed
  moreover have "[b0, size_byte n masked] @ size_ext n @ (kb @ mask_body kb piece) @ drop n old =
      f_buffer (frame_shape b0 kb (mask_body kb piece)) @ drop n old"
    using kb(2) by (simp add: shape_fields n_def masked_def)
  moreover have "length tls = length (size_ext n) + length kb + length old"
    using arg_cong [OF tls, of length] len(1,2) kb(1) by simp
  ultimately show ?thesis
    using len(3) assms(5) tls by (intro exI [of _ "drop n old"]) simp
qed

lemma frame_update: "f_headerSize f = f_headerSize s \<Longrightarrow> f\<lparr>f_buffer := f_buffer s\<rparr> = s" for f s :: frame
  by (cases f; cases s) simp

text \<open>The same piece as a frame: in place when it fills the frame, cut off otherwise.\<close>

lemma put_piece_frame:
  fixes piece key x
  defines "n \<equiv> length piece" and "kb \<equiv> key_bytes (case key of None \<Rightarrow> 0 | Some k \<Rightarrow> k)"
  assumes "key \<noteq> Some 0" "h = 2 + length (size_ext n) + length kb" "h + n \<le> 2 + length tls"
    and "key = None \<or> keypos = Some (2 + length (size_ext n))"
    and "field = Some (size_field n) \<or> field = None \<and> x = size_byte n (key \<noteq> None)"
    and "ext = size_ext n \<or> ext = [] \<and> take (length (size_ext n)) tls = size_ext n"
  shows "map_option (\<lambda>b. \<lparr>f_buffer = resize (h + n) b, f_headerSize = h\<rparr>)
      (put_piece h keypos field ext key piece ([b0, x] @ tls)) = Some (frame_shape b0 kb (mask_body kb piece))"
    and "h + n = 2 + length tls \<Longrightarrow> f_headerSize f = h \<Longrightarrow>
      map_option (\<lambda>b. f\<lparr>f_buffer := b\<rparr>) (put_piece h keypos field ext key piece ([b0, x] @ tls)) =
        Some (frame_shape b0 kb (mask_body kb piece))"
proof -
  let ?s = "frame_shape b0 kb (mask_body kb piece)"
  obtain r where r: "put_piece h keypos field ext key piece ([b0, x] @ tls) = Some (f_buffer ?s @ r)"
    "h + n + length r = 2 + length tls"
    using put_piece_at [of key h piece tls keypos field x ext b0] assms by auto
  have s: "f_headerSize ?s = h" "length (f_buffer ?s) = h + n"
    using assms(4) by (simp_all add: shape_fields n_def)
  then have "\<lparr>f_buffer = resize (h + n) (f_buffer ?s @ r), f_headerSize = h\<rparr> = ?s"
    by (cases ?s) (simp add: resize_def)
  then show "map_option (\<lambda>b. \<lparr>f_buffer = resize (h + n) b, f_headerSize = h\<rparr>)
      (put_piece h keypos field ext key piece ([b0, x] @ tls)) = Some ?s"
    using r(1) by simp
  show "map_option (\<lambda>b. f\<lparr>f_buffer := b\<rparr>) (put_piece h keypos field ext key piece ([b0, x] @ tls)) = Some ?s"
    if "h + n = 2 + length tls" "f_headerSize f = h"
    using r s that frame_update [of f ?s] by simp
qed

lemma first_byte_next:
  assumes "op \<in> {Continuation, Text, Binary}"
  shows "first_byte op False r1 r2 r3 XOR opcode_code op = first_byte Continuation False r1 r2 r3"
    "first_byte Continuation False r1 r2 r3 OR 128 = first_byte Continuation True r1 r2 r3"
  using assms by (cases r1; cases r2; cases r3; auto simp: first_byte_def)+

text \<open>A call of \<open>Get\<close> that is not the first one rewrites the frame to the one for the next piece.\<close>

lemma split_piece_shape:
  fixes key masking
  defines "kb' \<equiv> key_bytes (if masking then key else 0)"
  assumes f: "f = frame_shape (first_byte op False r1 r2 r3) kb stored"
    and op: "op \<in> {Continuation, Text, Binary}"
    and kb: "length kb = (if masking then 4 else 0)" and key: "key \<noteq> 0"
    and s: "length stored = s" and pl: "length piece = min s rem"
  shows "split_piece key s rem masking piece f =
    Some (frame_shape (first_byte Continuation (rem \<le> s) r1 r2 r3) kb' (mask_body kb' piece))"
proof -
  let ?K = "if masking then Some key else None"
  define x where "x = size_byte s masking"
  define h where "h = f_headerSize f"
  define own where "own = (if h < 4 then None else Some (h - 4))"
  define tls where "tls = size_ext s @ kb @ stored"
  define mid where "mid = first_byte Continuation False r1 r2 r3"
  define end_byte where "end_byte = first_byte Continuation True r1 r2 r3"
  have kb': "length kb' = length kb" and masked: "kb \<noteq> [] \<longleftrightarrow> masking"
    using kb key by (auto simp: kb'_def length_key_bytes split: if_splits)
  have K: "key_bytes (case ?K of None \<Rightarrow> 0 | Some k \<Rightarrow> k) = kb'" "?K \<noteq> Some 0" "?K = None \<longleftrightarrow> \<not> masking"
    using key by (simp_all add: kb'_def)
  have buf: "f_buffer f = [first_byte op False r1 r2 r3, x] @ tls" and h: "h = 2 + length (size_ext s) + length kb"
    using f s masked by (auto simp: shape_fields tls_def x_def h_def)
  have code: "opcode_code (get_opcode f) = opcode_code op"
    using f op by (auto simp: shape_get first_byte_fields opcode_of_def)
  have tls: "length tls = length (size_ext s) + length kb + s" "take (length (size_ext s)) tls = size_ext s"
    using s by (simp_all add: tls_def)
  have own: "?K = None \<or> own = Some (2 + length (size_ext s))"
    using h kb by (simp add: own_def)
  have same: "map_option (\<lambda>b. f\<lparr>f_buffer := b\<rparr>) (put_piece h own None [] ?K piece ([b, x] @ tls)) =
      Some (frame_shape b kb' (mask_body kb' piece))" if "length piece = s" for b
  proof -
    have "None = Some (size_field s) \<or> None = None \<and> x = size_byte s (?K \<noteq> None)"
      using K(3) by (simp add: x_def)
    moreover have "[] = size_ext s \<or> [] = [] \<and> take (length (size_ext s)) tls = size_ext s" using tls(2) by simp
    moreover have "h + s \<le> 2 + length tls" "h + s = 2 + length tls" "h = 2 + length (size_ext s) + length kb'"
      using h tls(1) kb' by simp_all
    ultimately show ?thesis
      by (intro put_piece_frame(2) [OF K(2), of h piece tls own None x "[]" f b, unfolded K(1) that]
          own h_def [symmetric])
  qed
  have ends: "map_option (\<lambda>b. \<lparr>f_buffer = resize (h' + rem) b, f_headerSize = h'\<rparr>)
      (put_piece h' (Some pos) field ext ?K piece ([b, x] @ tls)) = Some (frame_shape b kb' (mask_body kb' piece))"
    if "rem < s" "h' = 2 + length (size_ext rem) + length kb" "pos = 2 + length (size_ext rem)"
      "field = Some (size_field rem) \<or> field = None \<and> size_field s = size_field rem"
      "ext = size_ext rem" for h' pos field ext b
  proof -
    have n: "length piece = rem" using pl that(1) by simp
    have "length (size_ext rem) \<le> length (size_ext s)" using that(1) by (simp add: length_size_ext)
    then have "h' + length piece \<le> 2 + length tls" using that(1,2) tls(1) n by simp
    moreover have "field = Some (size_field (length piece)) \<or> field = None \<and> x = size_byte (length piece) (?K \<noteq> None)"
      using that(4) K(3) unfolding n x_def size_byte_def by auto
    ultimately show ?thesis
      using put_piece_frame(1) [OF K(2), of h' piece tls "Some pos" field x ext b, unfolded K(1) n] that(2,3,5) kb' n
      by simp
  qed
  have b: "(f_buffer f)[0 := f_buffer f ! 0 XOR opcode_code (get_opcode f)] = [mid, x] @ tls"
    "([mid, x] @ tls)[0 := ([mid, x] @ tls) ! 0 OR 128] = [end_byte, x] @ tls"
    using first_byte_next [OF op] by (simp_all add: buf code mid_def end_byte_def)
  note get = split_piece_def [of key s rem masking piece f, unfolded Let_def b, folded h_def, folded own_def]
  have fin: "first_byte Continuation (rem \<le> s) r1 r2 r3 = (if rem \<le> s then end_byte else mid)"
    by (simp add: mid_def end_byte_def)
  consider "rem > s" | "rem = s" | "rem < s" "s \<le> 125" | "rem < s" "125 < s" "s \<le> 65535" "125 < rem"
    | "rem < s" "125 < s" "s \<le> 65535" "rem \<le> 125" | "rem < s" "65535 < s" "65535 < rem"
    | "rem < s" "65535 < s" "rem \<le> 65535" "125 < rem" | "rem < s" "65535 < s" "rem \<le> 125"
    by linarith
  then show ?thesis
  proof cases
    case 1
    then show ?thesis using same pl unfolding get fin by simp
  next
    case 2
    then show ?thesis using same pl unfolding get fin by simp
  qed (unfold get fin, use ends h in \<open>simp_all add: length_size_ext size_ext_def size_field_def\<close>)
qed

lemma split_get_next:
  assumes "g_frame g = frame_shape (first_byte op False r1 r2 r3) kb stored"
    and "op \<in> {Continuation, Text, Binary}" "length kb = (if g_masking g then 4 else 0)"
    and "length stored = g_step g" "0 < g_offset g" "g_offset g < length (g_buffer g)" "key \<noteq> 0"
    and "piece = take (g_step g) (drop (g_offset g) (g_buffer g))" "kb' = key_bytes (if g_masking g then key else 0)"
  shows "split_get key g = Some (True, g\<lparr>
    g_frame := frame_shape (first_byte Continuation (length (g_buffer g) - g_offset g \<le> g_step g) r1 r2 r3) kb'
      (mask_body kb' piece), g_offset := g_offset g + length piece\<rparr>)"
proof -
  have "length piece = min (g_step g) (length (g_buffer g) - g_offset g)" by (simp add: assms(8))
  from split_piece_shape [OF assms(1-3,7,4) this] show ?thesis
    using assms(5,6) by (simp add: split_get_def assms(8,9) Let_def del: length_take length_drop)
qed

lemma chunks_Nil [simp]: "chunks step [] = []"
  by (subst chunks.simps) simp

lemma chunks_step:
  "bs \<noteq> [] \<Longrightarrow> 0 < step \<Longrightarrow> chunks step bs = take step bs # chunks step (drop step bs)"
  by (subst chunks.simps) simp

lemma chunks_eq_Nil: "0 < step \<Longrightarrow> chunks step bs = [] \<longleftrightarrow> bs = []"
  by (subst chunks.simps) simp

section \<open>The whole run\<close>

lemma concat_chunks: "0 < step \<Longrightarrow> concat (chunks step bs) = bs"
proof (induction step bs rule: chunks.induct)
  case (1 step bs)
  then show ?case by (cases "bs = []") (simp_all add: chunks_step)
qed

lemma split_rest:
  assumes "g_frame g = frame_shape (first_byte op False (is_rsv1 f) (is_rsv2 f) (is_rsv3 f)) kb stored"
    and "op \<in> {Continuation, Text, Binary}" "length kb = (if g_masking g then 4 else 0)"
    and "length stored = g_step g" "0 < g_offset g" "g_offset g \<le> length (g_buffer g)" "0 < g_step g"
    and "0 \<notin> set ks" "length ks = length (chunks (g_step g) (drop (g_offset g) (g_buffer g)))"
  shows "\<exists>g'. split_run ks g =
      Some (piece_frames Continuation f (g_masking g) ks (chunks (g_step g) (drop (g_offset g) (g_buffer g))), g') \<and>
    g_offset g' = length (g_buffer g')"
  using assms
proof (induction ks arbitrary: g op kb stored)
  case Nil
  then have "chunks (g_step g) (drop (g_offset g) (g_buffer g)) = []" by simp
  then have "g_offset g = length (g_buffer g)" using Nil(6,7) chunks_eq_Nil by fastforce
  then show ?case by simp
next
  case (Cons k ks)
  define rest where "rest = drop (g_offset g) (g_buffer g)"
  define piece where "piece = take (g_step g) rest"
  define kb' where "kb' = key_bytes (if g_masking g then k else 0)"
  define fin where "fin \<longleftrightarrow> length (g_buffer g) - g_offset g \<le> g_step g"
  have rest: "rest \<noteq> []" using Cons.prems(9) by (auto simp: rest_def)
  then have off: "g_offset g < length (g_buffer g)" by (simp add: rest_def)
  have ch: "chunks (g_step g) rest = piece # chunks (g_step g) (drop (g_step g) rest)"
    unfolding piece_def using rest Cons.prems(7) by (rule chunks_step)
  have last: "chunks (g_step g) (drop (g_step g) rest) = [] \<longleftrightarrow> fin"
    using Cons.prems(7) by (auto simp: chunks_eq_Nil fin_def rest_def)
  let ?f = "frame_shape (first_byte Continuation fin (is_rsv1 f) (is_rsv2 f) (is_rsv3 f)) kb' (mask_body kb' piece)"
  let ?g = "g\<lparr>g_frame := ?f, g_offset := g_offset g + length piece\<rparr>"
  have get: "split_get k g = Some (True, ?g)"
    using split_get_next [OF Cons.prems(1-5) off, of k piece kb'] Cons.prems(8)
    by (simp add: piece_def rest_def kb'_def fin_def)
  have make: "frame_make piece Continuation (if g_masking g then k else 0) fin (is_rsv1 f) (is_rsv2 f) (is_rsv3 f) = ?f"
    by (simp add: frame_make_shape kb'_def)
  have "\<exists>g'. split_run ks ?g =
      Some (piece_frames Continuation f (g_masking g) ks (chunks (g_step g) (drop (g_step g) rest)), g') \<and>
    g_offset g' = length (g_buffer g')"
  proof (cases fin)
    case True
    then have "chunks (g_step g) (drop (g_step g) rest) = []" using last by simp
    moreover from this have "ks = []" using Cons.prems(9) ch by (simp add: rest_def)
    moreover have "g_offset g + length piece = length (g_buffer g)"
      using True off by (simp add: fin_def piece_def rest_def)
    ultimately show ?thesis by simp
  next
    case False
    have n: "length piece = g_step g" using False by (simp add: fin_def piece_def rest_def)
    have d: "drop (g_step g) rest = drop (g_offset ?g) (g_buffer ?g)"
      by (simp add: rest_def n add.commute)
    have k: "k \<noteq> 0" using Cons.prems(8) by auto
    have "g_frame ?g = frame_shape (first_byte Continuation False (is_rsv1 f) (is_rsv2 f) (is_rsv3 f)) kb' (mask_body kb' piece)"
      using False by simp
    moreover have "length kb' = (if g_masking ?g then 4 else 0)" using k by (simp add: kb'_def length_key_bytes)
    moreover have "length ks = length (chunks (g_step ?g) (drop (g_offset ?g) (g_buffer ?g)))"
      using Cons.prems(9) ch d by (simp add: rest_def)
    moreover have "g_offset ?g \<le> length (g_buffer ?g)" using False n by (simp add: fin_def)
    ultimately show ?thesis
      using Cons.IH [of ?g Continuation kb' "mask_body kb' piece"] Cons.prems(5,7,8) n d by simp
  qed
  then show ?case
    using get make ch last by (auto simp: rest_def)
qed

text \<open>
  C20: Splitting in place is splitting: the frames at the returns of the generator are the ones the
  constructor builds for the pieces of the payload, the first one with the opcode of the given frame,
  the others as continuations, the last one with the final flag, each masked with its own key; then
  the generator is at its end.
\<close>

theorem split_is_construction:
  assumes "get_opcode f \<in> {Text, Binary}" "4 \<le> length buffer"
    and "pieces = chunks (split_step (length buffer) step) buffer" "length ks = length pieces" "0 \<notin> set ks"
  shows "\<exists>g'. split_run ks (split_make f buffer step masking) = Some (piece_frames (get_opcode f) f masking ks pieces, g') \<and>
    split_get k g' = Some (False, g') \<and> concat pieces = buffer"
proof -
  define s where "s = split_step (length buffer) step"
  have s: "0 < s" "s < length buffer" using assms(2) by (auto simp: s_def split_step_def)
  define g where "g = split_make f buffer step masking"
  have g: "g = \<lparr>g_frame = f, g_buffer = buffer, g_step = s, g_offset = 0, g_masking = masking\<rparr>"
    using assms(1,2) by (auto simp: g_def split_make_def s_def split_step_def)
  define piece where "piece = take s buffer"
  have buffer: "buffer \<noteq> []" using assms(2) by auto
  have ch: "pieces = piece # chunks s (drop s buffer)"
    unfolding assms(3) s_def [symmetric] piece_def using buffer s(1) by (rule chunks_step)
  have rest: "chunks s (drop s buffer) \<noteq> []" using s by (simp add: chunks_eq_Nil)
  obtain k1 ks' where ks: "ks = k1 # ks'" "k1 \<noteq> 0" using assms(4,5) ch by (cases ks) auto
  define kb where "kb = key_bytes (if masking then k1 else 0)"
  let ?f = "frame_shape (first_byte (get_opcode f) False (is_rsv1 f) (is_rsv2 f) (is_rsv3 f)) kb (mask_body kb piece)"
  let ?g = "g\<lparr>g_frame := ?f, g_offset := s\<rparr>"
  have make: "frame_make piece (get_opcode f) (if masking then k1 else 0) False (is_rsv1 f) (is_rsv2 f) (is_rsv3 f) = ?f"
    unfolding kb_def by (rule frame_make_shape) (use assms(1) in auto)
  then have get: "split_get k1 g = Some (True, ?g)"
    using buffer by (simp add: split_get_def g piece_def Let_def)
  have "\<exists>g'. split_run ks' ?g =
      Some (piece_frames Continuation f (g_masking ?g) ks' (chunks (g_step ?g) (drop (g_offset ?g) (g_buffer ?g))), g') \<and>
    g_offset g' = length (g_buffer g')"
  proof (rule split_rest)
    show "g_frame ?g = ?f" by simp
    show "length kb = (if g_masking ?g then 4 else 0)" using ks(2) by (simp add: kb_def length_key_bytes g)
    show "length ks' = length (chunks (g_step ?g) (drop (g_offset ?g) (g_buffer ?g)))"
      using assms(4) ks(1) ch by (simp add: g)
  qed (use assms(1,5) ks s in \<open>auto simp: g piece_def\<close>)
  then obtain g' where g': "split_run ks' ?g = Some (piece_frames Continuation f masking ks' (chunks s (drop s buffer)), g')"
    "g_offset g' = length (g_buffer g')"
    by (auto simp: g)
  have "split_run ks g = Some (piece_frames (get_opcode f) f masking ks pieces, g')"
    using get g'(1) make rest by (simp add: ks(1) ch)
  moreover have "split_get k g' = Some (False, g')" using g'(2) by (simp add: split_get_def)
  moreover have "concat pieces = buffer" unfolding assms(3) s_def [symmetric] by (rule concat_chunks [OF s(1)])
  ultimately show ?thesis unfolding g_def by blast
qed

text \<open>Five bytes in steps of two: a start, a full continuation and a smaller end.\<close>

theorem split_is_construction_witness:
  "\<exists>g'. split_run [7, 8, 9] (split_make \<lparr>f_buffer = [2, 0], f_headerSize = 2\<rparr> [10, 11, 12, 13, 14] 2 False) =
     Some ([\<lparr>f_buffer = [2, 2, 10, 11], f_headerSize = 2\<rparr>, \<lparr>f_buffer = [0, 2, 12, 13], f_headerSize = 2\<rparr>,
            \<lparr>f_buffer = [128, 1, 14], f_headerSize = 2\<rparr>], g')"
proof -
  let ?f = "\<lparr>f_buffer = [2, 0], f_headerSize = 2\<rparr>"
  have f: "get_opcode ?f = Binary" "\<not> is_rsv1 ?f" "\<not> is_rsv2 ?f" "\<not> is_rsv3 ?f"
    by (simp_all add: get_opcode_def opcode_of_def is_rsv1_def is_rsv2_def is_rsv3_def)
  have ch: "chunks (split_step (length [10, 11, 12, 13, 14 :: byte]) 2) [10, 11, 12, 13, 14] = [[10, 11], [12, 13], [14]]"
    by (simp add: split_step_def chunks_step)
  show ?thesis
    using split_is_construction [of ?f "[10, 11, 12, 13, 14]" "[[10, 11], [12, 13], [14]]" 2 "[7, 8, 9]" False 1, OF _ _ ch [symmetric]] f
    by (auto simp: frame_make_def frame_with_def first_byte_def)
qed

end
