(* ===== verification/WebSocketHandler.thy ===== *)
theory WebSocketHandler
  imports WebSocketFrames Complex_Main
begin

text \<open>
  The handler of WebSocket messages, class \<open>IHandler\<close> of \<open>protocol/webSocket.inl\<close>: the store of
  unfinished messages with its limit, and \<open>Collect\<close>, which answers control frames, joins fragments
  and hands messages to the derived class.

  A \<open>FragmentedData*\<close> is the connection whose entry it points to; an access through it after the
  entry has been erased is \<open>None\<close>. The stored size is a \<open>double\<close> in MB that is only changed by multiples
  of a byte, 2^-20 MB, so it is exact below 2^53 bytes and stands here as the number of bytes. The
  limit is any number; the comparisons round the difference, and \<open>floats\<close> holds the rounding and the
  epsilon. The texts for the log are left out. The time of each \<open>Timer{}\<close> and the generated masking key
  are arguments. The spin lock is left out: an operation is one step, and the handler of the derived
  class does not call back into the object.
\<close>

section \<open>Comparison of floating-point numbers\<close>

record floats =
  fl_round :: "rat \<Rightarrow> rat"
  fl_epsilon :: rat

definition compare_floats :: "floats \<Rightarrow> rat \<Rightarrow> rat \<Rightarrow> int" where
  "compare_floats fl a b =
     (if \<bar>fl_round fl (a - b)\<bar> \<ge> fl_epsilon fl then (if a > b then 1 else 0) - (if a < b then 1 else 0) else 0)"

definition float_less :: "floats \<Rightarrow> rat \<Rightarrow> rat \<Rightarrow> bool" where
  "float_less fl a b \<longleftrightarrow> fl_round fl (b - a) > fl_epsilon fl"

definition float_greater :: "floats \<Rightarrow> rat \<Rightarrow> rat \<Rightarrow> bool" where
  "float_greater fl a b \<longleftrightarrow> fl_round fl (a - b) > fl_epsilon fl"

section \<open>The store\<close>

record fragmented_data =
  fd_data :: frame
  fd_connection :: int
  fd_timestamp :: timer

record handler =
  wh_size :: int
  wh_limit :: rat
  wh_store :: "int \<rightharpoonup> fragmented_data"
  wh_timers :: "(timer \<times> int) list"

definition handler_make :: handler where
  "handler_make = \<lparr>wh_size = 0, wh_limit = 10, wh_store = Map.empty, wh_timers = []\<rparr>"

definition maximum_header :: int where
  "maximum_header = 10"

text \<open>Bytes in MB.\<close>

definition megabytes :: "int \<Rightarrow> rat" where
  "megabytes n = of_int n / (1024 * 1024)"

definition stored_size :: "frame \<Rightarrow> int" where
  "stored_size f = int (unat (get_payload_size f)) + maximum_header"

definition exceeds :: "floats \<Rightarrow> int \<Rightarrow> handler \<Rightarrow> bool" where
  "exceeds fl n h \<longleftrightarrow> float_greater fl (megabytes n) (wh_limit h)"

text \<open>\<open>std::map::erase\<close>.\<close>

definition erase_timer :: "timer \<Rightarrow> (timer \<times> int) list \<Rightarrow> (timer \<times> int) list" where
  "erase_timer t es = filter (\<lambda>e. fst e \<noteq> t) es"

definition erase_connection :: "int \<Rightarrow> handler \<Rightarrow> handler" where
  "erase_connection c h = h\<lparr>wh_store := (wh_store h)(c := None)\<rparr>"

section \<open>Purging\<close>

fun purge_entries :: "floats \<Rightarrow> (timer \<times> int) list \<Rightarrow> handler \<Rightarrow> (bool \<times> handler) option" where
  "purge_entries fl [] h = Some (False, h\<lparr>wh_timers := []\<rparr>)"
| "purge_entries fl ((t, c) # es) h =
     (case wh_store h c of
        None \<Rightarrow> None
      | Some fd \<Rightarrow>
          (let h' = (erase_connection (fd_connection fd) h)
                 \<lparr>wh_size := wh_size h - stored_size (fd_data fd), wh_timers := es\<rparr>
           in if \<not> exceeds fl (wh_size h') h' then Some (True, h') else purge_entries fl es h'))"

definition purge_stored_data :: "floats \<Rightarrow> bool \<Rightarrow> handler \<Rightarrow> (bool \<times> handler) option" where
  "purge_stored_data fl checkBefore h =
     (if checkBefore \<and> \<not> exceeds fl (wh_size h) h then Some (True, h)
      else purge_entries fl (wh_timers h) h)"

section \<open>Limits\<close>

definition check_limits_for_stored ::
    "floats \<Rightarrow> int \<Rightarrow> int \<Rightarrow> handler \<Rightarrow> (bool \<times> handler) option" where
  "check_limits_for_stored fl additional c h =
     (case wh_store h c of
        None \<Rightarrow> None
      | Some fd \<Rightarrow>
          (let own = stored_size (fd_data fd) in
           if exceeds fl (additional + own) h then
             Some (False, (erase_connection c h)\<lparr>wh_size := wh_size h - own\<rparr>)
           else
             (let h1 = h\<lparr>wh_size := wh_size h + additional\<rparr> in
              if exceeds fl (wh_size h1) h1 then
                (case purge_stored_data fl False h1 of
                   None \<Rightarrow> None
                 | Some (True, h2) \<Rightarrow> Some (True, h2)
                 | Some (False, h2) \<Rightarrow>
                     Some (False, (erase_connection c h2)\<lparr>wh_size := wh_size h2 - (own + additional)\<rparr>))
              else Some (True, h1))))"

definition check_limit_for_new :: "floats \<Rightarrow> int \<Rightarrow> int \<Rightarrow> handler \<Rightarrow> (bool \<times> handler) option" where
  "check_limit_for_new fl additional c h =
     (if exceeds fl additional h then Some (False, h)
      else
        (let h1 = h\<lparr>wh_size := wh_size h + additional\<rparr> in
         if exceeds fl (wh_size h1) h1 then
           (case purge_stored_data fl False h1 of
              None \<Rightarrow> None
            | Some (True, h2) \<Rightarrow> Some (True, h2)
            | Some (False, h2) \<Rightarrow>
                Some (False, (erase_connection c h2)\<lparr>wh_size := wh_size h2 - additional\<rparr>))
         else Some (True, h1)))"

definition set_fragmented_data_limit :: "floats \<Rightarrow> rat \<Rightarrow> handler \<Rightarrow> (bool \<times> handler) option" where
  "set_fragmented_data_limit fl limit h =
     (if float_less fl limit 0 then Some (False, h)
      else
        (let ratio = compare_floats fl limit (wh_limit h); h1 = h\<lparr>wh_limit := limit\<rparr> in
         if ratio = 0 then Some (False, h)
         else if ratio < 0 then map_option (\<lambda>(_, h2). (True, h2)) (purge_stored_data fl True h1)
         else Some (True, h1)))"

definition ws_clear :: "handler \<Rightarrow> handler" where
  "ws_clear h = h\<lparr>wh_store := Map.empty, wh_timers := [], wh_size := 0\<rparr>"

definition clear_connection :: "int \<Rightarrow> handler \<Rightarrow> handler" where
  "clear_connection c h =
     (case wh_store h c of
        None \<Rightarrow> h
      | Some fd \<Rightarrow>
          (erase_connection c h)
            \<lparr>wh_size := wh_size h - stored_size (fd_data fd),
             wh_timers := erase_timer (fd_timestamp fd) (wh_timers h)\<rparr>)"

section \<open>Collect\<close>

text \<open>What the caller sees: a call of a handler of the derived class, or a frame that is sent.\<close>

datatype ws_effect = WsNone | WsMessage frame | WsPong frame | WsSend frame

definition set_first :: "byte \<Rightarrow> frame \<Rightarrow> frame" where
  "set_first b f = f\<lparr>f_buffer := (f_buffer f)[0 := b]\<rparr>"

definition collect_continuation ::
    "floats \<Rightarrow> timer \<Rightarrow> int \<Rightarrow> frame \<Rightarrow> handler \<Rightarrow> (handler \<times> ws_effect) option" where
  "collect_continuation fl now c f h =
     (case wh_store h c of
        None \<Rightarrow> Some (h, WsNone)
      | Some fd \<Rightarrow>
          (let h1 = h\<lparr>wh_timers := erase_timer (fd_timestamp fd) (wh_timers h)\<rparr> in
           case check_limits_for_stored fl (int (unat (get_payload_size f))) c h1 of
             None \<Rightarrow> None
           | Some (False, h2) \<Rightarrow> Some (h2, WsNone)
           | Some (True, h2) \<Rightarrow>
               (case wh_store h2 c of
                  None \<Rightarrow> None
                | Some fd2 \<Rightarrow>
                    (case merge_payload (fd_data fd2) f of
                       None \<Rightarrow> None
                     | Some g \<Rightarrow>
                         (if is_final f then
                            (let m = set_first (f_buffer g ! 0 OR 128) g in
                             Some ((erase_connection c h2)\<lparr>wh_size := wh_size h2 - stored_size m\<rparr>, WsMessage m))
                          else
                            Some (h2\<lparr>wh_store := (wh_store h2)(c \<mapsto> fd2\<lparr>fd_data := g, fd_timestamp := now\<rparr>),
                                     wh_timers := ordered_emplace now c (wh_timers h2)\<rparr>, WsNone))))))"

definition collect_initial ::
    "floats \<Rightarrow> timer \<Rightarrow> int \<Rightarrow> frame \<Rightarrow> handler \<Rightarrow> (handler \<times> ws_effect) option" where
  "collect_initial fl now c f h =
     (case check_limit_for_new fl (stored_size f) c h of
        None \<Rightarrow> None
      | Some (False, h1) \<Rightarrow> Some (h1, WsNone)
      | Some (True, h1) \<Rightarrow>
          (case wh_store h1 c of
             Some fd \<Rightarrow>
               Some (h1\<lparr>wh_size := wh_size h1 - stored_size (fd_data fd),
                        wh_store := (wh_store h1)(c \<mapsto> fd\<lparr>fd_data := f, fd_timestamp := now\<rparr>),
                        wh_timers := ordered_emplace now c (erase_timer (fd_timestamp fd) (wh_timers h1))\<rparr>, WsNone)
           | None \<Rightarrow>
               Some (h1\<lparr>wh_store := (wh_store h1)(c \<mapsto> \<lparr>fd_data = f, fd_connection = c, fd_timestamp = now\<rparr>),
                        wh_timers := ordered_emplace now c (wh_timers h1)\<rparr>, WsNone)))"

definition ws_collect ::
    "floats \<Rightarrow> bool \<Rightarrow> timer \<Rightarrow> u32 \<Rightarrow> int \<Rightarrow> frame \<Rightarrow> handler \<Rightarrow> (handler \<times> ws_effect) option" where
  "ws_collect fl running now key c f h =
     (if \<not> running \<or> \<not> is_valid f then Some (h, WsNone)
      else
        (case get_opcode f of
           Continuation \<Rightarrow> collect_continuation fl now c f h
         | Text \<Rightarrow> (if is_final f then Some (h, WsMessage f) else collect_initial fl now c f h)
         | Binary \<Rightarrow> (if is_final f then Some (h, WsMessage f) else collect_initial fl now c f h)
         | Close \<Rightarrow>
             (if is_rsv3 f then Some (h, WsNone)
              else map_option (\<lambda>g. (h, WsSend g)) (reverse_masking key (set_first (f_buffer f ! 0 OR 16) f)))
         | Ping \<Rightarrow>
             map_option (\<lambda>g. (h, WsSend g))
               (reverse_masking key (set_first ((f_buffer f ! 0 XOR 9) OR 10) f))
         | Pong \<Rightarrow> Some (h, WsPong f)
         | OtherOpcode _ \<Rightarrow> Some (h, WsNone)))"

end
