(* ===== verification/WebSocketHandlerSpec.thy ===== *)
theory WebSocketHandlerSpec
  imports WebSocketHandler WebSocketFramesSpec
begin

text \<open>
  The store of unfinished WebSocket messages: the stored size is the sum over the entries, the map of
  times points to exactly the entries, nothing is read after it has been erased, and the limit holds
  after every operation; and the fragments of a message are joined in order.
\<close>

section \<open>The invariant\<close>

text \<open>Rounding to the nearest is monotone.\<close>

definition floats_ok :: "floats \<Rightarrow> bool" where
  "floats_ok fl \<longleftrightarrow> (\<forall>a b. a \<le> b \<longrightarrow> fl_round fl a \<le> fl_round fl b) \<and>
     fl_round fl 0 = 0 \<and> 0 < fl_epsilon fl"

definition stored_total :: "(int \<rightharpoonup> fragmented_data) \<Rightarrow> int" where
  "stored_total st = (\<Sum>c\<in>dom st. stored_size (fd_data (the (st c))))"

text \<open>The entries the map of times must have, \<open>X\<close> taken out.\<close>

definition ws_entries :: "(int \<rightharpoonup> fragmented_data) \<Rightarrow> int set \<Rightarrow> (timer \<times> int) set" where
  "ws_entries st X = {(fd_timestamp fd, c) | c fd. st c = Some fd \<and> c \<notin> X}"

text \<open>
  The connections of \<open>X\<close> have been taken out of the map of times, and the size counts \<open>extra\<close> bytes
  that are not in the store yet.
\<close>

definition ws_core :: "int set \<Rightarrow> int \<Rightarrow> timer \<Rightarrow> handler \<Rightarrow> bool" where
  "ws_core X extra t h \<longleftrightarrow>
     finite (dom (wh_store h)) \<and> wh_size h = stored_total (wh_store h) + extra \<and>
     (\<forall>c fd. wh_store h c = Some fd \<longrightarrow> fd_connection fd = c \<and> is_valid (fd_data fd) \<and>
       length (f_buffer (fd_data fd)) < size_t_bound) \<and>
     set (wh_timers h) = ws_entries (wh_store h) X \<and>
     sorted_wrt (<) (map fst (wh_timers h)) \<and> (\<forall>e \<in> set (wh_timers h). fst e \<le> t)"

definition ws_inv :: "floats \<Rightarrow> timer \<Rightarrow> handler \<Rightarrow> bool" where
  "ws_inv fl t h \<longleftrightarrow> ws_core {} 0 t h \<and> \<not> exceeds fl (wh_size h) h \<and> \<not> exceeds fl 0 h"

lemma exceeds_mono:
  assumes "floats_ok fl" "exceeds fl n h" "n \<le> m" "wh_limit h' \<le> wh_limit h"
  shows "exceeds fl m h'"
proof -
  have "megabytes n - wh_limit h \<le> megabytes m - wh_limit h'"
    using assms(3,4) by (simp add: megabytes_def divide_right_mono diff_mono)
  then have "fl_round fl (megabytes n - wh_limit h) \<le> fl_round fl (megabytes m - wh_limit h')"
    using assms(1) by (simp add: floats_ok_def)
  then show ?thesis using assms(2) by (simp add: exceeds_def float_greater_def)
qed

lemma stored_size_pos: "0 < stored_size f"
  unfolding stored_size_def maximum_header_def by (rule add_nonneg_pos) simp_all

lemma total_remove:
  "finite (dom st) \<Longrightarrow> st c = Some fd \<Longrightarrow> stored_total (st(c := None)) = stored_total st - stored_size (fd_data fd)"
  unfolding stored_total_def by (subst sum.remove [of "dom st" c]) (auto intro!: sum.cong)

lemma total_update:
  assumes "finite (dom st)"
  shows "stored_total (st(c \<mapsto> fd)) = stored_total (st(c := None)) + stored_size (fd_data fd)"
proof -
  have "(\<Sum>x\<in>dom st - {c}. stored_size (fd_data (the ((st(c \<mapsto> fd)) x)))) =
      (\<Sum>x\<in>dom st - {c}. stored_size (fd_data (the ((st(c := None)) x))))"
    by (rule sum.cong) auto
  then show ?thesis using assms by (simp add: stored_total_def sum.insert_remove)
qed

lemma total_nonneg: "0 \<le> stored_total st"
  unfolding stored_total_def by (intro sum_nonneg) (simp add: less_imp_le [OF stored_size_pos])

lemma total_ge: "finite (dom st) \<Longrightarrow> st c = Some fd \<Longrightarrow> stored_size (fd_data fd) \<le> stored_total st"
  using total_remove [of st c fd] total_nonneg [of "st(c := None)"] by simp

lemma total_only:
  assumes "dom st \<subseteq> {c}"
  shows "stored_total st = (case st c of None \<Rightarrow> 0 | Some fd \<Rightarrow> stored_size (fd_data fd))"
proof (cases "st c")
  case None
  then have "dom st = {}" using assms by auto
  then show ?thesis using None by (simp add: stored_total_def)
next
  case (Some fd)
  then have "dom st = {c}" using assms by auto
  then show ?thesis using Some by (simp add: stored_total_def)
qed

lemma entries_iff: "(u, c) \<in> ws_entries st X \<longleftrightarrow> (\<exists>fd. st c = Some fd \<and> fd_timestamp fd = u \<and> c \<notin> X)"
  by (auto simp: ws_entries_def)

lemma entries_remove: "ws_entries (st(c := None)) X = {e \<in> ws_entries st X. snd e \<noteq> c}"
  by (auto simp: ws_entries_def split: if_splits)

lemma entries_update:
  "ws_entries (st(c \<mapsto> fd)) X =
    (if c \<in> X then {} else {(fd_timestamp fd, c)}) \<union> {e \<in> ws_entries st X. snd e \<noteq> c}"
  by (auto simp: ws_entries_def split: if_splits)

lemma entries_exempt: "ws_entries st (insert c X) = {e \<in> ws_entries st X. snd e \<noteq> c}"
  by (auto simp: ws_entries_def)

lemma entry_of:
  "e \<in> ws_entries st X \<Longrightarrow> snd e = c \<Longrightarrow> st c = Some fd \<Longrightarrow> e = (fd_timestamp fd, c)"
  by (auto simp: ws_entries_def)

lemma sorted_keys_unique:
  "sorted_wrt (<) (map fst es) \<Longrightarrow> (u, c) \<in> set es \<Longrightarrow> (u, d) \<in> set es \<Longrightarrow> c = (d :: 'b)" for u :: "'a::order"
proof (induction es)
  case (Cons e es)
  then show ?case by (auto dest: less_imp_neq)
qed simp

lemma erase_timer_entries:
  assumes "set es = ws_entries st X" "sorted_wrt (<) (map fst es)" "st c = Some fd" "c \<notin> X"
  shows "set (erase_timer (fd_timestamp fd) es) = {e \<in> ws_entries st X. snd e \<noteq> c}"
proof -
  have "(fd_timestamp fd, c) \<in> set es" using assms(1,3,4) by (simp add: entries_iff)
  then have "fst e = fd_timestamp fd \<longleftrightarrow> snd e = c" if "e \<in> set es" for e
    using that sorted_keys_unique [OF assms(2)] entry_of [of e st X c fd] assms(1,3)
    by (metis fst_conv prod.collapse)
  then show ?thesis using assms(1) by (auto simp: erase_timer_def)
qed

section \<open>Purging\<close>

lemma sorted_filter_keys: "sorted_wrt R (map fst es) \<Longrightarrow> sorted_wrt R (map fst (filter P es))"
  by (induction es) auto

text \<open>
  A purge follows only pointers to entries that are there; it keeps the entries of \<open>X\<close>, and when it
  does not make enough room, nothing else is left.
\<close>

lemma purge_entries_core:
  assumes "ws_core X extra t h" "wh_timers h = es" "exceeds fl (wh_size h) h"
  shows "\<exists>r h'. purge_entries fl es h = Some (r, h') \<and> ws_core X extra t h' \<and> wh_limit h' = wh_limit h \<and>
    (\<forall>c \<in> X. wh_store h' c = wh_store h c) \<and> wh_store h' \<subseteq>\<^sub>m wh_store h \<and>
    (r \<longrightarrow> \<not> exceeds fl (wh_size h') h') \<and> (\<not> r \<longrightarrow> dom (wh_store h') \<subseteq> X \<and> exceeds fl (wh_size h') h')"
  using assms
proof (induction es arbitrary: h)
  case Nil
  then have "dom (wh_store h) \<subseteq> X" by (auto simp: ws_core_def ws_entries_def)
  moreover have "h\<lparr>wh_timers := []\<rparr> = h" using Nil(2) by (cases h) simp
  ultimately show ?case using Nil(1,3) by (intro exI [of _ False] exI [of _ h]) simp
next
  case (Cons e es)
  obtain u c where e: "e = (u, c)" by (cases e)
  note core = Cons.prems(1) [unfolded ws_core_def]
  have "(u, c) \<in> set (wh_timers h)" using Cons.prems(2) e by simp
  then obtain fd where fd: "wh_store h c = Some fd" "fd_timestamp fd = u" "c \<notin> X"
    using core by (auto simp: entries_iff)
  then have c: "fd_connection fd = c" using core by blast
  define h' where "h' = (erase_connection c h)\<lparr>wh_size := wh_size h - stored_size (fd_data fd), wh_timers := es\<rparr>"
  have h': "wh_store h' = (wh_store h)(c := None)" "wh_size h' = wh_size h - stored_size (fd_data fd)"
    "wh_timers h' = es" "wh_limit h' = wh_limit h"
    by (simp_all add: h'_def erase_connection_def)
  have sorted: "sorted_wrt (<) (map fst es)" "\<forall>x \<in> set es. u < fst x"
    using core Cons.prems(2) e by auto
  have "set es = ws_entries (wh_store h') X"
  proof -
    have "set es = set (erase_timer u (wh_timers h))"
      using Cons.prems(2) e sorted(2) by (auto simp: erase_timer_def)
    then show ?thesis
      using erase_timer_entries [of "wh_timers h" "wh_store h" X c fd] core fd by (simp add: h'(1) entries_remove)
  qed
  moreover have "finite (dom (wh_store h'))" using core by (simp add: h'(1))
  moreover have "wh_size h' = stored_total (wh_store h') + extra"
    using core total_remove [of "wh_store h" c fd] fd(1) by (simp add: h'(1,2))
  ultimately have core': "ws_core X extra t h'"
    using core sorted(1) Cons.prems(2) by (auto simp: ws_core_def h' e)
  have keep: "\<forall>c' \<in> X. wh_store h' c' = wh_store h c'" "wh_store h' \<subseteq>\<^sub>m wh_store h"
    using fd(3) by (auto simp: h'(1) map_le_def)
  have step: "purge_entries fl (e # es) h = (if \<not> exceeds fl (wh_size h') h' then Some (True, h') else purge_entries fl es h')"
    by (simp add: e fd(1) c Let_def flip: h'_def)
  show ?case
  proof (cases "exceeds fl (wh_size h') h'")
    case False
    then show ?thesis using step core' keep h'(4) by auto
  next
    case True
    from Cons.IH [OF core' h'(3) True] show ?thesis
      using step keep h'(4) True by (auto intro: map_le_trans)
  qed
qed

section \<open>Limits\<close>

lemma exceeds_cong: "wh_limit h' = wh_limit h \<Longrightarrow> exceeds fl n h' = exceeds fl n h"
  by (simp add: exceeds_def)

lemma core_size: "ws_core X extra t h \<Longrightarrow> ws_core X (extra + n) t (h\<lparr>wh_size := wh_size h + n\<rparr>)"
  by (simp add: ws_core_def)

lemma purge_ready:
  assumes "ws_core X extra t h" "exceeds fl (wh_size h) h"
  obtains r h' where "purge_stored_data fl False h = Some (r, h')" "ws_core X extra t h'" "wh_limit h' = wh_limit h"
    "\<forall>c \<in> X. wh_store h' c = wh_store h c" "wh_store h' \<subseteq>\<^sub>m wh_store h"
    "r \<Longrightarrow> \<not> exceeds fl (wh_size h') h'" "\<not> r \<Longrightarrow> dom (wh_store h') \<subseteq> X \<and> exceeds fl (wh_size h') h'"
  using purge_entries_core [OF assms(1) refl assms(2)] by (auto simp: purge_stored_data_def)

text \<open>
  A first fragment that fits the limit by itself is always taken: the branch of \<open>CheckLimitForNew\<close>
  after a purge that did not help is never reached.
\<close>

lemma check_limit_for_new_inv:
  assumes "ws_inv fl t h"
  shows "(exceeds fl n h \<and> check_limit_for_new fl n c h = Some (False, h)) \<or>
    (\<exists>h'. check_limit_for_new fl n c h = Some (True, h') \<and> ws_core {} n t h' \<and> wh_limit h' = wh_limit h \<and>
      wh_store h' \<subseteq>\<^sub>m wh_store h \<and> \<not> exceeds fl (wh_size h') h')"
proof (cases "exceeds fl n h")
  case True
  then show ?thesis by (simp add: check_limit_for_new_def)
next
  case False
  let ?h1 = "h\<lparr>wh_size := wh_size h + n\<rparr>"
  have core: "ws_core {} n t ?h1" using core_size [of "{}" 0 t h n] assms by (simp add: ws_inv_def)
  show ?thesis
  proof (cases "exceeds fl (wh_size ?h1) ?h1")
    case over: True
    obtain r h' where p: "purge_stored_data fl False ?h1 = Some (r, h')" "ws_core {} n t h'" "wh_limit h' = wh_limit ?h1"
      "\<forall>c \<in> {}. wh_store h' c = wh_store ?h1 c" "wh_store h' \<subseteq>\<^sub>m wh_store ?h1"
      "r \<Longrightarrow> \<not> exceeds fl (wh_size h') h'" "\<not> r \<Longrightarrow> dom (wh_store h') \<subseteq> {} \<and> exceeds fl (wh_size h') h'"
      by (rule purge_ready [OF core over]) blast
    have r
    proof (rule ccontr)
      assume "\<not> r"
      from p(7) [OF this] have "wh_size h' = n" "exceeds fl (wh_size h') h'"
        using p(2) by (auto simp: ws_core_def stored_total_def)
      then show False using False p(3) exceeds_cong [of h' h] by simp
    qed
    then show ?thesis using p False over by (simp add: check_limit_for_new_def Let_def)
  next
    case under: False
    then show ?thesis using core False by (simp add: check_limit_for_new_def Let_def)
  qed
qed

lemma core_exempt_erase:
  assumes "ws_core {c} extra t h" "wh_store h c = Some fd"
  shows "ws_core {} extra t ((erase_connection c h)\<lparr>wh_size := wh_size h - stored_size (fd_data fd)\<rparr>)"
proof -
  have "ws_entries ((wh_store h)(c := None)) {} = ws_entries (wh_store h) {c}"
    by (simp add: entries_remove entries_exempt)
  then show ?thesis
    using assms total_remove [of "wh_store h" c fd] by (auto simp: ws_core_def erase_connection_def)
qed

lemma check_limits_for_stored_inv:
  assumes "floats_ok fl" "ws_core {c} 0 t h" "\<not> exceeds fl (wh_size h) h" "wh_store h c = Some fd" "0 \<le> n"
  shows "(\<exists>h'. check_limits_for_stored fl n c h = Some (False, h') \<and> ws_core {} 0 t h' \<and>
      exceeds fl (n + stored_size (fd_data fd)) h \<and> \<not> exceeds fl (wh_size h') h' \<and> wh_limit h' = wh_limit h \<and>
      wh_store h' = (wh_store h)(c := None)) \<or>
    (\<exists>h'. check_limits_for_stored fl n c h = Some (True, h') \<and> ws_core {c} n t h' \<and>
      wh_store h' c = Some fd \<and> wh_limit h' = wh_limit h \<and> wh_store h' \<subseteq>\<^sub>m wh_store h \<and> \<not> exceeds fl (wh_size h') h')"
proof (cases "exceeds fl (n + stored_size (fd_data fd)) h")
  case True
  let ?h = "(erase_connection c h)\<lparr>wh_size := wh_size h - stored_size (fd_data fd)\<rparr>"
  have "exceeds fl (wh_size ?h) ?h \<Longrightarrow> exceeds fl (wh_size h) h"
    by (erule exceeds_mono [OF assms(1)])
      (use less_imp_le [OF stored_size_pos] in \<open>simp_all add: erase_connection_def\<close>)
  then show ?thesis
    using True assms core_exempt_erase [OF assms(2,4)]
    by (intro disjI1 exI [of _ ?h]) (auto simp: check_limits_for_stored_def erase_connection_def)
next
  case False
  let ?h1 = "h\<lparr>wh_size := wh_size h + n\<rparr>"
  have core: "ws_core {c} n t ?h1" using core_size [of "{c}" 0 t h n] assms(2) by simp
  show ?thesis
  proof (cases "exceeds fl (wh_size ?h1) ?h1")
    case over: True
    obtain r h' where p: "purge_stored_data fl False ?h1 = Some (r, h')" "ws_core {c} n t h'" "wh_limit h' = wh_limit ?h1"
      "\<forall>c \<in> {c}. wh_store h' c = wh_store ?h1 c" "wh_store h' \<subseteq>\<^sub>m wh_store ?h1"
      "r \<Longrightarrow> \<not> exceeds fl (wh_size h') h'" "\<not> r \<Longrightarrow> dom (wh_store h') \<subseteq> {c} \<and> exceeds fl (wh_size h') h'"
      by (rule purge_ready [OF core over]) blast
    have st: "wh_store h' c = Some fd" using p(4) assms(4) by simp
    have r
    proof (rule ccontr)
      assume "\<not> r"
      from p(7) [OF this] have "wh_size h' = stored_size (fd_data fd) + n" "exceeds fl (wh_size h') h'"
        using p(2) total_only [of "wh_store h'" c] st by (auto simp: ws_core_def)
      then show False using False p(3) exceeds_cong [of h' h] by (simp add: add.commute)
    qed
    then show ?thesis using p st False over assms(4) by (simp add: check_limits_for_stored_def Let_def)
  next
    case under: False
    then show ?thesis using core False assms(4) by (simp add: check_limits_for_stored_def Let_def)
  qed
qed

section \<open>Fragments\<close>

definition payload_length :: "frame \<Rightarrow> int" where
  "payload_length f = int (length (get_payload f))"

lemma stored_size_valid:
  "is_valid f \<Longrightarrow> length (f_buffer f) < size_t_bound \<Longrightarrow> stored_size f = payload_length f + 10"
  by (simp add: stored_size_def payload_size_nat payload_length_def maximum_header_def)

lemma core_later: "ws_core X extra t h \<Longrightarrow> t \<le> now \<Longrightarrow> ws_core X extra now h"
  unfolding ws_core_def by (meson order_trans)

lemma core_take_out:
  assumes "ws_core {} extra t h" "wh_store h c = Some fd"
  shows "ws_core {c} extra t (h\<lparr>wh_timers := erase_timer (fd_timestamp fd) (wh_timers h)\<rparr>)"
proof -
  have "set (erase_timer (fd_timestamp fd) (wh_timers h)) = ws_entries (wh_store h) {c}"
    using erase_timer_entries [of "wh_timers h" "wh_store h" "{}" c fd] assms by (simp add: ws_core_def entries_exempt)
  then show ?thesis
    using assms(1) by (auto simp: ws_core_def erase_timer_def intro: sorted_filter_keys)
qed

text \<open>An entry is written and its time is put behind all others.\<close>

lemma core_put:
  assumes "ws_core X extra t h" "t < now" "X \<subseteq> {c}" "X = {} \<longrightarrow> wh_store h c = None"
    and "fd_connection fd = c" "is_valid (fd_data fd)" "length (f_buffer (fd_data fd)) < size_t_bound"
    and "fd_timestamp fd = now"
    and "wh_size h' = stored_total ((wh_store h)(c := None)) + stored_size (fd_data fd)"
    and "wh_store h' = (wh_store h)(c \<mapsto> fd)" "wh_timers h' = ordered_emplace now c (wh_timers h)"
  shows "ws_core {} 0 now h'"
proof -
  note core = assms(1) [unfolded ws_core_def]
  have late: "\<forall>e \<in> set (wh_timers h). fst e < now" using core assms(2) by (meson le_less_trans)
  then have em: "wh_timers h' = wh_timers h @ [(now, c)]"
    unfolding assms(11) by (intro ordered_emplace_last) auto
  have "ws_entries (wh_store h) X = {e \<in> ws_entries (wh_store h) {}. snd e \<noteq> c}"
    using assms(3,4) by (auto simp: ws_entries_def)
  then have "set (wh_timers h') = ws_entries (wh_store h') {}"
    using core assms(8,10) by (simp add: em entries_update)
  moreover have "sorted_wrt (<) (map fst (wh_timers h'))"
    unfolding assms(11) using core by (intro sorted_ordered_emplace) simp
  moreover have "\<forall>e \<in> set (wh_timers h'). fst e \<le> now"
    using late by (auto simp: em less_imp_le)
  ultimately show ?thesis
    using core assms(5-10) total_update [of "wh_store h" c fd] by (auto simp: ws_core_def)
qed

lemma entry_bound:
  assumes "ws_core X extra t h" "wh_store h c = Some fd"
  shows "payload_length (fd_data fd) + 10 + extra \<le> wh_size h"
    "int (length (f_buffer (fd_data fd))) \<le> wh_size h + 4 - extra"
proof -
  have v: "is_valid (fd_data fd)" "length (f_buffer (fd_data fd)) < size_t_bound"
    using assms by (auto simp: ws_core_def)
  have "stored_size (fd_data fd) \<le> stored_total (wh_store h)"
    using assms by (intro total_ge) (simp_all add: ws_core_def)
  then show "payload_length (fd_data fd) + 10 + extra \<le> wh_size h"
    using assms(1) stored_size_valid [OF v] by (simp add: ws_core_def)
  then show "int (length (f_buffer (fd_data fd))) \<le> wh_size h + 4 - extra"
    using payload_size_nat(3) [OF v] by (simp add: payload_length_def)
qed

text \<open>
  What a fragment does to its entry: the entry is dropped when it cannot fit, or the payload is
  appended to it; then it is stored with the time of now, or handed over.
\<close>

definition joined :: "frame \<Rightarrow> frame \<Rightarrow> frame \<Rightarrow> bool" where
  "joined f g m \<longleftrightarrow> is_valid m \<and> length (f_buffer m) < size_t_bound \<and>
     get_payload m = get_payload f @ get_payload g \<and> get_opcode m = get_opcode f"

lemma set_first_parts:
  assumes "frame_parts m b0 x e kb p"
  shows "frame_parts (set_first b m) b x e kb p"
proof -
  have "set_first b m = \<lparr>f_buffer = [b, x] @ e @ kb @ p, f_headerSize = 2 + length e + length kb\<rparr>"
    using assms by (simp add: frame_parts_def set_first_def)
  then show ?thesis using assms by (simp add: frame_parts_def)
qed

lemma set_final_joined:
  assumes "joined f g m" "m' = set_first (f_buffer m ! 0 OR 128) m"
  shows "joined f g m'" "is_final m'" "stored_size m' = stored_size m"
proof -
  obtain b0 x e kb p where m: "frame_parts m b0 x e kb p"
    using valid_parts [of m] assms(1) by (auto simp: joined_def)
  then have "m' = set_first (b0 OR 128) m" by (simp add: assms(2) parts_fields(1) [OF m])
  then have m': "frame_parts m' (b0 OR 128) x e kb p" using set_first_parts [OF m] by simp
  have op: "(b0 OR 128) AND 15 = b0 AND (15 :: byte)"
    by (simp add: bit.conj_disj_distrib2)
  note mm = parts_fields [OF m] parts_fields [OF m']
  have len: "length (f_buffer m) < size_t_bound" using assms(1) by (simp add: joined_def)
  then have p: "length p < size_t_bound" by (simp add: mm)
  show "joined f g m'"
    using assms(1) len parts_valid [OF m p] parts_valid [OF m' p] by (auto simp: joined_def mm op)
  show "is_final m'" by (simp add: is_final_def mm bit_or_iff)
  show "stored_size m' = stored_size m" by (simp add: stored_size_def mm)
qed

lemma merge_joined:
  assumes "is_valid f" "is_valid g" "length (f_buffer f) + length (f_buffer g) + 28 < size_t_bound"
  obtains m where "merge_payload f g = Some m" "joined f g m"
    "stored_size m = stored_size f + int (unat (get_payload_size g))"
proof -
  obtain m where m: "merge_payload f g = Some m" "is_valid m" "get_payload m = get_payload f @ get_payload g"
    "get_opcode m = get_opcode f" "length (f_buffer m) \<le> 14 + length (get_payload f) + length (get_payload g)"
    using merge_valid [OF assms(1,2)] assms(3) by auto
  have b: "length (f_buffer f) < size_t_bound" "length (f_buffer g) < size_t_bound" using assms(3) by simp_all
  note f = payload_size_nat [OF assms(1) b(1)] and g = payload_size_nat [OF assms(2) b(2)]
  have len: "length (f_buffer m) < size_t_bound" using m(5) f(2) g(2) assms(3) by simp
  have "stored_size m = stored_size f + int (unat (get_payload_size g))"
    unfolding stored_size_def payload_size_nat(1) [OF m(2) len] f(1) g(1) m(3) by simp
  moreover have "joined f g m" using m len by (simp add: joined_def)
  ultimately show thesis using m(1) that by blast
qed

text \<open>A continuation: nothing stored, dropped with its entry, handed over, or stored.\<close>

lemma collect_continuation_inv:
  assumes "floats_ok fl" "ws_inv fl t h" "t < now" "is_valid f"
    and "wh_size h + int (length (f_buffer f)) + 32 < int size_t_bound"
  shows "\<exists>h' eff. collect_continuation fl now c f h = Some (h', eff) \<and> ws_inv fl now h' \<and> wh_limit h' = wh_limit h \<and>
    (case wh_store h c of
       None \<Rightarrow> h' = h \<and> eff = WsNone
     | Some fd \<Rightarrow>
         (if exceeds fl (int (unat (get_payload_size f)) + stored_size (fd_data fd)) h then wh_store h' c = None \<and> eff = WsNone
          else if is_final f then wh_store h' c = None \<and> (\<exists>m. eff = WsMessage m \<and> joined (fd_data fd) f m \<and> is_final m)
          else eff = WsNone \<and> (\<exists>m. wh_store h' c = Some (fd\<lparr>fd_data := m, fd_timestamp := now\<rparr>) \<and> joined (fd_data fd) f m)))"
proof (cases "wh_store h c")
  case None
  then show ?thesis
    using assms(2,3) core_later [of "{}" 0 t h now] by (simp add: collect_continuation_def ws_inv_def)
next
  case (Some fd)
  define n where n_def: "n = int (unat (get_payload_size f))"
  define h1 where "h1 = h\<lparr>wh_timers := erase_timer (fd_timestamp fd) (wh_timers h)\<rparr>"
  have h1: "wh_size h1 = wh_size h" "wh_limit h1 = wh_limit h" "wh_store h1 = wh_store h" by (simp_all add: h1_def)
  have core: "ws_core {} 0 t h" and lim: "\<not> exceeds fl (wh_size h) h" "\<not> exceeds fl 0 h"
    using assms(2) by (simp_all add: ws_inv_def)
  have core1: "ws_core {c} 0 t h1" unfolding h1_def using core Some by (rule core_take_out)
  have fd: "fd_connection fd = c" "is_valid (fd_data fd)" "length (f_buffer (fd_data fd)) < size_t_bound"
    using core Some by (auto simp: ws_core_def)
  have lim1: "\<not> exceeds fl (wh_size h1) h1" using lim(1) h1 exceeds_cong [of h1 h] by simp
  have st1: "wh_store h1 c = Some fd" using Some h1 by simp
  have ex: "exceeds fl z h1 = exceeds fl z h" for z by (rule exceeds_cong [OF h1(2)])
  note cases = check_limits_for_stored_inv [OF assms(1) core1 lim1 st1, of n]
  note get = collect_continuation_def [of fl now c f h, unfolded Some option.case Let_def, folded n_def h1_def]
  have "\<exists>h' eff. collect_continuation fl now c f h = Some (h', eff) \<and> ws_inv fl now h' \<and> wh_limit h' = wh_limit h \<and>
      (if exceeds fl (n + stored_size (fd_data fd)) h then wh_store h' c = None \<and> eff = WsNone
       else if is_final f then wh_store h' c = None \<and> (\<exists>m. eff = WsMessage m \<and> joined (fd_data fd) f m \<and> is_final m)
       else eff = WsNone \<and> (\<exists>m. wh_store h' c = Some (fd\<lparr>fd_data := m, fd_timestamp := now\<rparr>) \<and> joined (fd_data fd) f m))"
    (is ?result)
  proof (cases "exceeds fl (n + stored_size (fd_data fd)) h")
    case True
    then have c: "check_limits_for_stored fl n c h1 = Some (False, (erase_connection c h1)\<lparr>wh_size := wh_size h1 - stored_size (fd_data fd)\<rparr>)"
      using st1 ex by (simp add: check_limits_for_stored_def)
    then obtain h' where h': "check_limits_for_stored fl n c h1 = Some (False, h')" "ws_core {} 0 t h'"
      "\<not> exceeds fl (wh_size h') h'" "wh_limit h' = wh_limit h1" "wh_store h' = (wh_store h1)(c := None)"
      using cases by (auto simp: n_def)
    then have "ws_inv fl now h'"
      using core_later [OF h'(2)] assms(3) lim(2) exceeds_cong [of h' h] h1(2) by (simp add: ws_inv_def)
    then show ?result
      using h' True by (simp add: get h1(2,3))
  next
    case False
    then obtain h2 where h2: "check_limits_for_stored fl n c h1 = Some (True, h2)" "ws_core {c} n t h2"
      "wh_store h2 c = Some fd" "wh_limit h2 = wh_limit h1" "\<not> exceeds fl (wh_size h2) h2"
      using cases ex by (auto simp: n_def)
    have "int (length (f_buffer (fd_data fd))) \<le> wh_size h + 4" using entry_bound(2) [OF core Some] by simp
    then obtain m where m: "merge_payload (fd_data fd) f = Some m" "joined (fd_data fd) f m"
      "stored_size m = stored_size (fd_data fd) + n"
      using merge_joined [OF fd(2) assms(4)] assms(5) by (auto simp: n_def)
    have total: "wh_size h2 = stored_total ((wh_store h2)(c := None)) + stored_size m"
      using h2(2,3) m(3) total_remove [of "wh_store h2" c fd] by (auto simp: ws_core_def)
    show ?result
    proof (cases "is_final f")
      case True
      define m' where "m' = set_first (f_buffer m ! 0 OR 128) m"
      note m' = set_final_joined [OF m(2) m'_def]
      let ?h = "(erase_connection c h2)\<lparr>wh_size := wh_size h2 - stored_size m'\<rparr>"
      have "ws_core {} 0 t ?h"
        using h2(2) total m'(3) by (auto simp: ws_core_def erase_connection_def entries_remove entries_exempt)
      moreover have "\<not> exceeds fl (wh_size ?h) ?h"
      proof
        assume "exceeds fl (wh_size ?h) ?h"
        then have "exceeds fl (wh_size h2) h2"
          by (rule exceeds_mono [OF assms(1)])
            (use less_imp_le [OF stored_size_pos] in \<open>simp_all add: erase_connection_def\<close>)
        then show False using h2(5) by simp
      qed
      moreover have "\<not> exceeds fl 0 ?h"
        using lim(2) exceeds_cong [of ?h h] h1(2) h2(4) by (simp add: erase_connection_def)
      ultimately have "ws_inv fl now ?h"
        using core_later [of "{}" 0 t ?h now] assms(3) by (simp add: ws_inv_def)
      moreover have "collect_continuation fl now c f h = Some (?h, WsMessage m')"
        using h2(1,3) m(1) True by (simp add: get m'_def)
      ultimately show ?result
        using m' False True h1(2) h2(4) by (auto simp: erase_connection_def)
    next
      case nonfinal: False
      define fd' where "fd' = fd\<lparr>fd_data := m, fd_timestamp := now\<rparr>"
      let ?h = "h2\<lparr>wh_store := (wh_store h2)(c \<mapsto> fd'), wh_timers := ordered_emplace now c (wh_timers h2)\<rparr>"
      have "ws_core {} 0 now ?h"
        by (rule core_put [OF h2(2) assms(3)]) (use fd m total in \<open>auto simp: fd'_def joined_def\<close>)
      moreover have "\<not> exceeds fl (wh_size ?h) ?h" "\<not> exceeds fl 0 ?h"
        using h2(5) lim(2) exceeds_cong [of ?h h2] exceeds_cong [of ?h h] h1(2) h2(4) by simp_all
      ultimately have "ws_inv fl now ?h" by (simp add: ws_inv_def)
      moreover have "collect_continuation fl now c f h = Some (?h, WsNone)"
        using h2(1,3) m(1) nonfinal by (simp add: get fd'_def)
      ultimately show ?result
        using m False nonfinal h1(2) h2(4) by (auto simp: fd'_def)
    qed
  qed
  then show ?thesis unfolding Some option.case n_def .
qed

text \<open>A first fragment: skipped, or stored in the place of what the connection had.\<close>

lemma collect_initial_inv:
  assumes "floats_ok fl" "ws_inv fl t h" "t < now" "is_valid f" "length (f_buffer f) < size_t_bound"
  shows "\<exists>h'. collect_initial fl now c f h = Some (h', WsNone) \<and> ws_inv fl now h' \<and> wh_limit h' = wh_limit h \<and>
    (if exceeds fl (stored_size f) h then h' = h
     else wh_store h' c = Some \<lparr>fd_data = f, fd_connection = c, fd_timestamp = now\<rparr>)"
proof (cases "exceeds fl (stored_size f) h")
  case True
  then have "check_limit_for_new fl (stored_size f) c h = Some (False, h)"
    by (simp add: check_limit_for_new_def)
  then show ?thesis
    using True assms(2,3) core_later [of "{}" 0 t h now] by (simp add: collect_initial_def ws_inv_def)
next
  case False
  obtain h1 where h1: "check_limit_for_new fl (stored_size f) c h = Some (True, h1)" "ws_core {} (stored_size f) t h1"
    "wh_limit h1 = wh_limit h" "\<not> exceeds fl (wh_size h1) h1"
    using check_limit_for_new_inv [OF assms(2), of "stored_size f" c] False by auto
  have zero: "\<not> exceeds fl 0 h" using assms(2) by (simp add: ws_inv_def)
  define fd' where "fd' = \<lparr>fd_data = f, fd_connection = c, fd_timestamp = now\<rparr>"
  show ?thesis
  proof (cases "wh_store h1 c")
    case None
    let ?h = "h1\<lparr>wh_store := (wh_store h1)(c \<mapsto> fd'), wh_timers := ordered_emplace now c (wh_timers h1)\<rparr>"
    have "(wh_store h1)(c := None) = wh_store h1" using None by auto
    then have "ws_core {} 0 now ?h"
      using h1(2) by (intro core_put [OF h1(2) assms(3)]) (use None assms(4,5) in \<open>simp_all add: fd'_def ws_core_def\<close>)
    moreover have "\<not> exceeds fl (wh_size ?h) ?h" "\<not> exceeds fl 0 ?h"
      using h1(3,4) zero exceeds_cong [of ?h h1] exceeds_cong [of ?h h] by simp_all
    moreover have "collect_initial fl now c f h = Some (?h, WsNone)"
      using h1(1) None by (simp add: collect_initial_def fd'_def)
    ultimately show ?thesis using False h1(3) by (auto simp: ws_inv_def fd'_def)
  next
    case (Some fd)
    have fd: "fd_connection fd = c" "finite (dom (wh_store h1))" using h1(2) Some by (auto simp: ws_core_def)
    define h2 where "h2 = h1\<lparr>wh_timers := erase_timer (fd_timestamp fd) (wh_timers h1)\<rparr>"
    have h2: "ws_core {c} (stored_size f) t h2" unfolding h2_def using h1(2) Some by (rule core_take_out)
    let ?h = "h1\<lparr>wh_size := wh_size h1 - stored_size (fd_data fd), wh_store := (wh_store h1)(c \<mapsto> fd'),
      wh_timers := ordered_emplace now c (erase_timer (fd_timestamp fd) (wh_timers h1))\<rparr>"
    have fd'_eq: "fd\<lparr>fd_data := f, fd_timestamp := now\<rparr> = fd'" using fd(1) by (cases fd) (simp add: fd'_def)
    have "wh_size h1 - stored_size (fd_data fd) = stored_total ((wh_store h1)(c := None)) + stored_size f"
      using h1(2) total_remove [OF fd(2) Some] by (simp add: ws_core_def)
    then have "ws_core {} 0 now ?h"
      by (intro core_put [OF h2 assms(3)]) (use assms(4,5) in \<open>simp_all add: fd'_def h2_def\<close>)
    moreover have "\<not> exceeds fl (wh_size ?h) ?h"
    proof
      assume "exceeds fl (wh_size ?h) ?h"
      then have "exceeds fl (wh_size h1) h1"
        by (rule exceeds_mono [OF assms(1)]) (use less_imp_le [OF stored_size_pos] in simp_all)
      then show False using h1(4) by simp
    qed
    moreover have "\<not> exceeds fl 0 ?h" using h1(3) zero exceeds_cong [of ?h h] by simp
    moreover have "collect_initial fl now c f h = Some (?h, WsNone)"
      using h1(1) Some fd'_eq by (simp add: collect_initial_def)
    ultimately show ?thesis using False h1(3) by (auto simp: ws_inv_def fd'_def)
  qed
qed

section \<open>Answers\<close>

lemma read_some: "off + n \<le> length buf \<Longrightarrow> \<exists>bs. read_at buf off n = Some bs \<and> length bs = n"
  by (simp add: read_at_def)

lemma write_some: "off + length bs \<le> length buf \<Longrightarrow> \<exists>b. write_at buf off bs = Some b \<and> length b = length buf"
  by (simp add: write_at_def)

lemma mask_some:
  assumes "off + n \<le> length buf"
  shows "\<exists>b. mask_at off n key buf = Some b \<and> length b = length buf"
proof -
  obtain bs where "read_at buf off n = Some bs" "length bs = n" using read_some [OF assms] by blast
  then show ?thesis using write_some [of off "apply_mask key bs" buf] assms by (simp add: mask_at_def)
qed

lemma reverse_masking_some:
  assumes "is_valid f" "length (f_buffer f) < size_t_bound"
  shows "\<exists>g. reverse_masking key (set_first b f) = Some g"
proof -
  obtain b0 x e kb p where f: "frame_parts f b0 x e kb p" using valid_parts [OF assms] by blast
  note f' = parts_fields [OF set_first_parts [OF f, of b]]
  let ?f = "set_first b f"
  let ?n = "unat (get_payload_size ?f)"
  have "length p < size_t_bound" using assms(2) by (simp add: parts_fields [OF f])
  then have n: "?n = length p" by (simp add: f')
  have len: "length (f_buffer ?f) = 2 + length e + length kb + length p" by (simp add: f')
  show ?thesis
  proof (cases "is_masked ?f")
    case True
    let ?buf = "(f_buffer ?f)[1 := f_buffer ?f ! 1 AND 127]"
    have kb: "length kb = 4" using f True f'(4) by (simp add: frame_parts_def)
    obtain bs where bs: "read_at ?buf 6 ?n = Some bs" "length bs = ?n"
      using read_some [of 6 ?n ?buf] n len kb by auto
    obtain b' where "write_at ?buf 2 bs = Some b'"
      using write_some [of 2 bs ?buf] bs(2) n len kb by auto
    with bs show ?thesis using True by (simp add: reverse_masking_def Let_def)
  next
    case False
    let ?h = "f_headerSize ?f + 4"
    let ?buf = "resize (?h + ?n) ((f_buffer ?f)[1 := f_buffer ?f ! 1 OR 128])"
    have kb: "kb = []" using f False f'(4) by (simp add: frame_parts_def)
    have buf: "length ?buf = ?h + ?n" using n len kb by (simp add: resize_def f'(2))
    have h: "6 \<le> ?h" by (simp add: f'(2))
    obtain bs where bs: "read_at ?buf 2 ?n = Some bs" "length bs = ?n"
      using read_some [of 2 ?n ?buf] buf h by auto
    obtain b1 where b1: "write_at ?buf ?h bs = Some b1" "length b1 = ?h + ?n"
      using write_some [of ?h bs ?buf] buf bs(2) by auto
    obtain b2 where b2: "mask_at ?h ?n key b1 = Some b2" "length b2 = ?h + ?n"
      using mask_some [of ?h ?n b1 key] b1(2) by auto
    obtain b3 where b3: "write_at b2 2 (word_bytes 4 key) = Some b3"
      using write_some [of 2 "word_bytes 4 key" b2] b2(2) h by auto
    obtain b4 where b4: "write_at ?buf 2 (word_bytes 4 key) = Some b4"
      using write_some [of 2 "word_bytes 4 key" ?buf] buf h by auto
    show ?thesis
    proof (cases "?n = 0")
      case True
      then show ?thesis using False b4 by (auto simp: reverse_masking_def Let_def)
    next
      case nonzero: False
      then show ?thesis using False bs(1) b1(1) b2(1) b3 by (simp add: reverse_masking_def Let_def)
    qed
  qed
qed

section \<open>Every operation\<close>

lemma inv_later: "ws_inv fl t h \<Longrightarrow> t \<le> now \<Longrightarrow> ws_inv fl now h"
  using core_later [of "{}" 0 t h now] by (simp add: ws_inv_def)

lemma ws_collect_inv:
  assumes "floats_ok fl" "ws_inv fl t h" "t < now"
    and "wh_size h + int (length (f_buffer f)) + 32 < int size_t_bound"
  shows "\<exists>h' eff. ws_collect fl running now key c f h = Some (h', eff) \<and> ws_inv fl now h'"
proof (cases "\<not> running \<or> \<not> is_valid f")
  case True
  then show ?thesis using inv_later [OF assms(2)] assms(3) by (auto simp: ws_collect_def)
next
  case False
  then have v: "is_valid f" by simp
  have "0 \<le> wh_size h"
    using assms(2) total_nonneg [of "wh_store h"] by (simp add: ws_inv_def ws_core_def)
  then have len: "length (f_buffer f) < size_t_bound" using assms(4) by simp
  note later = inv_later [OF assms(2) less_imp_le [OF assms(3)]]
  note first = collect_initial_inv [OF assms(1-3) v len, of c]
  note cont = collect_continuation_inv [OF assms(1-3) v assms(4), of c]
  note rev = reverse_masking_some [OF v len]
  show ?thesis
  proof (cases "get_opcode f")
    case Close
    obtain g where "reverse_masking key (set_first (f_buffer f ! 0 OR 16) f) = Some g" using rev by blast
    then show ?thesis using False Close later by (simp add: ws_collect_def)
  next
    case Ping
    obtain g where "reverse_masking key (set_first ((f_buffer f ! 0 XOR 9) OR 10) f) = Some g" using rev by blast
    then show ?thesis using False Ping later by (simp add: ws_collect_def)
  qed (use False later first cont in \<open>auto simp: ws_collect_def\<close>)
qed

lemma inv_shrink:
  assumes "floats_ok fl" "ws_inv fl t h" "ws_core {} 0 t h'" "wh_size h' \<le> wh_size h" "wh_limit h' = wh_limit h"
  shows "ws_inv fl t h'"
  using assms exceeds_mono [OF assms(1), of "wh_size h'" h' "wh_size h" h] exceeds_cong [OF assms(5), of fl 0]
  by (auto simp: ws_inv_def)

lemma clear_connection_inv:
  assumes "floats_ok fl" "ws_inv fl t h"
  shows "ws_inv fl t (clear_connection c h)"
proof (cases "wh_store h c")
  case None
  then show ?thesis using assms by (simp add: clear_connection_def)
next
  case (Some fd)
  let ?h1 = "h\<lparr>wh_timers := erase_timer (fd_timestamp fd) (wh_timers h)\<rparr>"
  have "ws_core {} 0 t h" using assms(2) by (simp add: ws_inv_def)
  then have "ws_core {c} 0 t ?h1" using Some by (rule core_take_out)
  then have "ws_core {} 0 t ((erase_connection c ?h1)\<lparr>wh_size := wh_size ?h1 - stored_size (fd_data fd)\<rparr>)"
    by (rule core_exempt_erase) (simp add: Some)
  moreover have "clear_connection c h = (erase_connection c ?h1)\<lparr>wh_size := wh_size ?h1 - stored_size (fd_data fd)\<rparr>"
    using Some by (simp add: clear_connection_def erase_connection_def)
  ultimately show ?thesis
    using less_imp_le [OF stored_size_pos]
    by (intro inv_shrink [OF assms]) (simp_all add: erase_connection_def)
qed

lemma set_limit_inv:
  assumes "floats_ok fl" "ws_inv fl t h"
  shows "\<exists>r h'. set_fragmented_data_limit fl limit h = Some (r, h') \<and> ws_inv fl t h'"
proof -
  let ?h1 = "h\<lparr>wh_limit := limit\<rparr>"
  let ?ratio = "compare_floats fl limit (wh_limit h)"
  have core: "ws_core {} 0 t ?h1" using assms(2) by (simp add: ws_inv_def ws_core_def)
  consider "float_less fl limit 0 \<or> ?ratio = 0" | "\<not> float_less fl limit 0" "0 < ?ratio"
    | "\<not> float_less fl limit 0" "?ratio < 0"
    by linarith
  then show ?thesis
  proof cases
    case 1
    then show ?thesis using assms by (auto simp: set_fragmented_data_limit_def Let_def)
  next
    case 2
    then have "wh_limit h \<le> limit" by (auto simp: compare_floats_def split: if_splits)
    then have "\<not> exceeds fl z ?h1" if "\<not> exceeds fl z h" for z
      using that exceeds_mono [OF assms(1), of z ?h1 z h] by auto
    then show ?thesis
      using 2 core assms(2) by (auto simp: set_fragmented_data_limit_def Let_def ws_inv_def)
  next
    case 3
    have zero: "\<not> exceeds fl 0 ?h1"
      using 3(1) by (simp add: exceeds_def float_less_def float_greater_def megabytes_def)
    show ?thesis
    proof (cases "exceeds fl (wh_size ?h1) ?h1")
      case False
      then show ?thesis
        using 3 core zero by (auto simp: set_fragmented_data_limit_def Let_def ws_inv_def purge_stored_data_def)
    next
      case True
      obtain r h' where p: "purge_stored_data fl False ?h1 = Some (r, h')" "ws_core {} 0 t h'" "wh_limit h' = wh_limit ?h1"
        "\<forall>c \<in> {}. wh_store h' c = wh_store ?h1 c" "wh_store h' \<subseteq>\<^sub>m wh_store ?h1"
        "r \<Longrightarrow> \<not> exceeds fl (wh_size h') h'" "\<not> r \<Longrightarrow> dom (wh_store h') \<subseteq> {} \<and> exceeds fl (wh_size h') h'"
        by (rule purge_ready [OF core True]) blast
      have z': "\<not> exceeds fl 0 h'" using zero exceeds_cong [OF p(3)] by simp
      have "\<not> exceeds fl (wh_size h') h'"
      proof
        assume "exceeds fl (wh_size h') h'"
        then have "\<not> r" using p(6) by blast
        then have "dom (wh_store h') = {}" using p(7) by blast
        then have "wh_size h' = 0" using p(2) by (simp add: ws_core_def stored_total_def)
        then show False using \<open>exceeds fl (wh_size h') h'\<close> z' by simp
      qed
      moreover have "purge_stored_data fl True ?h1 = Some (r, h')"
        using p(1) True by (simp add: purge_stored_data_def)
      ultimately show ?thesis
        using 3 p(2) z' by (auto simp: set_fragmented_data_limit_def Let_def ws_inv_def)
    qed
  qed
qed

text \<open>The states of a handler, with the time of the last fragment: the clock moves on between two.\<close>

inductive ws_reach :: "floats \<Rightarrow> handler \<Rightarrow> timer \<Rightarrow> bool" for fl where
  make: "ws_reach fl handler_make t"
| collect: "ws_reach fl h t \<Longrightarrow> t < now \<Longrightarrow>
    wh_size h + int (length (f_buffer f)) + 32 < int size_t_bound \<Longrightarrow>
    ws_collect fl running now key c f h = Some (h', eff) \<Longrightarrow> ws_reach fl h' now"
| limit: "ws_reach fl h t \<Longrightarrow> set_fragmented_data_limit fl limit h = Some (r, h') \<Longrightarrow> ws_reach fl h' t"
| clear_one: "ws_reach fl h t \<Longrightarrow> ws_reach fl (clear_connection c h) t"
| clear_all: "ws_reach fl h t \<Longrightarrow> ws_reach fl (ws_clear h) t"

lemma reach_inv: "ws_reach fl h t \<Longrightarrow> floats_ok fl \<Longrightarrow> ws_inv fl t h"
proof (induction rule: ws_reach.induct)
  case (make t)
  have "fl_round fl (- 10) \<le> 0" using make by (metis floats_ok_def neg_le_0_iff_le zero_le_numeral)
  then show ?case
    using make by (auto simp: ws_inv_def ws_core_def handler_make_def stored_total_def ws_entries_def exceeds_def
        float_greater_def megabytes_def floats_ok_def)
next
  case (collect h t now f running key c h' eff)
  then show ?case using ws_collect_inv [of fl t h now f running key c] by auto
next
  case (limit h t limit r h')
  then show ?case using set_limit_inv [of fl t h limit] by auto
next
  case (clear_one h t c)
  then show ?case by (simp add: clear_connection_inv)
next
  case (clear_all h t)
  then have "ws_inv fl t h" by simp
  then show ?case
    using exceeds_cong [of "ws_clear h" h]
    by (auto simp: ws_inv_def ws_core_def ws_clear_def stored_total_def ws_entries_def)
qed

text \<open>
  C18: The accounts of the store of fragments are right in every state a handler reaches: the size is
  the sum of the payloads and ten bytes for each stored message, it does not exceed the limit, and
  the map of times points to exactly the stored messages; so no operation that follows reads a
  message that has been erased.
\<close>

theorem fragments_accounted:
  assumes "ws_reach fl h t" "floats_ok fl"
  shows "wh_size h = (\<Sum>c\<in>dom (wh_store h). int (length (get_payload (fd_data (the (wh_store h c))))) + 10) \<and>
    \<not> exceeds fl (wh_size h) h \<and>
    set (wh_timers h) = {(fd_timestamp fd, c) | c fd. wh_store h c = Some fd} \<and> distinct (map fst (wh_timers h)) \<and>
    (\<forall>running now key c f. t < now \<and> wh_size h + int (length (f_buffer f)) + 32 < int size_t_bound \<longrightarrow>
       ws_collect fl running now key c f h \<noteq> None) \<and>
    (\<forall>limit. set_fragmented_data_limit fl limit h \<noteq> None)"
proof -
  have inv: "ws_inv fl t h" using assms by (rule reach_inv)
  then have core: "ws_core {} 0 t h" by (simp add: ws_inv_def)
  have "wh_size h = (\<Sum>c\<in>dom (wh_store h). int (length (get_payload (fd_data (the (wh_store h c))))) + 10)"
  proof -
    have "stored_size (fd_data (the (wh_store h c))) = int (length (get_payload (fd_data (the (wh_store h c))))) + 10"
      if "c \<in> dom (wh_store h)" for c
      using that core stored_size_valid by (auto simp: ws_core_def payload_length_def)
    then show ?thesis using core by (simp add: ws_core_def stored_total_def)
  qed
  moreover have "distinct (map fst (wh_timers h))"
    using core by (simp add: ws_core_def strict_sorted_iff)
  moreover have "ws_collect fl running now key c f h \<noteq> None"
    if "t < now" "wh_size h + int (length (f_buffer f)) + 32 < int size_t_bound" for running now key c f
    using ws_collect_inv [OF assms(2) inv that, of running key c] by auto
  moreover have "set_fragmented_data_limit fl limit h \<noteq> None" for limit
    using set_limit_inv [OF assms(2) inv, of limit] by auto
  moreover have "\<not> exceeds fl (wh_size h) h" using inv by (simp add: ws_inv_def)
  moreover have "set (wh_timers h) = {(fd_timestamp fd, c) | c fd. wh_store h c = Some fd}"
    using core by (simp add: ws_core_def ws_entries_def)
  ultimately show ?thesis by blast
qed

definition exact_floats :: floats where
  "exact_floats = \<lparr>fl_round = (\<lambda>x. x), fl_epsilon = 1 / 10000000000\<rparr>"

lemma exact_floats_ok: "floats_ok exact_floats"
  by (simp add: floats_ok_def exact_floats_def)

definition text_start :: frame where
  "text_start = \<lparr>f_buffer = [1, 2, 65, 66], f_headerSize = 2\<rparr>"

definition text_end :: frame where
  "text_end = \<lparr>f_buffer = [128, 1, 67], f_headerSize = 2\<rparr>"

lemma sample_frames:
  "is_valid text_start" "is_valid text_end" "get_opcode text_start = Text" "get_opcode text_end = Continuation"
  "\<not> is_final text_start" "is_final text_end" "get_payload text_start = [65, 66]" "get_payload text_end = [67]"
  "stored_size text_start = 12" "length (f_buffer text_start) = 4" "length (f_buffer text_end) = 3"
  by (simp_all add: text_start_def text_end_def is_valid_def get_opcode_def opcode_of_def is_final_def get_payload_def
      get_payload_size_def get_expected_header_size_def is_masked_def stored_size_def maximum_header_def)

definition after_start :: handler where
  "after_start = \<lparr>wh_size = 12, wh_limit = 10,
     wh_store = [5 \<mapsto> \<lparr>fd_data = text_start, fd_connection = 5, fd_timestamp = Timer 7\<rparr>],
     wh_timers = [(Timer 7, 5)]\<rparr>"

lemma start_collected: "ws_collect exact_floats True (Timer 7) 0 5 text_start handler_make = Some (after_start, WsNone)"
  by (simp add: ws_collect_def sample_frames collect_initial_def check_limit_for_new_def exceeds_def float_greater_def
      exact_floats_def megabytes_def handler_make_def after_start_def Let_def)

lemma after_start_reach: "ws_reach exact_floats after_start (Timer 7)"
proof (rule ws_reach.collect [OF ws_reach.make _ _ start_collected])
  show "Timer 0 < Timer 7" by (simp add: less_timer_def timer_less_def timer_ns_def)
qed (simp add: handler_make_def sample_frames)

theorem fragments_accounted_witness:
  "wh_size after_start = 2 + 10 \<and> \<not> exceeds exact_floats 12 after_start \<and>
   ws_collect exact_floats True (Timer 8) 0 5 text_end after_start \<noteq> None"
proof -
  have "Timer 7 < Timer 8" by (simp add: less_timer_def timer_less_def timer_ns_def)
  then show ?thesis
    using fragments_accounted [OF after_start_reach exact_floats_ok]
    by (auto simp: after_start_def sample_frames)
qed

section \<open>Whole messages\<close>

text \<open>Frames of one connection, each with the time of its arrival.\<close>

fun collect_all ::
    "floats \<Rightarrow> int \<Rightarrow> (timer \<times> frame) list \<Rightarrow> handler \<Rightarrow> (handler \<times> ws_effect list) option" where
  "collect_all fl c [] h = Some (h, [])"
| "collect_all fl c ((now, f) # fs) h =
     (case ws_collect fl True now 0 c f h of
        None \<Rightarrow> None
      | Some (h', eff) \<Rightarrow> map_option (\<lambda>(h'', effs). (h'', eff # effs)) (collect_all fl c fs h'))"

definition payloads :: "(timer \<times> frame) list \<Rightarrow> byte list" where
  "payloads fs = concat (map (\<lambda>(n, f). get_payload f) fs)"

lemma small_size:
  assumes "floats_ok fl" "ws_inv fl t h" "exceeds fl (2 ^ 62) h" "length (f_buffer f) < 2 ^ 62"
  shows "wh_size h + int (length (f_buffer f)) + 32 < int size_t_bound"
proof -
  have "\<not> 2 ^ 62 \<le> wh_size h"
    using assms(2) exceeds_mono [OF assms(1,3), of "wh_size h" h] by (auto simp: ws_inv_def)
  then show ?thesis using assms(4) by simp
qed

lemma continue_all:
  assumes "floats_ok fl" "ws_inv fl t h" "exceeds fl (2 ^ 62) h" "wh_store h c = Some fd"
    and "sorted_wrt (<) (t # map fst fs)" "fs \<noteq> []"
    and "\<forall>(n, f) \<in> set fs. is_valid f \<and> get_opcode f = Continuation \<and> length (f_buffer f) < 2 ^ 62"
    and "\<forall>(n, f) \<in> set (butlast fs). \<not> is_final f" "is_final (snd (last fs))"
    and "\<not> exceeds fl (payload_length (fd_data fd) + int (length (payloads fs)) + 10) h"
  shows "\<exists>h' m. collect_all fl c fs h = Some (h', replicate (length fs - 1) WsNone @ [WsMessage m]) \<and>
    get_payload m = get_payload (fd_data fd) @ payloads fs \<and> get_opcode m = get_opcode (fd_data fd) \<and>
    is_final m \<and> is_valid m \<and> wh_store h' c = None"
  using assms
proof (induction fs arbitrary: t h fd)
  case Nil
  then show ?case by simp
next
  case (Cons x fs)
  obtain now f where x: "x = (now, f)" by (cases x)
  have f: "is_valid f" "get_opcode f = Continuation" "length (f_buffer f) < 2 ^ 62"
    using Cons.prems(7) by (auto simp: x)
  have now: "t < now" using Cons.prems(5) by (simp add: x)
  note small = small_size [OF Cons.prems(1-3) f(3)]
  have fd: "is_valid (fd_data fd)" "length (f_buffer (fd_data fd)) < size_t_bound"
    using Cons.prems(2,4) by (auto simp: ws_inv_def ws_core_def)
  have n: "int (unat (get_payload_size f)) = payload_length f"
    using payload_size_nat(1) [OF f(1)] f(3) by (simp add: payload_length_def)
  have pay: "int (length (payloads (x # fs))) = payload_length f + int (length (payloads fs))"
    by (simp add: payloads_def x payload_length_def)
  have fits: "\<not> exceeds fl (int (unat (get_payload_size f)) + stored_size (fd_data fd)) h"
  proof
    assume "exceeds fl (int (unat (get_payload_size f)) + stored_size (fd_data fd)) h"
    then have "exceeds fl (payload_length (fd_data fd) + int (length (payloads (x # fs))) + 10) h"
      by (rule exceeds_mono [OF Cons.prems(1)]) (use n in \<open>simp_all add: stored_size_valid [OF fd] pay\<close>)
    then show False using Cons.prems(10) by simp
  qed
  have step: "ws_collect fl True now 0 c f h = collect_continuation fl now c f h"
    using f by (simp add: ws_collect_def)
  note result = collect_continuation_inv [OF Cons.prems(1,2) now f(1) small, of c, unfolded Cons.prems(4) option.case if_not_P [OF fits]]
  show ?case
  proof (cases "fs = []")
    case True
    then have fin: "is_final f" using Cons.prems(9) by (simp add: x)
    from result obtain h' m where "collect_continuation fl now c f h = Some (h', WsMessage m)" "wh_store h' c = None"
      "joined (fd_data fd) f m" "is_final m"
      unfolding if_P [OF fin] by blast
    then show ?thesis using step True by (auto simp: x payloads_def joined_def)
  next
    case False
    then have fin: "\<not> is_final f" using Cons.prems(8) by (simp add: x)
    from result obtain h' m where h': "collect_continuation fl now c f h = Some (h', WsNone)" "ws_inv fl now h'"
      "wh_limit h' = wh_limit h" "wh_store h' c = Some (fd\<lparr>fd_data := m, fd_timestamp := now\<rparr>)"
      and m: "joined (fd_data fd) f m"
      unfolding if_not_P [OF fin] by blast
    let ?fd = "fd\<lparr>fd_data := m, fd_timestamp := now\<rparr>"
    have ex: "exceeds fl z h' = exceeds fl z h" for z by (rule exceeds_cong [OF h'(3)])
    have pl: "payload_length m = payload_length (fd_data fd) + payload_length f"
      using m by (simp add: payload_length_def joined_def)
    have "\<exists>h'' m'. collect_all fl c fs h' = Some (h'', replicate (length fs - 1) WsNone @ [WsMessage m']) \<and>
        get_payload m' = get_payload (fd_data ?fd) @ payloads fs \<and> get_opcode m' = get_opcode (fd_data ?fd) \<and>
        is_final m' \<and> is_valid m' \<and> wh_store h'' c = None"
    proof (rule Cons.IH [OF Cons.prems(1) h'(2) _ h'(4)])
      show "exceeds fl (2 ^ 62) h'" using Cons.prems(3) ex by simp
      show "sorted_wrt (<) (now # map fst fs)" using Cons.prems(5) by (simp add: x)
      show "\<not> exceeds fl (payload_length (fd_data ?fd) + int (length (payloads fs)) + 10) h'"
        using Cons.prems(10) pl pay unfolding ex by (simp add: add.assoc)
    qed (use Cons.prems(7-9) False in auto)
    then obtain h'' m' where "collect_all fl c fs h' = Some (h'', replicate (length fs - 1) WsNone @ [WsMessage m'])"
      "get_payload m' = get_payload m @ payloads fs" "get_opcode m' = get_opcode m"
      "is_final m'" "is_valid m'" "wh_store h'' c = None"
      by auto
    moreover have "replicate (length (x # fs) - 1) WsNone = WsNone # replicate (length fs - 1) WsNone"
      using False by (cases fs) simp_all
    ultimately show ?thesis
      using step h'(1) m by (auto simp: x payloads_def joined_def)
  qed
qed

text \<open>
  C19: The fragments of a message that arrive one after the other on a connection are delivered as
  one message: exactly one call of the handler, with all payloads in order, the opcode of the first
  fragment and the final flag, and nothing of it stays stored. It is enough that the message itself
  fits the limit, whatever other connections have stored before.
\<close>

theorem fragments_reassembled:
  assumes "ws_reach fl h t" "floats_ok fl" "exceeds fl (2 ^ 62) h"
    and "sorted_wrt (<) (t # now # map fst fs)" "fs \<noteq> []"
    and "is_valid first" "get_opcode first \<in> {Text, Binary}" "\<not> is_final first" "length (f_buffer first) < 2 ^ 62"
    and "\<forall>(n, f) \<in> set fs. is_valid f \<and> get_opcode f = Continuation \<and> length (f_buffer f) < 2 ^ 62"
    and "\<forall>(n, f) \<in> set (butlast fs). \<not> is_final f" "is_final (snd (last fs))"
    and "\<not> exceeds fl (int (length (get_payload first)) + int (length (payloads fs)) + 10) h"
  shows "\<exists>h' m. collect_all fl c ((now, first) # fs) h = Some (h', replicate (length fs) WsNone @ [WsMessage m]) \<and>
    get_payload m = get_payload first @ payloads fs \<and> get_opcode m = get_opcode first \<and>
    is_final m \<and> is_valid m \<and> wh_store h' c = None"
proof -
  have inv: "ws_inv fl t h" using assms(1,2) by (rule reach_inv)
  have len: "length (f_buffer first) < size_t_bound" using assms(9) by simp
  have fits: "\<not> exceeds fl (stored_size first) h"
  proof
    assume "exceeds fl (stored_size first) h"
    then have "exceeds fl (int (length (get_payload first)) + int (length (payloads fs)) + 10) h"
      by (rule exceeds_mono [OF assms(2)]) (simp_all add: stored_size_valid [OF assms(6) len] payload_length_def)
    then show False using assms(13) by simp
  qed
  have "t < now" using assms(4) by simp
  from collect_initial_inv [OF assms(2) inv this assms(6) len, of c, unfolded if_not_P [OF fits]]
  obtain h1 where h1: "collect_initial fl now c first h = Some (h1, WsNone)" "ws_inv fl now h1" "wh_limit h1 = wh_limit h"
    "wh_store h1 c = Some \<lparr>fd_data = first, fd_connection = c, fd_timestamp = now\<rparr>"
    by blast
  have ex: "exceeds fl z h1 = exceeds fl z h" for z by (rule exceeds_cong [OF h1(3)])
  have step: "ws_collect fl True now 0 c first h = Some (h1, WsNone)"
    using assms(6-8) h1(1) by (auto simp: ws_collect_def)
  have "\<exists>h' m. collect_all fl c fs h1 = Some (h', replicate (length fs - 1) WsNone @ [WsMessage m]) \<and>
    get_payload m = get_payload (fd_data \<lparr>fd_data = first, fd_connection = c, fd_timestamp = now\<rparr>) @ payloads fs \<and>
    get_opcode m = get_opcode (fd_data \<lparr>fd_data = first, fd_connection = c, fd_timestamp = now\<rparr>) \<and>
    is_final m \<and> is_valid m \<and> wh_store h' c = None"
    using assms(3,4,13) by (intro continue_all [OF assms(2) h1(2) _ h1(4) _ assms(5,10-12)])
      (simp_all add: ex payload_length_def)
  moreover have "replicate (length fs) WsNone = WsNone # replicate (length fs - 1) WsNone"
    using assms(5) by (cases fs) simp_all
  ultimately show ?thesis using step by auto
qed

theorem fragments_reassembled_witness:
  "\<exists>h' m. collect_all exact_floats 6 [(Timer 8, text_start), (Timer 9, text_end)] after_start =
     Some (h', [WsNone, WsMessage m]) \<and> get_payload m = [65, 66, 67] \<and> wh_store h' 6 = None"
proof -
  have t: "Timer 7 < Timer 8" "Timer 8 < Timer 9" "Timer 7 < Timer 9"
    by (simp_all add: less_timer_def timer_less_def timer_ns_def)
  have "exceeds exact_floats (2 ^ 62) after_start" "\<not> exceeds exact_floats 13 after_start"
    by (simp_all add: exceeds_def float_greater_def exact_floats_def megabytes_def after_start_def)
  then show ?thesis
    using fragments_reassembled [OF after_start_reach exact_floats_ok, of "Timer 8" "[(Timer 9, text_end)]" text_start 6] t
    by (auto simp: sample_frames payloads_def)
qed

end
