(* ===== verification/Hashing.thy ===== *)
theory Hashing
  imports Prelude
begin

text \<open>
  The hash classes \<open>Sha1\<close> (\<open>help/sha1.inl\<close>) and \<open>Sha256\<close> (\<open>help/sha256.inl\<close>). Both keep a block
  buffer of 64 bytes, the number of bytes in it and the number of bits hashed, beside the words of
  the hash value; their \<open>Update\<close> and the padding of their \<open>Final\<close> are the same code over another
  \<open>ProcessBlock\<close>. The common fields are a record that the two classes extend, and the loops take
  \<open>ProcessBlock\<close> as an argument.
\<close>

unbundle bit_operations_syntax

section \<open>The block buffer\<close>

record block_buffer =
  m_bufferSize :: nat
  m_bitSize :: u64
  m_buffer :: "byte list"

text \<open>\<open>m_buffer[m_bufferSize++] = b\<close>\<close>

definition put_byte :: "byte \<Rightarrow> 'a block_buffer_scheme \<Rightarrow> 'a block_buffer_scheme" where
  "put_byte b s = s\<lparr>m_buffer := (m_buffer s)[m_bufferSize s := b], m_bufferSize := m_bufferSize s + 1\<rparr>"

text \<open>
  The first loop of \<open>Update\<close>: it completes a started block. \<open>None\<close> is the early return when the
  data end before; otherwise the value is the rest of the data.
\<close>

fun fill_block ::
  "(byte list \<Rightarrow> 'a block_buffer_scheme \<Rightarrow> 'a block_buffer_scheme) \<Rightarrow> byte list
    \<Rightarrow> 'a block_buffer_scheme \<Rightarrow> byte list option \<times> 'a block_buffer_scheme" where
  "fill_block process [] s = (None, s)"
| "fill_block process (b # bs) s =
     (let s = put_byte b s
      in if m_bufferSize s = 64
         then (Some bs, (process (m_buffer s) s)\<lparr>m_bufferSize := 0\<rparr>)
         else fill_block process bs s)"

text \<open>The second loop: blocks processed in place, as long as 64 bytes remain.\<close>

fun whole_blocks ::
  "(byte list \<Rightarrow> 'a block_buffer_scheme \<Rightarrow> 'a block_buffer_scheme) \<Rightarrow> byte list
    \<Rightarrow> 'a block_buffer_scheme \<Rightarrow> byte list \<times> 'a block_buffer_scheme" where
  "whole_blocks process data s =
     (if 63 < length data then whole_blocks process (drop 64 data) (process (take 64 data) s)
      else (data, s))"

declare whole_blocks.simps [simp del]

text \<open>\<open>Update\<close>; the third loop stores what is left.\<close>

definition update_chunk ::
  "(byte list \<Rightarrow> 'a block_buffer_scheme \<Rightarrow> 'a block_buffer_scheme) \<Rightarrow> byte list
    \<Rightarrow> 'a block_buffer_scheme \<Rightarrow> 'a block_buffer_scheme" where
  "update_chunk process data s =
     (let s = s\<lparr>m_bitSize := m_bitSize s + word_of_nat (length data) * 8\<rparr>;
          (rest, s) = (if m_bufferSize s \<noteq> 0 then fill_block process data s else (Some data, s))
      in case rest of
           None \<Rightarrow> s
         | Some data \<Rightarrow>
             (let (data, s) = whole_blocks process data s in fold put_byte data s))"

text \<open>The loops \<open>while (m_bufferSize < n) m_buffer[m_bufferSize++] = 0\<close>.\<close>

definition put_zeros :: "nat \<Rightarrow> 'a block_buffer_scheme \<Rightarrow> 'a block_buffer_scheme" where
  "put_zeros n s = ((put_byte 0) ^^ (n - m_bufferSize s)) s"

text \<open>The bytes \<open>(m_bitSize >> (index * 8)) & 0xFF\<close>, for \<open>index\<close> from 7 down to 0.\<close>

definition bit_size_bytes :: "u64 \<Rightarrow> byte list" where
  "bit_size_bytes n = map (\<lambda>i. ucast (drop_bit (i * 8) n AND 0xFF)) (rev [0..<8])"

text \<open>\<open>Final\<close> up to its last \<open>m_bufferSize = 0\<close>: the padding and the last blocks.\<close>

definition pad_and_process ::
  "(byte list \<Rightarrow> 'a block_buffer_scheme \<Rightarrow> 'a block_buffer_scheme)
    \<Rightarrow> 'a block_buffer_scheme \<Rightarrow> 'a block_buffer_scheme" where
  "pad_and_process process s =
     (let s = put_byte 0x80 s;
          s = (if 56 < m_bufferSize s
               then (let s = put_zeros 64 s in (process (m_buffer s) s)\<lparr>m_bufferSize := 0\<rparr>)
               else s);
          s = put_zeros 56 s;
          s = fold put_byte (bit_size_bytes (m_bitSize s)) s
      in (process (m_buffer s) s)\<lparr>m_bufferSize := 0\<rparr>)"

text \<open>Stores at the front of the buffer: the digest.\<close>

definition put_front :: "byte list \<Rightarrow> 'a block_buffer_scheme \<Rightarrow> 'a block_buffer_scheme" where
  "put_front bs s = s\<lparr>m_buffer := bs @ drop (length bs) (m_buffer s)\<rparr>"

section \<open>Big-endian words\<close>

definition write_be32 :: "u32 \<Rightarrow> byte list" where
  "write_be32 x =
     [ucast (drop_bit 24 x AND 0xFF), ucast (drop_bit 16 x AND 0xFF), ucast (drop_bit 8 x AND 0xFF),
      ucast (x AND 0xFF)]"

definition read_be32 :: "byte list \<Rightarrow> u32" where
  "read_be32 p =
     push_bit 24 (ucast (p ! 0)) OR push_bit 16 (ucast (p ! 1)) OR push_bit 8 (ucast (p ! 2))
       OR ucast (p ! 3)"

text \<open>The first loop of both \<open>ProcessBlock\<close>s: the 16 words of the block.\<close>

definition block_words :: "byte list \<Rightarrow> u32 list" where
  "block_words block = map (\<lambda>i. read_be32 (drop (i * 4) block)) [0..<16]"

section \<open>SHA-1\<close>

record sha1 = block_buffer +
  m_h0 :: u32
  m_h1 :: u32
  m_h2 :: u32
  m_h3 :: u32
  m_h4 :: u32
  m_processBuffer :: "u32 list"

definition rol :: "u32 \<Rightarrow> nat \<Rightarrow> u32" where
  "rol x n = push_bit n x OR drop_bit (32 - n) x"

text \<open>\<open>w[i]\<close> for \<open>i\<close> from 16 on, in the member array of 80 words.\<close>

definition sha1_expand :: "u32 list \<Rightarrow> u32 list" where
  "sha1_expand w =
     fold (\<lambda>i w. w[i := rol (w ! (i - 3) XOR w ! (i - 8) XOR w ! (i - 14) XOR w ! (i - 16)) 1])
       [16..<80] w"

definition sha1_round ::
  "u32 list \<Rightarrow> nat \<Rightarrow> u32 \<times> u32 \<times> u32 \<times> u32 \<times> u32 \<Rightarrow> u32 \<times> u32 \<times> u32 \<times> u32 \<times> u32" where
  "sha1_round w i = (\<lambda>(a, b, c, d, e).
     let (f, k) =
           (if i < 20 then ((b AND c) OR ((NOT b) AND d), 0x5A827999)
            else if i < 40 then (b XOR c XOR d, 0x6ED9EBA1)
            else if i < 60 then ((b AND c) OR (b AND d) OR (c AND d), 0x8F1BBCDC)
            else (b XOR c XOR d, 0xCA62C1D6));
         temp = rol a 5 + f + e + k + w ! i
     in (temp, a, rol b 30, c, d))"

definition sha1_process_block :: "byte list \<Rightarrow> sha1 \<Rightarrow> sha1" where
  "sha1_process_block block s =
     (let w = sha1_expand (block_words block @ drop 16 (m_processBuffer s));
          (a, b, c, d, e) =
            fold (sha1_round w) [0..<80] (m_h0 s, m_h1 s, m_h2 s, m_h3 s, m_h4 s)
      in s\<lparr>m_processBuffer := w, m_h0 := m_h0 s + a, m_h1 := m_h1 s + b, m_h2 := m_h2 s + c,
           m_h3 := m_h3 s + d, m_h4 := m_h4 s + e\<rparr>)"

definition sha1_init :: sha1 where
  "sha1_init =
     \<lparr>m_bufferSize = 0, m_bitSize = 0, m_buffer = replicate 64 0, m_h0 = 0x67452301,
      m_h1 = 0xEFCDAB89, m_h2 = 0x98BADCFE, m_h3 = 0x10325476, m_h4 = 0xC3D2E1F0,
      m_processBuffer = replicate 80 0\<rparr>"

definition sha1_update :: "byte list \<Rightarrow> sha1 \<Rightarrow> sha1" where
  "sha1_update data s = update_chunk sha1_process_block data s"

text \<open>
  \<open>Final<Reset>\<close>: the returned span is the first 20 bytes of the buffer, in which the digest stays.
\<close>

definition sha1_final :: "bool \<Rightarrow> sha1 \<Rightarrow> byte list \<times> sha1" where
  "sha1_final reset s =
     (let s = pad_and_process sha1_process_block s;
          s = put_front (write_be32 (m_h0 s) @ write_be32 (m_h1 s) @ write_be32 (m_h2 s)
                @ write_be32 (m_h3 s) @ write_be32 (m_h4 s)) s;
          s = (if reset
               then s\<lparr>m_h0 := 0x67452301, m_h1 := 0xEFCDAB89, m_h2 := 0x98BADCFE,
                      m_h3 := 0x10325476, m_h4 := 0xC3D2E1F0, m_bitSize := 0\<rparr>
               else s)
      in (take 20 (m_buffer s), s))"

section \<open>SHA-256\<close>

record sha256 = block_buffer +
  m_state :: "u32 list"

definition sha256_init_words :: "u32 list" where
  "sha256_init_words =
     [0x6a09e667, 0xbb67ae85, 0x3c6ef372, 0xa54ff53a, 0x510e527f, 0x9b05688c, 0x1f83d9ab, 0x5be0cd19]"

definition sha256_K :: "u32 list" where
  "sha256_K = concat
     [[0x428a2f98, 0x71374491, 0xb5c0fbcf, 0xe9b5dba5],
      [0x3956c25b, 0x59f111f1, 0x923f82a4, 0xab1c5ed5],
      [0xd807aa98, 0x12835b01, 0x243185be, 0x550c7dc3],
      [0x72be5d74, 0x80deb1fe, 0x9bdc06a7, 0xc19bf174],
      [0xe49b69c1, 0xefbe4786, 0x0fc19dc6, 0x240ca1cc],
      [0x2de92c6f, 0x4a7484aa, 0x5cb0a9dc, 0x76f988da],
      [0x983e5152, 0xa831c66d, 0xb00327c8, 0xbf597fc7],
      [0xc6e00bf3, 0xd5a79147, 0x06ca6351, 0x14292967],
      [0x27b70a85, 0x2e1b2138, 0x4d2c6dfc, 0x53380d13],
      [0x650a7354, 0x766a0abb, 0x81c2c92e, 0x92722c85],
      [0xa2bfe8a1, 0xa81a664b, 0xc24b8b70, 0xc76c51a3],
      [0xd192e819, 0xd6990624, 0xf40e3585, 0x106aa070],
      [0x19a4c116, 0x1e376c08, 0x2748774c, 0x34b0bcb5],
      [0x391c0cb3, 0x4ed8aa4a, 0x5b9cca4f, 0x682e6ff3],
      [0x748f82ee, 0x78a5636f, 0x84c87814, 0x8cc70208],
      [0x90befffa, 0xa4506ceb, 0xbef9a3f7, 0xc67178f2]]"

definition rotr :: "u32 \<Rightarrow> nat \<Rightarrow> u32" where
  "rotr x n = drop_bit n x OR push_bit (32 - n) x"

definition ch :: "u32 \<Rightarrow> u32 \<Rightarrow> u32 \<Rightarrow> u32" where
  "ch x y z = (x AND y) XOR (NOT x AND z)"

definition maj :: "u32 \<Rightarrow> u32 \<Rightarrow> u32 \<Rightarrow> u32" where
  "maj x y z = (x AND y) XOR (x AND z) XOR (y AND z)"

definition bsig0 :: "u32 \<Rightarrow> u32" where
  "bsig0 x = rotr x 2 XOR rotr x 13 XOR rotr x 22"

definition bsig1 :: "u32 \<Rightarrow> u32" where
  "bsig1 x = rotr x 6 XOR rotr x 11 XOR rotr x 25"

definition ssig0 :: "u32 \<Rightarrow> u32" where
  "ssig0 x = rotr x 7 XOR rotr x 18 XOR drop_bit 3 x"

definition ssig1 :: "u32 \<Rightarrow> u32" where
  "ssig1 x = rotr x 17 XOR rotr x 19 XOR drop_bit 10 x"

definition sha256_expand :: "u32 list \<Rightarrow> u32 list" where
  "sha256_expand w =
     fold (\<lambda>i w. w[i := ssig1 (w ! (i - 2)) + w ! (i - 7) + ssig0 (w ! (i - 15)) + w ! (i - 16)])
       [16..<64] w"

type_synonym sha256_vars =
  "u32 \<times> u32 \<times> u32 \<times> u32 \<times> u32 \<times> u32 \<times> u32 \<times> u32"

definition sha256_round :: "u32 list \<Rightarrow> nat \<Rightarrow> sha256_vars \<Rightarrow> sha256_vars" where
  "sha256_round w i = (\<lambda>(a, b, c, d, e, f, g, h).
     let t1 = h + bsig1 e + ch e f g + sha256_K ! i + w ! i;
         t2 = bsig0 a + maj a b c
     in (t1 + t2, a, b, c, d + t1, e, f, g))"

text \<open>
  \<open>w\<close> is an uninitialised local array of 64 words, of which the first loop sets the first 16 and
  the second the others before they are read; the model starts it from zeros.
\<close>

definition sha256_process_block :: "byte list \<Rightarrow> sha256 \<Rightarrow> sha256" where
  "sha256_process_block block s =
     (let w = sha256_expand (block_words block @ replicate 48 0);
          m = m_state s;
          (a, b, c, d, e, f, g, h) =
            fold (sha256_round w) [0..<64]
              (m ! 0, m ! 1, m ! 2, m ! 3, m ! 4, m ! 5, m ! 6, m ! 7)
      in s\<lparr>m_state := [m ! 0 + a, m ! 1 + b, m ! 2 + c, m ! 3 + d, m ! 4 + e, m ! 5 + f,
                        m ! 6 + g, m ! 7 + h]\<rparr>)"

definition sha256_init :: sha256 where
  "sha256_init =
     \<lparr>m_bufferSize = 0, m_bitSize = 0, m_buffer = replicate 64 0, m_state = sha256_init_words\<rparr>"

definition sha256_update :: "byte list \<Rightarrow> sha256 \<Rightarrow> sha256" where
  "sha256_update data s = update_chunk sha256_process_block data s"

definition sha256_final :: "bool \<Rightarrow> sha256 \<Rightarrow> byte list \<times> sha256" where
  "sha256_final reset s =
     (let s = pad_and_process sha256_process_block s;
          s = put_front (concat (map (\<lambda>i. write_be32 (m_state s ! i)) [0..<8])) s;
          s = (if reset then s\<lparr>m_bitSize := 0, m_state := sha256_init_words\<rparr> else s)
      in (take 32 (m_buffer s), s))"

text \<open>The digest of a message given at once to a new instance.\<close>

definition sha1_digest :: "byte list \<Rightarrow> byte list" where
  "sha1_digest msg = fst (sha1_final True (sha1_update msg sha1_init))"

definition sha256_digest :: "byte list \<Rightarrow> byte list" where
  "sha256_digest msg = fst (sha256_final True (sha256_update msg sha256_init))"

end
