(* ===== verification/Authorization.thy ===== *)
theory Authorization
  imports Calendar Hashing "HOL-Library.AList"
begin

text \<open>
  The authorization module (\<open>server/authorization.inl\<close>): \<open>Account\<close>, \<open>AccountData\<close> and
  \<open>Module\<close> with the default account and grade types. An \<open>AccountData\<close> is shared by the two maps
  of the module through \<open>std::shared_ptr\<close>: the model keeps the objects in a list and the maps
  hold their positions. The maps are association lists in the order of iteration.

  What the operations take from outside is the record \<open>auth_env\<close>: the successive readings of the clock,
  the address of the account that is given a password (part of the salt), the virtual table pointer
  and the padding bytes that are part of the object representation that is saved, and the outcomes
  of the file operations. \<open>std::hash\<close> on strings is the argument \<open>hsh\<close>. The locks are not part of
  this theory: an operation is one step.
\<close>

section \<open>Files\<close>

text \<open>The content of the files by path; a path given to the system ends at its first NUL.\<close>

type_synonym files = "(string \<times> byte list) list"

definition c_str :: "string \<Rightarrow> string" where
  "c_str s = takeWhile (\<lambda>c. c \<noteq> CHR 0x00) s"

definition file_bytes :: "string \<Rightarrow> files \<Rightarrow> byte list" where
  "file_bytes path fs = (case map_of fs path of None \<Rightarrow> [] | Some bs \<Rightarrow> bs)"

text \<open>\<open>IO::SaveBinaryOnOffset\<close> at offset 0: the object replaces the first bytes of the file.\<close>

definition save_binary :: "byte list \<Rightarrow> string \<Rightarrow> files \<Rightarrow> files" where
  "save_binary obj path fs =
     AList.update (c_str path) (obj @ drop (length obj) (file_bytes (c_str path) fs)) fs"

text \<open>\<open>IO::SaveStr<true>\<close>: the string is appended on a line of its own.\<close>

definition save_str :: "string \<Rightarrow> string \<Rightarrow> files \<Rightarrow> files" where
  "save_str str path fs =
     (let old = file_bytes (c_str path) fs
      in AList.update (c_str path)
           ((if 0 < length old then old @ [10] else old) @ map byte_of_char str) fs)"

text \<open>\<open>IO::Rename\<close>; the system call replaces a file that has the new name.\<close>

definition rename_file :: "string \<Rightarrow> string \<Rightarrow> files \<Rightarrow> files" where
  "rename_file old new fs =
     (let bs = file_bytes (c_str old) fs
      in AList.update (c_str new) bs (AList.delete (c_str old) fs))"

section \<open>Accounts\<close>

definition MAX_LOGIN_SIZE :: nat where "MAX_LOGIN_SIZE = 47"
definition SALT_SIZE :: nat where "SALT_SIZE = 16"
definition PASSWORD_HASH_SIZE :: nat where "PASSWORD_HASH_SIZE = 32"

text \<open>\<open>m_grade\<close> is an enumeration over \<open>int16_t\<close>.\<close>

record account =
  m_login :: string
  m_salt :: "byte list"
  m_blockedTill :: timer
  m_password :: "byte list"
  m_grade :: int
  m_isActivated :: bool
  m_isInitialized :: bool

text \<open>A new account; \<open>Timer{}\<close> is the time of its construction.\<close>

definition new_account :: "timer \<Rightarrow> account" where
  "new_account now =
     \<lparr>m_login = replicate (MAX_LOGIN_SIZE + 1) CHR 0x00, m_salt = replicate SALT_SIZE 0,
      m_blockedTill = now, m_password = replicate PASSWORD_HASH_SIZE 0, m_grade = 0,
      m_isActivated = False, m_isInitialized = False\<rparr>"

definition get_login :: "account \<Rightarrow> string" where
  "get_login a = c_str (m_login a)"

definition hash_password :: "account \<Rightarrow> string \<Rightarrow> byte list" where
  "hash_password a password =
     fst (sha256_final False
       (sha256_update (map byte_of_char password) (sha256_update (m_salt a) sha256_init)))"

text \<open>
  \<open>IsLogonAllowed\<close>, with the two readings of the clock. The result is the flag and the error text,
  which is not written on success.
\<close>

definition is_logon_allowed ::
  "timer \<Rightarrow> timer \<Rightarrow> account \<Rightarrow> string \<Rightarrow> string \<Rightarrow> bool \<times> string" where
  "is_logon_allowed t now a password error =
     (if hash_password a password \<noteq> m_password a then (False, ''Invalid login or password'')
      else if \<not> m_isInitialized a then (False, ''Account is not initialized'')
      else if \<not> m_isActivated a then (False, ''Account is not activated'')
      else if m_blockedTill a > t \<and> now < m_blockedTill a
      then (False, ''Account is blocked till '' @ timer_to_string (m_blockedTill a))
      else (True, error))"

text \<open>
  \<open>SetLogin\<close>: \<open>memcpy\<close> into the array of 48 characters and a final NUL, \<open>None\<close> when this leaves
  the array.
\<close>

definition set_login :: "string \<Rightarrow> account \<Rightarrow> account option" where
  "set_login newLogin a =
     (if MAX_LOGIN_SIZE < length newLogin then None
      else Some (a\<lparr>m_login := newLogin @ CHR 0x00 # drop (length newLogin + 1) (m_login a)\<rparr>))"

text \<open>The salt of \<open>SetPassword\<close>: two words made of a time and of the address of the account.\<close>

definition salt_word :: "timer \<Rightarrow> nat \<Rightarrow> u64 \<Rightarrow> u64" where
  "salt_word t k address =
     push_bit 44 (word_of_int (timer_ns t)) OR (push_bit k address AND 0x00000FFF00000000)
       OR (word_of_int (timer_seconds t) AND 0x00000000FFFFFFFF)"

definition set_password :: "timer \<Rightarrow> u64 \<Rightarrow> string \<Rightarrow> account \<Rightarrow> bool \<times> account" where
  "set_password now address newPassword a =
     (let a = (if \<not> m_isInitialized a
               then a\<lparr>m_salt := word_bytes 8 (salt_word (m_blockedTill a) 20 address)
                                @ word_bytes 8 (salt_word now 32 address),
                      m_isInitialized := True, m_blockedTill := timer_of 0\<rparr>
               else a);
          digits = hash_password a newPassword
      in if m_password a = digits then (False, a) else (True, a\<lparr>m_password := digits\<rparr>))"

text \<open>
  The 120 bytes of the object: the virtual table pointer, the members in their order and the
  padding at the end. A byte of a \<open>bool\<close> other than 0 and 1 has no value.
\<close>

definition account_bytes :: "byte list \<Rightarrow> byte list \<Rightarrow> account \<Rightarrow> byte list" where
  "account_bytes vptr padding a =
     vptr @ map byte_of_char (m_login a) @ m_salt a @ word_bytes 8 (m_point (m_blockedTill a))
     @ m_password a @ word_bytes 2 (word_of_int (m_grade a) :: u16)
     @ [of_bool (m_isActivated a), of_bool (m_isInitialized a)] @ padding"

definition account_of_bytes :: "byte list \<Rightarrow> account option" where
  "account_of_bytes bs =
     (if length bs \<noteq> 120 \<or> bs ! 114 > 1 \<or> bs ! 115 > 1 then None
      else Some \<lparr>m_login = map char_of_byte (take 48 (drop 8 bs)), m_salt = take 16 (drop 56 bs),
             m_blockedTill = Timer (word_of_bytes (take 8 (drop 72 bs))),
             m_password = take 32 (drop 80 bs),
             m_grade = sint (word_of_bytes (take 2 (drop 112 bs)) :: u16),
             m_isActivated = (bs ! 114 = 1), m_isInitialized = (bs ! 115 = 1)\<rparr>)"

section \<open>The module\<close>

record account_data =
  m_account :: account
  m_dataPath :: string
  m_connection :: int
  m_lastActivity :: timer

text \<open>
  \<open>m_logoutEvent\<close> is the argument list of the \<open>Start\<close> that runs it: seconds to the first call,
  seconds between calls, and whether it is called at once.
\<close>

record auth =
  m_logonConnectionToAccountData :: "(int \<times> nat) list"
  m_loginHashToAccountData :: "(u64 \<times> nat) list"
  heap :: "account_data list"
  m_moduleDataPath :: string
  m_logoutEvent :: "(int \<times> int \<times> bool) option"
  m_logoutTimeout :: duration
  m_startTime :: timer
  m_isStarted :: bool
  files :: files

record auth_env =
  env_clock :: "nat \<Rightarrow> timer"
  env_address :: u64
  env_vptr :: "byte list"
  env_padding :: "byte list"
  env_save :: bool
  env_rename :: bool
  env_log :: bool

definition new_module :: "files \<Rightarrow> auth" where
  "new_module fs =
     \<lparr>m_logonConnectionToAccountData = [], m_loginHashToAccountData = [], heap = [],
      m_moduleDataPath = [], m_logoutEvent = None, m_logoutTimeout = duration_of (12 * 3600000000000),
      m_startTime = timer_of 0, m_isStarted = False, files = fs\<rparr>"

abbreviation object :: "auth \<Rightarrow> nat \<Rightarrow> account" where
  "object s i \<equiv> m_account (heap s ! i)"

definition set_account_data :: "nat \<Rightarrow> (account_data \<Rightarrow> account_data) \<Rightarrow> auth \<Rightarrow> auth" where
  "set_account_data i f s = s\<lparr>heap := (heap s)[i := f (heap s ! i)]\<rparr>"

definition set_object :: "nat \<Rightarrow> account \<Rightarrow> auth \<Rightarrow> auth" where
  "set_object i a = set_account_data i (\<lambda>d. d\<lparr>m_account := a\<rparr>)"

definition set_connection :: "nat \<Rightarrow> int \<Rightarrow> auth \<Rightarrow> auth" where
  "set_connection i c = set_account_data i (\<lambda>d. d\<lparr>m_connection := c\<rparr>)"

text \<open>\<open>AccountData::Save\<close>\<close>

definition save :: "auth_env \<Rightarrow> nat \<Rightarrow> auth \<Rightarrow> bool \<times> auth" where
  "save e i s =
     (if env_save e
      then (True, s\<lparr>files := save_binary (account_bytes (env_vptr e) (env_padding e) (object s i))
                               (m_dataPath (heap s ! i)) (files s)\<rparr>)
      else (False, s))"

definition on_account_activity :: "auth_env \<Rightarrow> nat \<Rightarrow> timer \<Rightarrow> string \<Rightarrow> auth \<Rightarrow> auth" where
  "on_account_activity e i timestamp description s =
     (let s = set_account_data i (\<lambda>d. d\<lparr>m_lastActivity := timestamp\<rparr>) s
      in if env_log e
         then s\<lparr>files := save_str description (m_dataPath (heap s ! i)) (files s)\<rparr>
         else s)"

section \<open>Requirements\<close>

definition check_login_requirements :: "string \<Rightarrow> string \<Rightarrow> bool \<times> string" where
  "check_login_requirements login error =
     (if login = [] then (False, ''Login cannot be empty'')
      else if MAX_LOGIN_SIZE < length login
      then (False, ''Login size cannot be greater than '' @ show_nat MAX_LOGIN_SIZE @ '' characters'')
      else (True, error))"

definition check_login_as_path :: "string \<Rightarrow> string \<Rightarrow> bool \<times> string" where
  "check_login_as_path login error =
     (if login = ''.'' \<or> login = ''..'' then (False, ''Invalid login'')
      else if \<exists>c \<in> set login. c \<in> {CHR ''/'', CHR 0x5C, CHR '' '', CHR 0x0A, CHR 0x09}
      then (False, ''Login contains invalid characters'')
      else (True, error))"

text \<open>The character classes of the C locale.\<close>

definition is_upper :: "char \<Rightarrow> bool" where
  "is_upper c \<longleftrightarrow> 65 \<le> (of_char c :: nat) \<and> (of_char c :: nat) \<le> 90"

definition is_lower :: "char \<Rightarrow> bool" where
  "is_lower c \<longleftrightarrow> 97 \<le> (of_char c :: nat) \<and> (of_char c :: nat) \<le> 122"

definition is_space :: "char \<Rightarrow> bool" where
  "is_space c \<longleftrightarrow> (of_char c :: nat) = 32 \<or> 9 \<le> (of_char c :: nat) \<and> (of_char c :: nat) \<le> 13"

record found =
  hasLower :: bool
  hasUpper :: bool
  hasDigit :: bool
  hasSpecial :: bool

definition note_char :: "char \<Rightarrow> found \<Rightarrow> found" where
  "note_char c f =
     (if is_digit c then f\<lparr>hasDigit := True\<rparr>
      else if is_upper c then f\<lparr>hasUpper := True\<rparr>
      else if is_lower c then f\<lparr>hasLower := True\<rparr>
      else if \<not> is_space c then f\<lparr>hasSpecial := True\<rparr>
      else f)"

text \<open>The loop of \<open>CheckPasswordRequirements\<close>: \<open>valid\<close> at the \<open>break\<close>, and the flags.\<close>

fun scan_password :: "string \<Rightarrow> found \<Rightarrow> bool \<times> found" where
  "scan_password [] f = (False, f)"
| "scan_password (c # cs) f =
     (let f = note_char c f
      in if hasLower f \<and> hasUpper f \<and> hasDigit f \<and> hasSpecial f then (True, f)
         else scan_password cs f)"

text \<open>One of the four error clauses: the text so far and whether it is still empty.\<close>

definition requirement_error :: "bool \<Rightarrow> string \<Rightarrow> bool \<times> string \<Rightarrow> bool \<times> string" where
  "requirement_error has what = (\<lambda>(empty, error).
     if has then (empty, error)
     else if \<not> empty then (empty, error @ '', at least one '' @ what)
     else (False, ''Password must contain at least one '' @ what))"

definition check_password_requirements :: "string \<Rightarrow> string \<Rightarrow> bool \<times> string" where
  "check_password_requirements password error =
     (if length password < 8 then (False, ''Password size cannot be less than 8 characters'')
      else if 28 < length password
      then (False, ''Password size cannot be greater than 28 characters'')
      else
        (let (valid, f) = scan_password password \<lparr>hasLower = False, hasUpper = False,
               hasDigit = False, hasSpecial = False\<rparr>
         in if valid then (True, error)
            else (False, snd (requirement_error (hasSpecial f) ''special character''
              (requirement_error (hasDigit f) ''digit''
                (requirement_error (hasUpper f) ''uppercase letter''
                  (requirement_error (hasLower f) ''lowercase letter'' (True, error))))))))"

end
