(* ===== verification/AuthorizationModule.thy ===== *)
theory AuthorizationModule
  imports Authorization
begin

text \<open>
  The operations of \<open>Authorization::Base::Module\<close>. The \<open>n\<close>-th \<open>Timer{}\<close> of an operation is
  \<open>env_clock e n\<close>; the text arguments \<open>error\<close> are the reference parameters, whose value after the
  call is part of the result. An operation that copies a login is \<open>None\<close> when the copy leaves the
  array of the account; one that adds to a time is \<open>None\<close> when the sum is not an \<open>int64_t\<close>.
\<close>

section \<open>The two maps\<close>

text \<open>\<open>std::unordered_map::emplace\<close>\<close>

definition emplace_entry :: "'k \<Rightarrow> 'v \<Rightarrow> ('k \<times> 'v) list \<Rightarrow> ('k \<times> 'v) list" where
  "emplace_entry k v m = (if map_of m k = None then m @ [(k, v)] else m)"

definition find_account :: "(string \<Rightarrow> u64) \<Rightarrow> string \<Rightarrow> auth \<Rightarrow> nat option" where
  "find_account hsh login s = map_of (m_loginHashToAccountData s) (hsh login)"

definition drop_connection :: "int \<Rightarrow> auth \<Rightarrow> auth" where
  "drop_connection c s =
     s\<lparr>m_logonConnectionToAccountData := AList.delete c (m_logonConnectionToAccountData s)\<rparr>"

text \<open>\<open>make_shared<AccountData>\<close> emplaced under a hash that the map does not have yet.\<close>

definition emplace_account :: "u64 \<Rightarrow> account \<Rightarrow> string \<Rightarrow> auth \<Rightarrow> auth" where
  "emplace_account h a path s =
     (if map_of (m_loginHashToAccountData s) h = None
      then s\<lparr>m_loginHashToAccountData := emplace_entry h (length (heap s)) (m_loginHashToAccountData s),
             heap := heap s @ [\<lparr>m_account = a, m_dataPath = path, m_connection = - 1,
                               m_lastActivity = timer_of 0\<rparr>]\<rparr>
      else s)"

section \<open>Start and Stop\<close>

text \<open>
  What \<open>Start\<close> finds: the directory of the executable (none when its link cannot be read), whether the
  accounts directory exists, can be opened, listed and created, the names of its regular files, and
  which files can be read.
\<close>

record start_env =
  executable_dir :: "string option"
  dir_exists :: bool
  dir_opens :: bool
  dir_names :: "string list option"
  dir_created :: bool
  readable :: "string \<Rightarrow> bool"

text \<open>\<open>IO::ReadBinary\<close> of an account: false when the file is missing or shorter than the object.\<close>

definition read_binary :: "(string \<Rightarrow> bool) \<Rightarrow> string \<Rightarrow> files \<Rightarrow> byte list option" where
  "read_binary rd path fs =
     (case map_of fs (c_str path) of
        None \<Rightarrow> None
      | Some bs \<Rightarrow> if rd (c_str path) \<and> 120 \<le> length bs then Some (take 120 bs) else None)"

fun load_accounts ::
  "(string \<Rightarrow> u64) \<Rightarrow> (string \<Rightarrow> bool) \<Rightarrow> string list \<Rightarrow> auth \<Rightarrow> (bool \<times> auth) option" where
  "load_accounts hsh rd [] s = Some (True, s)"
| "load_accounts hsh rd (n # ns) s =
     (let path = m_moduleDataPath s @ n
      in case read_binary rd path (files s) of
           None \<Rightarrow> Some (False, s)
         | Some bs \<Rightarrow>
             (case account_of_bytes bs of
                None \<Rightarrow> None
              | Some a \<Rightarrow>
                  if \<not> m_isInitialized a then load_accounts hsh rd ns s
                  else load_accounts hsh rd ns (emplace_account (hsh (get_login a)) a path s)))"

text \<open>
  The data path that \<open>Start\<close> uses. \<open>GetExecutableDir\<close> leaves the 512 NUL characters of its argument
  as they are when the link cannot be read, and clears it when the link has no slash.
\<close>

definition start_path :: "start_env \<Rightarrow> auth \<Rightarrow> string" where
  "start_path d s =
     (if m_moduleDataPath s \<noteq> [] then m_moduleDataPath s
      else
        (let path = (case executable_dir d of None \<Rightarrow> replicate 512 (CHR 0x00) | Some p \<Rightarrow> p)
         in if path = [] then [] else path @ ''../data/accounts/''))"

definition start :: "(string \<Rightarrow> u64) \<Rightarrow> start_env \<Rightarrow> timer \<Rightarrow> auth \<Rightarrow> (bool \<times> auth) option" where
  "start hsh d now s =
     (if m_isStarted s then Some (True, s)
      else
        (let s = s\<lparr>m_moduleDataPath := start_path d s\<rparr>;
             loaded = (if m_moduleDataPath s = [] then Some (False, s)
                       else if dir_exists d
                       then (if \<not> dir_opens d then Some (False, s)
                             else case dir_names d of
                                    None \<Rightarrow> Some (False, s)
                                  | Some names \<Rightarrow> load_accounts hsh (readable d) names s)
                       else Some (dir_created d, s))
         in case loaded of
              None \<Rightarrow> None
            | Some (False, s) \<Rightarrow> Some (False, s)
            | Some (True, s) \<Rightarrow>
                Some (True, s\<lparr>m_logoutEvent := Some (duration_seconds (m_logoutTimeout s), 60, False),
                              m_isStarted := True, m_startTime := now\<rparr>)))"

definition stop :: "auth_env \<Rightarrow> auth \<Rightarrow> auth" where
  "stop e s =
     (if \<not> m_isStarted s then s
      else
        (let s = s\<lparr>m_logoutEvent := None\<rparr>;
             t = env_clock e 0;
             s = fold (\<lambda>(c, i). on_account_activity e i t
                     (''Logout due to module stop at '' @ timer_to_string t @ '', connection '' @ show_int c))
                   (m_logonConnectionToAccountData s) s
         in s\<lparr>m_logonConnectionToAccountData := [], m_loginHashToAccountData := [],
              m_isStarted := False, m_startTime := timer_of 0\<rparr>))"

section \<open>Accounts\<close>

definition register_account ::
  "(string \<Rightarrow> u64) \<Rightarrow> auth_env \<Rightarrow> string \<Rightarrow> string \<Rightarrow> string \<Rightarrow> auth \<Rightarrow> (bool \<times> string \<times> auth) option" where
  "register_account hsh e login password error s =
     (let (ok, error) = check_login_as_path login error in
      if \<not> ok then Some (False, error, s) else
      let (ok, error) = check_login_requirements login error in
      if \<not> ok then Some (False, error, s) else
      let (ok, error) = check_password_requirements password error in
      if \<not> ok then Some (False, error, s) else
      if find_account hsh login s \<noteq> None
      then Some (False, ''Account with this login already exists'', s)
      else case set_login login (new_account (env_clock e 0)) of
             None \<Rightarrow> None
           | Some a \<Rightarrow>
               (let i = length (heap s);
                    s = emplace_account (hsh login) a (m_moduleDataPath s @ login) s;
                    t = env_clock e 1;
                    s = set_object i (snd (set_password (env_clock e 2) (env_address e) password a)) s;
                    (saved, s) = save e i s
                in if \<not> saved
                   then Some (False, ''Account registration failed'',
                     s\<lparr>m_loginHashToAccountData := AList.delete (hsh login) (m_loginHashToAccountData s)\<rparr>)
                   else Some (True, error,
                     on_account_activity e i t (''Registered at '' @ timer_to_string t) s)))"

definition delete_account :: "(string \<Rightarrow> u64) \<Rightarrow> auth_env \<Rightarrow> string \<Rightarrow> auth \<Rightarrow> auth" where
  "delete_account hsh e login s =
     (case find_account hsh login s of
        None \<Rightarrow> s
      | Some i \<Rightarrow>
          (let s = s\<lparr>m_loginHashToAccountData := AList.delete (hsh login) (m_loginHashToAccountData s)\<rparr>;
               t = env_clock e 0;
               c = m_connection (heap s ! i);
               s = (if c \<noteq> - 1
                    then on_account_activity e i t
                           (''Logout due to deletion at '' @ timer_to_string t @ '', connection '' @ show_int c)
                           (set_connection i (- 1) (drop_connection c s))
                    else s);
               s = set_object i ((object s i)\<lparr>m_isInitialized := False, m_isActivated := False\<rparr>) s;
               s = on_account_activity e i t
                     (''Marked as uninitialized and deactivated at '' @ timer_to_string t) s
           in snd (save e i s)))"

text \<open>
  Undoing the change of a login: the map has the account under its old hash again. The error texts
  of the paths that do not set one are unchanged.
\<close>

definition revert_login ::
  "(string \<Rightarrow> u64) \<Rightarrow> auth_env \<Rightarrow> string \<Rightarrow> string \<Rightarrow> nat \<Rightarrow> string \<Rightarrow> auth \<Rightarrow> auth option" where
  "revert_login hsh e oldLogin newLogin i what s =
     (case set_login oldLogin (object s i) of
        None \<Rightarrow> None
      | Some a \<Rightarrow>
          (let s = set_object i a s;
               s = s\<lparr>m_loginHashToAccountData :=
                       AList.delete (hsh newLogin) (emplace_entry (hsh oldLogin) i (m_loginHashToAccountData s))\<rparr>;
               t = env_clock e 0
           in Some (on_account_activity e i t
                (''Failed to '' @ what @ '' data file after login change from '' @ newLogin @ '' to ''
                   @ oldLogin @ '' at '' @ timer_to_string t @ '', reverting changes'') s)))"

definition modify_account_login ::
  "(string \<Rightarrow> u64) \<Rightarrow> auth_env \<Rightarrow> string \<Rightarrow> string \<Rightarrow> string \<Rightarrow> auth \<Rightarrow> (bool \<times> string \<times> auth) option" where
  "modify_account_login hsh e oldLogin newLogin error s =
     (let (ok, error) = check_login_as_path newLogin error in
      if \<not> ok then Some (False, error, s) else
      let (ok, error) = check_login_requirements newLogin error in
      if \<not> ok then Some (False, error, s) else
      case find_account hsh oldLogin s of
        None \<Rightarrow> Some (False, error, s)
      | Some i \<Rightarrow>
          if find_account hsh newLogin s \<noteq> None then Some (False, error, s)
          else
            (let s = s\<lparr>m_loginHashToAccountData :=
                         AList.delete (hsh oldLogin) (emplace_entry (hsh newLogin) i (m_loginHashToAccountData s))\<rparr>;
                 t = env_clock e 0
             in case set_login newLogin (object s i) of
                  None \<Rightarrow> None
                | Some a \<Rightarrow>
                    (let (saved, s) = save e i (set_object i a s) in
                     if \<not> saved
                     then map_option (\<lambda>s. (False, ''Account modification failed'', s))
                            (revert_login hsh e oldLogin newLogin i ''save'' s)
                     else if \<not> env_rename e
                     then map_option (\<lambda>s. (False, error, s))
                            (revert_login hsh e oldLogin newLogin i ''rename'' s)
                     else
                       (let newLoginPath = m_moduleDataPath s @ newLogin;
                            s = s\<lparr>files := rename_file (m_dataPath (heap s ! i)) newLoginPath (files s)\<rparr>;
                            s = set_account_data i (\<lambda>d. d\<lparr>m_dataPath := newLoginPath\<rparr>) s
                        in Some (True, error, on_account_activity e i t
                             (''Login is changed from '' @ oldLogin @ '' to '' @ newLogin @ '' at ''
                                @ timer_to_string t) s)))))"

definition modify_account_password ::
  "(string \<Rightarrow> u64) \<Rightarrow> auth_env \<Rightarrow> string \<Rightarrow> string \<Rightarrow> string \<Rightarrow> auth \<Rightarrow> bool \<times> string \<times> auth" where
  "modify_account_password hsh e login newPassword error s =
     (case find_account hsh login s of
        None \<Rightarrow> (False, error, s)
      | Some i \<Rightarrow>
          (let t = env_clock e 0 in
           if \<not> m_isInitialized (object s i)
           then (False, ''Account is not initialized'', on_account_activity e i t
                  (''Failed to change password of uninitialized account at '' @ timer_to_string t) s)
           else
             let (ok, error) = check_password_requirements newPassword error in
             if \<not> ok
             then (False, error, on_account_activity e i t
                    (''Failed to change password at '' @ timer_to_string t @ '', reason: '' @ error) s)
             else
               let oldPassword = m_password (object s i);
                   (changed, a) = set_password (env_clock e 1) (env_address e) newPassword (object s i);
                   s = set_object i a s
               in if \<not> changed
                  then (False, ''New password is the same as the current one'', on_account_activity e i t
                         (''Failed to change password at '' @ timer_to_string t @ '' to the same one'') s)
                  else
                    let (saved, s) = save e i s
                    in if \<not> saved
                       then
                         (let s = on_account_activity e i t
                                (''Failed to save data file after password change at ''
                                   @ timer_to_string t @ '', reverting changes'') s
                          in (False, ''Account modification failed'',
                               set_object i ((object s i)\<lparr>m_password := oldPassword\<rparr>) s))
                       else (True, error, on_account_activity e i t
                              (''Password is changed at '' @ timer_to_string t) s)))"

definition modify_account_grade ::
  "(string \<Rightarrow> u64) \<Rightarrow> auth_env \<Rightarrow> string \<Rightarrow> int \<Rightarrow> auth \<Rightarrow> bool \<times> auth" where
  "modify_account_grade hsh e login newGrade s =
     (case find_account hsh login s of
        None \<Rightarrow> (False, s)
      | Some i \<Rightarrow>
          (let t = env_clock e 0;
               oldGrade = m_grade (object s i) in
           if oldGrade = newGrade
           then (False, on_account_activity e i t
                  (''Failed to change grade at '' @ timer_to_string t @ '' to the same one'') s)
           else
             let (saved, s) = save e i (set_object i ((object s i)\<lparr>m_grade := newGrade\<rparr>) s)
             in if \<not> saved
                then
                  (let s = on_account_activity e i t
                         (''Failed to save data file after grade change at '' @ timer_to_string t
                            @ '', reverting changes'') s
                   in (False, set_object i ((object s i)\<lparr>m_grade := oldGrade\<rparr>) s))
                else (True, on_account_activity e i t
                       (''Grade is changed to '' @ show_int newGrade @ '' at '' @ timer_to_string t) s)))"

definition bool_word :: "bool \<Rightarrow> string" where
  "bool_word b = (if b then ''true'' else ''false'')"

definition set_account_activated_state ::
  "(string \<Rightarrow> u64) \<Rightarrow> auth_env \<Rightarrow> string \<Rightarrow> bool \<Rightarrow> auth \<Rightarrow> bool \<times> auth" where
  "set_account_activated_state hsh e login isActivated s =
     (case find_account hsh login s of
        None \<Rightarrow> (False, s)
      | Some i \<Rightarrow>
          (let t = env_clock e 0 in
           if m_isActivated (object s i) = isActivated
           then (False, on_account_activity e i t
                  (''Failed to change activation state at '' @ timer_to_string t @ '' to the same one'') s)
           else
             let c = m_connection (heap s ! i);
                 s = (if \<not> isActivated \<and> c \<noteq> - 1
                      then on_account_activity e i t
                             (''Logout due to deactivation at '' @ timer_to_string t @ '', connection ''
                                @ show_int c)
                             (set_connection i (- 1) (drop_connection c s))
                      else s);
                 (saved, s) = save e i (set_object i ((object s i)\<lparr>m_isActivated := isActivated\<rparr>) s)
             in if \<not> saved
                then
                  (let s = on_account_activity e i t
                         (''Failed to save data file after activation state change at ''
                            @ timer_to_string t @ '', reverting changes'') s
                   in (False, set_object i ((object s i)\<lparr>m_isActivated := \<not> isActivated\<rparr>) s))
                else (True, on_account_activity e i t
                       (''Activation state is changed to '' @ bool_word isActivated @ '' at ''
                          @ timer_to_string t) s)))"

text \<open>The macro of \<open>BlockAccountTill\<close>.\<close>

definition set_blocked_till ::
  "auth_env \<Rightarrow> nat \<Rightarrow> timer \<Rightarrow> string \<Rightarrow> timer \<Rightarrow> timer \<Rightarrow> auth \<Rightarrow> bool \<times> auth" where
  "set_blocked_till e i t log blockTill oldBlockedTill s =
     (let (saved, s) = save e i (set_object i ((object s i)\<lparr>m_blockedTill := blockTill\<rparr>) s)
      in if \<not> saved
         then
           (let s = on_account_activity e i t
                  (''Failed to save data file after blocking at '' @ timer_to_string t
                     @ '', reverting changes'') s
            in (False, set_object i ((object s i)\<lparr>m_blockedTill := oldBlockedTill\<rparr>) s))
         else (True, on_account_activity e i t log s))"

definition block_account_till ::
  "(string \<Rightarrow> u64) \<Rightarrow> auth_env \<Rightarrow> string \<Rightarrow> timer \<Rightarrow> auth \<Rightarrow> bool \<times> auth" where
  "block_account_till hsh e login blockedTill s =
     (let now = env_clock e 0 in
      case find_account hsh login s of
        None \<Rightarrow> (False, s)
      | Some i \<Rightarrow>
          (let block = blockedTill > now;
               t = env_clock e 1;
               oldBlockedTill = m_blockedTill (object s i) in
           if block
           then
             if oldBlockedTill \<le> now
             then
               (let c = m_connection (heap s ! i);
                    s = (if c \<noteq> - 1 \<and> map_of (m_logonConnectionToAccountData s) c \<noteq> None
                         then on_account_activity e i t
                                (''Logout due to blocking at '' @ timer_to_string t @ '', connection ''
                                   @ show_int c)
                                (set_connection i (- 1) (drop_connection c s))
                         else s)
                in set_blocked_till e i t
                     (''Blocked till '' @ timer_to_string blockedTill @ '' at '' @ timer_to_string t)
                     blockedTill oldBlockedTill s)
             else if oldBlockedTill > blockedTill
             then set_blocked_till e i t
                    (''Decrease blocked till '' @ timer_to_string blockedTill @ '' at '' @ timer_to_string t)
                    blockedTill oldBlockedTill s
             else if oldBlockedTill < blockedTill
             then set_blocked_till e i t
                    (''Increase blocked till '' @ timer_to_string blockedTill @ '' at '' @ timer_to_string t)
                    blockedTill oldBlockedTill s
             else (False, on_account_activity e i t
                    (''Failed to block at '' @ timer_to_string t @ '' to the same time ''
                       @ timer_to_string blockedTill) s)
           else if oldBlockedTill \<le> now
           then (False, on_account_activity e i t
                  (''Failed to unblock at '' @ timer_to_string t @ '', not blocked'') s)
           else set_blocked_till e i t (''Unblocked at '' @ timer_to_string t) (timer_of 0)
                  oldBlockedTill s))"

section \<open>Connections\<close>

definition logon_connection ::
  "(string \<Rightarrow> u64) \<Rightarrow> auth_env \<Rightarrow> int \<Rightarrow> string \<Rightarrow> string \<Rightarrow> string \<Rightarrow> auth \<Rightarrow> bool \<times> string \<times> auth" where
  "logon_connection hsh e c login password error s =
     (case find_account hsh login s of
        None \<Rightarrow> (False, ''Invalid login or password'', s)
      | Some i \<Rightarrow>
          (let t = env_clock e 0;
               (ok, error) = is_logon_allowed (env_clock e 1) (env_clock e 2) (object s i) password error in
           if \<not> ok
           then (False, error, on_account_activity e i t
                  (''Failed logon attempt at '' @ timer_to_string t @ '', connection '' @ show_int c
                     @ '', reason: '' @ error) s)
           else if m_connection (heap s ! i) = c
           then (False, error, on_account_activity e i t
                  (''Failed logon attempt at '' @ timer_to_string t @ '' to already logged-on connection ''
                     @ show_int c) s)
           else if m_connection (heap s ! i) \<noteq> - 1
           then (False, ''Multiple logon is not allowed'', on_account_activity e i t
                  (''Multiple logon is not allowed, attempting connection '' @ show_int c @ '' at ''
                     @ timer_to_string t) s)
           else if map_of (m_logonConnectionToAccountData s) c \<noteq> None
           then (False, ''Connection is already logged-on with another account'',
                  on_account_activity e i t
                    (''Failed logon attempt at '' @ timer_to_string t
                       @ '' to already logged-on by another account connection '' @ show_int c) s)
           else
             (let s = set_connection i c s;
                  s = s\<lparr>m_logonConnectionToAccountData :=
                          AList.update c i (m_logonConnectionToAccountData s)\<rparr>
              in (True, error, on_account_activity e i t
                   (''Logon at '' @ timer_to_string t @ '', connection '' @ show_int c) s))))"

text \<open>
  \<open>LogoutConnection\<close> works in two critical sections: the connection is taken out of its map, and
  then, under the lock of the account, the account is told.
\<close>

definition logout_take :: "int \<Rightarrow> auth \<Rightarrow> (nat \<times> auth) option" where
  "logout_take c s =
     map_option (\<lambda>i. (i, drop_connection c s)) (map_of (m_logonConnectionToAccountData s) c)"

definition logout_finish :: "auth_env \<Rightarrow> int \<Rightarrow> nat \<Rightarrow> auth \<Rightarrow> auth" where
  "logout_finish e c i s =
     (let t = env_clock e 0
      in on_account_activity e i t
           (''Logout at '' @ timer_to_string t @ '', connection '' @ show_int c) (set_connection i (- 1) s))"

definition logout_connection :: "auth_env \<Rightarrow> int \<Rightarrow> auth \<Rightarrow> auth" where
  "logout_connection e c s =
     (case logout_take c s of None \<Rightarrow> s | Some (i, s) \<Rightarrow> logout_finish e c i s)"

definition is_access_granted :: "auth_env \<Rightarrow> int \<Rightarrow> int \<Rightarrow> auth \<Rightarrow> bool \<times> auth" where
  "is_access_granted e c requiredGrade s =
     (case map_of (m_logonConnectionToAccountData s) c of
        None \<Rightarrow> (False, s)
      | Some i \<Rightarrow>
          (let t = env_clock e 0;
               granted = (m_grade (object s i) \<ge> requiredGrade)
           in (granted, on_account_activity e i t
                (''Access check for grade '' @ show_int requiredGrade @ '' at '' @ timer_to_string t
                   @ '', result: '' @ bool_word granted) s)))"

definition get_registered_accounts_size :: "auth \<Rightarrow> nat" where
  "get_registered_accounts_size s = length (m_loginHashToAccountData s)"

definition get_logon_connections_size :: "auth \<Rightarrow> nat" where
  "get_logon_connections_size s = length (m_logonConnectionToAccountData s)"

section \<open>Timeout\<close>

text \<open>
  \<open>HandleEvent\<close>: the connections whose account was last active too long ago, then their logouts, the
  \<open>k\<close>-th with the clock from its reading \<open>k\<close> on.
\<close>

fun expired :: "timer \<Rightarrow> auth \<Rightarrow> (int \<times> nat) list \<Rightarrow> int list option" where
  "expired now s [] = Some []"
| "expired now s ((c, i) # cs) =
     (case timer_plus (m_lastActivity (heap s ! i)) (m_logoutTimeout s) of
        None \<Rightarrow> None
      | Some limit \<Rightarrow>
          map_option (\<lambda>r. if limit < now then c # r else r) (expired now s cs))"

fun logout_all :: "auth_env \<Rightarrow> nat \<Rightarrow> int list \<Rightarrow> auth \<Rightarrow> auth" where
  "logout_all e k [] s = s"
| "logout_all e k (c # cs) s =
     logout_all e (k + 1) cs (logout_connection (e\<lparr>env_clock := \<lambda>n. env_clock e (k + n)\<rparr>) c s)"

definition handle_event :: "auth_env \<Rightarrow> auth \<Rightarrow> auth option" where
  "handle_event e s =
     map_option (\<lambda>cs. logout_all e 1 cs s)
       (expired (env_clock e 0) s (m_logonConnectionToAccountData s))"

text \<open>
  \<open>SetLogoutTimeout\<close>. An instant call of \<open>Event::Start\<close> runs the handler in place, before the new
  timeout is stored.
\<close>

definition set_logout_timeout :: "auth_env \<Rightarrow> duration \<Rightarrow> auth \<Rightarrow> auth option" where
  "set_logout_timeout e duration s =
     (if duration_seconds duration \<le> 0 then Some s
      else
        let now = env_clock e 0;
            s = s\<lparr>m_logoutEvent := None\<rparr>
        in case timer_plus (m_startTime s) (m_logoutTimeout s) of
             None \<Rightarrow> None
           | Some limit \<Rightarrow>
               if limit < now
               then map_option (\<lambda>s. s\<lparr>m_logoutTimeout := duration\<rparr>)
                      (handle_event (e\<lparr>env_clock := \<lambda>n. env_clock e (1 + n)\<rparr>)
                        (s\<lparr>m_logoutEvent := Some (60, 60, True)\<rparr>))
               else
                 (case timer_diff now limit of
                    None \<Rightarrow> None
                  | Some toFirstCheck \<Rightarrow>
                      if duration_seconds toFirstCheck < 60
                      then Some (s\<lparr>m_logoutEvent := Some (60, 60, False), m_logoutTimeout := duration\<rparr>)
                      else Some (s\<lparr>m_logoutEvent := Some (duration_seconds toFirstCheck, 60, False),
                                   m_logoutTimeout := duration\<rparr>)))"

end
