(* ===== verification/AuthorizationInvariant.thy ===== *)
theory AuthorizationInvariant
  imports AuthorizationModule
begin

text \<open>
  The invariant of the authorization module and what its operations guarantee. The state is seen
  through a few functions of the positions of the account objects; the primitive operations are
  described by what they do to these.
\<close>

section \<open>What the primitive operations change\<close>

named_theorems view_simps \<open>the parts of the state after an operation\<close>

abbreviation conn :: "auth \<Rightarrow> nat \<Rightarrow> int" where "conn s i \<equiv> m_connection (heap s ! i)"
abbreviation conns :: "auth \<Rightarrow> int \<Rightarrow> nat option" where
  "conns s \<equiv> map_of (m_logonConnectionToAccountData s)"
abbreviation accounts :: "auth \<Rightarrow> u64 \<Rightarrow> nat option" where
  "accounts s \<equiv> map_of (m_loginHashToAccountData s)"

lemma set_data_fields [view_simps]:
  "m_logonConnectionToAccountData (set_account_data i f s) = m_logonConnectionToAccountData s"
  "m_loginHashToAccountData (set_account_data i f s) = m_loginHashToAccountData s"
  "length (heap (set_account_data i f s)) = length (heap s)"
  "heap (set_account_data i f s) ! j = (if j = i \<and> i < length (heap s) then f (heap s ! i) else heap s ! j)"
  "m_moduleDataPath (set_account_data i f s) = m_moduleDataPath s"
  "files (set_account_data i f s) = files s"
  by (auto simp: set_account_data_def nth_list_update list_update_beyond)

lemma set_object_fields [view_simps]:
  "m_logonConnectionToAccountData (set_object i a s) = m_logonConnectionToAccountData s"
  "m_loginHashToAccountData (set_object i a s) = m_loginHashToAccountData s"
  "length (heap (set_object i a s)) = length (heap s)"
  "object (set_object i a s) j = (if j = i \<and> i < length (heap s) then a else object s j)"
  "conn (set_object i a s) j = conn s j"
  "m_dataPath (heap (set_object i a s) ! j) = m_dataPath (heap s ! j)"
  "m_moduleDataPath (set_object i a s) = m_moduleDataPath s"
  "files (set_object i a s) = files s"
  by (auto simp: set_object_def view_simps)

lemma set_connection_fields [view_simps]:
  "m_logonConnectionToAccountData (set_connection i c s) = m_logonConnectionToAccountData s"
  "m_loginHashToAccountData (set_connection i c s) = m_loginHashToAccountData s"
  "length (heap (set_connection i c s)) = length (heap s)"
  "object (set_connection i c s) j = object s j"
  "conn (set_connection i c s) j = (if j = i \<and> i < length (heap s) then c else conn s j)"
  by (auto simp: set_connection_def view_simps)

lemma activity_fields [view_simps]:
  "m_logonConnectionToAccountData (on_account_activity e i t d s) = m_logonConnectionToAccountData s"
  "m_loginHashToAccountData (on_account_activity e i t d s) = m_loginHashToAccountData s"
  "length (heap (on_account_activity e i t d s)) = length (heap s)"
  "object (on_account_activity e i t d s) j = object s j"
  "conn (on_account_activity e i t d s) j = conn s j"
  "m_dataPath (heap (on_account_activity e i t d s) ! j) = m_dataPath (heap s ! j)"
  "m_moduleDataPath (on_account_activity e i t d s) = m_moduleDataPath s"
  by (auto simp: on_account_activity_def Let_def view_simps)

lemma save_fields [view_simps]:
  "m_logonConnectionToAccountData (snd (save e i s)) = m_logonConnectionToAccountData s"
  "m_loginHashToAccountData (snd (save e i s)) = m_loginHashToAccountData s"
  "heap (snd (save e i s)) = heap s" "m_moduleDataPath (snd (save e i s)) = m_moduleDataPath s"
  "fst (save e i s) = env_save e"
  by (simp_all add: save_def)

lemma erase_connection_fields [view_simps]:
  "conns (drop_connection c s) = (conns s)(c := None)"
  "m_loginHashToAccountData (drop_connection c s) = m_loginHashToAccountData s"
  "heap (drop_connection c s) = heap s"
  by (simp_all add: drop_connection_def delete_conv')

lemma map_of_emplace [view_simps]:
  "map_of (emplace_entry k v m) = (if map_of m k = None then (map_of m)(k \<mapsto> v) else map_of m)"
  by (auto simp: emplace_entry_def map_add_def fun_eq_iff split: option.splits)

section \<open>The invariant\<close>

text \<open>
  Connections and accounts are linked in both directions: a connection in the map belongs to a
  registered, initialized and activated account that names this connection, and a registered
  account that names a connection is the one the map has for it.
\<close>

definition linked ::
  "(int \<Rightarrow> nat option) \<Rightarrow> (u64 \<Rightarrow> nat option) \<Rightarrow> nat \<Rightarrow> (nat \<Rightarrow> int) \<Rightarrow> (nat \<Rightarrow> account) \<Rightarrow> bool" where
  "linked C A n con obj \<longleftrightarrow>
     (\<forall>h i. A h = Some i \<longrightarrow> i < n \<and> m_isInitialized (obj i))
   \<and> (\<forall>h h' i. A h = Some i \<longrightarrow> A h' = Some i \<longrightarrow> h = h')
   \<and> (\<forall>c i. C c = Some i \<longrightarrow> c \<noteq> - 1 \<and> (\<exists>h. A h = Some i) \<and> con i = c \<and> m_isActivated (obj i))
   \<and> (\<forall>h i. A h = Some i \<longrightarrow> con i \<noteq> - 1 \<longrightarrow> C (con i) = Some i)"

definition auth_inv :: "auth \<Rightarrow> bool" where
  "auth_inv s \<longleftrightarrow>
     distinct (map fst (m_logonConnectionToAccountData s))
   \<and> distinct (map fst (m_loginHashToAccountData s))
   \<and> linked (conns s) (accounts s) (length (heap s)) (conn s) (object s)"

lemma distinct_keys [view_simps]:
  "distinct (map fst m) \<Longrightarrow> distinct (map fst (AList.delete k m))"
  "distinct (map fst m) \<Longrightarrow> distinct (map fst (AList.update k v m))"
  "distinct (map fst m) \<Longrightarrow> distinct (map fst (emplace_entry k v m))"
  by (auto simp: distinct_delete distinct_update emplace_entry_def map_of_eq_None_iff)

lemma keys_erase_connection [view_simps]:
  "distinct (map fst (m_logonConnectionToAccountData s)) \<Longrightarrow>
    distinct (map fst (m_logonConnectionToAccountData (drop_connection c s)))"
  by (simp add: drop_connection_def view_simps)

text \<open>An operation that leaves the maps, the connections and the accounts as they are.\<close>

locale quiet_operation =
  fixes f :: "auth \<Rightarrow> auth"
  assumes same_maps: "m_logonConnectionToAccountData (f s) = m_logonConnectionToAccountData s"
      "m_loginHashToAccountData (f s) = m_loginHashToAccountData s"
    and same_heap: "length (heap (f s)) = length (heap s)" "object (f s) i = object s i"
      "conn (f s) i = conn s i"
begin

lemma keeps_inv: "auth_inv (f s) \<longleftrightarrow> auth_inv s"
  unfolding auth_inv_def by (simp add: same_maps same_heap)

lemma keeps_access: "conns (f s) c = conns s c" "accounts (f s) h = accounts s h"
  by (simp_all add: same_maps)

end

interpretation activity: quiet_operation "on_account_activity e i t d" for e i t d
  by unfold_locales (simp_all add: view_simps)

interpretation saving: quiet_operation "\<lambda>s. snd (save e i s)" for e i
  by unfold_locales (simp_all add: view_simps)

lemmas quiet = activity.keeps_inv saving.keeps_inv

text \<open>The changes of the link, one for each kind of operation.\<close>

lemma linkedI:
  assumes "\<And>h i. A h = Some i \<Longrightarrow> i < n" "\<And>h i. A h = Some i \<Longrightarrow> m_isInitialized (obj i)"
    "\<And>h h' i. A h = Some i \<Longrightarrow> A h' = Some i \<Longrightarrow> h = h'"
    "\<And>c i. C c = Some i \<Longrightarrow> c \<noteq> - 1" "\<And>c i. C c = Some i \<Longrightarrow> \<exists>h. A h = Some i"
    "\<And>c i. C c = Some i \<Longrightarrow> con i = c" "\<And>c i. C c = Some i \<Longrightarrow> m_isActivated (obj i)"
    "\<And>h i. A h = Some i \<Longrightarrow> con i \<noteq> - 1 \<Longrightarrow> C (con i) = Some i"
  shows "linked C A n con obj"
  unfolding linked_def using assms by (intro conjI allI impI) metis+

lemma linkedD:
  assumes "linked C A n con obj"
  shows "A h = Some i \<Longrightarrow> i < n" "A h = Some i \<Longrightarrow> m_isInitialized (obj i)"
    "A h = Some i \<Longrightarrow> A h' = Some i \<Longrightarrow> h = h'"
    "C c = Some i \<Longrightarrow> c \<noteq> - 1" "C c = Some i \<Longrightarrow> \<exists>h. A h = Some i"
    "C c = Some i \<Longrightarrow> con i = c" "C c = Some i \<Longrightarrow> m_isActivated (obj i)"
    "A h = Some i \<Longrightarrow> con i \<noteq> - 1 \<Longrightarrow> C (con i) = Some i"
  using assms unfolding linked_def by metis+

lemma linked_logout:
  assumes l: "linked C A n con obj" and c: "C c = Some i"
  shows "linked (C(c := None)) A n (con(i := - 1)) obj"
proof -
  note d = linkedD [OF l]
  have i: "con i = c" using d(6) [OF c] .
  show ?thesis
  proof (rule linkedI)
    fix h j
    assume "A h = Some j" "(con(i := - 1)) j \<noteq> - 1"
    then show "(C(c := None)) ((con(i := - 1)) j) = Some j"
      using d(8) c by (auto split: if_splits)
  next
    fix c' j
    assume "(C(c := None)) c' = Some j"
    then have "C c' = Some j" "c' \<noteq> c" by (auto split: if_splits)
    then show "c' \<noteq> - 1" "\<exists>h. A h = Some j" "(con(i := - 1)) j = c'" "m_isActivated (obj j)"
      using d(4,5,6,7) i by auto
  qed (use d(1-3) in auto)
qed

lemma linked_logon:
  assumes l: "linked C A n con obj" and i: "A h = Some i" "con i = - 1" "m_isActivated (obj i)"
    and c: "c \<noteq> - 1" "C c = None"
  shows "linked (C(c \<mapsto> i)) A n (con(i := c)) obj"
proof -
  note d = linkedD [OF l]
  show ?thesis
  proof (rule linkedI)
    fix h j
    assume "A h = Some j" "(con(i := c)) j \<noteq> - 1"
    then show "(C(c \<mapsto> i)) ((con(i := c)) j) = Some j"
      using d(8) c by (cases "j = i") (auto split: if_splits)
  next
    fix c' j
    assume "(C(c \<mapsto> i)) c' = Some j"
    then show "c' \<noteq> - 1" "\<exists>h. A h = Some j" "(con(i := c)) j = c'" "m_isActivated (obj j)"
      using d(4,5,6,7) i c by (auto split: if_splits)
  qed (use d(1-3) in auto)
qed

lemma linked_object:
  assumes l: "linked C A n con obj" and "m_isInitialized a"
    and "con i \<noteq> - 1 \<Longrightarrow> m_isActivated (obj i) \<Longrightarrow> m_isActivated a"
  shows "linked C A n con (obj(i := a))"
proof (rule linkedI)
  fix c j
  assume "C c = Some j"
  then show "m_isActivated ((obj(i := a)) j)"
    using assms(3) linkedD(4,6,7) [OF l, of c j] by auto
qed (use assms(2) linkedD [OF l] in \<open>auto split: if_splits\<close>)

lemma linked_add:
  assumes l: "linked C A n con obj" and h: "A h = None" and a: "m_isInitialized a"
  shows "linked C (A(h \<mapsto> n)) (Suc n) (con(n := - 1)) (obj(n := a))"
proof -
  note d = linkedD [OF l]
  have n: "A k \<noteq> Some n" "C c \<noteq> Some n" for k c using d(1,5) by blast+
  show ?thesis
  proof (rule linkedI)
    fix c j
    assume c: "C c = Some j"
    then have "j \<noteq> n" using n by auto
    obtain k where k: "A k = Some j" using d(5) [OF c] by blast
    then have "k \<noteq> h" using h by auto
    then show "\<exists>k. (A(h \<mapsto> n)) k = Some j" using k by auto
    show "c \<noteq> - 1" "(con(n := - 1)) j = c" "m_isActivated ((obj(n := a)) j)"
      using d(4,6,7) [OF c] \<open>j \<noteq> n\<close> by auto
  next
    fix k j
    assume "(A(h \<mapsto> n)) k = Some j" "(con(n := - 1)) j \<noteq> - 1"
    then show "C ((con(n := - 1)) j) = Some j" using d(8) by (auto split: if_splits)
  next
    fix k k' j
    assume "(A(h \<mapsto> n)) k = Some j" "(A(h \<mapsto> n)) k' = Some j"
    then show "k = k'" using d(3) n by (auto split: if_splits)
  qed (use d(1,2) a n in \<open>auto split: if_splits simp: less_Suc_eq\<close>)
qed

lemma linked_remove:
  assumes l: "linked C A n con obj" and h: "A h = Some i" and i: "con i = - 1"
  shows "linked C (A(h := None)) n con (obj(i := a))"
proof -
  note d = linkedD [OF l]
  have c: "C c \<noteq> Some i" for c using d(4,6) i by metis
  show ?thesis
  proof (rule linkedI)
    fix k j
    assume "(A(h := None)) k = Some j"
    then have "A k = Some j" "k \<noteq> h" by (auto split: if_splits)
    moreover from this have "j \<noteq> i" using d(3) h by blast
    ultimately show "j < n" "m_isInitialized ((obj(i := a)) j)" "con j \<noteq> - 1 \<Longrightarrow> C (con j) = Some j"
      using d(1,2,8) by auto
  next
    fix c' j
    assume c': "C c' = Some j"
    then have "j \<noteq> i" using c by auto
    obtain k where k: "A k = Some j" using d(5) [OF c'] by blast
    then have "k \<noteq> h" using h \<open>j \<noteq> i\<close> by auto
    then show "\<exists>k. (A(h := None)) k = Some j" using k by auto
    show "c' \<noteq> - 1" "con j = c'" "m_isActivated ((obj(i := a)) j)"
      using d(4,6,7) [OF c'] \<open>j \<noteq> i\<close> by auto
  qed (use d(3) in \<open>auto split: if_splits\<close>)
qed

lemma linked_move:
  assumes l: "linked C A n con obj" and h: "A h = Some i" and h': "A h' = None"
  shows "linked C ((A(h' \<mapsto> i))(h := None)) n con obj"
proof -
  note d = linkedD [OF l]
  have ne: "h' \<noteq> h" using h h' by auto
  have A: "\<exists>k. A k = Some j" if "((A(h' \<mapsto> i))(h := None)) k = Some j" for k j
    using that h by (auto split: if_splits)
  show ?thesis
  proof (rule linkedI)
    fix k j
    assume "((A(h' \<mapsto> i))(h := None)) k = Some j"
    then obtain k' where "A k' = Some j" using A by blast
    then show "j < n" "m_isInitialized (obj j)" "con j \<noteq> - 1 \<Longrightarrow> C (con j) = Some j"
      using d(1,2,8) by blast+
  next
    fix k k' j
    assume "((A(h' \<mapsto> i))(h := None)) k = Some j" "((A(h' \<mapsto> i))(h := None)) k' = Some j"
    then show "k = k'" using d(3) h by (auto split: if_splits)
  next
    fix c j
    assume c: "C c = Some j"
    obtain k where k: "A k = Some j" using d(5) [OF c] by blast
    have "((A(h' \<mapsto> i))(h := None)) (if k = h then h' else k) = Some j"
      using k h h' ne by (auto split: if_splits)
    then show "\<exists>k. ((A(h' \<mapsto> i))(h := None)) k = Some j" by blast
    show "c \<noteq> - 1" "con j = c" "m_isActivated (obj j)" using d(4,6,7) [OF c] by auto
  qed
qed

text \<open>The same on states.\<close>

lemma conn_set_connection:
  "i < length (heap s) \<Longrightarrow> conn (set_connection i c s) = (conn s)(i := c)"
  by (auto simp: view_simps fun_eq_iff)

lemma object_set_object: "i < length (heap s) \<Longrightarrow> object (set_object i a s) = (object s)(i := a)"
  by (auto simp: view_simps fun_eq_iff)

lemma invD:
  assumes "auth_inv s"
  shows "linked (conns s) (accounts s) (length (heap s)) (conn s) (object s)"
    "distinct (map fst (m_logonConnectionToAccountData s))"
    "distinct (map fst (m_loginHashToAccountData s))"
  using assms by (simp_all add: auth_inv_def)

lemma inv_accountD:
  assumes "auth_inv s" "accounts s h = Some i"
  shows "i < length (heap s)" "m_isInitialized (object s i)"
    "conn s i \<noteq> - 1 \<Longrightarrow> conns s (conn s i) = Some i"
    "accounts s h' = Some i \<Longrightarrow> h' = h"
  using linkedD(1-3,8) [OF invD(1) [OF assms(1)]] assms(2) by blast+

lemma inv_connectionD:
  assumes "auth_inv s" "conns s c = Some i"
  shows "c \<noteq> - 1" "\<exists>h. accounts s h = Some i" "conn s i = c" "m_isActivated (object s i)"
    "m_isInitialized (object s i)" "i < length (heap s)"
proof -
  note d = linkedD [OF invD(1) [OF assms(1)]]
  show e: "\<exists>h. accounts s h = Some i" using d(5) assms(2) by blast
  show "c \<noteq> - 1" "conn s i = c" "m_isActivated (object s i)" using d(4,6,7) assms(2) by blast+
  show "m_isInitialized (object s i)" "i < length (heap s)" using e d(1,2) by blast+
qed

lemma inv_logout:
  assumes "auth_inv s" "conns s c = Some i"
  shows "auth_inv (set_connection i (- 1) (drop_connection c s))"
proof -
  have "i < length (heap (drop_connection c s))"
    using inv_connectionD(6) [OF assms] by (simp add: view_simps)
  from conn_set_connection [OF this, of "- 1"] show ?thesis
    using linked_logout [OF invD(1) [OF assms(1)] assms(2)] invD(2,3) [OF assms(1)]
    unfolding auth_inv_def by (simp add: view_simps)
qed

lemma inv_logon:
  assumes "auth_inv s" "accounts s h = Some i" "conn s i = - 1" "m_isActivated (object s i)"
    "c \<noteq> - 1" "conns s c = None"
  shows "auth_inv ((set_connection i c s)\<lparr>m_logonConnectionToAccountData :=
    AList.update c i (m_logonConnectionToAccountData s)\<rparr>)"
  using linked_logon [OF invD(1) [OF assms(1)] assms(2-6)] invD(2,3) [OF assms(1)]
    conn_set_connection [OF inv_accountD(1) [OF assms(1,2)], of c]
  unfolding auth_inv_def by (simp add: view_simps update_conv')

lemma inv_object:
  assumes "auth_inv s" "m_isInitialized a"
    "conn s i \<noteq> - 1 \<Longrightarrow> m_isActivated (object s i) \<Longrightarrow> m_isActivated a"
  shows "auth_inv (set_object i a s)"
proof (cases "i < length (heap s)")
  case True
  have "linked (conns s) (accounts s) (length (heap s)) (conn s) ((object s)(i := a))"
    using invD(1) [OF assms(1)] assms(2,3) by (rule linked_object)
  then show ?thesis
    using object_set_object [OF True] invD(2,3) [OF assms(1)]
    unfolding auth_inv_def by (simp add: view_simps)
next
  case False
  then have "set_object i a s = s" by (simp add: set_object_def set_account_data_def list_update_beyond)
  then show ?thesis using assms(1) by simp
qed

lemma emplace_account_fields [view_simps]:
  assumes "accounts s h = None"
  shows "m_logonConnectionToAccountData (emplace_account h a p s) = m_logonConnectionToAccountData s"
    "m_loginHashToAccountData (emplace_account h a p s)
      = emplace_entry h (length (heap s)) (m_loginHashToAccountData s)"
    "heap (emplace_account h a p s) = heap s @ [\<lparr>m_account = a, m_dataPath = p, m_connection = - 1,
       m_lastActivity = timer_of 0\<rparr>]"
  using assms by (simp_all add: emplace_account_def)

lemma linked_cong:
  assumes "linked C A n con obj" "\<And>i. i < n \<Longrightarrow> con' i = con i" "\<And>i. i < n \<Longrightarrow> obj' i = obj i"
  shows "linked C A n con' obj'"
proof -
  note d = linkedD [OF assms(1)]
  have A: "con' i = con i" "obj' i = obj i" if "A h = Some i" for h i
    using d(1) [OF that] assms(2,3) by auto
  have C: "con' i = con i" "obj' i = obj i" if "C c = Some i" for c i
    using d(5) [OF that] A by blast+
  show ?thesis by (rule linkedI) (use d A C in simp_all)
qed

lemma inv_emplace:
  assumes "auth_inv s" "m_isInitialized a"
  shows "auth_inv (emplace_account h a p s)"
proof (cases "accounts s h")
  case None
  let ?s = "emplace_account h a p s"
  have "linked (conns s) ((accounts s)(h \<mapsto> length (heap s))) (Suc (length (heap s)))
      ((conn s)(length (heap s) := - 1)) ((object s)(length (heap s) := a))"
    using invD(1) [OF assms(1)] None assms(2) by (rule linked_add)
  then have "linked (conns s) ((accounts s)(h \<mapsto> length (heap s))) (Suc (length (heap s)))
      (conn ?s) (object ?s)"
    by (rule linked_cong) (auto simp: None view_simps nth_append less_Suc_eq)
  then show ?thesis
    using None invD(2,3) [OF assms(1)] unfolding auth_inv_def by (simp add: view_simps)
next
  case (Some i)
  then show ?thesis using assms(1) by (simp add: emplace_account_def)
qed

lemma inv_remove:
  assumes "auth_inv s" "accounts s h = Some i" "conn s i = - 1"
  shows "auth_inv ((set_object i a s)\<lparr>m_loginHashToAccountData := AList.delete h (m_loginHashToAccountData s)\<rparr>)"
  using linked_remove [OF invD(1) [OF assms(1)] assms(2,3), of a] invD(2,3) [OF assms(1)]
    object_set_object [OF inv_accountD(1) [OF assms(1,2)], of a]
  unfolding auth_inv_def by (simp add: view_simps delete_conv')

lemma inv_move:
  assumes "auth_inv s" "accounts s h = Some i" "accounts s h' = None"
  shows "auth_inv (s\<lparr>m_loginHashToAccountData :=
    AList.delete h (emplace_entry h' i (m_loginHashToAccountData s))\<rparr>)"
  using linked_move [OF invD(1) [OF assms(1)] assms(2,3)] invD(2,3) [OF assms(1)] assms(3)
  unfolding auth_inv_def by (simp add: view_simps delete_conv')

text \<open>Fields that the invariant does not read.\<close>

lemma inv_other_fields [simp]:
  "auth_inv (s\<lparr>files := fs\<rparr>) = auth_inv s" "auth_inv (s\<lparr>m_moduleDataPath := p\<rparr>) = auth_inv s"
  "auth_inv (s\<lparr>m_logoutEvent := v\<rparr>) = auth_inv s" "auth_inv (s\<lparr>m_logoutTimeout := d\<rparr>) = auth_inv s"
  "auth_inv (s\<lparr>m_startTime := t\<rparr>) = auth_inv s" "auth_inv (s\<lparr>m_isStarted := b\<rparr>) = auth_inv s"
  by (simp_all add: auth_inv_def)

lemma inv_set_path: "auth_inv s \<Longrightarrow> auth_inv (set_account_data i (\<lambda>d. d\<lparr>m_dataPath := p\<rparr>) s)"
proof -
  assume s: "auth_inv s"
  have "conn (set_account_data i (\<lambda>d. d\<lparr>m_dataPath := p\<rparr>) s) = conn s"
    "object (set_account_data i (\<lambda>d. d\<lparr>m_dataPath := p\<rparr>) s) = object s"
    by (auto simp: view_simps fun_eq_iff)
  then show ?thesis using s unfolding auth_inv_def by (simp add: view_simps)
qed

section \<open>Every operation keeps the invariant\<close>

lemma load_accounts_inv:
  assumes "auth_inv s" "load_accounts hsh rd ns s = Some (r, s')"
  shows "auth_inv s'"
  using assms
proof (induction ns arbitrary: s)
  case Nil
  then show ?case by simp
next
  case (Cons n ns)
  let ?p = "m_moduleDataPath s @ n"
  show ?case
  proof (cases "read_binary rd ?p (files s)")
    case None
    then show ?thesis using Cons.prems by (simp add: Let_def)
  next
    case bs: (Some bs)
    then obtain a where a: "account_of_bytes bs = Some a"
      using Cons.prems(2) by (cases "account_of_bytes bs") (simp_all add: Let_def)
    show ?thesis
    proof (cases "m_isInitialized a")
      case True
      have "load_accounts hsh rd ns (emplace_account (hsh (get_login a)) a ?p s) = Some (r, s')"
        using Cons.prems(2) bs a True by (simp add: Let_def)
      then show ?thesis by (rule Cons.IH [OF inv_emplace [OF Cons.prems(1) True]])
    next
      case False
      then have "load_accounts hsh rd ns s = Some (r, s')"
        using Cons.prems(2) bs a by (simp add: Let_def)
      then show ?thesis by (rule Cons.IH [OF Cons.prems(1)])
    qed
  qed
qed

lemma start_cases:
  assumes "start hsh d now s = Some (r, s')"
  obtains "r = True" "s' = s" "m_isStarted s"
  | s1 r1 s2 where "\<not> m_isStarted s" "s1 = s\<lparr>m_moduleDataPath := start_path d s\<rparr>"
      "s2 = s1 \<or> (\<exists>names. dir_names d = Some names
         \<and> load_accounts hsh (readable d) names s1 = Some (r1, s2))"
      "s' = (if r then s2\<lparr>m_logoutEvent := Some (duration_seconds (m_logoutTimeout s2), 60, False),
               m_isStarted := True, m_startTime := now\<rparr> else s2)"
proof -
  define s1 where "s1 = s\<lparr>m_moduleDataPath := start_path d s\<rparr>"
  define loaded where "loaded = (if m_moduleDataPath s1 = [] then Some (False, s1)
     else if dir_exists d
     then (if \<not> dir_opens d then Some (False, s1)
           else case dir_names d of None \<Rightarrow> Some (False, s1)
              | Some names \<Rightarrow> load_accounts hsh (readable d) names s1)
     else Some (dir_created d, s1))"
  show thesis
  proof (cases "m_isStarted s")
    case True
    then show ?thesis using assms that(1) by (simp add: start_def)
  next
    case False
    then have "(case loaded of None \<Rightarrow> None | Some (False, s) \<Rightarrow> Some (False, s)
       | Some (True, s) \<Rightarrow> Some (True, s\<lparr>m_logoutEvent := Some (duration_seconds (m_logoutTimeout s), 60, False),
                              m_isStarted := True, m_startTime := now\<rparr>)) = Some (r, s')"
      using assms unfolding start_def Let_def loaded_def s1_def by (simp only: if_False simp_thms)
    then obtain s2 where s2: "loaded = Some (r, s2)"
      "s' = (if r then s2\<lparr>m_logoutEvent := Some (duration_seconds (m_logoutTimeout s2), 60, False),
               m_isStarted := True, m_startTime := now\<rparr> else s2)"
      by (auto split: option.splits bool.splits)
    have "s2 = s1 \<or> (\<exists>names. dir_names d = Some names
         \<and> load_accounts hsh (readable d) names s1 = Some (r, s2))"
      using s2(1) unfolding loaded_def by (auto split: if_splits option.splits)
    then show ?thesis using that(2) [OF False s1_def _ s2(2)] by blast
  qed
qed

lemma start_inv:
  assumes "auth_inv s" "start hsh d now s = Some (r, s')"
  shows "auth_inv s'"
proof -
  have i1: "auth_inv (s\<lparr>m_moduleDataPath := start_path d s\<rparr>)" using assms(1) by simp
  show ?thesis
    using assms(2)
  proof (cases rule: start_cases)
    case (2 s1 r1 s2)
    have "auth_inv s2" using 2(3) load_accounts_inv i1 unfolding 2(2) [symmetric] by blast
    then show ?thesis unfolding 2(4) by simp
  qed (use assms(1) in simp_all)
qed

lemma stop_inv: "auth_inv s \<Longrightarrow> auth_inv (stop e s)"
  by (auto simp: stop_def Let_def auth_inv_def linked_def)

lemma set_new_object:
  assumes "accounts s h = None"
  shows "set_object (length (heap s)) b (emplace_account h a p s) = emplace_account h b p s"
  using assms by (simp add: emplace_account_def set_object_def set_account_data_def)

lemma set_password_initialized: "m_isInitialized (snd (set_password now adr pw a))"
  by (simp add: set_password_def Let_def)

lemma set_password_activated: "m_isActivated (snd (set_password now adr pw a)) = m_isActivated a"
  by (simp add: set_password_def Let_def)

text \<open>The outcomes of a registration.\<close>

lemma register_cases:
  assumes "register_account hsh e login pw err s = Some (r, err', s')"
  obtains "\<not> r" "s' = s"
  | a where "accounts s (hsh login) = None" "m_isInitialized a" "r = env_save e"
      "set_login login (new_account (env_clock e 0)) \<noteq> None"
      "a = snd (set_password (env_clock e 2) (env_address e) pw
             (the (set_login login (new_account (env_clock e 0)))))"
      "fst (check_login_as_path login err)" "fst (check_login_requirements login err)"
      "fst (check_password_requirements pw err)"
      "s' = (let i = length (heap s);
               s1 = snd (save e i (emplace_account (hsh login) a (m_moduleDataPath s @ login) s))
             in if \<not> env_save e
                then s1\<lparr>m_loginHashToAccountData := AList.delete (hsh login) (m_loginHashToAccountData s1)\<rparr>
                else on_account_activity e i (env_clock e 1)
                       (''Registered at '' @ timer_to_string (env_clock e 1)) s1)"
proof -
  obtain ok1 e1 where c1: "check_login_as_path login err = (ok1, e1)" by (metis surj_pair)
  obtain ok2 e2 where c2: "check_login_requirements login e1 = (ok2, e2)" by (metis surj_pair)
  obtain ok3 e3 where c3: "check_password_requirements pw e2 = (ok3, e3)" by (metis surj_pair)
  have e: "ok1 \<Longrightarrow> e1 = err" "ok2 \<Longrightarrow> e2 = e1"
    using c1 c2 by (auto simp: check_login_as_path_def check_login_requirements_def split: if_splits)
  show thesis
  proof (cases "ok1 \<and> ok2 \<and> ok3 \<and> accounts s (hsh login) = None")
    case False
    then show ?thesis
      using assms c1 c2 c3 that(1)
      unfolding register_account_def find_account_def by (auto split: if_splits)
  next
    case True
    then obtain b where b: "set_login login (new_account (env_clock e 0)) = Some b"
      using assms c1 c2 c3 unfolding register_account_def find_account_def
      by (cases "set_login login (new_account (env_clock e 0))") simp_all
    define a where "a = snd (set_password (env_clock e 2) (env_address e) pw b)"
    have n: "accounts s (hsh login) = None" using True by simp
    obtain sv s1 where s1: "save e (length (heap s))
       (emplace_account (hsh login) a (m_moduleDataPath s @ login) s) = (sv, s1)" by (metis surj_pair)
    have sv: "sv = env_save e" "s1 = snd (save e (length (heap s))
       (emplace_account (hsh login) a (m_moduleDataPath s @ login) s))"
      using s1 save_fields(5) [of e] by (metis fst_conv, simp)
    have "Some (r, err', s') = (if \<not> sv
       then Some (False, ''Account registration failed'',
         s1\<lparr>m_loginHashToAccountData := AList.delete (hsh login) (m_loginHashToAccountData s1)\<rparr>)
       else Some (True, e3, on_account_activity e (length (heap s)) (env_clock e 1)
                       (''Registered at '' @ timer_to_string (env_clock e 1)) s1))"
      using assms True c1 c2 c3 b n s1
      unfolding register_account_def find_account_def Let_def a_def
      by (simp add: set_new_object)
    then have r: "r = env_save e" "s' = (if \<not> env_save e
       then s1\<lparr>m_loginHashToAccountData := AList.delete (hsh login) (m_loginHashToAccountData s1)\<rparr>
       else on_account_activity e (length (heap s)) (env_clock e 1)
                       (''Registered at '' @ timer_to_string (env_clock e 1)) s1)"
      by (simp_all add: sv(1) split: if_splits)
    have r2: "s' = (let i = length (heap s);
               s1 = snd (save e i (emplace_account (hsh login) a (m_moduleDataPath s @ login) s))
             in if \<not> env_save e
                then s1\<lparr>m_loginHashToAccountData := AList.delete (hsh login) (m_loginHashToAccountData s1)\<rparr>
                else on_account_activity e i (env_clock e 1)
                       (''Registered at '' @ timer_to_string (env_clock e 1)) s1)"
      unfolding Let_def sv(2) [symmetric] by (rule r(2))
    show ?thesis
      by (rule that(2) [OF n _ r(1) _ _ _ _ _ r2])
        (use True c1 c2 c3 b e in \<open>simp_all add: a_def set_password_initialized\<close>)
  qed
qed

lemma register_account_inv:
  assumes "auth_inv s" "register_account hsh e login pw err s = Some (r, err', s')"
  shows "auth_inv s'"
  using assms(2)
proof (cases rule: register_cases)
  case 1
  then show ?thesis using assms(1) by simp
next
  case (2 a)
  have inv: "auth_inv (emplace_account (hsh login) a p s)" for p
    using assms(1) 2(2) by (rule inv_emplace)
  show ?thesis
  proof (cases "env_save e")
    case True
    then show ?thesis using 2(9) inv by (simp add: Let_def quiet)
  next
    case False
    let ?s = "emplace_account (hsh login) a (m_moduleDataPath s @ login) s"
    have "accounts ?s (hsh login) = Some (length (heap s))" "conn ?s (length (heap s)) = - 1"
      using 2(1) by (simp_all add: view_simps)
    from inv_remove [OF inv this, of "object ?s (length (heap s))"] show ?thesis
      using False 2(9) by (simp add: Let_def save_def set_object_def set_account_data_def)
  qed
qed

lemma inv_same_flags [simp]:
  "auth_inv s \<Longrightarrow> m_isInitialized a \<Longrightarrow> m_isActivated a = m_isActivated (object s i) \<Longrightarrow>
    auth_inv (set_object i a s)"
  by (rule inv_object) simp_all

lemma find_inv:
  assumes "auth_inv s" "find_account hsh login s = Some i"
  shows "i < length (heap s)" "m_isInitialized (object s i)"
    "conn s i \<noteq> - 1 \<Longrightarrow> conns s (conn s i) = Some i"
  using inv_accountD [OF assms(1), of "hsh login" i] assms(2) by (simp_all add: find_account_def)

lemma modify_grade_inv:
  assumes "auth_inv s"
  shows "auth_inv (snd (modify_account_grade hsh e login g s))"
proof (cases "find_account hsh login s")
  case (Some i)
  note f = find_inv [OF assms Some]
  show ?thesis
    using assms f Some
    by (simp add: modify_account_grade_def Let_def split_beta quiet view_simps)
qed (simp add: modify_account_grade_def Let_def assms)

lemma modify_password_inv:
  assumes "auth_inv s"
  shows "auth_inv (snd (snd (modify_account_password hsh e login pw err s)))"
proof (cases "find_account hsh login s")
  case (Some i)
  note f = find_inv [OF assms Some]
  show ?thesis
    using assms f Some
    by (simp add: modify_account_password_def Let_def split_beta quiet view_simps set_password_initialized
        set_password_activated)
qed (simp add: modify_account_password_def Let_def assms)

lemma set_login_flags:
  "set_login login a = Some b \<Longrightarrow> m_isInitialized b = m_isInitialized a \<and> m_isActivated b = m_isActivated a"
  by (auto simp: set_login_def split: if_splits)

lemma revert_login_inv:
  assumes "auth_inv s" "accounts s (hsh newLogin) = Some i" "accounts s (hsh oldLogin) = None"
    "revert_login hsh e oldLogin newLogin i what s = Some s'"
  shows "auth_inv s'"
proof -
  obtain a where a: "set_login oldLogin (object s i) = Some a"
    using assms(4) by (cases "set_login oldLogin (object s i)") (simp_all add: revert_login_def)
  have "m_isInitialized a" "m_isActivated a = m_isActivated (object s i)"
    using set_login_flags [OF a] inv_accountD(2) [OF assms(1,2)] by simp_all
  then have "auth_inv (set_object i a s)" using inv_object [OF assms(1)] by simp
  from inv_move [OF this, of "hsh newLogin" i "hsh oldLogin"] show ?thesis
    using assms(2,3,4) a by (auto simp: revert_login_def Let_def quiet view_simps)
qed

lemma save_Pair: "save e i s = (env_save e, snd (save e i s))"
  by (simp add: save_def)

lemma modify_login_inv:
  assumes "auth_inv s" "modify_account_login hsh e oldLogin newLogin err s = Some (r, err', s')"
  shows "auth_inv s'"
proof -
  obtain ok1 e1 where c1: "check_login_as_path newLogin err = (ok1, e1)" by (metis surj_pair)
  obtain ok2 e2 where c2: "check_login_requirements newLogin e1 = (ok2, e2)" by (metis surj_pair)
  show ?thesis
  proof (cases "ok1 \<and> ok2 \<and> find_account hsh oldLogin s \<noteq> None \<and> find_account hsh newLogin s = None")
    case False
    then have "s' = s"
      using assms(2) c1 c2 unfolding modify_account_login_def
      by (cases "find_account hsh oldLogin s"; cases "find_account hsh newLogin s")
        (auto split: if_splits)
    then show ?thesis using assms(1) by simp
  next
    case True
    then obtain i where i: "accounts s (hsh oldLogin) = Some i" and n: "accounts s (hsh newLogin) = None"
      by (auto simp: find_account_def)
    define s1 where "s1 = s\<lparr>m_loginHashToAccountData :=
      AList.delete (hsh oldLogin) (emplace_entry (hsh newLogin) i (m_loginHashToAccountData s))\<rparr>"
    have inv1: "auth_inv s1" unfolding s1_def by (rule inv_move [OF assms(1) i n])
    have ne: "hsh oldLogin \<noteq> hsh newLogin" using i n by auto
    have acc: "accounts s1 (hsh newLogin) = Some i" "accounts s1 (hsh oldLogin) = None"
      using n ne by (simp_all add: s1_def delete_conv' view_simps)
    obtain a where a: "set_login newLogin (object s1 i) = Some a"
      using assms(2) c1 c2 True i n
      by (cases "set_login newLogin (object s1 i)")
        (simp_all add: modify_account_login_def find_account_def s1_def)
    define s2 where "s2 = snd (save e i (set_object i a s1))"
    have "m_isInitialized a" "m_isActivated a = m_isActivated (object s1 i)"
      using set_login_flags [OF a] inv_accountD(2) [OF inv1 acc(1)] by simp_all
    then have inv2: "auth_inv s2" using inv1 by (simp add: s2_def quiet)
    have acc2: "accounts s2 (hsh newLogin) = Some i" "accounts s2 (hsh oldLogin) = None"
      using acc by (simp_all add: s2_def view_simps)
    have "(if \<not> env_save e
       then map_option (\<lambda>s. (False, ''Account modification failed'', s))
              (revert_login hsh e oldLogin newLogin i ''save'' s2)
       else if \<not> env_rename e
       then map_option (\<lambda>s. (False, e2, s)) (revert_login hsh e oldLogin newLogin i ''rename'' s2)
       else Some (True, e2, on_account_activity e i (env_clock e 0)
              (''Login is changed from '' @ oldLogin @ '' to '' @ newLogin @ '' at ''
                 @ timer_to_string (env_clock e 0))
              (set_account_data i (\<lambda>d. d\<lparr>m_dataPath := m_moduleDataPath s2 @ newLogin\<rparr>)
                (s2\<lparr>files := rename_file (m_dataPath (heap s2 ! i)) (m_moduleDataPath s2 @ newLogin)
                              (files s2)\<rparr>)))) = Some (r, err', s')"
      using assms(2) c1 c2 True i n a save_Pair [of e i "set_object i a s1"]
      unfolding modify_account_login_def find_account_def Let_def
      by (simp flip: s1_def s2_def split del: if_split)
    then show ?thesis
      using revert_login_inv [OF inv2 acc2] inv2
      by (auto simp: quiet inv_set_path split: if_splits)
  qed
qed

lemma inv_cong:
  assumes "auth_inv u" "m_logonConnectionToAccountData t = m_logonConnectionToAccountData u"
    "m_loginHashToAccountData t = m_loginHashToAccountData u" "length (heap t) = length (heap u)"
    "\<And>j. conn t j = conn u j" "\<And>j. object t j = object u j"
  shows "auth_inv t"
proof -
  have "conn t = conn u" "object t = object u" using assms(5,6) by auto
  then show ?thesis using assms(1-4) by (simp add: auth_inv_def)
qed

lemma delete_inv:
  assumes "auth_inv s"
  shows "auth_inv (delete_account hsh e login s)"
proof (cases "find_account hsh login s")
  case (Some i)
  define s1 where "s1 = s\<lparr>m_loginHashToAccountData := AList.delete (hsh login) (m_loginHashToAccountData s)\<rparr>"
  define c where "c = conn s i"
  define s2 where "s2 = (if c \<noteq> - 1 then set_connection i (- 1) (drop_connection c s) else s)"
  have inv2: "auth_inv s2"
    using assms inv_logout [OF assms] find_inv(3) [OF assms Some] by (simp add: s2_def c_def)
  have i: "accounts s2 (hsh login) = Some i" "conn s2 i = - 1"
    using Some find_inv(1) [OF assms Some] by (simp_all add: s2_def c_def find_account_def view_simps)
  define a where "a = (object s i)\<lparr>m_isInitialized := False, m_isActivated := False\<rparr>"
  have "m_loginHashToAccountData s2 = m_loginHashToAccountData s"
    by (simp add: s2_def view_simps)
  from inv_remove [OF inv2 i, of a, unfolded this]
  have inv3: "auth_inv ((set_object i a s2)\<lparr>m_loginHashToAccountData :=
      AList.delete (hsh login) (m_loginHashToAccountData s)\<rparr>)" .
  show ?thesis
    by (rule inv_cong [OF inv3])
      (use Some find_inv(1) [OF assms Some] in
        \<open>auto simp: delete_account_def Let_def view_simps s2_def c_def a_def drop_connection_def\<close>)
qed (simp add: delete_account_def assms)

lemma activated_inv:
  assumes "auth_inv s"
  shows "auth_inv (snd (set_account_activated_state hsh e login b s))"
proof (cases "find_account hsh login s")
  case (Some i)
  note f = find_inv [OF assms Some]
  define s1 where "s1 = (if \<not> b \<and> conn s i \<noteq> - 1
     then on_account_activity e i (env_clock e 0)
            (''Logout due to deactivation at '' @ timer_to_string (env_clock e 0) @ '', connection ''
               @ show_int (conn s i)) (set_connection i (- 1) (drop_connection (conn s i) s)) else s)"
  have s1: "auth_inv s1" "\<not> b \<Longrightarrow> conn s1 i = - 1" "object s1 i = object s i"
    using assms inv_logout [OF assms f(3)] f(1) by (auto simp: s1_def quiet view_simps)
  have off: "conn s1 i = - 1" if "\<not> m_isActivated (object s i)"
    using that f inv_connectionD(4) [OF assms f(3)] by (auto simp: s1_def view_simps)
  have "auth_inv (set_object i ((object s1 i)\<lparr>m_isActivated := b\<rparr>) s1)"
    by (rule inv_object) (use s1 f in auto)
  moreover have "auth_inv (set_object i ((object s1 i)\<lparr>m_isActivated := \<not> b\<rparr>)
       (on_account_activity e i t d (snd (save e i (set_object i ((object s1 i)\<lparr>m_isActivated := b\<rparr>) s1)))))"
    if "m_isActivated (object s i) \<noteq> b" for t d
  proof (rule inv_object)
    show "auth_inv (on_account_activity e i t d (snd (save e i
        (set_object i ((object s1 i)\<lparr>m_isActivated := b\<rparr>) s1))))"
      using calculation by (simp add: quiet)
  qed (use s1 f that off in \<open>auto simp: view_simps\<close>)
  ultimately show ?thesis
    using assms f Some s1(3)
    by (simp add: set_account_activated_state_def Let_def split_beta quiet view_simps flip: s1_def)
qed (simp add: set_account_activated_state_def assms)

lemma set_blocked_till_inv:
  assumes "auth_inv s" "m_isInitialized (object s i)"
  shows "auth_inv (snd (set_blocked_till e i t log b old s))"
  using assms by (simp add: set_blocked_till_def Let_def split_beta quiet view_simps)

lemma block_inv:
  assumes "auth_inv s"
  shows "auth_inv (snd (block_account_till hsh e login b s))"
proof (cases "find_account hsh login s")
  case (Some i)
  note f = find_inv [OF assms Some]
  have "auth_inv (set_connection i (- 1) (drop_connection (conn s i) s))"
    if "conns s (conn s i) \<noteq> None" "conn s i \<noteq> - 1"
    using that f(3) inv_logout [OF assms] by auto
  then show ?thesis
    using assms f Some
    by (simp add: block_account_till_def Let_def quiet view_simps set_blocked_till_inv)
qed (simp add: block_account_till_def assms)

lemma is_logon_allowed_active:
  "is_logon_allowed t now a pw err = (True, err') \<Longrightarrow> m_isActivated a \<and> m_isInitialized a"
  by (simp add: is_logon_allowed_def split: if_splits)

lemma logon_inv:
  assumes "auth_inv s"
  shows "auth_inv (snd (snd (logon_connection hsh e c login pw err s)))"
proof (cases "find_account hsh login s")
  case (Some i)
  obtain ok e1 where ok: "is_logon_allowed (env_clock e 1) (env_clock e 2) (object s i) pw err = (ok, e1)"
    by (metis surj_pair)
  show ?thesis
  proof (cases "ok \<and> conn s i \<noteq> c \<and> conn s i = - 1 \<and> conns s c = None")
    case True
    then have "m_isActivated (object s i)" using is_logon_allowed_active ok by auto
    then have "auth_inv ((set_connection i c s)\<lparr>m_logonConnectionToAccountData :=
        AList.update c i (m_logonConnectionToAccountData s)\<rparr>)"
      using True Some by (intro inv_logon [OF assms, of "hsh login"]) (auto simp: find_account_def)
    then show ?thesis
      using Some ok True by (auto simp: logon_connection_def Let_def quiet view_simps)
  next
    case False
    then show ?thesis
      using Some ok assms by (auto simp: logon_connection_def Let_def quiet)
  qed
qed (simp add: logon_connection_def assms)

lemma logout_inv:
  assumes "auth_inv s"
  shows "auth_inv (logout_connection e c s)"
  using assms
  by (auto simp: logout_connection_def logout_take_def logout_finish_def Let_def quiet inv_logout
      split: option.splits)

lemma access_inv: "auth_inv s \<Longrightarrow> auth_inv (snd (is_access_granted e c g s))"
  by (simp add: is_access_granted_def Let_def quiet split: option.splits)

lemma logout_all_inv: "auth_inv s \<Longrightarrow> auth_inv (logout_all e k cs s)"
  by (induction cs arbitrary: s k) (simp_all add: logout_inv)

lemma handle_event_inv: "auth_inv s \<Longrightarrow> handle_event e s = Some s' \<Longrightarrow> auth_inv s'"
  by (auto simp: handle_event_def logout_all_inv)

lemma set_logout_timeout_inv: "auth_inv s \<Longrightarrow> set_logout_timeout e d s = Some s' \<Longrightarrow> auth_inv s'"
  by (auto simp: set_logout_timeout_def Let_def split: if_splits option.splits
      dest!: handle_event_inv [rotated])

section \<open>Reachable states\<close>

text \<open>The public operations of the module and the call of its timer, in any order.\<close>

inductive auth_step :: "(string \<Rightarrow> u64) \<Rightarrow> auth \<Rightarrow> auth \<Rightarrow> bool" for hsh where
  Start: "start hsh d now s = Some (r, s') \<Longrightarrow> auth_step hsh s s'"
| Stop: "auth_step hsh s (stop e s)"
| Register: "register_account hsh e login pw err s = Some (r, err', s') \<Longrightarrow> auth_step hsh s s'"
| Delete: "auth_step hsh s (delete_account hsh e login s)"
| ModifyLogin: "modify_account_login hsh e old new err s = Some (r, err', s') \<Longrightarrow> auth_step hsh s s'"
| ModifyPassword: "auth_step hsh s (snd (snd (modify_account_password hsh e login pw err s)))"
| ModifyGrade: "auth_step hsh s (snd (modify_account_grade hsh e login g s))"
| SetActivated: "auth_step hsh s (snd (set_account_activated_state hsh e login b s))"
| Block: "auth_step hsh s (snd (block_account_till hsh e login till s))"
| Logon: "auth_step hsh s (snd (snd (logon_connection hsh e c login pw err s)))"
| Logout: "auth_step hsh s (logout_connection e c s)"
| Access: "auth_step hsh s (snd (is_access_granted e c g s))"
| Timeout: "handle_event e s = Some s' \<Longrightarrow> auth_step hsh s s'"
| SetTimeout: "set_logout_timeout e d s = Some s' \<Longrightarrow> auth_step hsh s s'"

inductive auth_reachable :: "(string \<Rightarrow> u64) \<Rightarrow> auth \<Rightarrow> bool" for hsh where
  Init: "auth_reachable hsh (new_module fs)"
| Step: "auth_reachable hsh s \<Longrightarrow> auth_step hsh s s' \<Longrightarrow> auth_reachable hsh s'"

lemma new_module_inv: "auth_inv (new_module fs)"
  by (simp add: auth_inv_def linked_def new_module_def)

lemma auth_step_inv: "auth_step hsh s s' \<Longrightarrow> auth_inv s \<Longrightarrow> auth_inv s'"
  by (induction rule: auth_step.induct)
    (auto intro: start_inv stop_inv register_account_inv delete_inv modify_login_inv modify_password_inv
      modify_grade_inv activated_inv block_inv logon_inv logout_inv access_inv handle_event_inv
      set_logout_timeout_inv)

lemma auth_reachable_inv: "auth_reachable hsh s \<Longrightarrow> auth_inv s"
  by (induction rule: auth_reachable.induct) (auto intro: new_module_inv auth_step_inv)

end
