(* ===== verification/HashingSpec.thy ===== *)
theory HashingSpec
  imports Complex_Main Hashing
begin

text \<open>
  What the hash classes compute: the digest is that of FIPS 180-4 for the whole message, however it
  is cut into chunks. The reference definitions below follow the standard; the interface
  \<open>streaming_hash\<close> holds what \<open>Update\<close> and \<open>Final\<close> need of a \<open>ProcessBlock\<close>, and both classes
  provide it.
\<close>

section \<open>Absorbing a message byte by byte\<close>

text \<open>The abstract state: the hash value and the bytes of a started block.\<close>

fun push :: "('h \<Rightarrow> byte list \<Rightarrow> 'h) \<Rightarrow> byte \<Rightarrow> 'h \<times> byte list \<Rightarrow> 'h \<times> byte list" where
  "push cf b (h, buf) =
     (if length buf = 63 then (cf h (buf @ [b]), []) else (h, buf @ [b]))"

fun blocks_of :: "byte list \<Rightarrow> byte list list" where
  "blocks_of msg = (if length msg < 64 then [] else take 64 msg # blocks_of (drop 64 msg))"

declare blocks_of.simps [simp del]

lemma fold_push_open:
  "length buf + length bs < 64 \<Longrightarrow> fold (push cf) bs (h, buf) = (h, buf @ bs)"
  by (induction bs arbitrary: buf) simp_all

lemma fold_push_block:
  "length buf + length bs = 64 \<Longrightarrow> bs \<noteq> [] \<Longrightarrow>
    fold (push cf) bs (h, buf) = (cf h (buf @ bs), [])"
proof (induction bs rule: rev_induct)
  case Nil
  then show ?case by simp
next
  case (snoc b bs)
  have "fold (push cf) bs (h, buf) = (h, buf @ bs)"
    by (rule fold_push_open) (use snoc.prems in simp)
  then show ?case using snoc.prems by simp
qed

lemma fold_push_rest:
  "length buf < 64 \<Longrightarrow> length (snd (fold (push cf) bs (h, buf))) = (length buf + length bs) mod 64"
proof (induction bs arbitrary: h buf)
  case Nil
  then show ?case by simp
next
  case (Cons b bs)
  show ?case
  proof (cases "length buf = 63")
    case True
    then have "(length buf + length (b # bs)) mod 64 = length bs mod 64" by simp
    moreover have "length (snd (fold (push cf) bs (cf h (buf @ [b]), []))) = length bs mod 64"
      using Cons.IH [of "[]"] by simp
    ultimately show ?thesis using True by simp
  next
    case False
    with Cons show ?thesis by simp
  qed
qed

lemma fold_push_blocks:
  "64 dvd length msg \<Longrightarrow> fold (push cf) msg (h, []) = (foldl cf h (blocks_of msg), [])"
proof (induction msg arbitrary: h rule: blocks_of.induct)
  case (1 msg)
  show ?case
  proof (cases "length msg < 64")
    case True
    with 1 have "msg = []" by (auto dest: dvd_imp_le)
    then show ?thesis by (simp add: blocks_of.simps)
  next
    case False
    have d: "64 dvd length (drop 64 msg)" using 1 by simp
    have blk: "fold (push cf) (take 64 msg) (h, []) = (cf h (take 64 msg), [])"
      using False fold_push_block [of "[]" "take 64 msg" cf h]
      by (cases "take 64 msg = []") auto
    have "fold (push cf) msg (h, [])
        = fold (push cf) (drop 64 msg) (fold (push cf) (take 64 msg) (h, []))"
      by (metis append_take_drop_id fold_append comp_apply)
    then show ?thesis
      using False 1(1) [OF False d] blk by (subst blocks_of.simps) simp
  qed
qed

section \<open>The padding of the standard\<close>

text \<open>
  A one bit, the fewest zeros that bring the length to 56 modulo 64 bytes, and the length in bits
  as a big-endian integer of 64 bits.
\<close>

definition be_word_bytes :: "nat \<Rightarrow> 'a::len word \<Rightarrow> byte list" where
  "be_word_bytes n w = rev (word_bytes n w)"

definition pad_zeros :: "nat \<Rightarrow> nat" where
  "pad_zeros l = (119 - l mod 64) mod 64"

definition fips_pad :: "byte list \<Rightarrow> byte list" where
  "fips_pad msg =
     msg @ 0x80 # replicate (pad_zeros (length msg)) 0
       @ be_word_bytes 8 (word_of_nat (8 * length msg) :: u64)"

lemma pad_zeros_cases:
  "pad_zeros l = (if l mod 64 \<le> 55 then 55 - l mod 64 else 119 - l mod 64)"
proof -
  have "l mod 64 < 64" by simp
  then show ?thesis
    unfolding pad_zeros_def by (auto simp: mod_if [of "119 - l mod 64"])
qed

lemma pad_zeros_fill: "(l + 1 + pad_zeros l) mod 64 = 56"
proof -
  have "l mod 64 < 64" by simp
  then have "l mod 64 + 1 + pad_zeros l = 56 \<or> l mod 64 + 1 + pad_zeros l = 56 + 64"
    unfolding pad_zeros_cases by auto
  then have "(l mod 64 + (1 + pad_zeros l)) mod 64 = 56" by auto
  then show ?thesis by (simp only: mod_add_left_eq add.assoc)
qed

lemma pad_zeros_least:
  assumes "(l + 1 + k) mod 64 = 56"
  shows "pad_zeros l \<le> k"
proof (rule ccontr)
  assume "\<not> pad_zeros l \<le> k"
  then obtain d where d: "pad_zeros l = k + d" "0 < d" by (metis less_imp_add_positive not_le)
  have "pad_zeros l < 64" by (simp add: pad_zeros_def)
  then have "d < 64" using d(1) by simp
  moreover have "(l + 1 + k) mod 64 = (l + 1 + k + d) mod 64"
    using assms pad_zeros_fill [of l] d(1) by (simp add: add.assoc)
  then have "64 dvd d" by (metis add_diff_cancel_left' le_add1 mod_eq_dvd_iff_nat)
  ultimately show False using d(2) by (auto dest: dvd_imp_le)
qed

lemma length_fips_pad: "64 dvd length (fips_pad msg)"
proof -
  have "length (fips_pad msg) = length msg + 1 + pad_zeros (length msg) + 8"
    by (simp add: fips_pad_def be_word_bytes_def)
  moreover have "(length msg + 1 + pad_zeros (length msg) + 8) mod 64 = 0"
    using mod_add_left_eq [of "length msg + 1 + pad_zeros (length msg)" 64 8]
    by (simp only: pad_zeros_fill) simp
  ultimately show ?thesis by (simp add: dvd_eq_mod_eq_0)
qed

lemma byte_of_shift:
  "(ucast (drop_bit k x AND 0xFF) :: byte) = word_of_nat (unat x div 2 ^ k mod 256)"
  for x :: "'a::len word"
proof -
  have m: "(0xFF :: 'a word) = mask 8" by (simp add: mask_eq_exp_minus_1)
  have "(ucast (drop_bit k x AND 0xFF) :: byte) = ucast (take_bit 8 (drop_bit k x))"
    by (simp only: m take_bit_eq_mask)
  also have "\<dots> = word_of_nat (unat (take_bit 8 (drop_bit k x)))"
    by simp
  also have "unat (take_bit 8 (drop_bit k x)) = unat x div 2 ^ k mod 256"
    by (simp add: unsigned_take_bit_eq unat_drop_bit_eq drop_bit_eq_div [of k "unat x"]
        take_bit_eq_mod [of 8 "unat x div 2 ^ k"])
  finally show ?thesis .
qed

lemma write_be32_bytes: "write_be32 x = be_word_bytes 4 x"
  using byte_of_shift [of 0 x]
  by (simp add: write_be32_def byte_of_shift be_word_bytes_def word_bytes_def le_bytes_numeral
      div_mult2_eq [symmetric])

lemma bit_size_bytes_eq: "bit_size_bytes n = be_word_bytes 8 n"
  using byte_of_shift [of 0 n]
  by (simp add: bit_size_bytes_def byte_of_shift be_word_bytes_def word_bytes_def le_bytes_numeral
      div_mult2_eq [symmetric] upt_conv_Cons)

lemma length_write_be32 [simp]: "length (write_be32 x) = 4"
  by (simp add: write_be32_def)

lemma read_be32_bits:
  "bit (read_be32 [p, q, r, t]) n \<longleftrightarrow>
     (if n < 8 then bit t n else if n < 16 then bit r (n - 8) else if n < 24 then bit q (n - 16)
      else n < 32 \<and> bit p (n - 24))"
  by (auto simp: read_be32_def bit_or_iff bit_push_bit_iff bit_unsigned_iff possible_bit_word
      dest: bit_imp_le_length)

lemma read_write_be32: "read_be32 (write_be32 x) = x"
proof (rule bit_eqI)
  fix n
  assume "possible_bit TYPE(u32) n"
  then have n: "n < 32" by (simp add: possible_bit_word)
  have m: "(0xFF :: u32) = mask 8" by (simp add: mask_eq_exp_minus_1)
  show "bit (read_be32 (write_be32 x)) n = bit x n"
    unfolding write_be32_def read_be32_bits
    using n by (auto simp: m bit_unsigned_iff bit_and_iff bit_mask_iff bit_drop_bit_eq)
qed


section \<open>The interface of a block function\<close>

locale streaming_hash =
  fixes process :: "byte list \<Rightarrow> 'a block_buffer_scheme \<Rightarrow> 'a block_buffer_scheme"
    and chain :: "'a block_buffer_scheme \<Rightarrow> 'h"
    and cf :: "'h \<Rightarrow> byte list \<Rightarrow> 'h"
    and wf :: "'a block_buffer_scheme \<Rightarrow> bool"
  assumes process_fields: "m_buffer (process blk s) = m_buffer s"
      "m_bufferSize (process blk s) = m_bufferSize s" "m_bitSize (process blk s) = m_bitSize s"
    and process_chain: "wf s \<Longrightarrow> length blk = 64 \<Longrightarrow> chain (process blk s) = cf (chain s) blk"
    and process_wf: "wf s \<Longrightarrow> wf (process blk s)"
    and chain_fields: "chain (s\<lparr>m_buffer := bs\<rparr>) = chain s"
      "chain (s\<lparr>m_bufferSize := n\<rparr>) = chain s" "chain (s\<lparr>m_bitSize := k\<rparr>) = chain s"
    and wf_fields: "wf (s\<lparr>m_buffer := bs\<rparr>) = wf s"
      "wf (s\<lparr>m_bufferSize := n\<rparr>) = wf s" "wf (s\<lparr>m_bitSize := k\<rparr>) = wf s"
begin

lemmas field_simps = process_fields chain_fields wf_fields

definition ready :: "'a block_buffer_scheme \<Rightarrow> bool" where
  "ready s \<longleftrightarrow> wf s \<and> length (m_buffer s) = 64 \<and> m_bufferSize s < 64"

definition absorbed :: "'a block_buffer_scheme \<Rightarrow> 'h \<times> byte list" where
  "absorbed s = (chain s, take (m_bufferSize s) (m_buffer s))"

lemma put_byte_fields:
  "chain (put_byte b s) = chain s" "wf (put_byte b s) = wf s" "m_bitSize (put_byte b s) = m_bitSize s"
  "m_bufferSize (put_byte b s) = m_bufferSize s + 1" "length (m_buffer (put_byte b s)) = length (m_buffer s)"
  by (simp_all add: put_byte_def field_simps)

lemma put_byte_held:
  "m_bufferSize s < length (m_buffer s) \<Longrightarrow>
    take (m_bufferSize s + 1) (m_buffer (put_byte b s)) = take (m_bufferSize s) (m_buffer s) @ [b]"
  by (simp add: put_byte_def take_Suc_conv_app_nth)

lemma put_bytes:
  assumes "m_bufferSize s + length bs \<le> length (m_buffer s)"
  shows "chain (fold put_byte bs s) = chain s \<and> wf (fold put_byte bs s) = wf s
    \<and> m_bitSize (fold put_byte bs s) = m_bitSize s
    \<and> m_bufferSize (fold put_byte bs s) = m_bufferSize s + length bs
    \<and> length (m_buffer (fold put_byte bs s)) = length (m_buffer s)
    \<and> take (m_bufferSize s + length bs) (m_buffer (fold put_byte bs s))
        = take (m_bufferSize s) (m_buffer s) @ bs"
  using assms
proof (induction bs rule: rev_induct)
  case Nil
  then show ?case by simp
next
  case (snoc b bs)
  let ?t = "fold put_byte bs s"
  have t: "chain ?t = chain s" "wf ?t = wf s" "m_bitSize ?t = m_bitSize s"
    "m_bufferSize ?t = m_bufferSize s + length bs" "length (m_buffer ?t) = length (m_buffer s)"
    "take (m_bufferSize s + length bs) (m_buffer ?t) = take (m_bufferSize s) (m_buffer s) @ bs"
    using snoc by simp_all
  have "take (m_bufferSize ?t + 1) (m_buffer (put_byte b ?t)) = take (m_bufferSize ?t) (m_buffer ?t) @ [b]"
    by (rule put_byte_held) (use snoc.prems t in simp)
  then show ?case using t by (simp add: put_byte_fields)
qed

lemma put_bytes_absorbed:
  assumes "ready s" "m_bufferSize s + length bs < 64"
  shows "ready (fold put_byte bs s)" "absorbed (fold put_byte bs s) = fold (push cf) bs (absorbed s)"
    "m_bitSize (fold put_byte bs s) = m_bitSize s"
proof -
  have p: "m_bufferSize s + length bs \<le> length (m_buffer s)" using assms by (simp add: ready_def)
  note b = put_bytes [OF p]
  show "ready (fold put_byte bs s)" using assms b by (simp add: ready_def)
  show "m_bitSize (fold put_byte bs s) = m_bitSize s" using b by simp
  have "fold (push cf) bs (absorbed s) = (chain s, take (m_bufferSize s) (m_buffer s) @ bs)"
    using assms unfolding absorbed_def by (intro fold_push_open) (simp add: ready_def)
  then show "absorbed (fold put_byte bs s) = fold (push cf) bs (absorbed s)"
    using b by (simp add: absorbed_def)
qed

text \<open>A block that is completed, processed and dropped.\<close>

lemma complete_block:
  assumes "ready s" "m_bufferSize s + length bs = 64" "bs \<noteq> []"
  defines "t \<equiv> fold put_byte bs s"
  defines "t' \<equiv> (process (m_buffer t) t)\<lparr>m_bufferSize := 0\<rparr>"
  shows "ready t'" "m_bufferSize t' = 0" "m_bitSize t' = m_bitSize s"
    "absorbed t' = fold (push cf) bs (absorbed s)"
proof -
  have p: "m_bufferSize s + length bs \<le> length (m_buffer s)" using assms by (simp add: ready_def)
  note b = put_bytes [OF p, folded t_def]
  have len: "length (m_buffer t) = 64" using assms(1) b by (simp add: ready_def)
  have w: "wf t" using assms(1) b by (simp add: ready_def)
  show "ready t'" "m_bufferSize t' = 0" "m_bitSize t' = m_bitSize s"
    using len b process_wf [OF w] by (simp_all add: t'_def ready_def field_simps)
  have "m_buffer t = take (m_bufferSize s) (m_buffer s) @ bs"
    using b assms(2) len by simp
  moreover have "chain t' = cf (chain t) (m_buffer t)"
    using process_chain [OF w len] by (simp add: t'_def field_simps)
  moreover have "fold (push cf) bs (absorbed s)
      = (cf (chain s) (take (m_bufferSize s) (m_buffer s) @ bs), [])"
    using assms unfolding absorbed_def by (intro fold_push_block) (simp_all add: ready_def)
  ultimately show "absorbed t' = fold (push cf) bs (absorbed s)"
    using b by (simp add: absorbed_def t'_def)
qed

lemma fill_block_absorbed:
  assumes "ready s" "fill_block process bs s = (r, s')"
  shows "ready s' \<and> m_bitSize s' = m_bitSize s \<and>
    (case r of None \<Rightarrow> absorbed s' = fold (push cf) bs (absorbed s)
     | Some rest \<Rightarrow> m_bufferSize s' = 0
         \<and> fold (push cf) rest (absorbed s') = fold (push cf) bs (absorbed s))"
  using assms
proof (induction bs arbitrary: s)
  case Nil
  then show ?case by simp
next
  case (Cons b bs)
  show ?case
  proof (cases "m_bufferSize s + length [b] = 64")
    case True
    note c = complete_block [OF Cons.prems(1) True, simplified]
    show ?thesis using Cons.prems True c by (auto simp: Let_def put_byte_fields)
  next
    case False
    then have lt: "m_bufferSize s + length [b] < 64" using Cons.prems(1) by (simp add: ready_def)
    note p = put_bytes_absorbed [OF Cons.prems(1) lt, simplified]
    have "fill_block process bs (put_byte b s) = (r, s')"
      using Cons.prems(2) False by (simp add: Let_def put_byte_fields)
    from Cons.IH [OF p(1) this] show ?thesis using p by (cases r) simp_all
  qed
qed

lemma process_block_absorbed:
  assumes "ready s" "m_bufferSize s = 0" "length blk = 64"
  shows "ready (process blk s)" "absorbed (process blk s) = fold (push cf) blk (absorbed s)"
proof -
  have w: "wf s" using assms(1) by (simp add: ready_def)
  show "ready (process blk s)" using assms process_wf [OF w] by (simp add: ready_def field_simps)
  have "fold (push cf) blk (chain s, []) = (cf (chain s) ([] @ blk), [])"
    by (rule fold_push_block) (use assms(3) in auto)
  then show "absorbed (process blk s) = fold (push cf) blk (absorbed s)"
    using process_chain [OF w assms(3)] assms(2) by (simp add: absorbed_def field_simps)
qed

lemma whole_blocks_absorbed:
  assumes "ready s" "m_bufferSize s = 0" "whole_blocks process data s = (rest, s')"
  shows "ready s' \<and> m_bufferSize s' = 0 \<and> m_bitSize s' = m_bitSize s \<and> length rest < 64
    \<and> fold (push cf) rest (absorbed s') = fold (push cf) data (absorbed s)"
  using assms
proof (induction data arbitrary: s rule: blocks_of.induct)
  case (1 data)
  show ?case
  proof (cases "length data < 64")
    case True
    then show ?thesis using "1.prems" by (simp add: whole_blocks.simps)
  next
    case False
    then have len: "length (take 64 data) = 64" by simp
    note p = process_block_absorbed [OF "1.prems"(1,2) len]
    have "whole_blocks process (drop 64 data) (process (take 64 data) s) = (rest, s')"
      using "1.prems"(3) False by (simp add: whole_blocks.simps [of _ data])
    moreover have "m_bufferSize (process (take 64 data) s) = 0"
      using "1.prems"(2) by (simp add: field_simps)
    ultimately have "ready s' \<and> m_bufferSize s' = 0 \<and> m_bitSize s' = m_bitSize (process (take 64 data) s)
        \<and> length rest < 64 \<and> fold (push cf) rest (absorbed s')
          = fold (push cf) (drop 64 data) (absorbed (process (take 64 data) s))"
      by (intro "1.IH" [OF False p(1)])
    moreover have "fold (push cf) data (absorbed s)
        = fold (push cf) (drop 64 data) (fold (push cf) (take 64 data) (absorbed s))"
      by (metis append_take_drop_id fold_append comp_apply)
    ultimately show ?thesis using p(2) by (simp add: field_simps)
  qed
qed

text \<open>\<open>Update\<close> absorbs its data, whatever the state of the buffer.\<close>

lemma update_absorbs:
  assumes "ready s"
  shows "ready (update_chunk process data s)"
    "absorbed (update_chunk process data s) = fold (push cf) data (absorbed s)"
    "m_bitSize (update_chunk process data s) = m_bitSize s + word_of_nat (length data) * 8"
proof -
  let ?s = "s\<lparr>m_bitSize := m_bitSize s + word_of_nat (length data) * 8\<rparr>"
  have s: "ready ?s" "absorbed ?s = absorbed s"
    using assms by (simp_all add: ready_def absorbed_def field_simps)
  obtain r t where r: "(if m_bufferSize ?s \<noteq> 0 then fill_block process data ?s else (Some data, ?s)) = (r, t)"
    by (metis surj_pair)
  have t: "ready t \<and> m_bitSize t = m_bitSize ?s \<and>
    (case r of None \<Rightarrow> absorbed t = fold (push cf) data (absorbed ?s)
     | Some rest \<Rightarrow> m_bufferSize t = 0
         \<and> fold (push cf) rest (absorbed t) = fold (push cf) data (absorbed ?s))"
  proof (cases "m_bufferSize ?s = 0")
    case True
    then show ?thesis using r s by auto
  next
    case False
    then have "fill_block process data ?s = (r, t)" using r by simp
    from fill_block_absorbed [OF s(1) this] show ?thesis by simp
  qed
  have u: "update_chunk process data s = (case r of None \<Rightarrow> t
      | Some data \<Rightarrow> (let (data, t) = whole_blocks process data t in fold put_byte data t))"
    using r unfolding update_chunk_def by (simp add: Let_def)
  have "ready (update_chunk process data s)
    \<and> absorbed (update_chunk process data s) = fold (push cf) data (absorbed s)
    \<and> m_bitSize (update_chunk process data s) = m_bitSize ?s"
  proof (cases r)
    case None
    then show ?thesis using t s u by simp
  next
    case (Some d)
    obtain d' v where v: "whole_blocks process d t = (d', v)" by (metis surj_pair)
    have t0: "ready t" "m_bufferSize t = 0" using t Some by simp_all
    note w = whole_blocks_absorbed [OF t0 v]
    have "m_bufferSize v + length d' < 64" "ready v" using w by simp_all
    note p = put_bytes_absorbed [OF this(2,1)]
    show ?thesis using p w t s u v Some by simp
  qed
  then show "ready (update_chunk process data s)"
    "absorbed (update_chunk process data s) = fold (push cf) data (absorbed s)"
    "m_bitSize (update_chunk process data s) = m_bitSize s + word_of_nat (length data) * 8"
    by simp_all
qed

lemma put_zeros_bytes: "put_zeros n s = fold put_byte (replicate (n - m_bufferSize s) 0) s"
proof -
  have "((put_byte 0) ^^ k) s = fold put_byte (replicate k 0) s" for k
    by (induction k) (simp_all add: replicate_append_same [symmetric] del: replicate_Suc
        flip: replicate_Suc)
  then show ?thesis by (simp add: put_zeros_def)
qed

text \<open>The padding closes the last block.\<close>

lemma close_block:
  assumes "ready s" "m_bufferSize s \<le> 56"
  defines "t \<equiv> fold put_byte (bit_size_bytes (m_bitSize (put_zeros 56 s))) (put_zeros 56 s)"
  shows "ready ((process (m_buffer t) t)\<lparr>m_bufferSize := 0\<rparr>)"
    "m_bufferSize ((process (m_buffer t) t)\<lparr>m_bufferSize := 0\<rparr>) = 0"
    "m_bitSize ((process (m_buffer t) t)\<lparr>m_bufferSize := 0\<rparr>) = m_bitSize s"
    "absorbed ((process (m_buffer t) t)\<lparr>m_bufferSize := 0\<rparr>)
      = fold (push cf) (replicate (56 - m_bufferSize s) 0 @ bit_size_bytes (m_bitSize s)) (absorbed s)"
proof -
  let ?bs = "replicate (56 - m_bufferSize s) 0 @ bit_size_bytes (m_bitSize s)"
  have len: "length (bit_size_bytes k) = 8" for k by (simp add: bit_size_bytes_def)
  have "m_bitSize (put_zeros 56 s) = m_bitSize s"
    using put_bytes [of s "replicate (56 - m_bufferSize s) 0"] assms(1,2)
    by (simp add: put_zeros_bytes ready_def)
  then have t: "t = fold put_byte ?bs s" by (simp add: t_def put_zeros_bytes)
  have "m_bufferSize s + length ?bs = 64" using assms(2) len by simp
  moreover have "?bs \<noteq> []" using len [of "m_bitSize s"] by auto
  ultimately have cs: "m_bufferSize s + length ?bs = 64" "?bs \<noteq> []" .
  note c = complete_block [OF assms(1) cs, folded t]
  show "ready ((process (m_buffer t) t)\<lparr>m_bufferSize := 0\<rparr>)"
    "m_bufferSize ((process (m_buffer t) t)\<lparr>m_bufferSize := 0\<rparr>) = 0"
    "m_bitSize ((process (m_buffer t) t)\<lparr>m_bufferSize := 0\<rparr>) = m_bitSize s"
    "absorbed ((process (m_buffer t) t)\<lparr>m_bufferSize := 0\<rparr>) = fold (push cf) ?bs (absorbed s)"
    by (rule c)+
qed

lemma pad_and_process_absorbs:
  assumes "ready s"
  shows "ready (pad_and_process process s) \<and> m_bufferSize (pad_and_process process s) = 0
    \<and> m_bitSize (pad_and_process process s) = m_bitSize s
    \<and> absorbed (pad_and_process process s) = fold (push cf)
        (0x80 # replicate (pad_zeros (m_bufferSize s)) 0 @ bit_size_bytes (m_bitSize s)) (absorbed s)"
proof (cases "m_bufferSize s + length [0x80 :: byte] \<le> 56")
  case True
  define t where "t = put_byte 0x80 s"
  have "m_bufferSize s + length [0x80 :: byte] < 64" using True by simp
  note p = put_bytes_absorbed [OF assms this, simplified, folded t_def]
  have m: "m_bufferSize t = m_bufferSize s + 1" by (simp add: t_def put_byte_fields)
  then have "m_bufferSize t \<le> 56" using True by simp
  note c = close_block [OF p(1) this]
  have "pad_zeros (m_bufferSize s) = 56 - m_bufferSize t"
    using True m by (simp add: pad_zeros_cases)
  then show ?thesis
    using True c p m unfolding pad_and_process_def
    by (simp add: Let_def flip: t_def)
next
  case False
  define t where "t = fold put_byte (0x80 # replicate (63 - m_bufferSize s) 0) s"
  define t' where "t' = (process (m_buffer t) t)\<lparr>m_bufferSize := 0\<rparr>"
  have m: "m_bufferSize s < 64" using assms by (simp add: ready_def)
  then have "m_bufferSize s + length (0x80 # replicate (63 - m_bufferSize s) (0 :: byte)) = 64"
    by simp
  note c = complete_block [OF assms this list.distinct(2), folded t_def, folded t'_def]
  have z: "put_zeros 64 (put_byte 0x80 s) = t"
    by (simp add: t_def put_zeros_bytes put_byte_fields)
  have le: "m_bufferSize t' \<le> 56" using c(2) by simp
  note d = close_block [OF c(1) le]
  have "pad_zeros (m_bufferSize s) = (63 - m_bufferSize s) + 56"
    using False m by (simp add: pad_zeros_cases)
  then show ?thesis
    using False c d z unfolding pad_and_process_def
    by (simp add: Let_def put_byte_fields replicate_add flip: t'_def)
qed

text \<open>From a fresh state, the chain after the padding is the hash of the whole padded message.\<close>

lemma padded_hash:
  assumes "ready s" "absorbed s = fold (push cf) msg (h, [])"
    "m_bitSize s = word_of_nat (8 * length msg)"
  shows "ready (pad_and_process process s)" "m_bufferSize (pad_and_process process s) = 0"
    "chain (pad_and_process process s) = foldl cf h (blocks_of (fips_pad msg))"
proof -
  have "length (snd (absorbed s)) = length msg mod 64"
    using fold_push_rest [of "[]" cf msg h] assms(2) by simp
  then have n: "m_bufferSize s = length msg mod 64"
    using assms(1) by (simp add: absorbed_def ready_def)
  then have "pad_zeros (m_bufferSize s) = pad_zeros (length msg)"
    by (simp add: pad_zeros_def)
  then have "absorbed (pad_and_process process s) = fold (push cf) (fips_pad msg) (h, [])"
    using pad_and_process_absorbs [OF assms(1)] assms(2,3)
    by (simp add: fips_pad_def bit_size_bytes_eq)
  also have "\<dots> = (foldl cf h (blocks_of (fips_pad msg)), [])"
    by (rule fold_push_blocks) (rule length_fips_pad)
  finally show "chain (pad_and_process process s) = foldl cf h (blocks_of (fips_pad msg))"
    by (simp add: absorbed_def)
qed (use pad_and_process_absorbs [OF assms(1)] in simp_all)

lemma updates_absorb:
  fixes s :: "'a block_buffer_scheme" and chunks :: "byte list list"
  assumes "ready s" "absorbed s = (h, [])" "m_bitSize s = 0"
  defines "t \<equiv> fold (update_chunk process) chunks s"
  shows "ready t" "absorbed t = fold (push cf) (concat chunks) (h, [])"
    "m_bitSize t = word_of_nat (8 * length (concat chunks))"
proof -
  have "ready t \<and> absorbed t = fold (push cf) (concat chunks) (h, [])
    \<and> m_bitSize t = word_of_nat (8 * length (concat chunks))"
    unfolding t_def
  proof (induction chunks rule: rev_induct)
    case Nil
    then show ?case using assms by simp
  next
    case (snoc c chunks)
    let ?t = "fold (update_chunk process) chunks s"
    have "ready ?t" using snoc by simp
    from update_absorbs [OF this, of c] show ?case
      using snoc by (simp add: algebra_simps)
  qed
  then show "ready t" "absorbed t = fold (push cf) (concat chunks) (h, [])"
    "m_bitSize t = word_of_nat (8 * length (concat chunks))" by simp_all
qed

end

section \<open>The compression functions of the standard\<close>

text \<open>
  Section 6 of FIPS 180-4: the message schedule as a recursion on its index and the working
  variables as a recursion on the number of rounds, with the library's rotation.
\<close>

definition be_word :: "byte list \<Rightarrow> u32" where
  "be_word bs = word_of_nat (le_nat (rev bs))"

definition message_word :: "byte list \<Rightarrow> nat \<Rightarrow> u32" where
  "message_word blk t = be_word (take 4 (drop (4 * t) blk))"

fun fips1_w :: "byte list \<Rightarrow> nat \<Rightarrow> u32" where
  "fips1_w blk t =
     (if t < 16 then message_word blk t
      else word_rotl 1 (fips1_w blk (t - 3) XOR fips1_w blk (t - 8) XOR fips1_w blk (t - 14)
             XOR fips1_w blk (t - 16)))"

declare fips1_w.simps [simp del]

definition parity :: "u32 \<Rightarrow> u32 \<Rightarrow> u32 \<Rightarrow> u32" where
  "parity x y z = x XOR y XOR z"

definition fips_ch :: "u32 \<Rightarrow> u32 \<Rightarrow> u32 \<Rightarrow> u32" where
  "fips_ch x y z = (x AND y) XOR (NOT x AND z)"

definition fips_maj :: "u32 \<Rightarrow> u32 \<Rightarrow> u32 \<Rightarrow> u32" where
  "fips_maj x y z = (x AND y) XOR (x AND z) XOR (y AND z)"

definition fips1_f :: "nat \<Rightarrow> u32 \<Rightarrow> u32 \<Rightarrow> u32 \<Rightarrow> u32" where
  "fips1_f t = (if t < 20 then fips_ch else if t < 40 then parity else if t < 60 then fips_maj else parity)"

definition fips1_K :: "nat \<Rightarrow> u32" where
  "fips1_K t =
     (if t < 20 then 0x5A827999 else if t < 40 then 0x6ED9EBA1 else if t < 60 then 0x8F1BBCDC
      else 0xCA62C1D6)"

fun fips1_vars :: "byte list \<Rightarrow> u32 list \<Rightarrow> nat \<Rightarrow> u32 \<times> u32 \<times> u32 \<times> u32 \<times> u32" where
  "fips1_vars blk h 0 = (h ! 0, h ! 1, h ! 2, h ! 3, h ! 4)"
| "fips1_vars blk h (Suc t) =
     (let (a, b, c, d, e) = fips1_vars blk h t
      in (word_rotl 5 a + fips1_f t b c d + e + fips1_K t + fips1_w blk t, a, word_rotl 30 b, c, d))"

definition fips1 :: "u32 list \<Rightarrow> byte list \<Rightarrow> u32 list" where
  "fips1 h blk =
     (let (a, b, c, d, e) = fips1_vars blk h 80
      in [a + h ! 0, b + h ! 1, c + h ! 2, d + h ! 3, e + h ! 4])"

definition fips_ssig0 :: "u32 \<Rightarrow> u32" where
  "fips_ssig0 x = word_rotr 7 x XOR word_rotr 18 x XOR drop_bit 3 x"

definition fips_ssig1 :: "u32 \<Rightarrow> u32" where
  "fips_ssig1 x = word_rotr 17 x XOR word_rotr 19 x XOR drop_bit 10 x"

definition fips_bsig0 :: "u32 \<Rightarrow> u32" where
  "fips_bsig0 x = word_rotr 2 x XOR word_rotr 13 x XOR word_rotr 22 x"

definition fips_bsig1 :: "u32 \<Rightarrow> u32" where
  "fips_bsig1 x = word_rotr 6 x XOR word_rotr 11 x XOR word_rotr 25 x"

text \<open>
  The constants by their definition in the standard: the first 32 bits of the fractional parts of the
  square and cube roots of the first primes.
\<close>

definition first_primes :: "nat list" where
  "first_primes = [2, 3, 5, 7, 11, 13, 17, 19, 23, 29, 31, 37, 41, 43, 47, 53, 59, 61, 67, 71, 73, 79, 83, 89, 97,
     101, 103, 107, 109, 113, 127, 131, 137, 139, 149, 151, 157, 163, 167, 173, 179, 181, 191, 193, 197, 199,
     211, 223, 227, 229, 233, 239, 241, 251, 257, 263, 269, 271, 277, 281, 283, 293, 307, 311]"

definition fraction_bits :: "nat \<Rightarrow> nat \<Rightarrow> u32" where
  "fraction_bits k p = word_of_int \<lfloor>root k (real p) * 2 ^ 32\<rfloor>"

definition fips256_init :: "u32 list" where
  "fips256_init = map (fraction_bits 2) (take 8 first_primes)"

lemma length_fips256_init [simp]: "length fips256_init = 8"
  by (simp add: fips256_init_def first_primes_def)

definition fips256_K :: "u32 list" where
  "fips256_K = map (fraction_bits 3) first_primes"

fun fips256_w :: "byte list \<Rightarrow> nat \<Rightarrow> u32" where
  "fips256_w blk t =
     (if t < 16 then message_word blk t
      else fips_ssig1 (fips256_w blk (t - 2)) + fips256_w blk (t - 7)
             + fips_ssig0 (fips256_w blk (t - 15)) + fips256_w blk (t - 16))"

declare fips256_w.simps [simp del]

fun fips256_vars :: "byte list \<Rightarrow> u32 list \<Rightarrow> nat \<Rightarrow> sha256_vars" where
  "fips256_vars blk m 0 = (m ! 0, m ! 1, m ! 2, m ! 3, m ! 4, m ! 5, m ! 6, m ! 7)"
| "fips256_vars blk m (Suc t) =
     (let (a, b, c, d, e, f, g, h) = fips256_vars blk m t;
          t1 = h + fips_bsig1 e + fips_ch e f g + fips256_K ! t + fips256_w blk t;
          t2 = fips_bsig0 a + fips_maj a b c
      in (t1 + t2, a, b, c, d + t1, e, f, g))"

definition fips256 :: "u32 list \<Rightarrow> byte list \<Rightarrow> u32 list" where
  "fips256 m blk =
     (let (a, b, c, d, e, f, g, h) = fips256_vars blk m 64
      in [a + m ! 0, b + m ! 1, c + m ! 2, d + m ! 3, e + m ! 4, f + m ! 5, g + m ! 6, h + m ! 7])"

section \<open>The code computes them\<close>

lemma word_bits_32: "LENGTH(32) = 32"
  by simp

lemma rotation_index:
  fixes k n :: nat
  assumes "n < 32" "k < 32"
  shows "(k + n) mod 32 = (if k + n < 32 then k + n else k + n - 32)"
    "(k + (32 - n)) mod 32 = (if n \<le> k then k - n else k + (32 - n))"
  using assms by (simp_all add: mod_if)

lemma rol_word_rotl:
  assumes n: "n < 32"
  shows "rol x n = word_rotl n x"
proof (rule bit_eqI)
  fix k
  assume "possible_bit TYPE(u32) k"
  then have k: "k < 32" by (simp add: possible_bit_word)
  have "bit (word_rotl n x) k = bit x (if n \<le> k then k - n else k + (32 - n))"
    using n k rotation_index(2) [OF n k]
    by (simp only: bit_word_rotl_iff word_bits_32 mod_less simp_thms)
  moreover have "bit (rol x n) k = bit x (if n \<le> k then k - n else k + (32 - n))"
    using n k by (auto simp: rol_def bit_or_iff bit_push_bit_iff bit_drop_bit_eq possible_bit_word
        add.commute dest: bit_imp_le_length)
  ultimately show "bit (rol x n) k = bit (word_rotl n x) k" by simp
qed

lemma rotr_word_rotr:
  assumes n: "n < 32"
  shows "rotr x n = word_rotr n x"
proof (rule bit_eqI)
  fix k
  assume "possible_bit TYPE(u32) k"
  then have k: "k < 32" by (simp add: possible_bit_word)
  have "bit (word_rotr n x) k = bit x (if k + n < 32 then k + n else k + n - 32)"
    using n k by (simp add: bit_word_rotr_iff rotation_index(1))
  moreover have "bit (rotr x n) k = bit x (if k + n < 32 then k + n else k + n - 32)"
    using n k by (auto simp: rotr_def bit_or_iff bit_push_bit_iff bit_drop_bit_eq possible_bit_word
        add.commute dest: bit_imp_le_length)
  ultimately show "bit (rotr x n) k = bit (word_rotr n x) k" by simp
qed

lemma sigma_eqs:
  "ssig0 x = fips_ssig0 x" "ssig1 x = fips_ssig1 x" "bsig0 x = fips_bsig0 x" "bsig1 x = fips_bsig1 x"
  by (simp_all add: ssig0_def ssig1_def bsig0_def bsig1_def fips_ssig0_def fips_ssig1_def
      fips_bsig0_def fips_bsig1_def rotr_word_rotr)

lemma ch_fips: "ch x y z = fips_ch x y z"
  and maj_fips: "maj x y z = fips_maj x y z"
  by (simp_all add: ch_def fips_ch_def maj_def fips_maj_def)

lemma fraction_bits_floor:
  assumes "0 < k" "m ^ k \<le> p * (2 ^ 32) ^ k" "p * (2 ^ 32) ^ k < (m + 1) ^ k"
  shows "fraction_bits k p = word_of_nat m"
proof -
  let ?x = "root k (real p) * 2 ^ 32"
  have x: "?x ^ k = real (p * (2 ^ 32) ^ k)" "0 \<le> ?x" using assms(1) by (simp_all add: power_mult_distrib)
  have "real m ^ k \<le> ?x ^ k" unfolding x using assms(2) by (metis of_nat_le_iff of_nat_power)
  then have "real m \<le> ?x" using power_le_imp_le_base [of "real m" "k - 1" ?x] assms(1) x(2) by simp
  moreover have "?x ^ k < (real m + 1) ^ k"
    unfolding x using assms(3) by (metis of_nat_less_iff of_nat_power of_nat_Suc Suc_eq_plus1 add.commute)
  then have "?x < real m + 1" by (rule power_less_imp_less_base) simp
  ultimately have "\<lfloor>?x\<rfloor> = int m" by (simp add: floor_eq_iff)
  then show ?thesis by (simp add: fraction_bits_def)
qed

lemma fractions:
  assumes "0 < k" "list_all2 (\<lambda>p m. m ^ k \<le> p * (2 ^ 32) ^ k \<and> p * (2 ^ 32) ^ k < (m + 1) ^ k) ps ms"
  shows "map (fraction_bits k) ps = map word_of_nat ms"
  using assms(2) by (induction rule: list_all2_induct) (auto intro: fraction_bits_floor [OF assms(1)])

lemma sha256_init_fips: "sha256_init_words = fips256_init"
proof -
  let ?ms = "[0x16a09e667, 0x1bb67ae85, 0x23c6ef372, 0x2a54ff53a, 0x3510e527f, 0x39b05688c, 0x41f83d9ab, 0x45be0cd19]"
  have "fips256_init = map word_of_nat ?ms"
    unfolding fips256_init_def first_primes_def by (rule fractions) simp_all
  also have "\<dots> = sha256_init_words" by (simp add: sha256_init_words_def word_unat_eq_iff unsigned_of_nat take_bit_eq_mod)
  finally show ?thesis ..
qed

lemma sha256_K_fips: "sha256_K = fips256_K"
proof -
  let ?ms = "[0x1428a2f98, 0x171374491, 0x1b5c0fbcf, 0x1e9b5dba5, 0x23956c25b, 0x259f111f1, 0x2923f82a4, 0x2ab1c5ed5,
      0x2d807aa98, 0x312835b01, 0x3243185be, 0x3550c7dc3, 0x372be5d74, 0x380deb1fe, 0x39bdc06a7, 0x3c19bf174,
      0x3e49b69c1, 0x3efbe4786, 0x40fc19dc6, 0x4240ca1cc, 0x42de92c6f, 0x44a7484aa, 0x45cb0a9dc, 0x476f988da,
      0x4983e5152, 0x4a831c66d, 0x4b00327c8, 0x4bf597fc7, 0x4c6e00bf3, 0x4d5a79147, 0x506ca6351, 0x514292967,
      0x527b70a85, 0x52e1b2138, 0x54d2c6dfc, 0x553380d13, 0x5650a7354, 0x5766a0abb, 0x581c2c92e, 0x592722c85,
      0x5a2bfe8a1, 0x5a81a664b, 0x5c24b8b70, 0x5c76c51a3, 0x5d192e819, 0x5d6990624, 0x5f40e3585, 0x6106aa070,
      0x619a4c116, 0x61e376c08, 0x62748774c, 0x634b0bcb5, 0x6391c0cb3, 0x64ed8aa4a, 0x65b9cca4f, 0x6682e6ff3,
      0x6748f82ee, 0x678a5636f, 0x684c87814, 0x68cc70208, 0x690befffa, 0x6a4506ceb, 0x6bef9a3f7, 0x6c67178f2]"
  have "fips256_K = map word_of_nat ?ms"
    unfolding fips256_K_def first_primes_def by (rule fractions) simp_all
  also have "\<dots> = sha256_K" by (simp add: sha256_K_def word_unat_eq_iff unsigned_of_nat take_bit_eq_mod)
  finally show ?thesis ..
qed
lemma ch_or: "(b AND c) OR (NOT b AND d) = fips_ch b c d"
  by (rule bit_eqI) (auto simp: fips_ch_def bit_or_iff bit_and_iff bit_xor_iff bit_not_iff)

lemma maj_or: "(b AND c) OR (b AND d) OR (c AND d) = fips_maj b c d"
  by (rule bit_eqI) (auto simp: fips_maj_def bit_or_iff bit_and_iff bit_xor_iff)

lemma read_be32_be_word:
  assumes "length bs = 4"
  shows "read_be32 (bs @ r) = be_word bs"
proof -
  obtain p q r' t where bs: "bs = [p, q, r', t]"
    using assms by (auto simp: length_Suc_conv eval_nat_numeral)
  have "be_word bs = ucast t + (push_bit 8 (ucast r') + (push_bit 16 (ucast q) + push_bit 24 (ucast p)))"
    by (simp add: bs be_word_def push_bit_eq_mult algebra_simps)
  also have "\<dots> = ucast t OR (push_bit 8 (ucast r') OR (push_bit 16 (ucast q) OR push_bit 24 (ucast p)))"
    by (subst disjunctive_add_eq_or,
        force simp: bit_eq_iff bit_simps dest: bit_imp_le_length)+
       simp
  finally show ?thesis by (simp add: bs read_be32_def ac_simps)
qed

lemma block_words_nth:
  assumes "length blk = 64" "t < 16"
  shows "block_words blk ! t = message_word blk t"
proof -
  let ?d = "drop (4 * t) blk"
  have "length (take 4 ?d) = 4" using assms by simp
  from read_be32_be_word [OF this, of "drop 4 ?d"]
  have "read_be32 ?d = be_word (take 4 ?d)" by (simp only: append_take_drop_id)
  then show ?thesis using assms by (simp add: block_words_def message_word_def mult.commute)
qed

lemma length_block_words [simp]: "length (block_words blk) = 16"
  by (simp add: block_words_def)

text \<open>A loop that sets the entries of an array one after the other computes a recursive sequence.\<close>

lemma expand_loop:
  fixes g :: "nat \<Rightarrow> u32 list \<Rightarrow> u32" and f :: "nat \<Rightarrow> u32"
  assumes "n \<le> length w" "16 \<le> n" "\<forall>j < 16. w ! j = f j"
    and step: "\<And>i v. 16 \<le> i \<Longrightarrow> i < n \<Longrightarrow> \<forall>j < i. v ! j = f j \<Longrightarrow> g i v = f i"
  shows "length (fold (\<lambda>i v. v[i := g i v]) [16..<n] w) = length w
    \<and> (\<forall>j < n. fold (\<lambda>i v. v[i := g i v]) [16..<n] w ! j = f j)"
  using assms
proof (induction n)
  case 0
  then show ?case by simp
next
  case (Suc n)
  show ?case
  proof (cases "16 \<le> n")
    case False
    then have "Suc n = 16" using Suc.prems(2) by simp
    then show ?thesis using Suc.prems(3) by simp
  next
    case True
    let ?v = "fold (\<lambda>i v. v[i := g i v]) [16..<n] w"
    have "length ?v = length w \<and> (\<forall>j < n. ?v ! j = f j)"
      using Suc True by simp
    moreover from this have "g n ?v = f n" using Suc.prems(4) [of n ?v] True by simp
    ultimately show ?thesis using True Suc.prems(1) by (simp add: nth_list_update less_Suc_eq)
  qed
qed

lemma length_sha1_expand: "length (sha1_expand w) = length w"
proof -
  have "length (fold (\<lambda>i v. v[i := g i v]) is w) = length w" for g :: "nat \<Rightarrow> u32 list \<Rightarrow> u32" and "is"
    by (induction "is" arbitrary: w) simp_all
  then show ?thesis unfolding sha1_expand_def .
qed

lemma sha1_expand_nth:
  assumes "length blk = 64" "length r = 64" "j < 80"
  shows "length (sha1_expand (block_words blk @ r)) = 80"
    "sha1_expand (block_words blk @ r) ! j = fips1_w blk j"
proof -
  have "length (sha1_expand (block_words blk @ r)) = length (block_words blk @ r)
    \<and> (\<forall>j < 80. sha1_expand (block_words blk @ r) ! j = fips1_w blk j)"
    unfolding sha1_expand_def
  proof (rule expand_loop)
    show "\<forall>j < 16. (block_words blk @ r) ! j = fips1_w blk j"
      using assms(1) by (simp add: nth_append block_words_nth fips1_w.simps)
  next
    fix i and v :: "u32 list"
    assume "16 \<le> i" "\<forall>j < i. v ! j = fips1_w blk j"
    then show "rol (v ! (i - 3) XOR v ! (i - 8) XOR v ! (i - 14) XOR v ! (i - 16)) 1 = fips1_w blk i"
      by (simp add: fips1_w.simps [of blk i] rol_word_rotl)
  qed (use assms in simp_all)
  then show "length (sha1_expand (block_words blk @ r)) = 80"
    "sha1_expand (block_words blk @ r) ! j = fips1_w blk j"
    using assms by simp_all
qed

lemma sha256_expand_nth:
  assumes "length blk = 64" "length r = 48" "j < 64"
  shows "sha256_expand (block_words blk @ r) ! j = fips256_w blk j"
proof -
  have "length (sha256_expand (block_words blk @ r)) = length (block_words blk @ r)
    \<and> (\<forall>j < 64. sha256_expand (block_words blk @ r) ! j = fips256_w blk j)"
    unfolding sha256_expand_def
  proof (rule expand_loop)
    show "\<forall>j < 16. (block_words blk @ r) ! j = fips256_w blk j"
      using assms(1) by (simp add: nth_append block_words_nth fips256_w.simps)
  next
    fix i and v :: "u32 list"
    assume "16 \<le> i" "\<forall>j < i. v ! j = fips256_w blk j"
    then show "ssig1 (v ! (i - 2)) + v ! (i - 7) + ssig0 (v ! (i - 15)) + v ! (i - 16) = fips256_w blk i"
      by (simp add: fips256_w.simps [of blk i] sigma_eqs)
  qed (use assms in simp_all)
  then show ?thesis using assms by simp
qed

lemma sha1_rounds:
  assumes "\<forall>j < 80. w ! j = fips1_w blk j" "n \<le> 80"
  shows "fold (sha1_round w) [0..<n] (h ! 0, h ! 1, h ! 2, h ! 3, h ! 4) = fips1_vars blk h n"
  using assms(2)
proof (induction n)
  case 0
  then show ?case by simp
next
  case (Suc n)
  obtain a b c d e where v: "fips1_vars blk h n = (a, b, c, d, e)" by (metis surj_pair)
  have "w ! n = fips1_w blk n" using assms(1) Suc.prems by simp
  then show ?case
    using Suc v by (simp add: sha1_round_def Let_def rol_word_rotl ch_or maj_or fips1_f_def
        fips1_K_def parity_def)
qed

lemma sha256_rounds:
  assumes "\<forall>j < 64. w ! j = fips256_w blk j" "n \<le> 64"
  shows "fold (sha256_round w) [0..<n] (m ! 0, m ! 1, m ! 2, m ! 3, m ! 4, m ! 5, m ! 6, m ! 7)
    = fips256_vars blk m n"
  using assms(2)
proof (induction n)
  case 0
  then show ?case by simp
next
  case (Suc n)
  obtain a b c d e f g h where v: "fips256_vars blk m n = (a, b, c, d, e, f, g, h)"
    by (metis surj_pair)
  have "w ! n = fips256_w blk n" using assms(1) Suc.prems by simp
  then show ?case
    using Suc v by (simp add: sha256_round_def Let_def sigma_eqs ch_fips maj_fips sha256_K_fips)
qed

section \<open>Both classes provide the interface\<close>

definition sha1_chain :: "sha1 \<Rightarrow> u32 list" where
  "sha1_chain s = [m_h0 s, m_h1 s, m_h2 s, m_h3 s, m_h4 s]"

definition sha1_wf :: "sha1 \<Rightarrow> bool" where
  "sha1_wf s \<longleftrightarrow> length (m_processBuffer s) = 80"

lemma sha1_process_chain:
  assumes "sha1_wf s" "length blk = 64"
  shows "sha1_chain (sha1_process_block blk s) = fips1 (sha1_chain s) blk"
    "sha1_wf (sha1_process_block blk s)"
proof -
  let ?w = "sha1_expand (block_words blk @ drop 16 (m_processBuffer s))"
  have r: "length (drop 16 (m_processBuffer s)) = 64" using assms(1) by (simp add: sha1_wf_def)
  note w = sha1_expand_nth [OF assms(2) r]
  obtain a b c d e where v: "fips1_vars blk (sha1_chain s) 80 = (a, b, c, d, e)" by (metis surj_pair)
  have "fold (sha1_round ?w) [0..<80] (m_h0 s, m_h1 s, m_h2 s, m_h3 s, m_h4 s) = (a, b, c, d, e)"
    using sha1_rounds [of ?w blk 80 "sha1_chain s"] w(2) v by (simp add: sha1_chain_def)
  then show "sha1_chain (sha1_process_block blk s) = fips1 (sha1_chain s) blk"
    "sha1_wf (sha1_process_block blk s)"
    using v w(1) [of 0] by (simp_all add: sha1_process_block_def Let_def sha1_chain_def fips1_def
        sha1_wf_def add.commute)
qed

lemma sha256_process_chain:
  assumes "length blk = 64"
  shows "m_state (sha256_process_block blk s) = fips256 (m_state s) blk"
proof -
  let ?w = "sha256_expand (block_words blk @ replicate 48 0)"
  have r: "length (replicate 48 (0 :: u32)) = 48" by simp
  note w = sha256_expand_nth [OF assms r]
  obtain a b c d e f g h where v: "fips256_vars blk (m_state s) 64 = (a, b, c, d, e, f, g, h)"
    by (metis surj_pair)
  have "fold (sha256_round ?w) [0..<64] (m_state s ! 0, m_state s ! 1, m_state s ! 2, m_state s ! 3,
      m_state s ! 4, m_state s ! 5, m_state s ! 6, m_state s ! 7) = (a, b, c, d, e, f, g, h)"
    using sha256_rounds [of ?w blk 64 "m_state s"] w v by simp
  then show ?thesis
    using v by (simp add: sha256_process_block_def Let_def fips256_def add.commute)
qed

definition sha256_wf :: "sha256 \<Rightarrow> bool" where
  "sha256_wf s \<longleftrightarrow> length (m_state s) = 8"

interpretation h1: streaming_hash sha1_process_block sha1_chain fips1 sha1_wf
proof unfold_locales
  show "sha1_wf (sha1_process_block blk s)" if "sha1_wf s" for blk s
    using that by (simp add: sha1_wf_def sha1_process_block_def Let_def length_sha1_expand split: prod.split)
qed (simp_all add: sha1_process_chain(1),
  simp_all add: sha1_process_block_def sha1_chain_def sha1_wf_def Let_def split: prod.split)

interpretation h256: streaming_hash sha256_process_block m_state fips256 sha256_wf
  by unfold_locales (simp_all add: sha256_process_chain,
    simp_all add: sha256_process_block_def sha256_wf_def Let_def split: prod.split)

section \<open>The digests\<close>

definition digest_words :: "u32 list \<Rightarrow> byte list" where
  "digest_words h = concat (map (be_word_bytes 4) h)"

text \<open>The hash of a message by the standard.\<close>

definition fips_sha1 :: "byte list \<Rightarrow> byte list" where
  "fips_sha1 msg = digest_words (foldl fips1
     [0x67452301, 0xEFCDAB89, 0x98BADCFE, 0x10325476, 0xC3D2E1F0] (blocks_of (fips_pad msg)))"

definition fips_sha256 :: "byte list \<Rightarrow> byte list" where
  "fips_sha256 msg = digest_words (foldl fips256 fips256_init (blocks_of (fips_pad msg)))"

text \<open>An instance that hashes like a new one.\<close>

definition sha1_fresh :: "sha1 \<Rightarrow> bool" where
  "sha1_fresh s \<longleftrightarrow> length (m_buffer s) = 64 \<and> m_bufferSize s = 0 \<and> m_bitSize s = 0
     \<and> length (m_processBuffer s) = 80
     \<and> sha1_chain s = [0x67452301, 0xEFCDAB89, 0x98BADCFE, 0x10325476, 0xC3D2E1F0]"

definition sha256_fresh :: "sha256 \<Rightarrow> bool" where
  "sha256_fresh s \<longleftrightarrow> length (m_buffer s) = 64 \<and> m_bufferSize s = 0 \<and> m_bitSize s = 0
     \<and> m_state s = fips256_init"

lemma sha1_hash:
  assumes "sha1_fresh s"
  shows "fst (sha1_final r (fold sha1_update chunks s)) = fips_sha1 (concat chunks)"
    "sha1_fresh (snd (sha1_final True (fold sha1_update chunks s)))"
proof -
  define t where "t = fold sha1_update chunks s"
  have t': "t = fold (update_chunk sha1_process_block) chunks s"
    unfolding t_def by (simp add: sha1_update_def [abs_def])
  have s: "h1.ready s" "m_bitSize s = 0" "h1.absorbed s = (sha1_chain s, [])"
    using assms by (simp_all add: sha1_fresh_def h1.ready_def h1.absorbed_def sha1_wf_def)
  note u = h1.updates_absorb [OF s(1,3,2), of chunks, folded t']
  note p = h1.padded_hash [OF u]
  define v where "v = pad_and_process sha1_process_block t"
  have v: "length (m_buffer v) = 64" "m_bufferSize v = 0" "length (m_processBuffer v) = 80"
    using p(1,2) by (simp_all add: v_def h1.ready_def sha1_wf_def)
  have "fst (sha1_final r t) = digest_words (sha1_chain v)"
    using v by (simp add: sha1_final_def Let_def put_front_def digest_words_def sha1_chain_def
        write_be32_bytes be_word_bytes_def flip: v_def)
  then show "fst (sha1_final r (fold sha1_update chunks s)) = fips_sha1 (concat chunks)"
    using p(3) assms by (simp add: fips_sha1_def sha1_fresh_def flip: v_def t_def)
  show "sha1_fresh (snd (sha1_final True (fold sha1_update chunks s)))"
    using v by (simp add: sha1_final_def Let_def put_front_def sha1_fresh_def sha1_chain_def
        flip: v_def t_def)
qed

lemma sha256_hash:
  assumes "sha256_fresh s"
  shows "fst (sha256_final r (fold sha256_update chunks s)) = fips_sha256 (concat chunks)"
    "sha256_fresh (snd (sha256_final True (fold sha256_update chunks s)))"
proof -
  define t where "t = fold sha256_update chunks s"
  have t': "t = fold (update_chunk sha256_process_block) chunks s"
    unfolding t_def by (simp add: sha256_update_def [abs_def])
  have s: "h256.ready s" "m_bitSize s = 0" "h256.absorbed s = (m_state s, [])"
    using assms by (simp_all add: sha256_fresh_def h256.ready_def h256.absorbed_def sha256_wf_def
        sha256_init_words_def)
  note u = h256.updates_absorb [OF s(1,3,2), of chunks, folded t']
  note p = h256.padded_hash [OF u]
  define v where "v = pad_and_process sha256_process_block t"
  have v: "length (m_buffer v) = 64" "m_bufferSize v = 0" "length (m_state v) = 8"
    using p(1,2) by (simp_all add: v_def h256.ready_def sha256_wf_def)
  then have "map (\<lambda>i. write_be32 (m_state v ! i)) [0..<8] = map (be_word_bytes 4) (m_state v)"
    by (intro nth_equalityI) (simp_all add: write_be32_bytes)
  then have d: "concat (map (\<lambda>i. write_be32 (m_state v ! i)) [0..<8]) = digest_words (m_state v)"
    by (simp add: digest_words_def)
  have l: "length (digest_words (m_state v)) = 32"
    using v(3) by (auto simp: digest_words_def be_word_bytes_def length_concat sum_list_triv comp_def)
  have "fst (sha256_final r t) = digest_words (m_state v)"
    using v l by (simp add: sha256_final_def Let_def put_front_def d flip: v_def)
  then show "fst (sha256_final r (fold sha256_update chunks s)) = fips_sha256 (concat chunks)"
    using p(3) assms by (simp add: fips_sha256_def sha256_fresh_def flip: v_def t_def)
  show "sha256_fresh (snd (sha256_final True (fold sha256_update chunks s)))"
    using v l by (simp add: sha256_final_def Let_def put_front_def sha256_fresh_def d sha256_init_fips
        flip: v_def t_def)
qed

lemma fresh_init: "sha1_fresh sha1_init" "sha256_fresh sha256_init"
  by (simp_all add: sha1_fresh_def sha1_init_def sha1_chain_def sha256_fresh_def sha256_init_def sha256_init_fips)

text \<open>
  C7: \<open>Sha1\<close> is SHA-1: chunks of any sizes, in any number, given to \<open>Update\<close> of a new instance
  and finished by \<open>Final\<close> (with or without reset) give the digest of FIPS 180-4 of the whole message.
\<close>

theorem sha1_is_fips:
  "fst (sha1_final r (fold sha1_update chunks sha1_init)) = fips_sha1 (concat chunks)"
  by (rule sha1_hash(1)) (rule fresh_init)

text \<open>
  C6: \<open>Sha256\<close> is SHA-256: chunks of any sizes, in any number, given to \<open>Update\<close> of a new instance
  and finished by \<open>Final\<close> give the digest of FIPS 180-4 of the whole message.
\<close>

theorem sha256_is_fips:
  "fst (sha256_final r (fold sha256_update chunks sha256_init)) = fips_sha256 (concat chunks)"
  by (rule sha256_hash(1)) (rule fresh_init)

text \<open>
  After \<open>Final<reset>\<close> an instance hashes the next message as a new one would, whatever it
  hashed before and although the digest stays in its block buffer.
\<close>

theorem hashers_are_reusable:
  "fst (sha1_final r (fold sha1_update chunks
     (snd (sha1_final True (fold sha1_update before sha1_init))))) = sha1_digest (concat chunks)
   \<and> fst (sha256_final r (fold sha256_update chunks
     (snd (sha256_final True (fold sha256_update before sha256_init))))) = sha256_digest (concat chunks)"
proof -
  have "sha1_digest (concat chunks) = fips_sha1 (concat chunks)"
    using sha1_hash(1) [OF fresh_init(1), of True "[concat chunks]"] by (simp add: sha1_digest_def)
  moreover have "sha256_digest (concat chunks) = fips_sha256 (concat chunks)"
    using sha256_hash(1) [OF fresh_init(2), of True "[concat chunks]"] by (simp add: sha256_digest_def)
  ultimately show ?thesis
    using sha1_hash(1) [OF sha1_hash(2) [OF fresh_init(1)]]
      sha256_hash(1) [OF sha256_hash(2) [OF fresh_init(2)]] by simp
qed

end
