(* ===== verification/AuthorizationSpec.thy ===== *)
theory AuthorizationSpec
  imports AuthorizationInvariant HashingSpec
begin

text \<open>
  What the authorization module guarantees: who is granted access, what ends a session, what a
  failed operation leaves behind, and where the code falls short of this.
\<close>

section \<open>Passwords\<close>

lemma hash_password_salt: "m_salt a = m_salt b \<Longrightarrow> hash_password a pw = hash_password b pw"
  by (simp add: hash_password_def)

definition special_char :: "char \<Rightarrow> bool" where
  "special_char c \<longleftrightarrow> \<not> is_digit c \<and> \<not> is_upper c \<and> \<not> is_lower c \<and> \<not> is_space c"

lemma note_char_fields [simp]:
  "hasLower (note_char c f) \<longleftrightarrow> hasLower f \<or> is_lower c"
  "hasUpper (note_char c f) \<longleftrightarrow> hasUpper f \<or> is_upper c"
  "hasDigit (note_char c f) \<longleftrightarrow> hasDigit f \<or> is_digit c"
  "hasSpecial (note_char c f) \<longleftrightarrow> hasSpecial f \<or> special_char c"
  by (auto simp: note_char_def special_char_def is_digit_def is_upper_def is_lower_def)

lemma scan_password_valid:
  "\<not> (hasLower f \<and> hasUpper f \<and> hasDigit f \<and> hasSpecial f) \<Longrightarrow>
    fst (scan_password cs f) \<longleftrightarrow>
      (hasLower f \<or> (\<exists>c \<in> set cs. is_lower c)) \<and> (hasUpper f \<or> (\<exists>c \<in> set cs. is_upper c))
    \<and> (hasDigit f \<or> (\<exists>c \<in> set cs. is_digit c)) \<and> (hasSpecial f \<or> (\<exists>c \<in> set cs. special_char c))"
proof (induction cs arbitrary: f)
  case Nil
  then show ?case by simp
next
  case (Cons c cs)
  show ?case
  proof (cases "hasLower (note_char c f) \<and> hasUpper (note_char c f) \<and> hasDigit (note_char c f)
      \<and> hasSpecial (note_char c f)")
    case True
    then show ?thesis by (auto simp: Let_def)
  next
    case False
    then have "fst (scan_password (c # cs) f) = fst (scan_password cs (note_char c f))"
      by (simp only: scan_password.simps Let_def if_False)
    then show ?thesis using Cons.IH [OF False] by simp
  qed
qed

lemma stored_password:
  "m_password (snd (set_password now adr pw a)) = hash_password (snd (set_password now adr pw a)) pw"
  by (auto simp: set_password_def Let_def intro: hash_password_salt)

section \<open>What successful operations do\<close>

lemma activated_views:
  assumes "find_account hsh login s = Some i" "i < length (heap s)" "m_isActivated (object s i) \<noteq> b"
    "env_save e"
  defines "s' \<equiv> snd (set_account_activated_state hsh e login b s)"
  shows "fst (set_account_activated_state hsh e login b s)"
    "conns s' = (if \<not> b \<and> conn s i \<noteq> - 1 then (conns s)(conn s i := None) else conns s)"
    "m_loginHashToAccountData s' = m_loginHashToAccountData s"
    "length (heap s') = length (heap s)"
    "conn s' j = (if j = i \<and> \<not> b then - 1 else conn s j)"
    "object s' j = (if j = i then (object s i)\<lparr>m_isActivated := b\<rparr> else object s j)"
  using assms(1-4) unfolding s'_def
  by (simp_all add: set_account_activated_state_def Let_def split_beta view_simps)

lemma logon_views:
  assumes "find_account hsh login s = Some i" "i < length (heap s)"
    "fst (is_logon_allowed (env_clock e 1) (env_clock e 2) (object s i) pw err)"
    "conn s i = - 1" "c \<noteq> - 1" "conns s c = None"
  defines "s' \<equiv> snd (snd (logon_connection hsh e c login pw err s))"
  shows "fst (logon_connection hsh e c login pw err s)"
    "conns s' = (conns s)(c \<mapsto> i)"
    "m_loginHashToAccountData s' = m_loginHashToAccountData s"
    "length (heap s') = length (heap s)"
    "conn s' j = (if j = i then c else conn s j)" "object s' j = object s j"
  using assms(1-6) unfolding s'_def
  by (auto simp: logon_connection_def Let_def split_beta view_simps update_conv')

lemma register_views:
  assumes "register_account hsh e login pw err s = Some (True, err', s')"
  shows "accounts s (hsh login) = None" "conns s' = conns s"
    "accounts s' = (accounts s)(hsh login \<mapsto> length (heap s))"
    "length (heap s') = Suc (length (heap s))" "conn s' (length (heap s)) = - 1"
    "hash_password (object s' (length (heap s))) pw = m_password (object s' (length (heap s)))"
    "m_isInitialized (object s' (length (heap s)))"
    "\<not> m_isActivated (object s' (length (heap s)))"
    "m_blockedTill (object s' (length (heap s))) = timer_of 0"
    "m_grade (object s' (length (heap s))) = 0"
proof -
  from assms show g: "accounts s (hsh login) = None" by (cases rule: register_cases) simp_all
  obtain a b where s': "b = the (set_login login (new_account (env_clock e 0)))"
      "set_login login (new_account (env_clock e 0)) \<noteq> None"
      "a = snd (set_password (env_clock e 2) (env_address e) pw b)"
      "s' = on_account_activity e (length (heap s)) (env_clock e 1)
         (''Registered at '' @ timer_to_string (env_clock e 1))
         (snd (save e (length (heap s)) (emplace_account (hsh login) a (m_moduleDataPath s @ login) s)))"
    using assms by (cases rule: register_cases) (auto simp: Let_def)
  have b: "\<not> m_isInitialized b" "\<not> m_isActivated b" "m_grade b = 0"
    using s'(1,2) by (auto simp: set_login_def new_account_def split: if_splits)
  show "conns s' = conns s" "accounts s' = (accounts s)(hsh login \<mapsto> length (heap s))"
    "length (heap s') = Suc (length (heap s))" "conn s' (length (heap s)) = - 1"
    using g by (simp_all add: s'(4) view_simps)
  have a: "object s' (length (heap s)) = a"
    using g by (simp add: s'(4) view_simps)
  show "hash_password (object s' (length (heap s))) pw = m_password (object s' (length (heap s)))"
    unfolding a s'(3) stored_password ..
  show "m_isInitialized (object s' (length (heap s)))" "\<not> m_isActivated (object s' (length (heap s)))"
    "m_blockedTill (object s' (length (heap s))) = timer_of 0" "m_grade (object s' (length (heap s))) = 0"
    unfolding a s'(3) using b by (simp_all add: set_password_def Let_def)
qed

section \<open>Claims\<close>

text \<open>
  The password policy. A password is accepted exactly when it has 8 to 28 characters, among them
  a lowercase letter, an uppercase letter, a digit and a character that is neither of these nor
  white space; an accepted password leaves the error text alone.
\<close>

theorem password_policy:
  "fst (check_password_requirements pw err) \<longleftrightarrow>
     8 \<le> length pw \<and> length pw \<le> 28 \<and> (\<exists>c \<in> set pw. is_lower c) \<and> (\<exists>c \<in> set pw. is_upper c)
   \<and> (\<exists>c \<in> set pw. is_digit c)
   \<and> (\<exists>c \<in> set pw. \<not> is_digit c \<and> \<not> is_upper c \<and> \<not> is_lower c \<and> \<not> is_space c)"
proof (cases "length pw < 8 \<or> 28 < length pw")
  case True
  then show ?thesis by (auto simp: check_password_requirements_def)
next
  case False
  let ?f = "\<lparr>hasLower = False, hasUpper = False, hasDigit = False, hasSpecial = False\<rparr>"
  have "fst (check_password_requirements pw err) = fst (scan_password pw ?f)"
    using False by (simp add: check_password_requirements_def split_beta)
  then show ?thesis
    using False scan_password_valid [of ?f pw] by (simp add: special_char_def)
qed

text \<open>
  C5: when access is granted to a connection, the connection is logged on with exactly one
  registered account, which is initialized and activated, names this connection as its only one and
  has at least the required grade. This holds in every state that the operations of the module, one
  after the other, can reach.
\<close>

theorem access_requires_logon:
  assumes "auth_reachable hsh s" and "fst (is_access_granted e c g s)"
  shows "\<exists>h i. accounts s h = Some i \<and> conns s c = Some i \<and> m_isInitialized (object s i)
     \<and> m_isActivated (object s i) \<and> g \<le> m_grade (object s i) \<and> conn s i = c
     \<and> (\<forall>h' j. accounts s h' = Some j \<longrightarrow> conn s j = c \<longrightarrow> j = i \<and> h' = h)
     \<and> (\<forall>c'. conns s c' = Some i \<longrightarrow> c' = c)"
proof -
  have inv: "auth_inv s" using assms(1) by (rule auth_reachable_inv)
  obtain i where c: "conns s c = Some i"
    using assms(2) by (cases "conns s c") (simp_all add: is_access_granted_def)
  have g: "g \<le> m_grade (object s i)"
    using assms(2) c by (simp add: is_access_granted_def Let_def)
  note d = inv_connectionD [OF inv c]
  from d(2) obtain h where h: "accounts s h = Some i" by blast
  have "j = i \<and> h' = h" if "accounts s h' = Some j" "conn s j = c" for h' j
  proof -
    have "j = i" using inv_accountD(3) [OF inv that(1)] that(2) d(1) c by simp
    then show ?thesis using inv_accountD(4) [OF inv h, of h'] that(1) by simp
  qed
  moreover have "c' = c" if "conns s c' = Some i" for c'
    using inv_connectionD(3) [OF inv that] d(3) by simp
  ultimately show ?thesis using c g d h by blast
qed

text \<open>The session of a new account, from its registration to the access check.\<close>

lemma register_to_access:
  assumes inv: "auth_inv s"
    and r: "register_account hsh e1 login pw err s = Some (True, err1, s1)"
    and a: "env_save e2" "s2 = snd (set_account_activated_state hsh e2 login True s1)"
    and t: "timer_of 0 \<le> env_clock e3 1"
    and c: "c \<noteq> - 1" "conns s c = None"
    and l: "s3 = snd (snd (logon_connection hsh e3 c login pw err2 s2))"
  shows "fst (set_account_activated_state hsh e2 login True s1)"
    "fst (logon_connection hsh e3 c login pw err2 s2)"
    "fst (is_access_granted e4 c g s3) \<longleftrightarrow> g \<le> 0"
    "conns s3 = (conns s)(c \<mapsto> length (heap s))"
    "accounts s3 = (accounts s)(hsh login \<mapsto> length (heap s))"
    "length (heap s3) = Suc (length (heap s))" "conn s3 (length (heap s)) = c"
    "object s3 (length (heap s)) = (object s1 (length (heap s)))\<lparr>m_isActivated := True\<rparr>"
proof -
  let ?i = "length (heap s)"
  note v = register_views [OF r]
  have f1: "find_account hsh login s1 = Some ?i" using v(3) by (simp add: find_account_def)
  have i1: "?i < length (heap s1)" using v(4) by simp
  have na: "m_isActivated (object s1 ?i) \<noteq> True" using v(8) by simp
  note w = activated_views [OF f1 i1 na a(1), folded a(2)]
  show "fst (set_account_activated_state hsh e2 login True s1)" by (rule w(1))
  have f2: "find_account hsh login s2 = Some ?i" using f1 w(3) by (simp add: find_account_def)
  have i2: "?i < length (heap s2)" using i1 w(4) by simp
  have o2: "object s2 ?i = (object s1 ?i)\<lparr>m_isActivated := True\<rparr>" using w(6) [of ?i] by simp
  have "hash_password (object s2 ?i) pw = m_password (object s2 ?i)"
    using v(6) hash_password_salt [of "object s2 ?i" "object s1 ?i" pw] by (simp add: o2)
  then have ok: "fst (is_logon_allowed (env_clock e3 1) (env_clock e3 2) (object s2 ?i) pw err2)"
    using v(7,9) o2 t by (simp add: is_logon_allowed_def leD)
  have c2: "conn s2 ?i = - 1" "conns s2 c = None" using w(2,5) v(2,5) c(2) by simp_all
  note x = logon_views [OF f2 i2 ok c2(1) c(1) c2(2), folded l]
  show "fst (logon_connection hsh e3 c login pw err2 s2)" by (rule x(1))
  show cs: "conns s3 = (conns s)(c \<mapsto> ?i)" using x(2) w(2) v(2) by simp
  show "accounts s3 = (accounts s)(hsh login \<mapsto> ?i)" using x(3) w(3) v(3) by simp
  show "length (heap s3) = Suc ?i" using x(4) w(4) v(4) by simp
  show "conn s3 ?i = c" using x(5) by simp
  show "object s3 ?i = (object s1 ?i)\<lparr>m_isActivated := True\<rparr>" using x(6) o2 by simp
  have "m_grade (object s3 ?i) = 0" using x(6) o2 v(10) by simp
  then show "fst (is_access_granted e4 c g s3) \<longleftrightarrow> g \<le> 0"
    using cs by (simp add: is_access_granted_def Let_def)
qed

text \<open>
  A person who registers and whose account is then activated can log on with the password
  given at registration, and is granted access as a guest and no more.
\<close>

theorem registered_can_logon:
  assumes "auth_reachable hsh s"
    and "register_account hsh e1 login pw err s = Some (True, err1, s1)"
    and "env_save e2" and "s2 = snd (set_account_activated_state hsh e2 login True s1)"
    and "timer_of 0 \<le> env_clock e3 1" and "c \<noteq> - 1" and "conns s c = None"
    and "s3 = snd (snd (logon_connection hsh e3 c login pw err2 s2))"
  shows "fst (set_account_activated_state hsh e2 login True s1)
    \<and> fst (logon_connection hsh e3 c login pw err2 s2)
    \<and> (fst (is_access_granted e4 c g s3) \<longleftrightarrow> g \<le> 0)"
  using register_to_access [OF auth_reachable_inv [OF assms(1)] assms(2-8)] by blast

lemma revocation:
  assumes "auth_reachable hsh s" and "find_account hsh login s = Some i"
  shows "conns (delete_account hsh e login s) c \<noteq> Some i"
    and "find_account hsh login (delete_account hsh e login s) = None"
    and "m_isActivated (object s i) \<Longrightarrow>
      conns (snd (set_account_activated_state hsh e login False s)) c \<noteq> Some i"
    and "m_blockedTill (object s i) \<le> env_clock e 0 \<Longrightarrow> env_clock e 0 < till \<Longrightarrow>
      conns (snd (block_account_till hsh e login till s)) c \<noteq> Some i"
proof -
  have inv: "auth_inv s" using assms(1) by (rule auth_reachable_inv)
  note f = find_inv [OF inv assms(2)]
  have c: "c' = conn s i" "conn s i \<noteq> - 1" if "conns s c' = Some i" for c'
    using inv_connectionD(1,3) [OF inv that] by simp_all
  show "conns (delete_account hsh e login s) c \<noteq> Some i"
    "find_account hsh login (delete_account hsh e login s) = None"
    using assms(2) c f by (auto simp: delete_account_def Let_def view_simps find_account_def delete_conv')
  show "conns (snd (set_account_activated_state hsh e login False s)) c \<noteq> Some i"
    if "m_isActivated (object s i)"
    using assms(2) c f that
    by (auto simp: set_account_activated_state_def Let_def split_beta view_simps)
  show "conns (snd (block_account_till hsh e login till s)) c \<noteq> Some i"
    if "m_blockedTill (object s i) \<le> env_clock e 0" "env_clock e 0 < till"
    using assms(2) c f that
    by (auto simp: block_account_till_def set_blocked_till_def Let_def split_beta view_simps)
qed

text \<open>
  C23: ending a session. Deleting an account, deactivating it (even when its file cannot be written)
  and blocking an account that is not blocked yet leave no connection that is logged on with it;
  a deleted account is also no longer found.
\<close>

theorem sessions_are_revoked:
  assumes "auth_reachable hsh s" and "find_account hsh login s = Some i"
  shows "conns (delete_account hsh e login s) c \<noteq> Some i
    \<and> find_account hsh login (delete_account hsh e login s) = None
    \<and> (m_isActivated (object s i) \<longrightarrow>
         conns (snd (set_account_activated_state hsh e login False s)) c \<noteq> Some i)
    \<and> (m_blockedTill (object s i) \<le> env_clock e 0 \<longrightarrow> env_clock e 0 < till \<longrightarrow>
         conns (snd (block_account_till hsh e login till s)) c \<noteq> Some i)"
  using revocation [OF assms] by blast

lemma failed_save:
  assumes "auth_reachable hsh s" and "\<not> env_save e"
  shows "\<not> fst (modify_account_password hsh e login pw err s)
      \<and> object (snd (snd (modify_account_password hsh e login pw err s))) j = object s j"
    and "\<not> fst (modify_account_grade hsh e login g s)
      \<and> object (snd (modify_account_grade hsh e login g s)) j = object s j"
    and "\<not> fst (set_account_activated_state hsh e login b s)
      \<and> object (snd (set_account_activated_state hsh e login b s)) j = object s j"
    and "\<not> fst (block_account_till hsh e login till s)
      \<and> object (snd (block_account_till hsh e login till s)) j = object s j"
proof -
  have inv: "auth_inv s" using assms(1) by (rule auth_reachable_inv)
  have pw: "(snd (set_password now adr pw a))\<lparr>m_password := m_password a\<rparr> = a"
    "\<not> fst (set_password now adr pw a) \<Longrightarrow> snd (set_password now adr pw a) = a"
    if "m_isInitialized a" for now adr a
    using that by (simp_all add: set_password_def Let_def split: if_splits)
  show "\<not> fst (modify_account_password hsh e login pw err s)
      \<and> object (snd (snd (modify_account_password hsh e login pw err s))) j = object s j"
    using assms(2) find_inv [OF inv] pw
    by (auto simp: modify_account_password_def Let_def split_beta view_simps split: option.splits)
  show "\<not> fst (modify_account_grade hsh e login g s)
      \<and> object (snd (modify_account_grade hsh e login g s)) j = object s j"
    using assms(2) find_inv [OF inv]
    by (auto simp: modify_account_grade_def Let_def split_beta view_simps split: option.splits)
  show "\<not> fst (set_account_activated_state hsh e login b s)
      \<and> object (snd (set_account_activated_state hsh e login b s)) j = object s j"
    using assms(2) find_inv [OF inv]
    by (auto simp: set_account_activated_state_def Let_def split_beta view_simps split: option.splits)
  show "\<not> fst (block_account_till hsh e login till s)
      \<and> object (snd (block_account_till hsh e login till s)) j = object s j"
    using assms(2) find_inv [OF inv]
    by (auto simp: block_account_till_def set_blocked_till_def Let_def split_beta view_simps
        split: option.splits)
qed

text \<open>
  C30: when the file of an account cannot be written, a change of the password, the grade, the
  activation or the blocking time reports failure and leaves every account as it was.
\<close>

theorem failed_save_reverts:
  assumes "auth_reachable hsh s" and "\<not> env_save e"
  shows "(\<not> fst (modify_account_password hsh e login pw err s)
      \<and> object (snd (snd (modify_account_password hsh e login pw err s))) j = object s j)
    \<and> (\<not> fst (modify_account_grade hsh e login g s)
      \<and> object (snd (modify_account_grade hsh e login g s)) j = object s j)
    \<and> (\<not> fst (set_account_activated_state hsh e login b s)
      \<and> object (snd (set_account_activated_state hsh e login b s)) j = object s j)
    \<and> (\<not> fst (block_account_till hsh e login till s)
      \<and> object (snd (block_account_till hsh e login till s)) j = object s j)"
  using failed_save [OF assms] by blast

text \<open>
  The decision of \<open>LogonConnection\<close>. It succeeds exactly for a registered login with the right
  password whose account is initialized, activated, not blocked and not logged on, on a connection
  that is not logged on; then the connection is bound to the account, and otherwise no connection
  changes.
\<close>

theorem logon_decision:
  assumes "auth_reachable hsh s" and "c \<noteq> - 1"
  shows "fst (logon_connection hsh e c login pw err s) =
      (\<exists>i. find_account hsh login s = Some i \<and> hash_password (object s i) pw = m_password (object s i)
         \<and> m_isInitialized (object s i) \<and> m_isActivated (object s i)
         \<and> (m_blockedTill (object s i) \<le> env_clock e 1 \<or> m_blockedTill (object s i) \<le> env_clock e 2)
         \<and> conn s i = - 1 \<and> conns s c = None)
    \<and> conns (snd (snd (logon_connection hsh e c login pw err s))) =
        (if fst (logon_connection hsh e c login pw err s)
         then (conns s)(c := find_account hsh login s) else conns s)"
proof (cases "find_account hsh login s")
  case None
  then show ?thesis by (simp add: logon_connection_def)
next
  case (Some i)
  obtain ok e1 where ok: "is_logon_allowed (env_clock e 1) (env_clock e 2) (object s i) pw err = (ok, e1)"
    by (metis surj_pair)
  have okI: "ok = (hash_password (object s i) pw = m_password (object s i)
         \<and> m_isInitialized (object s i) \<and> m_isActivated (object s i)
         \<and> (m_blockedTill (object s i) \<le> env_clock e 1 \<or> m_blockedTill (object s i) \<le> env_clock e 2))"
    using ok by (auto simp: is_logon_allowed_def split: if_splits)
  show ?thesis
  proof (cases ok)
    case True
    then show ?thesis
      using Some ok okI assms(2) by (auto simp: logon_connection_def Let_def view_simps update_conv')
  next
    case False
    then show ?thesis
      using Some ok okI assms(2) by (auto simp: logon_connection_def Let_def view_simps)
  qed
qed

section \<open>Inactivity\<close>

lemma expired_set:
  "expired now s cs = Some r \<Longrightarrow>
    c \<in> set r \<longleftrightarrow> (\<exists>i l. (c, i) \<in> set cs \<and> timer_plus (m_lastActivity (heap s ! i)) (m_logoutTimeout s) = Some l \<and> l < now)"
proof (induction cs arbitrary: r)
  case Nil
  then show ?case by simp
next
  case (Cons p cs)
  obtain c' i where p: "p = (c', i)" by (metis surj_pair)
  obtain l r' where l: "timer_plus (m_lastActivity (heap s ! i)) (m_logoutTimeout s) = Some l"
      "expired now s cs = Some r'" "r = (if l < now then c' # r' else r')"
    using Cons.prems p by (auto split: option.splits)
  then show ?case using Cons.IH [OF l(2)] p by auto
qed

lemma logout_conns: "conns (logout_connection e c s) = (conns s)(c := None)"
  by (auto simp: logout_connection_def logout_take_def logout_finish_def Let_def view_simps
      split: option.splits)

lemma logout_all_conns: "conns (logout_all e k cs s) c = (if c \<in> set cs then None else conns s c)"
  by (induction cs arbitrary: s k) (auto simp: logout_conns)

text \<open>
  The timer logs out exactly the connections whose account was last active longer ago than the
  timeout, and the module keeps its invariant.
\<close>

theorem timeout_logs_out:
  assumes "auth_reachable hsh s" and "handle_event e s = Some s'" and "conns s c = Some i"
  shows "(conns s' c = None \<longleftrightarrow>
      timer_ns (m_lastActivity (heap s ! i)) + duration_ns (m_logoutTimeout s) < timer_ns (env_clock e 0))
    \<and> (conns s' c = None \<or> conns s' c = Some i)"
proof -
  have inv: "auth_inv s" using assms(1) by (rule auth_reachable_inv)
  obtain cs where cs: "expired (env_clock e 0) s (m_logonConnectionToAccountData s) = Some cs"
      "s' = logout_all e 1 cs s"
    using assms(2) by (auto simp: handle_event_def)
  have m: "(c, j) \<in> set (m_logonConnectionToAccountData s) \<longleftrightarrow> j = i" for j
    by (metis assms(3) map_of_eq_Some_iff [OF invD(2) [OF inv]] option.inject)
  have defined: "timer_plus (m_lastActivity (heap s ! i)) (m_logoutTimeout s) \<noteq> None"
  proof -
    have "expired now s xs \<noteq> None \<Longrightarrow> (c, i) \<in> set xs \<Longrightarrow>
      timer_plus (m_lastActivity (heap s ! i)) (m_logoutTimeout s) \<noteq> None" for now xs
      by (induction xs) (auto split: option.splits)
    then show ?thesis using cs(1) m by blast
  qed
  then have less: "timer_plus (m_lastActivity (heap s ! i)) (m_logoutTimeout s) = Some l \<and> l < now \<longleftrightarrow>
      timer_plus (m_lastActivity (heap s ! i)) (m_logoutTimeout s) = Some l
      \<and> timer_ns (m_lastActivity (heap s ! i)) + duration_ns (m_logoutTimeout s) < timer_ns now" for l now
    by (auto simp: timer_plus_def int64_chk_def less_timer_def timer_less_def split: if_splits)
  have "c \<in> set cs \<longleftrightarrow>
      timer_ns (m_lastActivity (heap s ! i)) + duration_ns (m_logoutTimeout s) < timer_ns (env_clock e 0)"
    unfolding expired_set [OF cs(1)] m using less defined by auto
  then show ?thesis using assms(3) by (auto simp: cs(2) logout_all_conns)
qed

text \<open>
  The first check after a change of the timeout. Whatever the new timeout and the running time
  of the module, the event is started with 60 seconds to its first call: the branch that computes a
  longer time subtracts in the wrong direction and is never taken. The event also runs when the
  module is not started.
\<close>

theorem first_check_is_a_minute:
  assumes "set_logout_timeout e d s = Some s'" and "0 < duration_seconds d"
  shows "\<exists>now. m_logoutEvent s' = Some (60, 60, now) \<and> m_logoutTimeout s' = d"
proof -
  have quiet_event: "m_logoutEvent (logout_connection e' c t) = m_logoutEvent t" for e' c t
    by (auto simp: logout_connection_def logout_take_def logout_finish_def Let_def
        on_account_activity_def set_connection_def set_account_data_def drop_connection_def split: option.splits)
  have all: "m_logoutEvent (logout_all e' k cs t) = m_logoutEvent t" for e' k cs t
    by (induction cs arbitrary: t k) (simp_all add: quiet_event)
  have neg: "duration_seconds b < 60" if "timer_diff n l = Some b" "\<not> l < n" for n l b
  proof -
    have "duration_ns b \<le> 0"
      using that by (auto simp: timer_diff_def int64_chk_def less_timer_def timer_less_def split: if_splits)
    then have "duration_ns b sdiv 1000000000 \<le> 0"
      by (auto simp: signed_divide_int_def sgn_if)
    then show ?thesis by (simp add: duration_seconds_def)
  qed
  show ?thesis
    using assms neg
    by (auto simp: set_logout_timeout_def handle_event_def Let_def all split: if_splits option.splits)
qed

section \<open>The files of the accounts\<close>

definition account_wf :: "account \<Rightarrow> bool" where
  "account_wf a \<longleftrightarrow> length (m_login a) = 48 \<and> length (m_salt a) = 16 \<and> length (m_password a) = 32
     \<and> - (2 ^ 15) \<le> m_grade a \<and> m_grade a < 2 ^ 15"

lemma length_account_bytes:
  "account_wf a \<Longrightarrow> length vptr = 8 \<Longrightarrow> length padding = 4 \<Longrightarrow> length (account_bytes vptr padding a) = 120"
  by (simp add: account_bytes_def account_wf_def)

lemma sint_grade: "- (2 ^ 15) \<le> g \<Longrightarrow> g < 2 ^ 15 \<Longrightarrow> sint (word_of_int g :: u16) = g"
  by (simp add: signed_of_int signed_take_bit_int_eq_self)

lemma account_save_load_bytes:
  assumes "account_wf a" and "length vptr = 8" and "length padding = 4"
  shows "account_of_bytes (account_bytes vptr padding a) = Some a"
proof -
  define b where "b = word_bytes 8 (m_point (m_blockedTill a))"
  define g where "g = word_bytes 2 (word_of_int (m_grade a) :: u16)"
  define l where "l = map byte_of_char (m_login a)"
  have len: "length l = 48" "length (m_salt a) = 16" "length b = 8" "length (m_password a) = 32" "length g = 2"
    using assms(1) by (simp_all add: l_def b_def g_def account_wf_def)
  have bytes: "account_bytes vptr padding a = vptr @ l @ m_salt a @ b @ m_password a @ g
      @ [of_bool (m_isActivated a), of_bool (m_isInitialized a)] @ padding"
    by (simp add: account_bytes_def b_def g_def l_def)
  have dec: "word_of_bytes b = m_point (m_blockedTill a)"
    "sint (word_of_bytes g :: u16) = m_grade a" "map char_of_byte l = m_login a"
    using assms(1) sint_grade [of "m_grade a"]
    by (simp_all add: b_def g_def l_def word_of_bytes_word_bytes account_wf_def)
  have n: "(x :: byte) > 1 \<longleftrightarrow> \<not> x \<le> 1" for x by auto
  show ?thesis
    unfolding account_of_bytes_def bytes
    using len assms(2,3) dec
    by (simp add: nth_append n)
qed

text \<open>
  An account survives its file. The 120 bytes that are saved for an account give the same
  account when they are read back, whatever the virtual table pointer and the padding were.
\<close>

theorem account_save_load:
  assumes "account_wf a" and "length vptr = 8" and "length padding = 4"
  shows "account_of_bytes (account_bytes vptr padding a) = Some a"
  using assms by (rule account_save_load_bytes)

lemma c_str_append: "CHR 0x00 \<notin> set dir \<Longrightarrow> c_str (dir @ s) = dir @ c_str s"
  by (induction dir) (auto simp: c_str_def)

lemma c_str_idem [simp]: "c_str (c_str s) = c_str s"
  by (simp add: c_str_def)

lemma c_str_NUL: "c_str (s @ CHR 0x00 # t) = c_str s"
  by (induction s) (auto simp: c_str_def)

lemma get_login_set_login: "set_login l a = Some b \<Longrightarrow> get_login b = c_str l"
  by (auto simp: set_login_def get_login_def c_str_NUL split: if_splits)

lemma read_saved:
  assumes "length obj = 120" "rd (c_str path)"
  shows "read_binary rd path (save_binary obj path fs) = Some obj"
    "read_binary rd path (save_str d path (save_binary obj path fs)) = Some obj"
proof -
  have "obj \<noteq> []" using assms(1) by auto
  then show "read_binary rd path (save_binary obj path fs) = Some obj"
    "read_binary rd path (save_str d path (save_binary obj path fs)) = Some obj"
    using assms
    by (simp_all add: read_binary_def save_binary_def save_str_def Let_def file_bytes_def update_conv')
qed

text \<open>The file of an account right after it was saved, and after a line was added.\<close>

lemma saved_file:
  assumes "env_save e" "length (env_vptr e) = 8" "length (env_padding e) = 4"
    "account_wf (object s i)" "rd (c_str (m_dataPath (heap s ! i)))"
  shows "read_binary rd (m_dataPath (heap s ! i)) (files (on_account_activity e i t d (snd (save e i s))))
    = Some (account_bytes (env_vptr e) (env_padding e) (object s i))"
proof -
  have "length (account_bytes (env_vptr e) (env_padding e) (object s i)) = 120"
    using assms by (simp add: length_account_bytes)
  note r = read_saved [OF this, of rd, OF assms(5)]
  have p: "m_dataPath (heap (set_account_data i f (snd (save e i s))) ! i) = m_dataPath (heap s ! i)"
    if "\<And>d. m_dataPath (f d) = m_dataPath d" for f
    using that by (simp add: view_simps)
  show ?thesis
    using assms(1) r p by (simp add: on_account_activity_def Let_def save_def view_simps)
qed

lemma length_fips256: "length (fips256 h blk) = 8"
  by (simp add: fips256_def split: prod.split)

lemma length_hash_password: "length (hash_password a pw) = 32"
proof -
  have "hash_password a pw = fips_sha256 (m_salt a @ map byte_of_char pw)"
    using sha256_hash(1) [OF fresh_init(2), of False "[m_salt a, map byte_of_char pw]"]
    by (simp add: hash_password_def)
  moreover have "length (foldl fips256 h bs) = 8" if "length h = 8" for h bs
    using that by (induction bs arbitrary: h) (simp_all add: length_fips256)
  then have "length (foldl fips256 fips256_init bs) = 8" for bs
    by simp
  then have "length (digest_words (foldl fips256 fips256_init bs)) = 32" for bs
    by (simp add: digest_words_def be_word_bytes_def length_concat sum_list_triv comp_def)
  ultimately show ?thesis by (simp add: fips_sha256_def)
qed

lemma set_password_wf: "account_wf a \<Longrightarrow> account_wf (snd (set_password now adr pw a))"
  by (simp add: account_wf_def set_password_def Let_def length_hash_password)

lemma set_login_wf: "account_wf a \<Longrightarrow> set_login l a = Some b \<Longrightarrow> account_wf b"
  by (auto simp: account_wf_def set_login_def MAX_LOGIN_SIZE_def split: if_splits)

lemma new_account_wf: "account_wf (new_account t)"
  by (simp add: account_wf_def new_account_def MAX_LOGIN_SIZE_def SALT_SIZE_def PASSWORD_HASH_SIZE_def)

lemma register_file:
  assumes r: "register_account hsh e login pw err s = Some (True, err', s')"
    and "length (env_vptr e) = 8" "length (env_padding e) = 4" "rd (c_str (m_moduleDataPath s @ login))"
  shows "read_binary rd (m_moduleDataPath s @ login) (files s')
      = Some (account_bytes (env_vptr e) (env_padding e) (object s' (length (heap s))))"
    "account_wf (object s' (length (heap s)))"
    "get_login (object s' (length (heap s))) = c_str login"
proof -
  let ?i = "length (heap s)"
  have g: "accounts s (hsh login) = None" and sv: "env_save e"
    using r by (cases rule: register_cases; simp)+
  obtain a b where s': "set_login login (new_account (env_clock e 0)) = Some b"
      "a = snd (set_password (env_clock e 2) (env_address e) pw b)"
      "s' = on_account_activity e ?i (env_clock e 1)
         (''Registered at '' @ timer_to_string (env_clock e 1))
         (snd (save e ?i (emplace_account (hsh login) a (m_moduleDataPath s @ login) s)))"
    using r by (cases rule: register_cases) (auto simp: Let_def)
  let ?t = "emplace_account (hsh login) a (m_moduleDataPath s @ login) s"
  have t: "object ?t ?i = a" "m_dataPath (heap ?t ! ?i) = m_moduleDataPath s @ login"
    using g by (simp_all add: view_simps)
  have o: "object s' ?i = a" unfolding s'(3) using t(1) by (simp add: view_simps)
  have wf: "account_wf a"
    unfolding s'(2) by (rule set_password_wf, rule set_login_wf [OF new_account_wf s'(1)])
  then show "account_wf (object s' ?i)" by (simp only: o)
  have rdt: "rd (c_str (m_dataPath (heap ?t ! ?i)))" unfolding t(2) by (rule assms(4))
  have wft: "account_wf (object ?t ?i)" unfolding t(1) by (rule wf)
  have "read_binary rd (m_dataPath (heap ?t ! ?i)) (files s')
      = Some (account_bytes (env_vptr e) (env_padding e) (object ?t ?i))"
    unfolding s'(3) using sv assms(2,3) wft rdt
    by (rule saved_file [where e = e and i = ?i and s = ?t and rd = rd])
  then show "read_binary rd (m_moduleDataPath s @ login) (files s')
      = Some (account_bytes (env_vptr e) (env_padding e) (object s' ?i))"
    unfolding t o .
  have "m_login a = m_login b" by (simp add: s'(2) set_password_def Let_def)
  then show "get_login (object s' ?i) = c_str login"
    using get_login_set_login [OF s'(1)] o by (simp add: get_login_def)
qed

text \<open>The state of a module that starts again on the files.\<close>

definition restarted :: "string \<Rightarrow> files \<Rightarrow> auth" where
  "restarted dir fs = (new_module fs)\<lparr>m_moduleDataPath := dir\<rparr>"

lemma load_one:
  assumes "read_binary rd (dir @ n) fs = Some bs" "account_of_bytes bs = Some a" "m_isInitialized a"
  shows "load_accounts hsh rd [n] (restarted dir fs)
    = Some (True, emplace_account (hsh (get_login a)) a (dir @ n) (restarted dir fs))"
  using assms by (simp add: restarted_def new_module_def Let_def)

lemma find_loaded:
  "find_account hsh l (emplace_account (hsh l) a p (restarted dir fs)) = Some 0"
  "object (emplace_account (hsh l) a p (restarted dir fs)) 0 = a"
  by (simp_all add: emplace_account_def find_account_def restarted_def new_module_def emplace_entry_def)

text \<open>A module that has an account under a hash, and the start that loads it among others.\<close>

definition holds_account :: "u64 \<Rightarrow> account \<Rightarrow> auth \<Rightarrow> bool" where
  "holds_account h a s \<longleftrightarrow>
     (\<exists>i < length (heap s). map_of (m_loginHashToAccountData s) h = Some i \<and> object s i = a)"

lemma emplace_other:
  "h' \<noteq> h \<Longrightarrow> map_of (m_loginHashToAccountData (emplace_account h' b p s)) h = map_of (m_loginHashToAccountData s) h"
  by (simp add: emplace_account_def emplace_entry_def map_add_def split: option.split)

lemma emplace_keeps_account:
  assumes "holds_account h a s"
  shows "holds_account h a (emplace_account h' b p s)"
proof -
  obtain i where i: "i < length (heap s)" "map_of (m_loginHashToAccountData s) h = Some i" "object s i = a"
    using assms by (auto simp: holds_account_def)
  have "map_of (m_loginHashToAccountData (emplace_account h' b p s)) h = Some i"
    using i(2) emplace_other [of h' h] by (cases "h' = h") (simp_all add: emplace_account_def)
  moreover have "i < length (heap (emplace_account h' b p s))" "object (emplace_account h' b p s) i = a"
    using i(1,3) by (simp_all add: emplace_account_def nth_append)
  ultimately show ?thesis by (auto simp: holds_account_def)
qed

lemma emplace_new:
  assumes "map_of (m_loginHashToAccountData s) h = None"
  shows "holds_account h a (emplace_account h a p s)"
  unfolding holds_account_def
  by (rule exI [of _ "length (heap s)"])
    (use assms in \<open>simp add: emplace_account_def emplace_entry_def nth_append map_add_def\<close>)

lemma emplace_paths [simp]:
  "files (emplace_account h b p s) = files s" "m_moduleDataPath (emplace_account h b p s) = m_moduleDataPath s"
  by (simp_all add: emplace_account_def)

lemma load_finds:
  assumes "\<forall>n \<in> set ns. \<exists>bs b. read_binary rd (m_moduleDataPath s @ n) (files s) = Some bs \<and> account_of_bytes bs = Some b
      \<and> (n = l \<longrightarrow> b = a) \<and> (n \<noteq> l \<and> m_isInitialized b \<longrightarrow> hsh (get_login b) \<noteq> hsh l)"
    and "m_isInitialized a" "get_login a = l"
    and "holds_account (hsh l) a s \<or> map_of (m_loginHashToAccountData s) (hsh l) = None \<and> l \<in> set ns"
  shows "\<exists>s'. load_accounts hsh rd ns s = Some (True, s') \<and> holds_account (hsh l) a s'"
  using assms(1,4)
proof (induction ns arbitrary: s)
  case (Cons n ns)
  obtain bs b where b: "read_binary rd (m_moduleDataPath s @ n) (files s) = Some bs" "account_of_bytes bs = Some b"
    "n = l \<longrightarrow> b = a" "n \<noteq> l \<and> m_isInitialized b \<longrightarrow> hsh (get_login b) \<noteq> hsh l"
    using Cons.prems(1) by auto
  let ?s = "if m_isInitialized b then emplace_account (hsh (get_login b)) b (m_moduleDataPath s @ n) s else s"
  have "holds_account (hsh l) a ?s \<or> map_of (m_loginHashToAccountData ?s) (hsh l) = None \<and> l \<in> set ns"
    using Cons.prems(2) b(3,4) assms(2,3) by (cases "n = l") (auto simp: emplace_keeps_account emplace_new emplace_other)
  then have "\<exists>s'. load_accounts hsh rd ns ?s = Some (True, s') \<and> holds_account (hsh l) a s'"
    using Cons.prems(1) by (intro Cons.IH) (auto split: if_splits)
  then show ?case using b(1,2) by (auto simp: Let_def split: if_splits)
qed simp

text \<open>
  C31: a registration survives a restart: a module that starts on the files, in a directory whose
  listing has the file of the account, finds the account under the login with the password, provided
  that the other files of the directory can be read and hold accounts whose logins have other
  hashes. The name of the file is the login up to its first NUL, and so is the login under which the
  account is loaded.
\<close>

theorem registration_is_loaded:
  assumes "register_account hsh e login pw err s = Some (True, err', s')"
    and "length (env_vptr e) = 8" and "length (env_padding e) = 4"
    and "m_moduleDataPath s \<noteq> []" "CHR 0x00 \<notin> set (m_moduleDataPath s)"
    and "dir_exists d" "dir_opens d" "dir_names d = Some names" "c_str login \<in> set names"
    and "readable d (m_moduleDataPath s @ c_str login)"
    and "\<forall>n \<in> set names - {c_str login}. \<exists>bs b. read_binary (readable d) (m_moduleDataPath s @ n) (files s') = Some bs
      \<and> account_of_bytes bs = Some b \<and> hsh (get_login b) \<noteq> hsh (c_str login)"
  shows "\<exists>s'' i. start hsh d now (restarted (m_moduleDataPath s) (files s')) = Some (True, s'')
    \<and> m_isStarted s'' \<and> find_account hsh (c_str login) s'' = Some i
    \<and> object s'' i = object s' (length (heap s))
    \<and> hash_password (object s'' i) pw = m_password (object s'' i)"
proof -
  have p: "c_str (m_moduleDataPath s @ login) = m_moduleDataPath s @ c_str login"
    "c_str (m_moduleDataPath s @ c_str login) = m_moduleDataPath s @ c_str login"
    using c_str_append [OF assms(5)] by simp_all
  note f = register_file [OF assms(1-3), of "readable d", unfolded p, OF assms(10)]
  note v = register_views [OF assms(1)]
  let ?a = "object s' (length (heap s))" and ?r = "restarted (m_moduleDataPath s) (files s')"
  have r: "m_moduleDataPath ?r = m_moduleDataPath s" "files ?r = files s'" "m_loginHashToAccountData ?r = []"
    "\<not> m_isStarted ?r" "?r\<lparr>m_moduleDataPath := m_moduleDataPath s\<rparr> = ?r" "start_path d ?r = m_moduleDataPath s"
    using assms(4) by (simp_all add: restarted_def new_module_def start_path_def)
  have "read_binary (readable d) (m_moduleDataPath s @ c_str login) (files s')
      = Some (account_bytes (env_vptr e) (env_padding e) ?a)"
    using f(1) by (simp only: read_binary_def p)
  moreover have "account_of_bytes (account_bytes (env_vptr e) (env_padding e) ?a) = Some ?a"
    by (rule account_save_load_bytes [OF f(2) assms(2,3)])
  ultimately have "\<exists>s''. load_accounts hsh (readable d) names ?r = Some (True, s'')
      \<and> holds_account (hsh (c_str login)) ?a s''"
    using assms(9,11) v(7) f(3) r by (intro load_finds) (simp_all, metis Diff_iff insertE emptyE)
  then obtain s'' i where s'': "load_accounts hsh (readable d) names ?r = Some (True, s'')"
    "map_of (m_loginHashToAccountData s'') (hsh (c_str login)) = Some i" "object s'' i = ?a"
    by (auto simp: holds_account_def)
  have "start hsh d now ?r = Some (True, s''\<lparr>m_logoutEvent := Some (duration_seconds (m_logoutTimeout s''), 60, False),
      m_isStarted := True, m_startTime := now\<rparr>)"
    using assms(4,6-8) s''(1) by (simp add: start_def Let_def r(1,4-6))
  then show ?thesis using s''(2,3) v(6) by (intro exI [of _ i] exI) (rule conjI, assumption, simp add: find_account_def)
qed

text \<open>
  C37: a login with a NUL inside passes the checks and takes over the file of another account. After
  the registration of such a login the module still serves the account \<open>victim\<close>, but a module that
  starts on the files loads, under the login \<open>victim\<close>, the newcomer's account, which the newcomer's
  password opens.
\<close>

theorem nul_login_takes_over:
  assumes "find_account hsh victim s = Some v" and "CHR 0x00 \<notin> set victim"
    and "register_account hsh e (victim @ CHR 0x00 # x) pw err s = Some (True, err', s')"
    and "length (env_vptr e) = 8" and "length (env_padding e) = 4"
    and "CHR 0x00 \<notin> set (m_moduleDataPath s)" and "rd (m_moduleDataPath s @ victim)"
  shows "find_account hsh victim s' = Some v
    \<and> (\<exists>s''. load_accounts hsh rd [victim] (restarted (m_moduleDataPath s) (files s')) = Some (True, s'')
         \<and> find_account hsh victim s'' = Some 0
         \<and> hash_password (object s'' 0) pw = m_password (object s'' 0))"
proof -
  have c: "c_str (victim @ CHR 0x00 # x) = victim"
    using c_str_append [OF assms(2), of "CHR 0x00 # x"] by (simp add: c_str_def)
  let ?l = "victim @ CHR 0x00 # x"
  have path: "c_str (m_moduleDataPath s @ ?l) = m_moduleDataPath s @ victim"
    "c_str (m_moduleDataPath s @ victim) = m_moduleDataPath s @ victim"
    using c_str_append [OF assms(6)] c c_str_append [OF assms(2), of "[]"] by (simp_all add: c_str_def)
  have rd: "rd (c_str (m_moduleDataPath s @ ?l))" using path(1) assms(7) by simp
  note f = register_file [OF assms(3-5), of rd, OF rd]
  note v = register_views [OF assms(3)]
  have ne: "hsh ?l \<noteq> hsh victim"
    using v(1) assms(1) by (auto simp: find_account_def)
  then have keep: "find_account hsh victim s' = Some v"
    using v(3) assms(1) by (simp add: find_account_def)
  let ?a = "object s' (length (heap s))"
  have "read_binary rd (m_moduleDataPath s @ victim) (files s')
      = Some (account_bytes (env_vptr e) (env_padding e) ?a)"
    using f(1) by (simp only: read_binary_def path)
  note l = load_one [OF this account_save_load_bytes [OF f(2) assms(4,5)] v(7), of hsh, unfolded f(3) c]
  show ?thesis
    by (rule conjI, rule keep, rule exI, intro conjI, rule l, rule find_loaded(1))
      (simp only: find_loaded(2) v(6))
qed

lemma activity_files:
  "files (on_account_activity e i t d s) =
     (if env_log e then save_str d (m_dataPath (heap s ! i)) (files s) else files s)"
  by (simp add: on_account_activity_def Let_def view_simps)

lemma rename_failure:
  assumes i: "accounts s (hsh old) = Some i" and n: "accounts s (hsh new) = None"
    and il: "i < length (heap s)" and e: "env_save e" "\<not> env_rename e"
    and m: "modify_account_login hsh e old new err s = Some (False, err', s')"
    and ok: "fst (check_login_as_path new err)" "fst (check_login_requirements new err)"
  obtains a b s1 where "set_login new (object s i) = Some a" "set_login old a = Some b"
    "object s1 i = a" "m_dataPath (heap s1 ! i) = m_dataPath (heap s ! i)"
    "heap s1 = heap (set_object i a s)"
    "files s' = files (on_account_activity e i (env_clock e 0)
       (''Failed to '' @ ''rename'' @ '' data file after login change from '' @ new @ '' to ''
          @ old @ '' at '' @ timer_to_string (env_clock e 0) @ '', reverting changes'')
       (snd (save e i s1)))"
    "object s' i = b" "accounts s' = accounts s"
proof -
  have c: "check_login_as_path new err = (True, err)" "check_login_requirements new err = (True, err)"
    using ok by (simp_all add: check_login_as_path_def check_login_requirements_def split: if_splits)
  define s0 where "s0 = s\<lparr>m_loginHashToAccountData :=
    AList.delete (hsh old) (emplace_entry (hsh new) i (m_loginHashToAccountData s))\<rparr>"
  have o: "object s0 i = object s i" "heap s0 = heap s" by (simp_all add: s0_def)
  obtain a where a: "set_login new (object s0 i) = Some a"
    using m c i n by (cases "set_login new (object s0 i)")
      (simp_all add: modify_account_login_def find_account_def s0_def)
  define s1 where "s1 = set_object i a s0"
  define s2 where "s2 = snd (save e i s1)"
  have sv: "save e i s1 = (True, s2)" using save_Pair [of e i s1] e(1) by (simp add: s2_def)
  have "map_option (\<lambda>s. (False, err, s)) (revert_login hsh e old new i ''rename'' s2)
      = Some (False, err', s')"
    using m c i n a e sv
    unfolding modify_account_login_def find_account_def Let_def
    by (simp flip: s0_def s1_def split del: if_split)
  then have r: "revert_login hsh e old new i ''rename'' (snd (save e i s1)) = Some s'"
    unfolding s2_def by auto
  have o1: "object (snd (save e i s1)) i = a" "object s1 i = a"
    using il o by (simp_all add: s1_def view_simps)
  obtain b where b: "set_login old a = Some b"
    using r o1 by (cases "set_login old a") (simp_all add: revert_login_def)
  have s': "s' = (let s = set_object i b (snd (save e i s1));
      s = s\<lparr>m_loginHashToAccountData :=
              AList.delete (hsh new) (emplace_entry (hsh old) i (m_loginHashToAccountData s))\<rparr>
    in on_account_activity e i (env_clock e 0)
       (''Failed to '' @ ''rename'' @ '' data file after login change from '' @ new @ '' to ''
          @ old @ '' at '' @ timer_to_string (env_clock e 0) @ '', reverting changes'') s)"
    using r b o1 unfolding revert_login_def Let_def by simp
  have ne: "hsh old \<noteq> hsh new" using i n by auto
  show thesis
  proof (rule that [of a b s1])
    show "set_login new (object s i) = Some a" using a o by simp
    show "object s1 i = a" by (rule o1)
    show "m_dataPath (heap s1 ! i) = m_dataPath (heap s ! i)"
      using o by (simp add: s1_def view_simps)
    show "heap s1 = heap (set_object i a s)"
      using o by (simp add: s1_def set_object_def set_account_data_def)
    show "files s' = files (on_account_activity e i (env_clock e 0)
       (''Failed to '' @ ''rename'' @ '' data file after login change from '' @ new @ '' to ''
          @ old @ '' at '' @ timer_to_string (env_clock e 0) @ '', reverting changes'')
       (snd (save e i s1)))"
      unfolding s' by (simp only: Let_def activity_files) (simp add: view_simps)
    show "object s' i = b" using il o unfolding s' by (simp add: Let_def view_simps s1_def)
    show "accounts s' = accounts s"
      using i n ne unfolding s' by (auto simp: Let_def view_simps s1_def s0_def delete_conv' fun_eq_iff)
  qed (rule b)
qed

text \<open>
  A change of login whose file cannot be renamed is undone in memory only: the account has its
  old login and is found under it, but its file holds the new login already, and the next start
  loads the account under the login that the failed operation reported as not set.
\<close>

theorem failed_rename_keeps_new_login:
  assumes "auth_reachable hsh s" and "find_account hsh old s = Some i" and "find_account hsh new s = None"
    and "fst (check_login_as_path new err)" and "fst (check_login_requirements new err)"
    and "env_save e" and "\<not> env_rename e" and "account_wf (object s i)"
    and "length (env_vptr e) = 8" and "length (env_padding e) = 4" and "rd (c_str (m_dataPath (heap s ! i)))"
    and "modify_account_login hsh e old new err s = Some (False, err', s')"
  shows "get_login (object s' i) = c_str old \<and> accounts s' = accounts s
    \<and> (\<exists>bs a. read_binary rd (m_dataPath (heap s ! i)) (files s') = Some bs
         \<and> account_of_bytes bs = Some a \<and> get_login a = c_str new)"
proof -
  have i: "accounts s (hsh old) = Some i" and n: "accounts s (hsh new) = None"
    using assms(2,3) by (simp_all add: find_account_def)
  have il: "i < length (heap s)" by (rule inv_accountD(1) [OF auth_reachable_inv [OF assms(1)] i])
  obtain a b s1 where r: "set_login new (object s i) = Some a" "set_login old a = Some b"
    "object s1 i = a" "m_dataPath (heap s1 ! i) = m_dataPath (heap s ! i)"
    "files s' = files (on_account_activity e i (env_clock e 0)
       (''Failed to '' @ ''rename'' @ '' data file after login change from '' @ new @ '' to ''
          @ old @ '' at '' @ timer_to_string (env_clock e 0) @ '', reverting changes'')
       (snd (save e i s1)))"
    "object s' i = b" "accounts s' = accounts s"
    by (rule rename_failure [OF i n il assms(6,7,12,4,5)])
  have wf: "account_wf (object s1 i)" unfolding r(3) by (rule set_login_wf [OF assms(8) r(1)])
  have rd: "rd (c_str (m_dataPath (heap s1 ! i)))" unfolding r(4) by (rule assms(11))
  have "read_binary rd (m_dataPath (heap s1 ! i)) (files s')
      = Some (account_bytes (env_vptr e) (env_padding e) (object s1 i))"
    unfolding r(5) using assms(6,9,10) wf rd
    by (rule saved_file [where e = e and i = i and s = s1 and rd = rd])
  moreover have "account_of_bytes (account_bytes (env_vptr e) (env_padding e) (object s1 i)) = Some a"
    unfolding r(3) [symmetric] using wf assms(9,10) by (rule account_save_load_bytes)
  ultimately show ?thesis
    using get_login_set_login [OF r(1)] get_login_set_login [OF r(2)] r(6,7) unfolding r(4) by blast
qed

section \<open>Interleaving\<close>

text \<open>
  Calls of several threads, in which \<open>LogoutConnection\<close> is the two critical sections that it is in
  the code: the connections that were taken out and whose account is not told yet are a list. Every
  other operation is one step.
\<close>

inductive conc_step ::
  "(string \<Rightarrow> u64) \<Rightarrow> auth \<times> (int \<times> nat) list \<Rightarrow> auth \<times> (int \<times> nat) list \<Rightarrow> bool" for hsh where
  Operation: "auth_step hsh s s' \<Longrightarrow> conc_step hsh (s, p) (s', p)"
| Take: "logout_take c s = Some (i, s') \<Longrightarrow> conc_step hsh (s, p) (s', (c, i) # p)"
| Finish: "(c, i) \<in> set p \<Longrightarrow> conc_step hsh (s, p) (logout_finish e c i s, remove1 (c, i) p)"

inductive conc_reachable :: "(string \<Rightarrow> u64) \<Rightarrow> auth \<times> (int \<times> nat) list \<Rightarrow> bool" for hsh where
  Init: "conc_reachable hsh (new_module fs, [])"
| Step: "conc_reachable hsh x \<Longrightarrow> conc_step hsh x y \<Longrightarrow> conc_reachable hsh y"

lemmas conc_operation = conc_reachable.Step [OF _ conc_step.Operation]

lemma logout_finish_views:
  "conns (logout_finish e c i s) = conns s"
  "m_loginHashToAccountData (logout_finish e c i s) = m_loginHashToAccountData s"
  "length (heap (logout_finish e c i s)) = length (heap s)"
  "conn (logout_finish e c i s) j = (if j = i \<and> i < length (heap s) then - 1 else conn s j)"
  "object (logout_finish e c i s) j = object s j"
  by (auto simp: logout_finish_def Let_def view_simps)

text \<open>An environment in which everything succeeds, and an account that is registered in it.\<close>

definition calm :: auth_env where
  "calm = \<lparr>env_clock = \<lambda>_. timer_of 0, env_address = 0, env_vptr = replicate 8 0,
     env_padding = replicate 4 0, env_save = True, env_rename = True, env_log = True\<rparr>"

lemma calm_fields [simp]:
  "env_clock calm n = timer_of 0" "env_save calm" "env_rename calm" "env_log calm"
  "length (env_vptr calm) = 8" "length (env_padding calm) = 4"
  by (simp_all add: calm_def)

definition example_password :: string where
  "example_password = ''Passw0rd!''"

lemma register_ok:
  assumes "accounts s (hsh login) = None" "fst (check_login_as_path login [])"
    "fst (check_login_requirements login [])" "env_save e"
  shows "\<exists>s'. register_account hsh e login example_password [] s = Some (True, [], s')"
proof -
  have c: "check_login_as_path login [] = (True, [])" "check_login_requirements login [] = (True, [])"
    using assms(2,3) by (simp_all add: check_login_as_path_def check_login_requirements_def split: if_splits)
  have l: "length login \<le> MAX_LOGIN_SIZE"
    using assms(3) by (simp add: check_login_requirements_def split: if_splits)
  have "fst (check_password_requirements example_password [])"
    unfolding password_policy example_password_def
    by (simp add: is_lower_def is_upper_def is_digit_def is_space_def)
  then have p: "check_password_requirements example_password [] = (True, [])"
    by (simp add: check_password_requirements_def Let_def split_beta split: if_splits)
  obtain a where "set_login login (new_account (env_clock e 0)) = Some a"
    using l by (simp add: set_login_def)
  then show ?thesis
    using assms(1,4) c p
    by (simp add: register_account_def find_account_def Let_def split_beta view_simps)
qed

lemma kept_timeout [view_simps]:
  "m_logoutTimeout (on_account_activity e i t d s) = m_logoutTimeout s"
  "m_logoutTimeout (snd (save e i s)) = m_logoutTimeout s"
  "m_logoutTimeout (set_object i a s) = m_logoutTimeout s"
  "m_logoutTimeout (set_connection i c s) = m_logoutTimeout s"
  "m_logoutTimeout (emplace_account h a p s) = m_logoutTimeout s"
  "m_logoutTimeout (drop_connection c s) = m_logoutTimeout s"
  by (simp_all add: on_account_activity_def save_def set_object_def set_connection_def set_account_data_def
      emplace_account_def drop_connection_def Let_def)

lemma last_activity [view_simps]:
  "i < length (heap s) \<Longrightarrow> m_lastActivity (heap (on_account_activity e i t d s) ! i) = t"
  by (simp add: on_account_activity_def Let_def view_simps)

lemma logon_activity:
  assumes "fst (logon_connection hsh e c login pw err s)" "find_account hsh login s = Some i"
    "i < length (heap s)"
  shows "m_lastActivity (heap (snd (snd (logon_connection hsh e c login pw err s))) ! i) = env_clock e 0"
  using assms by (simp add: logon_connection_def Let_def split_beta view_simps split: if_splits)

lemma session_timeout:
  "m_logoutTimeout (snd (set_account_activated_state hsh e login b s)) = m_logoutTimeout s"
  "m_logoutTimeout (snd (snd (logon_connection hsh e c login pw err s))) = m_logoutTimeout s"
  "register_account hsh e login pw err s = Some (r, err', s') \<Longrightarrow> m_logoutTimeout s' = m_logoutTimeout s"
proof -
  show "m_logoutTimeout (snd (set_account_activated_state hsh e login b s)) = m_logoutTimeout s"
    "m_logoutTimeout (snd (snd (logon_connection hsh e c login pw err s))) = m_logoutTimeout s"
    by (simp_all add: set_account_activated_state_def logon_connection_def Let_def split_beta view_simps
        split: option.split)
  show "m_logoutTimeout s' = m_logoutTimeout s" if "register_account hsh e login pw err s = Some (r, err', s')"
    using that by (cases rule: register_cases) (simp_all add: Let_def view_simps)
qed

text \<open>A module with one activated account and the connection 1 logged on with it.\<close>

lemma example_session:
  fixes hsh :: "string \<Rightarrow> u64"
  defines "s0 \<equiv> new_module []"
  obtains s1 s2 s3 where
    "register_account hsh calm ''a'' example_password [] s0 = Some (True, [], s1)"
    "s2 = snd (set_account_activated_state hsh calm ''a'' True s1)"
    "s3 = snd (snd (logon_connection hsh calm 1 ''a'' example_password [] s2))"
    "auth_reachable hsh s0" "auth_reachable hsh s1" "auth_reachable hsh s3"
    "conns s3 = [1 \<mapsto> 0]" "find_account hsh ''a'' s3 = Some 0" "length (heap s3) = 1" "conn s3 0 = 1"
    "fst (is_access_granted calm 1 0 s3)"
    "hash_password (object s3 0) example_password = m_password (object s3 0)"
    "m_isInitialized (object s3 0)" "m_isActivated (object s3 0)"
    "m_blockedTill (object s3 0) = timer_of 0" "m_grade (object s3 0) = 0"
    "accounts s3 = [hsh ''a'' \<mapsto> 0]" "account_wf (object s3 0)" "m_lastActivity (heap s3 ! 0) = timer_of 0"
    "m_logoutTimeout s3 = duration_of (12 * 3600000000000)"
proof -
  have "\<exists>s1. register_account hsh calm ''a'' example_password [] s0 = Some (True, [], s1)"
    by (rule register_ok)
      (simp_all add: s0_def new_module_def check_login_as_path_def check_login_requirements_def
        MAX_LOGIN_SIZE_def)
  then obtain s1 where r: "register_account hsh calm ''a'' example_password [] s0 = Some (True, [], s1)"
    by blast
  define s2 where "s2 = snd (set_account_activated_state hsh calm ''a'' True s1)"
  define s3 where "s3 = snd (snd (logon_connection hsh calm 1 ''a'' example_password [] s2))"
  have r0: "auth_reachable hsh s0" unfolding s0_def by (rule auth_reachable.Init)
  have r1: "auth_reachable hsh s1" using r0 r by (blast intro: auth_reachable.Step auth_step.Register)
  have r2: "auth_reachable hsh s2"
    unfolding s2_def using r1 by (blast intro: auth_reachable.Step auth_step.SetActivated)
  have r3: "auth_reachable hsh s3"
    unfolding s3_def using r2 by (blast intro: auth_reachable.Step auth_step.Logon)
  have z: "conns s0 = Map.empty" "heap s0 = []" by (simp_all add: s0_def new_module_def)
  have c: "conns s0 1 = None" by (simp add: z)
  note a = register_to_access [OF new_module_inv [of "[]", folded s0_def] r _ s2_def _ _ c s3_def]
  note v = register_views [OF r]
  have o: "object s3 0 = (object s1 0)\<lparr>m_isActivated := True\<rparr>" using a(8) z by simp
  show thesis
  proof (rule that [OF r s2_def s3_def r0 r1 r3])
    show "hash_password (object s3 0) example_password = m_password (object s3 0)"
      using v(6) z hash_password_salt [of "object s3 0" "object s1 0"] by (simp add: o)
    show "m_isInitialized (object s3 0)" "m_isActivated (object s3 0)"
      "m_blockedTill (object s3 0) = timer_of 0" "m_grade (object s3 0) = 0"
      using v(7,9,10) z by (simp_all add: o)
    have "account_wf (object s1 (length (heap s0)))"
      using register_file(2) [OF r, of "\<lambda>_. True"] by simp
    then show "account_wf (object s3 0)" using z by (simp add: o account_wf_def)
    have "accounts s2 = accounts s1" "length (heap s2) = length (heap s1)"
      by (simp_all add: s2_def set_account_activated_state_def Let_def split_beta view_simps
          split: option.split)
    then have "find_account hsh ''a'' s2 = Some 0" "0 < length (heap s2)"
      using v(3,4) z by (simp_all add: find_account_def)
    from logon_activity [OF a(2) this] show "m_lastActivity (heap s3 ! 0) = timer_of 0"
      unfolding s3_def by simp
    have "m_logoutTimeout s3 = m_logoutTimeout s0"
      unfolding s3_def s2_def session_timeout(1,2) by (rule session_timeout(3) [OF r])
    then show "m_logoutTimeout s3 = duration_of (12 * 3600000000000)" by (simp add: s0_def new_module_def)
    show "conns s3 = [1 \<mapsto> 0]" using a(4) z by simp
    show "find_account hsh ''a'' s3 = Some 0" using a(5) z by (simp add: find_account_def)
    show "length (heap s3) = 1" using a(6) z by simp
    show "accounts s3 = [hsh ''a'' \<mapsto> 0]" using a(5) z by (simp add: s0_def new_module_def)
    show "conn s3 0 = 1" using a(7) z by simp
    show "fst (is_access_granted calm 1 0 s3)" using a(3) by simp
  qed
qed

text \<open>
  A logout that overlaps with an administrator's actions leaves a session that nothing ends.
  A thread has taken connection 1 out of the map but not told the account yet; meanwhile the account
  is deactivated, activated again and logged on with connection 2; then the first thread marks the
  account as not logged on. Deactivating the account now leaves connection 2 in the map: access is
  granted to a deactivated account.
\<close>

theorem stale_logout_keeps_session:
  "\<exists>s p i. conc_reachable hsh (s, p) \<and> conns s 2 = Some i \<and> \<not> m_isActivated (object s i)
     \<and> fst (is_access_granted calm 2 0 s)"
proof -
  define act where "act b s = snd (set_account_activated_state hsh calm ''a'' b s)" for b s
  obtain s3 where s3: "auth_reachable hsh s3" "conns s3 = [1 \<mapsto> 0]" "find_account hsh ''a'' s3 = Some 0"
    "length (heap s3) = 1" "conn s3 0 = 1"
    "hash_password (object s3 0) example_password = m_password (object s3 0)"
    "m_isInitialized (object s3 0)" "m_isActivated (object s3 0)"
    "m_blockedTill (object s3 0) = timer_of 0" "m_grade (object s3 0) = 0"
    by (rule example_session [of hsh]) blast
  have r3: "conc_reachable hsh (s3, [])"
    using s3(1) by (induction rule: auth_reachable.induct)
      (blast intro: conc_reachable.Init conc_operation)+
  define s4 where "s4 = drop_connection 1 s3"
  have "logout_take 1 s3 = Some (0, s4)" by (simp add: logout_take_def s3(2) s4_def)
  then have r4: "conc_reachable hsh (s4, [(1, 0)])"
    by (rule conc_reachable.Step [OF r3 conc_step.Take])
  have f4: "find_account hsh ''a'' s4 = Some 0" "0 < length (heap s4)" "conn s4 0 = 1" "object s4 0 = object s3 0"
    "conns s4 = Map.empty"
    using s3(2-5) by (auto simp: s4_def view_simps find_account_def)
  have step: "conc_reachable hsh (act b s, p)" if "conc_reachable hsh (s, p)" for b s p
    using that unfolding act_def by (blast intro: conc_operation auth_step.SetActivated)
  define s5 where "s5 = act False s4"
  have on4: "m_isActivated (object s4 0) \<noteq> False" using s3(8) f4(4) by simp
  note v5 = activated_views [OF f4(1,2) on4 calm_fields(2), folded act_def, folded s5_def]
  define s6 where "s6 = act True s5"
  have f5: "find_account hsh ''a'' s5 = Some 0" "0 < length (heap s5)" "m_isActivated (object s5 0) \<noteq> True"
    using f4 v5(3,4,6) by (simp_all add: find_account_def)
  note v6 = activated_views [OF f5 calm_fields(2), folded act_def, folded s6_def]
  have r6: "conc_reachable hsh (s6, [(1, 0)])"
    unfolding s6_def s5_def by (rule step, rule step, rule r4)
  have f6: "find_account hsh ''a'' s6 = Some 0" "0 < length (heap s6)" "conn s6 0 = - 1" "conns s6 2 = None"
    using f5 f4(5) v5(2,5) v6(2-5) by (simp_all add: find_account_def)
  have o6: "object s6 0 = object s3 0" using v5(6) v6(6) f4(4) s3(8) by simp
  have ok: "fst (is_logon_allowed (env_clock calm 1) (env_clock calm 2) (object s6 0) example_password [])"
    unfolding o6 using s3(6-9) by (simp add: is_logon_allowed_def)
  define s7 where "s7 = snd (snd (logon_connection hsh calm 2 ''a'' example_password [] s6))"
  have two: "(2 :: int) \<noteq> - 1" by simp
  note v7 = logon_views [OF f6(1,2) ok f6(3) two f6(4), folded s7_def]
  have r7: "conc_reachable hsh (s7, [(1, 0)])"
    unfolding s7_def using r6 by (blast intro: conc_operation auth_step.Logon)
  define s8 where "s8 = logout_finish calm 1 0 s7"
  have r8: "conc_reachable hsh (s8, [])"
    unfolding s8_def using conc_reachable.Step [OF r7 conc_step.Finish [of 1 0]] by simp
  note v8 = logout_finish_views [of calm 1 0 s7, folded s8_def]
  have f8: "find_account hsh ''a'' s8 = Some 0" "0 < length (heap s8)" "m_isActivated (object s8 0) \<noteq> False"
    "conn s8 0 = - 1" "conns s8 2 = Some 0"
    using f6 v7 v8 o6 s3(8) by (simp_all add: find_account_def)
  define s9 where "s9 = act False s8"
  note v9 = activated_views [OF f8(1-3) calm_fields(2), folded act_def, folded s9_def]
  have "conns s9 2 = Some 0" using v9(2) f8(4,5) by simp
  moreover have "\<not> m_isActivated (object s9 0)" "m_grade (object s9 0) = 0"
    using v9(6) v8(5) v7(6) o6 s3(10) by simp_all
  moreover have "conc_reachable hsh (s9, [])" unfolding s9_def by (rule step, rule r8)
  ultimately have "conc_reachable hsh (s9, []) \<and> conns s9 2 = Some 0 \<and> \<not> m_isActivated (object s9 0)
      \<and> fst (is_access_granted calm 2 0 s9)"
    by (simp add: is_access_granted_def Let_def)
  then show ?thesis by blast
qed

section \<open>Instances of the claims\<close>

theorem access_requires_logon_witness:
  "\<exists>s h i. auth_reachable (\<lambda>_. 0) s \<and> fst (is_access_granted calm 1 0 s) \<and> accounts s h = Some i
     \<and> conns s 1 = Some i \<and> m_isActivated (object s i) \<and> 0 \<le> m_grade (object s i)"
proof -
  obtain s where s: "auth_reachable (\<lambda>_. 0) s" "fst (is_access_granted calm 1 0 s)"
    by (rule example_session [of "\<lambda>_. 0"]) blast
  from access_requires_logon [OF s] show ?thesis using s by blast
qed

theorem registered_can_logon_witness:
  "\<exists>s1 s2 s3. register_account (\<lambda>_. 0) calm ''a'' example_password [] (new_module []) = Some (True, [], s1)
     \<and> s2 = snd (set_account_activated_state (\<lambda>_. 0) calm ''a'' True s1)
     \<and> s3 = snd (snd (logon_connection (\<lambda>_. 0) calm 1 ''a'' example_password [] s2))
     \<and> fst (is_access_granted calm 1 0 s3) \<and> \<not> fst (is_access_granted calm 1 16 s3)"
proof -
  obtain s1 s2 s3 where s:
    "register_account (\<lambda>_. 0) calm ''a'' example_password [] (new_module []) = Some (True, [], s1)"
    "s2 = snd (set_account_activated_state (\<lambda>_. 0) calm ''a'' True s1)"
    "s3 = snd (snd (logon_connection (\<lambda>_. 0) calm 1 ''a'' example_password [] s2))"
    by (rule example_session [of "\<lambda>_. 0"]) blast
  have z: "conns (new_module []) 1 = None" by (simp add: new_module_def)
  from registered_can_logon [OF auth_reachable.Init [of _ "[]"] s(1) _ s(2) _ _ z s(3)] s
  show ?thesis by auto
qed

theorem sessions_are_revoked_witness:
  "\<exists>s. conns s 1 = Some 0 \<and> conns (delete_account (\<lambda>_. 0) calm ''a'' s) 1 \<noteq> Some 0
     \<and> conns (snd (set_account_activated_state (\<lambda>_. 0) calm ''a'' False s)) 1 \<noteq> Some 0
     \<and> conns (snd (block_account_till (\<lambda>_. 0) calm ''a'' (timer_of 1) s)) 1 \<noteq> Some 0"
proof -
  obtain s where s: "auth_reachable (\<lambda>_. 0) s" "find_account (\<lambda>_. 0) ''a'' s = Some 0"
    "conns s = [1 \<mapsto> 0]" "m_isActivated (object s 0)" "m_blockedTill (object s 0) = timer_of 0"
    by (rule example_session [of "\<lambda>_. 0"]) blast
  have "timer_of 0 < timer_of 1"
    by (simp add: less_timer_def timer_less_def in_int64_def)
  then show ?thesis
    using sessions_are_revoked [OF s(1,2), of calm 1 "timer_of 1"] s(3-5) by (intro exI [of _ s]) simp
qed

text \<open>A change of the grade that would take effect if the file could be written.\<close>

theorem failed_save_reverts_witness:
  "\<exists>s. find_account (\<lambda>_. 0) ''a'' s = Some 0 \<and> m_grade (object s 0) = 0
     \<and> m_grade (object (snd (modify_account_grade (\<lambda>_. 0) calm ''a'' 16 s)) 0) = 16
     \<and> \<not> fst (modify_account_grade (\<lambda>_. 0) (calm\<lparr>env_save := False\<rparr>) ''a'' 16 s)
     \<and> object (snd (modify_account_grade (\<lambda>_. 0) (calm\<lparr>env_save := False\<rparr>) ''a'' 16 s)) 0 = object s 0"
proof -
  obtain s where s: "auth_reachable (\<lambda>_. 0) s" "find_account (\<lambda>_. 0) ''a'' s = Some 0" "m_grade (object s 0) = 0"
    "length (heap s) = 1"
    by (rule example_session [of "\<lambda>_. 0"]) blast
  have "m_grade (object (snd (modify_account_grade (\<lambda>_. 0) calm ''a'' 16 s)) 0) = 16"
    using s(2-4) by (simp add: modify_account_grade_def Let_def split_beta view_simps)
  then show ?thesis
    using failed_save_reverts [OF s(1), of "calm\<lparr>env_save := False\<rparr>"] s(2,3) by (intro exI [of _ s]) simp
qed

theorem logon_decision_witness:
  "\<exists>s. conns s 2 = None \<and> \<not> fst (logon_connection (\<lambda>_. 0) calm 2 ''a'' example_password [] s)
     \<and> find_account (\<lambda>_. 0) ''a'' s = Some 0"
proof -
  obtain s where s: "auth_reachable (\<lambda>_. 0) s" "find_account (\<lambda>_. 0) ''a'' s = Some 0"
    "conns s = [1 \<mapsto> 0]" "conn s 0 = 1"
    by (rule example_session [of "\<lambda>_. 0"]) blast
  have two: "(2 :: int) \<noteq> - 1" by simp
  from logon_decision [OF s(1) two, of calm "''a''" example_password "[]"] show ?thesis
    using s(2-4) by (intro exI [of _ s]) auto
qed

theorem timeout_logs_out_witness:
  "\<exists>s s'. conns s 1 = Some 0 \<and> handle_event (calm\<lparr>env_clock := \<lambda>_. timer_of (86400 * 1000000000)\<rparr>) s = Some s'
     \<and> conns s' 1 = None"
proof -
  obtain s where s: "auth_reachable (\<lambda>_. 0) s" "conns s = [1 \<mapsto> 0]"
    "m_lastActivity (heap s ! 0) = timer_of 0" "m_logoutTimeout s = duration_of (12 * 3600000000000)"
    by (rule example_session [of "\<lambda>_. 0"]) blast
  let ?e = "calm\<lparr>env_clock := \<lambda>_. timer_of (86400 * 1000000000)\<rparr>"
  have "i = 0" if "(c, i) \<in> set (m_logonConnectionToAccountData s)" for c i
  proof -
    have "conns s c = Some i"
      using that invD(2) [OF auth_reachable_inv [OF s(1)]] by simp
    then show "i = 0" using s(2) by (simp split: if_splits)
  qed
  moreover have "timer_plus (timer_of 0) (duration_of (12 * 3600000000000)) \<noteq> None"
    by (simp add: timer_plus_def int64_chk_def in_int64_def)
  then have "expired now s cs \<noteq> None" if "\<forall>(c, i) \<in> set cs. i = 0" for now cs
    using that s(3,4) by (induction cs) auto
  ultimately have "expired now s (m_logonConnectionToAccountData s) \<noteq> None" for now
    by fastforce
  then have "handle_event ?e s \<noteq> None" by (simp add: handle_event_def)
  then obtain s' where h: "handle_event ?e s = Some s'" by blast
  have "conns s 1 = Some 0" using s(2) by simp
  from timeout_logs_out [OF s(1) h this] show ?thesis
    using h s(2-4) by (intro exI [of _ s] exI [of _ s']) (simp add: in_int64_def)
qed

theorem first_check_is_a_minute_witness:
  "\<exists>s'. set_logout_timeout calm (duration_of 1000000000) (new_module []) = Some s'
     \<and> m_logoutEvent s' = Some (60, 60, False)"
proof -
  have d: "0 < duration_seconds (duration_of 1000000000)"
    by (simp add: duration_seconds_def in_int64_def)
  have "\<exists>s'. set_logout_timeout calm (duration_of 1000000000) (new_module []) = Some s'"
    using d by (simp add: set_logout_timeout_def new_module_def timer_plus_def timer_diff_def
        int64_chk_def in_int64_def less_timer_def timer_less_def Let_def)
  then obtain s' where s': "set_logout_timeout calm (duration_of 1000000000) (new_module []) = Some s'"
    by blast
  obtain now where "m_logoutEvent s' = Some (60, 60, now)"
    using first_check_is_a_minute [OF s' d] by blast
  moreover have "m_logoutEvent s' \<noteq> Some (60, 60, True)"
    using s' d by (auto simp: set_logout_timeout_def new_module_def timer_plus_def timer_diff_def
        int64_chk_def in_int64_def less_timer_def timer_less_def Let_def split: if_splits)
  ultimately show ?thesis using s' by (cases now) auto
qed

theorem account_save_load_witness:
  "account_of_bytes (account_bytes (replicate 8 0) (replicate 4 0) (new_account (timer_of 7)))
     = Some (new_account (timer_of 7))"
  by (rule account_save_load) (simp_all add: new_account_wf)

definition found_directory :: start_env where
  "found_directory = \<lparr>executable_dir = None, dir_exists = True, dir_opens = True, dir_names = Some [''a''],
     dir_created = False, readable = \<lambda>_. True\<rparr>"

theorem registration_is_loaded_witness:
  "\<exists>s' s'' i. register_account (\<lambda>_. 0) calm ''a'' example_password [] (restarted ''d/'' []) = Some (True, [], s')
     \<and> start (\<lambda>_. 0) found_directory (timer_of 5) (restarted ''d/'' (files s')) = Some (True, s'')
     \<and> find_account (\<lambda>_. 0) ''a'' s'' = Some i
     \<and> hash_password (object s'' i) example_password = m_password (object s'' i)"
proof -
  have "\<exists>s'. register_account (\<lambda>_. 0) calm ''a'' example_password [] (restarted ''d/'' []) = Some (True, [], s')"
    by (rule register_ok)
      (simp_all add: restarted_def new_module_def check_login_as_path_def check_login_requirements_def
        MAX_LOGIN_SIZE_def)
  then obtain s' where s': "register_account (\<lambda>_. 0) calm ''a'' example_password [] (restarted ''d/'' []) = Some (True, [], s')"
    by blast
  have p: "m_moduleDataPath (restarted ''d/'' []) = ''d/''" "c_str ''a'' = ''a''"
    by (simp_all add: restarted_def c_str_def)
  from registration_is_loaded [OF s', of found_directory "[''a'']" "timer_of 5"] show ?thesis
    using s' by (simp add: p found_directory_def) blast
qed

theorem nul_login_takes_over_witness:
  "\<exists>s' s''. find_account (\<lambda>l. word_of_nat (length l)) ''a'' s' = Some 0
     \<and> load_accounts (\<lambda>l. word_of_nat (length l)) (\<lambda>_. True) [''a''] (restarted [] (files s')) = Some (True, s'')
     \<and> hash_password (object s'' 0) example_password = m_password (object s'' 0)"
proof -
  let ?h = "\<lambda>l :: string. word_of_nat (length l) :: u64"
  obtain s where s: "register_account ?h calm ''a'' example_password [] (new_module []) = Some (True, [], s)"
    by (rule example_session [of ?h]) blast
  note v = register_views [OF s]
  have f: "find_account ?h ''a'' s = Some 0" using v(3) by (simp add: find_account_def new_module_def)
  have "accounts s (?h (''a'' @ CHR 0x00 # ''b'')) = None"
    using v(3) by (simp add: new_module_def)
  then have "\<exists>s'. register_account ?h calm (''a'' @ CHR 0x00 # ''b'') example_password [] s = Some (True, [], s')"
    by (rule register_ok)
      (simp_all add: check_login_as_path_def check_login_requirements_def MAX_LOGIN_SIZE_def)
  then obtain s' where s': "register_account ?h calm (''a'' @ CHR 0x00 # ''b'') example_password [] s = Some (True, [], s')"
    by blast
  have p: "m_moduleDataPath s = []"
    using s by (cases rule: register_cases)
      (simp_all add: Let_def view_simps emplace_account_def new_module_def)
  from nul_login_takes_over [OF f _ s', of "\<lambda>_. True"] show ?thesis
    by (simp add: p) blast
qed

theorem failed_rename_keeps_new_login_witness:
  "\<exists>s s' bs a. modify_account_login (\<lambda>l. word_of_nat (length l)) (calm\<lparr>env_rename := False\<rparr>) ''a'' ''bb'' [] s
       = Some (False, [], s')
     \<and> get_login (object s' 0) = ''a''
     \<and> read_binary (\<lambda>_. True) (m_dataPath (heap s ! 0)) (files s') = Some bs
     \<and> account_of_bytes bs = Some a \<and> get_login a = ''bb''"
proof -
  let ?h = "\<lambda>l :: string. word_of_nat (length l) :: u64"
  let ?e = "calm\<lparr>env_rename := False\<rparr>"
  obtain s where s: "auth_reachable ?h s" "find_account ?h ''a'' s = Some 0" "account_wf (object s 0)"
    "length (heap s) = 1" "accounts s = [?h ''a'' \<mapsto> 0]"
    by (rule example_session [of ?h]) blast
  have n: "find_account ?h ''bb'' s = None"
    using s(5) by (simp add: find_account_def)
  have ok: "fst (check_login_as_path ''bb'' [])" "fst (check_login_requirements ''bb'' [])"
    by (simp_all add: check_login_as_path_def check_login_requirements_def MAX_LOGIN_SIZE_def)
  have c: "check_login_as_path ''bb'' [] = (True, [])" "check_login_requirements ''bb'' [] = (True, [])"
    using ok by (simp_all add: check_login_as_path_def check_login_requirements_def MAX_LOGIN_SIZE_def)
  have "\<exists>s'. modify_account_login ?h ?e ''a'' ''bb'' [] s = Some (False, [], s')"
    using c s(2,4) n
    by (simp add: modify_account_login_def find_account_def Let_def set_login_def MAX_LOGIN_SIZE_def
        split_beta view_simps revert_login_def)
  then obtain s' where s': "modify_account_login ?h ?e ''a'' ''bb'' [] s = Some (False, [], s')"
    by blast
  have "c_str ''a'' = ''a''" "c_str ''bb'' = ''bb''" by (simp_all add: c_str_def)
  with failed_rename_keeps_new_login [OF s(1,2) n ok _ _ s(3) _ _ _ s', of "\<lambda>_. True"]
  show ?thesis using s' by auto
qed

end
