(* ===== verification/TimerEvents.thy ===== *)
theory TimerEvents
  imports Prelude
begin

text \<open>
  \<open>Timer::Event\<close> (\<open>help/time.cpp\<close>): a call of a function or of a handler at a later time, once or
  repeatedly, on a POSIX timer. The timers of the process are part of the state, and every call of
  the system can fail: its outcome is an argument. The function that is called may change the whole
  state, the event itself included; it is an argument too.
\<close>

section \<open>The system's timers\<close>

text \<open>
  \<open>timer_create\<close>, \<open>timer_settime\<close> and \<open>timer_delete\<close>: the live timers by their identifier, with the
  seconds to the first call and between calls once they are set.
\<close>

record timers =
  next_timer :: nat
  live_timers :: "(nat \<times> (int \<times> int) option) list"

definition timer_create_call :: "'a timers_scheme \<Rightarrow> nat \<times> 'a timers_scheme" where
  "timer_create_call s =
     (next_timer s, s\<lparr>next_timer := next_timer s + 1,
                      live_timers := (next_timer s, None) # live_timers s\<rparr>)"

definition timer_settime_call :: "nat \<Rightarrow> int \<Rightarrow> int \<Rightarrow> 'a timers_scheme \<Rightarrow> 'a timers_scheme" where
  "timer_settime_call k first again s =
     s\<lparr>live_timers := map (\<lambda>(j, v). if j = k then (j, Some (first, again)) else (j, v)) (live_timers s)\<rparr>"

definition timer_delete_call :: "nat \<Rightarrow> 'a timers_scheme \<Rightarrow> 'a timers_scheme" where
  "timer_delete_call k s = s\<lparr>live_timers := filter (\<lambda>(j, v). j \<noteq> k) (live_timers s)\<rparr>"

record outcomes =
  create_ok :: bool
  settime_ok :: bool
  delete_ok :: bool

section \<open>The event\<close>

text \<open>
  \<open>m_handler\<close> has no initialiser: the constructor with a callback leaves it without a value. The
  data pointer of a callback is \<open>std::get<2>(m_data)\<close>; the model keeps whether it is null.
\<close>

datatype event_handler = Unset | Null | Handler

record event =
  m_handler :: event_handler
  m_hasData :: bool
  m_id :: nat
  m_running :: bool
  m_timeToCall :: int
  m_timeToRepeatCall :: int
  m_instantCall :: bool

definition event_of_callback :: "bool \<Rightarrow> event" where
  "event_of_callback hasData =
     \<lparr>m_handler = Unset, m_hasData = hasData, m_id = 0, m_running = False, m_timeToCall = 0,
      m_timeToRepeatCall = 0, m_instantCall = False\<rparr>"

definition event_of_handler :: "bool \<Rightarrow> event" where
  "event_of_handler hasHandler =
     \<lparr>m_handler = (if hasHandler then Handler else Null), m_hasData = False, m_id = 0,
      m_running = False, m_timeToCall = 0, m_timeToRepeatCall = 0, m_instantCall = False\<rparr>"

record world = timers +
  event :: event

definition set_event :: "(event \<Rightarrow> event) \<Rightarrow> 'a world_scheme \<Rightarrow> 'a world_scheme" where
  "set_event f w = w\<lparr>event := f (event w)\<rparr>"

text \<open>The macro that stops a running event: whether the timer was deleted.\<close>

definition event_stop_running :: "outcomes \<Rightarrow> 'a world_scheme \<Rightarrow> bool \<times> 'a world_scheme" where
  "event_stop_running r w =
     (if delete_ok r
      then (True, set_event (\<lambda>v. v\<lparr>m_running := False\<rparr>) (timer_delete_call (m_id (event w)) w))
      else (False, w))"

definition event_stop :: "outcomes \<Rightarrow> 'a world_scheme \<Rightarrow> 'a world_scheme" where
  "event_stop r w = (if \<not> m_running (event w) then w else snd (event_stop_running r w))"

text \<open>
  The two macros of \<open>Start\<close> with the instant call between them. \<open>m_its\<close> always holds the two times
  of the event.
\<close>

definition event_start_body ::
  "outcomes \<Rightarrow> ('a world_scheme \<Rightarrow> 'a world_scheme) \<Rightarrow> int \<Rightarrow> int \<Rightarrow> bool \<Rightarrow> 'a world_scheme
    \<Rightarrow> bool \<times> 'a world_scheme" where
  "event_start_body r call first again instant w =
     (let (stopped, w) = (if m_running (event w) then event_stop_running r w else (True, w)) in
      if \<not> stopped then (False, w)
      else
        let w = set_event (\<lambda>v. v\<lparr>m_timeToCall := first, m_timeToRepeatCall := again,
                              m_instantCall := instant\<rparr>) w;
            w = (if instant then call w else w)
        in if \<not> create_ok r then (False, w)
           else
             let (k, w) = timer_create_call w;
                 w = set_event (\<lambda>v. v\<lparr>m_id := k\<rparr>) w
             in if \<not> settime_ok r then (False, w)
                else (True, set_event (\<lambda>v. v\<lparr>m_running := True\<rparr>)
                       (timer_settime_call k (m_timeToCall (event w)) (m_timeToRepeatCall (event w)) w)))"

text \<open>\<open>Start\<close>: it reads \<open>m_handler\<close> when there is no data, which has no value after the other constructor.\<close>

definition event_start ::
  "outcomes \<Rightarrow> ('a world_scheme \<Rightarrow> 'a world_scheme) \<Rightarrow> int \<Rightarrow> int \<Rightarrow> bool \<Rightarrow> 'a world_scheme
    \<Rightarrow> (bool \<times> 'a world_scheme) option" where
  "event_start r call first again instant w =
     (if m_hasData (event w) then Some (event_start_body r call first again instant w)
      else
        case m_handler (event w) of
          Unset \<Rightarrow> None
        | Null \<Rightarrow> Some (False, w)
        | Handler \<Rightarrow> Some (event_start_body r call first again instant w))"

text \<open>The notification of the system: the call, and the stop of an event that is not repeated.\<close>

definition event_is_repeat :: "event \<Rightarrow> bool" where
  "event_is_repeat v \<longleftrightarrow> m_timeToRepeatCall v \<noteq> 0"

definition event_notify ::
  "outcomes \<Rightarrow> ('a world_scheme \<Rightarrow> 'a world_scheme) \<Rightarrow> 'a world_scheme \<Rightarrow> 'a world_scheme" where
  "event_notify r call w =
     (let w = call w in if \<not> event_is_repeat (event w) then event_stop r w else w)"

definition event_destroy :: "outcomes \<Rightarrow> 'a world_scheme \<Rightarrow> 'a world_scheme" where
  "event_destroy r w = (if m_running (event w) then event_stop r w else w)"

section \<open>One timer per event\<close>

text \<open>
  The timers of the process when it has this event only: the one of the event with its times while
  it runs, and none otherwise.
\<close>

definition owns_timer :: "'a world_scheme \<Rightarrow> bool" where
  "owns_timer w \<longleftrightarrow>
     (if m_running (event w)
      then live_timers w = [(m_id (event w), Some (m_timeToCall (event w), m_timeToRepeatCall (event w)))]
      else live_timers w = [])"

text \<open>A call that leaves the event and the timers alone.\<close>

definition harmless :: "('a world_scheme \<Rightarrow> 'a world_scheme) \<Rightarrow> bool" where
  "harmless call \<longleftrightarrow> (\<forall>w. event (call w) = event w \<and> live_timers (call w) = live_timers w
     \<and> next_timer (call w) = next_timer w)"

lemmas event_defs = event_stop_def event_stop_running_def event_start_body_def event_notify_def
  event_destroy_def timer_create_call_def timer_settime_call_def timer_delete_call_def set_event_def

lemma harmless_fields:
  "harmless call \<Longrightarrow> event (call w) = event w" "harmless call \<Longrightarrow> live_timers (call w) = live_timers w"
  "harmless call \<Longrightarrow> next_timer (call w) = next_timer w"
  by (simp_all add: harmless_def)

lemma stop_owns:
  assumes "owns_timer w"
  shows "owns_timer (event_stop r w)"
    "delete_ok r \<Longrightarrow> \<not> m_running (event (event_stop r w)) \<and> live_timers (event_stop r w) = []"
    "\<not> delete_ok r \<Longrightarrow> event_stop r w = w"
  using assms by (auto simp: event_defs owns_timer_def split: if_splits)

lemma start_owns:
  assumes "owns_timer w" "harmless call" "settime_ok r"
  shows "owns_timer (snd (event_start_body r call first again instant w))"
    "fst (event_start_body r call first again instant w) \<longleftrightarrow>
       create_ok r \<and> (m_running (event w) \<longrightarrow> delete_ok r)"
    "fst (event_start_body r call first again instant w) \<Longrightarrow>
       m_running (event (snd (event_start_body r call first again instant w)))
     \<and> live_timers (snd (event_start_body r call first again instant w))
         = [(next_timer w, Some (first, again))]"
  using assms(1,3) harmless_fields [OF assms(2)]
  by (auto simp: event_defs owns_timer_def Let_def split: if_splits)

text \<open>
  An event has one timer of the system while it runs and none otherwise. Starting (with an
  event that has data or a handler) stops what runs, and succeeds exactly when the system creates
  the timer and deletes the old one; then exactly the new timer is live, with the given times;
  stopping and the end of an event that is not repeated leave none. This needs a call that does not
  touch the event and a system that does not fail to set a timer it has created.
\<close>

theorem event_owns_its_timer:
  assumes "owns_timer w" and "harmless call" and "settime_ok r"
    and "event_start r call first again instant w = Some (ok, w')"
  shows "owns_timer w'
    \<and> (ok \<longrightarrow> m_running (event w') \<and> live_timers w' = [(next_timer w, Some (first, again))])
    \<and> (m_handler (event w) = Handler \<longrightarrow> ok = (create_ok r \<and> (m_running (event w) \<longrightarrow> delete_ok r)))
    \<and> owns_timer (event_stop r w')
    \<and> (delete_ok r \<longrightarrow> live_timers (event_stop r w') = [])
    \<and> (delete_ok r \<longrightarrow> again = 0 \<longrightarrow> ok \<longrightarrow> live_timers (event_notify r call w') = [])"
proof -
  have "w' = snd (event_start_body r call first again instant w)
      \<and> ok = fst (event_start_body r call first again instant w) \<or> ok = False \<and> w' = w \<and> m_handler (event w) = Null"
    using assms(4) by (auto simp: event_start_def split: if_splits event_handler.splits)
  then show ?thesis
  proof
    assume b: "w' = snd (event_start_body r call first again instant w)
      \<and> ok = fst (event_start_body r call first again instant w)"
    note s = start_owns [OF assms(1-3), of first again instant]
    have o: "owns_timer w'" using b s(1) by simp
    have n: "live_timers (event_notify r call w') = []" if "delete_ok r" "again = 0" ok
    proof -
      have "owns_timer (call w')"
        using o harmless_fields [OF assms(2), of w'] by (simp add: owns_timer_def)
      moreover have "\<not> event_is_repeat (event (call w'))"
        using s(3) b that harmless_fields [OF assms(2), of w'] o by (auto simp: event_is_repeat_def owns_timer_def)
      ultimately show ?thesis
        using stop_owns(2) [of "call w'" r] that(1) by (simp add: event_notify_def Let_def)
    qed
    show ?thesis using o n b s stop_owns [OF o] by blast
  next
    assume b: "ok = False \<and> w' = w \<and> m_handler (event w) = Null"
    then show ?thesis using assms(1) stop_owns [OF assms(1)] by auto
  qed
qed

definition working :: outcomes where
  "working = \<lparr>create_ok = True, settime_ok = True, delete_ok = True\<rparr>"

lemma working_fields [simp]: "create_ok working" "settime_ok working" "delete_ok working"
  by (simp_all add: working_def)

theorem event_owns_its_timer_witness:
  "\<exists>w'. event_start working id 5 0 False
      \<lparr>next_timer = 3, live_timers = [], event = event_of_handler True\<rparr> = Some (True, w')
    \<and> live_timers w' = [(3, Some (5, 0))] \<and> live_timers (event_notify working id w') = []"
proof -
  let ?w = "\<lparr>next_timer = 3, live_timers = [], event = event_of_handler True\<rparr>"
  have o: "owns_timer ?w" by (simp add: owns_timer_def event_of_handler_def)
  have h: "harmless id" by (simp add: harmless_def)
  have s: "event_start working id 5 0 False ?w = Some (True, snd (event_start_body working id 5 0 False ?w))"
    by (simp add: event_start_def event_of_handler_def event_defs Let_def)
  from event_owns_its_timer [OF o h working_fields(2) s] show ?thesis
    using s by (intro exI) (rule conjI, assumption, simp)
qed

text \<open>
  An event that is not repeated cannot start itself again from its own call. The call's \<open>Start\<close>
  succeeds and makes the event run on a new timer, but the notification then stops the event because
  it is not repeated: the new timer is deleted and the second call never comes.
\<close>

theorem restart_in_call_is_lost:
  assumes "owns_timer w" and "m_running (event w)" and "m_handler (event w) = Handler"
    and "call = (\<lambda>w. snd (the (event_start working id first 0 False w)))"
  shows "m_running (event (call w)) \<and> live_timers (call w) = [(next_timer w, Some (first, 0))]
    \<and> \<not> m_running (event (event_notify working call w)) \<and> live_timers (event_notify working call w) = []"
proof -
  have h: "harmless id" by (simp add: harmless_def)
  have c: "call w = snd (event_start_body working id first 0 False w)"
    using assms(3) by (simp add: assms(4) event_start_def)
  note s = start_owns [OF assms(1) h working_fields(2), of first 0 False]
  have run: "m_running (event (call w))" "live_timers (call w) = [(next_timer w, Some (first, 0))]"
    using s(2,3) by (simp_all add: c)
  have o: "owns_timer (call w)" using s(1) by (simp add: c)
  then have "\<not> event_is_repeat (event (call w))"
    using run by (simp add: owns_timer_def event_is_repeat_def)
  then show ?thesis
    using run stop_owns(2) [OF o, of working] by (simp add: event_notify_def Let_def)
qed

theorem restart_in_call_is_lost_witness:
  "\<exists>w :: world. m_running (event w) \<and> live_timers (event_notify working
      (\<lambda>w. snd (the (event_start working id 7 0 False w))) w) = []"
proof -
  let ?v = "(event_of_handler True)\<lparr>m_running := True, m_id := 3, m_timeToCall := 5\<rparr>"
  let ?w = "\<lparr>next_timer = 4, live_timers = [(3, Some (5, 0))], event = ?v\<rparr> :: world"
  have "owns_timer ?w" by (simp add: owns_timer_def event_of_handler_def)
  from restart_in_call_is_lost [OF this _ _ refl, of 7]
  show ?thesis by (intro exI [of _ ?w]) (simp add: event_of_handler_def)
qed

text \<open>
  A timer that the system creates but cannot set stays alive although the event does not run, and no
  later call of the event deletes it.
\<close>

lemma unset_timer_leaks:
  assumes "owns_timer w" "\<not> m_running (event w)" "create_ok r" "\<not> settime_ok r" "harmless call"
    "w' = snd (event_start_body r call first again instant w)"
  shows "\<not> m_running (event w') \<and> live_timers w' = [(next_timer w, None)] \<and> event_stop r' w' = w'
    \<and> event_destroy r' w' = w'"
  using assms(1-4) harmless_fields [OF assms(5)] unfolding assms(6)
  by (auto simp: event_defs owns_timer_def Let_def)

text \<open>
  An instant call that starts the event leaves its timer alive beside the one of the outer \<open>Start\<close>.
\<close>

lemma instant_restart_leaks:
  assumes "owns_timer w" "\<not> m_running (event w)" "m_handler (event w) = Handler"
    "call = (\<lambda>w. snd (the (event_start working id first' again' False w)))"
    "w' = snd (event_start_body working call first again True w)"
  shows "m_running (event w') \<and> length (live_timers w') = 2 \<and> live_timers (event_stop working w') \<noteq> []"
  using assms(1-4) unfolding assms(5)
  by (simp add: event_start_def event_defs owns_timer_def Let_def split: if_splits)

text \<open>An event with a callback and no data reads a member without a value when it is started.\<close>

lemma start_without_data:
  "event w = event_of_callback False \<Longrightarrow> event_start r call first again instant w = None"
  by (simp add: event_start_def event_of_callback_def)

end
