(* ===== verification/Json.thy ===== *)
theory Json
  imports Prelude "HOL-Library.List_Lexorder" "HOL-Library.Char_ord"
begin

text \<open>
  The Json reader and printer (\<open>help/json.h\<close>, \<open>help/json.cpp\<close>): \<open>Json::Construct\<close> and the array
  constructor of \<open>JsonNode\<close>, the accessors, \<open>ToString\<close> and \<open>ToJson\<close>.

  The loops of the code move an index over the body. Here a loop consumes the list of the characters
  from the index on; the index itself is an argument because the code computes with it (the exponent
  of a number). \<open>None\<close> is undefined behaviour: a read behind the body, a range of \<open>from_chars\<close> that
  ends before it begins.
\<close>

section \<open>Nodes\<close>

text \<open>
  \<open>JsonNode\<close> and \<open>Json\<close>: an object with its \<open>m_isValid\<close> and the \<open>std::map\<close> of its members in the
  order of the keys, an array with the \<open>m_valid\<close> of its node, and the values, which are always valid.
  A double is its bit pattern. A node that was not constructed to its end holds the first alternative
  of the variant, an empty object.
\<close>

datatype node =
  NObject bool "(string \<times> node) list" | NArray bool "node list" | NString string
| NDouble u64 | NInt u64 | NUint u64 | NBool bool | NNull

fun node_valid :: "node \<Rightarrow> bool" where
  "node_valid (NObject b m) = b"
| "node_valid (NArray b xs) = b"
| "node_valid _ = True"

definition broken_node :: node where
  "broken_node = NObject False []"

type_synonym members = "(string \<times> node) list"

text \<open>\<open>std::map::emplace\<close>: a key that is there keeps its value.\<close>

fun emplace_member :: "string \<Rightarrow> node \<Rightarrow> members \<Rightarrow> members" where
  "emplace_member k v [] = [(k, v)]"
| "emplace_member k v ((k', v') # m) =
     (if k < k' then (k, v) # (k', v') # m
      else if k = k' then (k', v') # m
      else (k', v') # emplace_member k v m)"

section \<open>Numbers\<close>

text \<open>
  What the code takes from the library and the hardware for doubles: \<open>from_chars\<close>, the comparison
  with zero by \<open>FloatLess\<close>, \<open>round(number * pow(10, m))\<close> as an unsigned and a signed integer,
  \<open>pow(10, k)\<close> as an integer, the product of a double and \<open>pow(10, k)\<close>, the conversions from
  integers, and the text of a double.
\<close>

record json_floats =
  jf_from_chars :: "string \<Rightarrow> u64 option"
  jf_negative :: "u64 \<Rightarrow> bool"
  jf_round_uint :: "u64 \<Rightarrow> int \<Rightarrow> u64"
  jf_round_int :: "u64 \<Rightarrow> int \<Rightarrow> u64"
  jf_pow :: "int \<Rightarrow> u64"
  jf_scale :: "u64 \<Rightarrow> int \<Rightarrow> u64"
  jf_of_uint :: "u64 \<Rightarrow> u64"
  jf_of_int :: "u64 \<Rightarrow> u64"
  jf_text :: "u64 \<Rightarrow> string"

text \<open>\<open>from_chars\<close> for integers: digits, with a sign for the signed types; \<open>None\<close> is an error.\<close>

definition from_chars_uint64 :: "string \<Rightarrow> u64 option" where
  "from_chars_uint64 s =
     (let ds = takeWhile is_digit s
      in if ds = [] \<or> 2 ^ 64 \<le> digits_val 0 ds then None else Some (word_of_nat (digits_val 0 ds)))"

definition from_chars_signed :: "nat \<Rightarrow> string \<Rightarrow> int option" where
  "from_chars_signed w s =
     (let neg = (s \<noteq> [] \<and> hd s = CHR ''-'');
          ds = takeWhile is_digit (if neg then tl s else s);
          v = digits_val 0 ds
      in if ds = [] \<or> (if neg then 2 ^ (w - 1) < v else 2 ^ (w - 1) \<le> v) then None
         else Some (if neg then - int v else int v))"

text \<open>\<open>Helper::Exponent10Of\<close>\<close>

function exponent10 :: "nat \<Rightarrow> nat" where
  "exponent10 v = (if v < 10 then 0 else Suc (exponent10 (v div 10)))"
  by pat_completeness auto
termination by (relation "measure id") auto

declare exponent10.simps [simp del]

text \<open>
  The digit loop of a number, from the character after its first digit: the text of the number, the
  index of its dot (0 for none), where the exponent begins and ends (0 for none) with its text, and
  the characters after the one that ends the number.
\<close>

datatype num_scan =
  TwoDots | NoEnd | Number string nat nat nat string string

fun scan_exponent :: "nat \<Rightarrow> nat \<Rightarrow> string \<Rightarrow> string \<Rightarrow> nat \<Rightarrow> string \<Rightarrow> num_scan" where
  "scan_exponent pos start expo val dot [] = NoEnd"
| "scan_exponent pos start expo val dot (c # cs) =
     (if is_digit c \<or> c = CHR ''+'' \<or> c = CHR ''-''
      then scan_exponent (pos + 1) start (expo @ [c]) val dot cs
      else Number val dot start pos expo cs)"

fun scan_number :: "nat \<Rightarrow> string \<Rightarrow> nat \<Rightarrow> string \<Rightarrow> num_scan" where
  "scan_number pos val dot [] = NoEnd"
| "scan_number pos val dot (c # cs) =
     (if is_digit c then scan_number (pos + 1) (val @ [c]) dot cs
      else if c = CHR ''.'' then
        (if dot \<noteq> 0 then TwoDots else scan_number (pos + 1) (val @ [CHR ''.'']) pos cs)
      else if c = CHR ''e'' then scan_exponent (pos + 1) (pos + 1) [] val dot cs
      else Number val dot 0 0 [] cs)"

text \<open>
  The exponent as the code converts it: from \<open>body + from\<close> stop \<open>body + (stop - start)\<close>. The outer option
  is \<open>None\<close> when this range is reversed, the inner one when \<open>from_chars\<close> reports an error.
\<close>

definition exponent_value :: "nat \<Rightarrow> nat \<Rightarrow> string \<Rightarrow> int option option" where
  "exponent_value start stop expo =
     (if stop - start < start then None else Some (from_chars_signed 16 (take (stop - start - start) expo)))"

definition scaled_double :: "json_floats \<Rightarrow> u64 \<Rightarrow> int \<Rightarrow> int \<Rightarrow> node" where
  "scaled_double jf number exponent mantissa =
     (if 0 \<le> exponent \<and> mantissa \<le> exponent
      then if \<not> jf_negative jf number
           then NUint (jf_round_uint jf number mantissa * jf_pow jf (exponent - mantissa))
           else NInt (jf_round_int jf number mantissa * jf_pow jf (exponent - mantissa))
      else NDouble (jf_scale jf number exponent))"

definition scaled_uint :: "json_floats \<Rightarrow> u64 \<Rightarrow> int \<Rightarrow> node" where
  "scaled_uint jf number exponent =
     (if 0 \<le> exponent \<or> \<bar>exponent\<bar> \<le> int (exponent10 (unat number))
      then NUint (number * jf_pow jf exponent)
      else NDouble (jf_scale jf (jf_of_uint jf number) exponent))"

definition scaled_int :: "json_floats \<Rightarrow> int \<Rightarrow> int \<Rightarrow> node" where
  "scaled_int jf number exponent =
     (if 0 \<le> exponent \<or> \<bar>exponent\<bar> \<le> int (exponent10 (nat \<bar>number\<bar>))
      then NInt (word_of_int number * jf_pow jf exponent)
      else NDouble (jf_scale jf (jf_of_int jf (word_of_int number)) exponent))"

text \<open>
  The value of a scanned number: the outer option is undefined behaviour, the inner one an early
  return. \<open>neg\<close> selects the copy of the code for numbers that begin with a minus.
\<close>

definition make_number ::
  "json_floats \<Rightarrow> bool \<Rightarrow> string \<Rightarrow> nat \<Rightarrow> nat \<Rightarrow> nat \<Rightarrow> string \<Rightarrow> node option option" where
  "make_number jf neg val dot start stop expo =
     (if dot \<noteq> 0
      then case jf_from_chars jf val of
             None \<Rightarrow> Some None
           | Some number \<Rightarrow>
               if start = 0 then Some (Some (NDouble number))
               else map_option (map_option (\<lambda>e. scaled_double jf number e
                      (sint (word_of_int (int start - int dot - 2) :: u16))))
                      (exponent_value start stop expo)
      else if neg
      then case from_chars_signed 64 val of
             None \<Rightarrow> Some None
           | Some number \<Rightarrow>
               if start = 0 then Some (Some (NInt (word_of_int number)))
               else map_option (map_option (scaled_int jf number)) (exponent_value start stop expo)
      else case from_chars_uint64 val of
             None \<Rightarrow> Some None
           | Some number \<Rightarrow>
               if start = 0 then Some (Some (NUint number))
               else map_option (map_option (scaled_uint jf number)) (exponent_value start stop expo))"

section \<open>Nested objects and arrays\<close>

text \<open>
  The loops that look for the end of a nested object or array: the characters up to the one that
  closes it and the rest after it, which is \<open>None\<close> when the expo ends before. \<open>insideDoubleQuotes\<close>
  is false when they start and nothing in them sets it, so that their branches for strings are
  never taken.
\<close>

fun scan_to :: "char \<Rightarrow> char \<Rightarrow> nat \<Rightarrow> string \<Rightarrow> string \<times> string option" where
  "scan_to open close depth [] = ([], None)"
| "scan_to open close depth (c # cs) =
     (let depth = (if c = open then depth + 1 else depth);
          depth = (if c = close then depth - 1 else depth)
      in if depth = 0 then ([c], Some cs)
         else let (s, r) = scan_to open close depth cs in (c # s, r))"

lemma scan_to_length:
  "scan_to open close depth cs = (s, r) \<Longrightarrow>
    length s \<le> length cs \<and> (\<forall>cs'. r = Some cs' \<longrightarrow> length s + length cs' = length cs \<and> s \<noteq> [])"
proof (induction cs arbitrary: depth s r)
  case Nil
  then show ?case by simp
next
  case (Cons c cs)
  let ?d = "if c = close then (if c = open then depth + 1 else depth) - 1
            else if c = open then depth + 1 else depth"
  show ?case
  proof (cases "?d = 0")
    case True
    then show ?thesis using Cons.prems by (auto simp: Let_def split: if_splits)
  next
    case False
    obtain s' r' where q: "scan_to open close ?d cs = (s', r')" by (metis surj_pair)
    have "s = c # s'" "r = r'"
      using Cons.prems False q by (auto simp: Let_def split: if_splits)
    then show ?thesis using Cons.IH [OF q] by auto
  qed
qed

lemma scan_exponent_length:
  "scan_exponent pos start expo val dot cs = Number v d f t x r \<Longrightarrow> length r < length cs"
  by (induction pos start expo val dot cs rule: scan_exponent.induct) (auto split: if_splits)

lemma scan_number_length: "scan_number pos val dot cs = Number v d f t x r \<Longrightarrow> length r < length cs"
  by (induction pos val dot cs rule: scan_number.induct)
    (auto split: if_splits dest: scan_exponent_length)

lemma scan_step_length:
  "scan_number pos val dot cs = Number v d f t x r \<Longrightarrow> length cs \<le> n \<Longrightarrow> length r < Suc n"
  "scan_number pos val dot (cs @ [b]) = Number v d f t x r \<Longrightarrow> length cs \<le> n \<Longrightarrow> length r - Suc 0 < Suc n"
  using scan_number_length [of pos val dot] by fastforce+

lemma scan_to_rest:
  assumes "(s, r) = scan_to op cl d cs"
  shows "length s < Suc (length cs)"
    "length (case r of None \<Rightarrow> [] | Some cs' \<Rightarrow> cs') < Suc (length cs)"
    "r = Some cs' \<Longrightarrow> length cs' < Suc (length cs)"
  using scan_to_length [OF assms [symmetric]] by (auto split: option.split)

section \<open>The two loops\<close>

definition key_skips :: "char \<Rightarrow> bool" where
  "key_skips c \<longleftrightarrow> c \<in> {CHR '' '', CHR 0x0A, CHR 0x09, CHR '','', CHR ''{'', CHR ''}'', CHR ''['', CHR '']''}"

definition white :: "char \<Rightarrow> bool" where
  "white c \<longleftrightarrow> c = CHR '' '' \<or> c = CHR 0x0A \<or> c = CHR 0x09"

definition escapes :: "char \<Rightarrow> string \<Rightarrow> bool" where
  "escapes c cs \<longleftrightarrow> c = CHR 0x5C \<and> cs \<noteq> [] \<and> (hd cs = CHR 0x22 \<or> hd cs = CHR 0x5C)"

definition all_valid :: "members \<Rightarrow> bool" where
  "all_valid m \<longleftrightarrow> (\<forall>(k, v) \<in> set m. node_valid v)"

text \<open>
  \<open>obj_loop\<close> is the loop of \<open>Construct\<close> with the test after it: the members and whether the object
  is valid. \<open>arr_loop\<close> is the loop of the array constructor with the test after it, over the
  characters between the brackets: the node.
\<close>

function obj_loop :: "json_floats \<Rightarrow> nat \<Rightarrow> bool \<Rightarrow> bool \<Rightarrow> string \<Rightarrow> string \<Rightarrow> members \<Rightarrow> string
      \<Rightarrow> (members \<times> bool) option"
and arr_loop :: "json_floats \<Rightarrow> nat \<Rightarrow> bool \<Rightarrow> string \<Rightarrow> node list \<Rightarrow> string \<Rightarrow> node option" where
  "obj_loop jf pos isKey inside key val m [] =
     Some (m, isKey \<and> key = [] \<and> val = [] \<and> \<not> inside \<and> all_valid m)"
| "obj_loop jf pos isKey inside key val m (c # cs) =
     (if isKey then
        if inside then
          if c = CHR 0x22 then obj_loop jf (pos + 1) False False key val m cs
          else if escapes c cs
          then obj_loop jf (pos + 2) True True (key @ [c, hd cs]) val m (tl cs)
          else obj_loop jf (pos + 1) True True (key @ [c]) val m cs
        else if c = CHR 0x22 then obj_loop jf (pos + 1) True True key val m cs
        else if \<not> key_skips c then Some (m, False)
        else obj_loop jf (pos + 1) True False key val m cs
      else if inside then
        if c = CHR 0x22
        then obj_loop jf (pos + 1) True False [] [] (emplace_member key (NString val) m) cs
        else if escapes c cs
        then obj_loop jf (pos + 2) False True key (val @ [c, hd cs]) m (tl cs)
        else obj_loop jf (pos + 1) False True key (val @ [c]) m cs
      else if c = CHR 0x22 then obj_loop jf (pos + 1) False True key val m cs
      else if white c then obj_loop jf (pos + 1) False False key val m cs
      else if c = CHR ''-'' then
        if cs = [] \<or> \<not> is_digit (hd cs) then Some (m, False)
        else
          (case scan_number (pos + 2) (val @ [c, hd cs]) 0 (tl cs) of
             Number v dot start stop expo rest \<Rightarrow>
               (case make_number jf True v dot start stop expo of
                  None \<Rightarrow> None
                | Some None \<Rightarrow> Some (m, False)
                | Some (Some n) \<Rightarrow>
                    obj_loop jf (pos + (length (c # cs) - length rest)) True False [] []
                      (emplace_member key n m) rest)
           | _ \<Rightarrow> Some (m, False))
      else if is_digit c then
        (case scan_number (pos + 1) (val @ [c]) 0 cs of
           Number v dot start stop expo rest \<Rightarrow>
             (case make_number jf False v dot start stop expo of
                None \<Rightarrow> None
              | Some None \<Rightarrow> Some (m, False)
              | Some (Some n) \<Rightarrow>
                  obj_loop jf (pos + (length (c # cs) - length rest)) True False [] []
                    (emplace_member key n m) rest)
         | _ \<Rightarrow> Some (m, False))
      else if c = CHR ''t'' then
        if take 3 cs = ''rue''
        then obj_loop jf (pos + 4) True False [] val (emplace_member key (NBool True) m) (drop 3 cs)
        else Some (m, False)
      else if c = CHR ''f'' then
        if take 4 cs = ''alse''
        then obj_loop jf (pos + 5) True False [] val (emplace_member key (NBool False) m) (drop 4 cs)
        else Some (m, False)
      else if c = CHR ''n'' then
        if take 3 cs = ''ull''
        then obj_loop jf (pos + 4) True False [] val (emplace_member key NNull m) (drop 3 cs)
        else Some (m, False)
      else if c = CHR ''{'' then
        (case scan_to (CHR ''{'') (CHR ''}'') 1 cs of
           (s, r) \<Rightarrow>
             (case (if s = [] \<or> last s \<noteq> CHR ''}'' then Some ([], False)
                    else obj_loop jf 1 True False [] [] [] s) of
                None \<Rightarrow> None
              | Some (n, ok) \<Rightarrow>
                  obj_loop jf (pos + 1 + length s) True False [] [] (emplace_member key (NObject ok n) m)
                    (case r of None \<Rightarrow> [] | Some cs' \<Rightarrow> cs')))
      else if c = CHR ''['' then
        (case scan_to (CHR ''['') (CHR '']'') 1 cs of
           (s, None) \<Rightarrow> None
         | (s, Some cs') \<Rightarrow>
             (case arr_loop jf (pos + 1) False [] [] (butlast s) of
                None \<Rightarrow> None
              | Some n \<Rightarrow>
                  obj_loop jf (pos + 1 + length s) True False [] val (emplace_member key n m) cs'))
      else if c = CHR '','' \<or> c = CHR '':'' then obj_loop jf (pos + 1) False False key val m cs
      else Some (m, False))"
| "arr_loop jf pos inside val xs [] =
     Some (NArray (val = [] \<and> \<not> inside \<and> (\<forall>x \<in> set xs. node_valid x)) xs)"
| "arr_loop jf pos inside val xs (c # cs) =
     (if inside then
        if c = CHR 0x22 then arr_loop jf (pos + 1) False [] (xs @ [NString val]) cs
        else if escapes c cs then arr_loop jf (pos + 2) True (val @ [c, hd cs]) xs (tl cs)
        else arr_loop jf (pos + 1) True (val @ [c]) xs cs
      else if c = CHR 0x22 then arr_loop jf (pos + 1) True val xs cs
      else if white c then arr_loop jf (pos + 1) False val xs cs
      else if c = CHR ''-'' then
        if cs = [] \<or> \<not> is_digit (hd cs) then Some broken_node
        else
          (case scan_number (pos + 2) (val @ [c, hd cs]) 0 (tl cs @ '']'') of
             Number v dot start stop expo rest \<Rightarrow>
               (case make_number jf True v dot start stop expo of
                  None \<Rightarrow> None
                | Some None \<Rightarrow> Some broken_node
                | Some (Some n) \<Rightarrow>
                    arr_loop jf (pos + (length (c # cs) + 1 - length rest)) False [] (xs @ [n]) (butlast rest))
           | _ \<Rightarrow> Some broken_node)
      else if is_digit c then
        (case scan_number (pos + 1) (val @ [c]) 0 (cs @ '']'') of
           Number v dot start stop expo rest \<Rightarrow>
             (case make_number jf False v dot start stop expo of
                None \<Rightarrow> None
              | Some None \<Rightarrow> Some broken_node
              | Some (Some n) \<Rightarrow>
                  arr_loop jf (pos + (length (c # cs) + 1 - length rest)) False [] (xs @ [n]) (butlast rest))
         | _ \<Rightarrow> Some broken_node)
      else if c = CHR ''t'' then
        if take 3 cs = ''rue'' then arr_loop jf (pos + 4) False val (xs @ [NBool True]) (drop 3 cs)
        else Some broken_node
      else if c = CHR ''f'' then
        if take 4 cs = ''alse'' then arr_loop jf (pos + 5) False val (xs @ [NBool False]) (drop 4 cs)
        else Some broken_node
      else if c = CHR ''n'' then
        if take 3 cs = ''ull'' then arr_loop jf (pos + 4) False val (xs @ [NNull]) (drop 3 cs)
        else Some broken_node
      else if c = CHR ''{'' then
        (case scan_to (CHR ''{'') (CHR ''}'') 1 cs of
           (s, r) \<Rightarrow>
             (case (if s = [] \<or> last s \<noteq> CHR ''}'' then Some ([], False)
                    else obj_loop jf 1 True False [] [] [] s) of
                None \<Rightarrow> None
              | Some (n, ok) \<Rightarrow>
                  arr_loop jf (pos + 1 + length s) False [] (xs @ [NObject ok n])
                    (case r of None \<Rightarrow> [] | Some cs' \<Rightarrow> cs')))
      else if c = CHR ''['' then
        (case scan_to (CHR ''['') (CHR '']'') 1 cs of
           (s, r) \<Rightarrow>
             (case arr_loop jf (pos + 1) False [] [] (if r = None then s else butlast s) of
                None \<Rightarrow> None
              | Some n \<Rightarrow>
                  arr_loop jf (pos + 1 + length s) False val (xs @ [n])
                    (case r of None \<Rightarrow> [] | Some cs' \<Rightarrow> cs')))
      else if c = CHR '','' then arr_loop jf (pos + 1) False val xs cs
      else Some broken_node)"
  by pat_completeness auto

termination
proof (relation "measure (\<lambda>x. case x of
    Inl (jf, pos, isKey, inside, key, val, m, cs) \<Rightarrow> length cs
  | Inr (jf, pos, inside, val, xs, cs) \<Rightarrow> length cs)", goal_cases)
qed (auto dest: scan_step_length scan_to_rest)

section \<open>Json objects\<close>

text \<open>A \<open>Json\<close>: \<open>m_isValid\<close> and \<open>m_keysAndValues\<close>.\<close>

type_synonym json_object = "bool \<times> members"

definition empty_json :: json_object where
  "empty_json = (False, [])"

text \<open>
  \<open>Construct\<close>, which may be called on an object that has members already: it adds to them, and a
  valid object stays valid. A root array is stored under the key \<open>rootArray\<close>; its closing bracket is
  looked for as that of a nested array.
\<close>

definition construct :: "json_floats \<Rightarrow> string \<Rightarrow> json_object \<Rightarrow> json_object option" where
  "construct jf body j =
     (case j of (valid, m) \<Rightarrow>
        if length body < 2 \<or> (hd body = CHR ''{'' \<and> last body \<noteq> CHR ''}'')
          \<or> (hd body = CHR ''['' \<and> last body \<noteq> CHR '']'')
        then Some j
        else
          map_option (\<lambda>(m, ok). (valid \<or> ok, m))
            (if hd body = CHR ''[''
             then (case scan_to (CHR ''['') (CHR '']'') 1 (tl body) of
                     (s, None) \<Rightarrow> None
                   | (s, Some cs) \<Rightarrow>
                       (case arr_loop jf 1 False [] [] (butlast s) of
                          None \<Rightarrow> None
                        | Some n \<Rightarrow>
                            obj_loop jf (1 + length s) True False [] []
                              (emplace_member ''rootArray'' n m) cs))
             else obj_loop jf 1 True False [] [] m (tl body)))"

definition get_value :: "json_object \<Rightarrow> string \<Rightarrow> node option" where
  "get_value j key = map_of (snd j) key"

definition clear_json :: "json_object \<Rightarrow> json_object" where
  "clear_json j = (False, [])"

section \<open>Printing\<close>

definition bool_str :: "bool \<Rightarrow> string" where
  "bool_str b = (if b then ''true'' else ''false'')"

fun join_texts :: "string \<Rightarrow> string list \<Rightarrow> string" where
  "join_texts sep [] = []"
| "join_texts sep [x] = x"
| "join_texts sep (x # y # xs) = x @ sep @ join_texts sep (y # xs)"

definition member_text :: "string \<times> string \<Rightarrow> string" where
  "member_text kv = [CHR 0x22] @ fst kv @ [CHR 0x22, CHR '':''] @ snd kv"

text \<open>\<open>JsonNode::PrepareToJson\<close> and \<open>Json::ToJson\<close>, which it calls for objects.\<close>

primrec prepare_to_json :: "json_floats \<Rightarrow> node \<Rightarrow> string" where
  "prepare_to_json jf (NObject b m) =
     ''{'' @ join_texts '','' (map member_text (map (map_prod id (prepare_to_json jf)) m)) @ ''}''"
| "prepare_to_json jf (NArray b xs) = ''['' @ join_texts '','' (map (prepare_to_json jf) xs) @ '']''"
| "prepare_to_json jf (NString s) = [CHR 0x22] @ s @ [CHR 0x22]"
| "prepare_to_json jf (NDouble d) = jf_text jf d"
| "prepare_to_json jf (NInt v) = show_int (sint v)"
| "prepare_to_json jf (NUint v) = show_nat (unat v)"
| "prepare_to_json jf (NBool b) = bool_str b"
| "prepare_to_json jf NNull = ''null''"

definition to_json :: "json_floats \<Rightarrow> json_object \<Rightarrow> string" where
  "to_json jf j = prepare_to_json jf (NObject (fst j) (snd j))"

text \<open>\<open>ToString\<close>: keys padded to the longest one, nested lines indented by a tab.\<close>

definition pad_right :: "nat \<Rightarrow> string \<Rightarrow> string" where
  "pad_right w s = s @ replicate (w - length s) CHR '' ''"

fun indent :: "string \<Rightarrow> string" where
  "indent [] = []"
| "indent (c # cs) = (if c = CHR 0x0A then [CHR 0x0A, CHR 0x09] else [c]) @ indent cs"

definition validity_text :: "bool \<Rightarrow> string" where
  "validity_text b = '' <valid: '' @ bool_str b @ ''>''"

definition container :: "node \<Rightarrow> bool" where
  "container n = (case n of NObject _ _ \<Rightarrow> True | NArray _ _ \<Rightarrow> True | _ \<Rightarrow> False)"

primrec node_to_string :: "json_floats \<Rightarrow> node \<Rightarrow> string" where
  "node_to_string jf (NObject b m) =
     (if m = [] then ''Json:'' @ [CHR 0x0A] @ ''{}'' @ validity_text b
      else
        ''Json:'' @ [CHR 0x0A] @ ''{''
        @ concat (map (\<lambda>((k, v), (_, t)). [CHR 0x0A, CHR 0x09]
                     @ pad_right (Max (set (map (length \<circ> fst) m))) k @ '' : ''
                     @ (if container v then indent t else t))
            (zip m (map (map_prod id (node_to_string jf)) m)))
        @ [CHR 0x0A] @ ''}'' @ validity_text b)"
| "node_to_string jf (NArray b xs) =
     (if xs = [] then ''[]'' @ validity_text b
      else ''['' @ [CHR 0x0A, CHR 0x09] @ join_texts ('','' @ [CHR 0x0A, CHR 0x09]) (map (node_to_string jf) xs)
             @ [CHR 0x0A] @ '']'' @ validity_text b)"
| "node_to_string jf (NString s) = s"
| "node_to_string jf (NDouble d) = jf_text jf d"
| "node_to_string jf (NInt v) = show_int (sint v)"
| "node_to_string jf (NUint v) = show_nat (unat v)"
| "node_to_string jf (NBool b) = bool_str b"
| "node_to_string jf NNull = ''null''"

definition json_to_string :: "json_floats \<Rightarrow> json_object \<Rightarrow> string" where
  "json_to_string jf j = node_to_string jf (NObject (fst j) (snd j))"

end
