(* ===== verification/JsonSpec.thy ===== *)
theory JsonSpec
  imports Json
begin

text \<open>
  The Json reader reads back what the printer writes, for the values whose strings have no quote,
  backslash or bracket in them; and what it does with texts that the Json specification rejects or
  accepts otherwise.
\<close>

declare obj_loop.simps [simp del] arr_loop.simps [simp del]

section \<open>Single characters\<close>

definition plain_char :: "char \<Rightarrow> bool" where
  "plain_char c \<longleftrightarrow> c \<notin> {CHR 0x22, CHR 0x5C, CHR ''{'', CHR ''}'', CHR ''['', CHR '']''}"

lemma plain_charD:
  "plain_char c \<Longrightarrow> c \<noteq> CHR 0x22" "plain_char c \<Longrightarrow> \<not> escapes c cs"
  "plain_char c \<Longrightarrow> c \<noteq> CHR ''{''" "plain_char c \<Longrightarrow> c \<noteq> CHR ''}''"
  "plain_char c \<Longrightarrow> c \<noteq> CHR ''[''" "plain_char c \<Longrightarrow> c \<noteq> CHR '']''"
  by (auto simp: plain_char_def escapes_def)

lemma is_digit_chars:
  "\<not> is_digit CHR 0x22" "\<not> is_digit (CHR '' '')" "\<not> is_digit CHR 0x0A" "\<not> is_digit CHR 0x09"
  "\<not> is_digit (CHR ''-'')" "\<not> is_digit (CHR ''t'')" "\<not> is_digit (CHR ''f'')" "\<not> is_digit (CHR ''n'')"
  "\<not> is_digit (CHR ''{'')" "\<not> is_digit (CHR ''['')" "\<not> is_digit (CHR '','')" "\<not> is_digit (CHR '':'')"
  "\<not> is_digit (CHR ''}'')" "\<not> is_digit (CHR '']'')" "\<not> is_digit (CHR ''.'')" "\<not> is_digit (CHR ''e'')"
  by (simp_all add: is_digit_def)

lemma digit_other:
  assumes "is_digit c"
  shows "c \<noteq> CHR 0x22" "\<not> white c" "c \<noteq> CHR ''-''"
  using assms by (auto simp: is_digit_def white_def)

lemma obj_key_char:
  "plain_char c \<Longrightarrow> obj_loop jf pos True True key val m (c # cs)
     = obj_loop jf (pos + 1) True True (key @ [c]) val m cs"
  by (simp add: obj_loop.simps plain_charD)

lemma obj_key_quote:
  "obj_loop jf pos True False key val m (CHR 0x22 # cs) = obj_loop jf (pos + 1) True True key val m cs"
  "obj_loop jf pos True True key val m (CHR 0x22 # cs) = obj_loop jf (pos + 1) False False key val m cs"
  by (simp_all add: obj_loop.simps)

lemma obj_skip:
  "key_skips c \<Longrightarrow> obj_loop jf pos True False key val m (c # cs) = obj_loop jf (pos + 1) True False key val m cs"
  by (auto simp: obj_loop.simps key_skips_def)

lemma obj_colon:
  "obj_loop jf pos False False key val m (CHR '':'' # cs) = obj_loop jf (pos + 1) False False key val m cs"
  by (simp add: obj_loop.simps white_def is_digit_chars)

lemma obj_string_char:
  "plain_char c \<Longrightarrow> obj_loop jf pos False True key val m (c # cs)
     = obj_loop jf (pos + 1) False True key (val @ [c]) m cs"
  by (simp add: obj_loop.simps plain_charD)

lemma obj_string_quote:
  "obj_loop jf pos False False key val m (CHR 0x22 # cs) = obj_loop jf (pos + 1) False True key val m cs"
  "obj_loop jf pos False True key val m (CHR 0x22 # cs)
     = obj_loop jf (pos + 1) True False [] [] (emplace_member key (NString val) m) cs"
  by (simp_all add: obj_loop.simps)

lemma arr_string_char:
  "plain_char c \<Longrightarrow> arr_loop jf pos True val xs (c # cs) = arr_loop jf (pos + 1) True (val @ [c]) xs cs"
  by (simp add: arr_loop.simps plain_charD)

lemma arr_string_quote:
  "arr_loop jf pos False val xs (CHR 0x22 # cs) = arr_loop jf (pos + 1) True val xs cs"
  "arr_loop jf pos True val xs (CHR 0x22 # cs) = arr_loop jf (pos + 1) False [] (xs @ [NString val]) cs"
  by (simp_all add: arr_loop.simps)

lemma arr_comma:
  "arr_loop jf pos False val xs (CHR '','' # cs) = arr_loop jf (pos + 1) False val xs cs"
  by (simp add: arr_loop.simps white_def is_digit_chars)

section \<open>Keys, strings and numbers\<close>

lemma obj_key:
  "\<forall>c \<in> set k. plain_char c \<Longrightarrow> obj_loop jf pos True True key val m (k @ CHR 0x22 # cs)
     = obj_loop jf (pos + length k + 1) False False (key @ k) val m cs"
  by (induction k arbitrary: pos key) (simp_all add: obj_key_char obj_key_quote)

lemma obj_string:
  "\<forall>c \<in> set s. plain_char c \<Longrightarrow> obj_loop jf pos False True key val m (s @ CHR 0x22 # cs)
     = obj_loop jf (pos + length s + 1) True False [] [] (emplace_member key (NString (val @ s)) m) cs"
  by (induction s arbitrary: pos val) (simp_all add: obj_string_char obj_string_quote)

lemma arr_string:
  "\<forall>c \<in> set s. plain_char c \<Longrightarrow> arr_loop jf pos True val xs (s @ CHR 0x22 # cs)
     = arr_loop jf (pos + length s + 1) False [] (xs @ [NString (val @ s)]) cs"
  by (induction s arbitrary: pos val) (simp_all add: arr_string_char arr_string_quote)

definition ends_number :: "char \<Rightarrow> bool" where
  "ends_number c \<longleftrightarrow> \<not> is_digit c \<and> c \<noteq> CHR ''.'' \<and> c \<noteq> CHR ''e''"

lemma scan_digits:
  "\<forall>c \<in> set ds. is_digit c \<Longrightarrow> ends_number c \<Longrightarrow>
    scan_number pos val 0 (ds @ c # cs) = Number (val @ ds) 0 0 0 [] cs"
  by (induction ds arbitrary: pos val) (auto simp: ends_number_def)

lemma takeWhile_digits: "\<forall>c \<in> set ds. is_digit c \<Longrightarrow> takeWhile is_digit ds = ds"
  by (simp add: takeWhile_eq_all_conv)

lemma from_chars_show_nat:
  "n < 2 ^ 64 \<Longrightarrow> from_chars_uint64 (show_nat n) = Some (word_of_nat n)"
  by (simp add: from_chars_uint64_def takeWhile_digits [OF show_nat_digits] Let_def)

lemma from_chars_show_neg:
  "0 < n \<Longrightarrow> n \<le> 2 ^ 63 \<Longrightarrow> from_chars_signed 64 (CHR ''-'' # show_nat n) = Some (- int n)"
  by (simp add: from_chars_signed_def takeWhile_digits [OF show_nat_digits] Let_def)

lemma show_nat_Cons: "\<exists>d ds. show_nat n = d # ds \<and> is_digit d \<and> (\<forall>c \<in> set ds. is_digit c)"
  using show_nat_digits [of n] show_nat_neq_Nil [of n] by (cases "show_nat n") auto

lemma obj_uint:
  assumes "ends_number c"
  shows "\<exists>p. obj_loop jf pos False False key [] m (show_nat (unat v) @ c # cs)
    = obj_loop jf p True False [] [] (emplace_member key (NUint v) m) cs"
proof -
  obtain d ds where n: "show_nat (unat v) = d # ds" "is_digit d" "\<forall>c \<in> set ds. is_digit c"
    using show_nat_Cons by blast
  have "from_chars_uint64 (d # ds) = Some v"
    using from_chars_show_nat [of "unat v"] unat_bound [of v] by (simp add: n(1))
  then have "make_number jf False (d # ds) 0 0 0 [] = Some (Some (NUint v))"
    by (simp add: make_number_def)
  then have "obj_loop jf pos False False key [] m (d # ds @ c # cs)
      = obj_loop jf (pos + (length (d # ds @ c # cs) - length cs)) True False [] []
          (emplace_member key (NUint v) m) cs"
    using n(2,3) assms digit_other [OF n(2)] scan_digits [OF n(3) assms, of "pos + 1" "[d]" cs]
    by (simp add: obj_loop.simps)
  then show ?thesis unfolding n(1) by auto
qed


lemma obj_int:
  assumes "ends_number c" and "sint v < 0"
  shows "\<exists>p. obj_loop jf pos False False key [] m (show_int (sint v) @ c # cs)
    = obj_loop jf p True False [] [] (emplace_member key (NInt v) m) cs"
proof -
  let ?n = "nat (- sint v)"
  obtain d ds where n: "show_nat ?n = d # ds" "is_digit d" "\<forall>c \<in> set ds. is_digit c"
    using show_nat_Cons by blast
  have i: "show_int (sint v) = CHR ''-'' # d # ds"
    using assms(2) by (simp add: show_int_def n(1))
  have "?n \<le> 2 ^ 63"
    using sint_greater_eq [of v] by simp
  then have "from_chars_signed 64 (CHR ''-'' # d # ds) = Some (sint v)"
    using from_chars_show_neg [of ?n] assms(2) by (simp add: n(1))
  then have "make_number jf True (CHR ''-'' # d # ds) 0 0 0 [] = Some (Some (NInt v))"
    by (simp add: make_number_def)
  then have "obj_loop jf pos False False key [] m (CHR ''-'' # d # ds @ c # cs)
      = obj_loop jf (pos + (length (CHR ''-'' # d # ds @ c # cs) - length cs)) True False [] []
          (emplace_member key (NInt v) m) cs"
    using n(2,3) assms scan_digits [OF n(3) assms(1), of "pos + 2" "[CHR ''-'', d]" cs]
    by (simp add: obj_loop.simps white_def)
  then show ?thesis unfolding i by auto
qed

text \<open>In an array the character after a number is a comma or the closing bracket.\<close>

definition next_value :: "string \<Rightarrow> bool" where
  "next_value cs \<longleftrightarrow> cs = [] \<or> hd cs = CHR '',''"

lemma next_value_cases:
  assumes "next_value cs"
  obtains "cs = []" | r where "cs = CHR '','' # r"
  using assms by (cases cs) (auto simp: next_value_def)

lemma scan_to_next:
  assumes "next_value cs" and "\<forall>c \<in> set ds. is_digit c"
  shows "\<exists>r. scan_number pos val 0 (ds @ cs @ '']'') = Number (val @ ds) 0 0 0 [] r \<and> butlast r = tl cs"
proof (rule next_value_cases [OF assms(1)], goal_cases)
  case 1
  then show ?thesis using scan_digits [OF assms(2), of "CHR '']''" pos val "[]"] by (simp add: ends_number_def is_digit_chars)
next
  case (2 r)
  then show ?thesis
    using scan_digits [OF assms(2), of "CHR '',''" pos val "r @ '']''"] by (simp add: ends_number_def is_digit_chars)
qed

lemma arr_uint:
  assumes "next_value cs"
  shows "\<exists>p. arr_loop jf pos False [] xs (show_nat (unat v) @ cs)
    = arr_loop jf p False [] (xs @ [NUint v]) (tl cs)"
proof -
  obtain d ds where n: "show_nat (unat v) = d # ds" "is_digit d" "\<forall>c \<in> set ds. is_digit c"
    using show_nat_Cons by blast
  have "from_chars_uint64 (d # ds) = Some v"
    using from_chars_show_nat [of "unat v"] unat_bound [of v] by (simp add: n(1))
  then have k: "make_number jf False (d # ds) 0 0 0 [] = Some (Some (NUint v))"
    by (simp add: make_number_def)
  obtain r where r: "scan_number (pos + 1) [d] 0 (ds @ cs @ '']'') = Number ([d] @ ds) 0 0 0 [] r"
    "butlast r = tl cs"
    using scan_to_next [OF assms n(3)] by blast
  have "arr_loop jf pos False [] xs (d # ds @ cs)
      = arr_loop jf (pos + (length (d # ds @ cs) + 1 - length r)) False [] (xs @ [NUint v]) (tl cs)"
    using n(2,3) r k digit_other [OF n(2)] by (simp add: arr_loop.simps)
  then show ?thesis unfolding n(1) by auto
qed

lemma arr_int:
  assumes "next_value cs" and "sint v < 0"
  shows "\<exists>p. arr_loop jf pos False [] xs (show_int (sint v) @ cs)
    = arr_loop jf p False [] (xs @ [NInt v]) (tl cs)"
proof -
  let ?n = "nat (- sint v)"
  obtain d ds where n: "show_nat ?n = d # ds" "is_digit d" "\<forall>c \<in> set ds. is_digit c"
    using show_nat_Cons by blast
  have i: "show_int (sint v) = CHR ''-'' # d # ds"
    using assms(2) by (simp add: show_int_def n(1))
  have "?n \<le> 2 ^ 63"
    using sint_greater_eq [of v] by simp
  then have "from_chars_signed 64 (CHR ''-'' # d # ds) = Some (sint v)"
    using from_chars_show_neg [of ?n] assms(2) by (simp add: n(1))
  then have k: "make_number jf True (CHR ''-'' # d # ds) 0 0 0 [] = Some (Some (NInt v))"
    by (simp add: make_number_def)
  obtain r where r: "scan_number (pos + 2) [CHR ''-'', d] 0 (ds @ cs @ '']'')
      = Number ([CHR ''-'', d] @ ds) 0 0 0 [] r" "butlast r = tl cs"
    using scan_to_next [OF assms(1) n(3)] by blast
  have "arr_loop jf pos False [] xs (CHR ''-'' # d # ds @ cs)
      = arr_loop jf (pos + (length (CHR ''-'' # d # ds @ cs) + 1 - length r)) False []
          (xs @ [NInt v]) (tl cs)"
    using n(2,3) r k by (simp add: arr_loop.simps white_def)
  then show ?thesis unfolding i by auto
qed

section \<open>Words\<close>

lemma obj_words:
  "obj_loop jf pos False False key [] m (''true'' @ cs)
     = obj_loop jf (pos + 4) True False [] [] (emplace_member key (NBool True) m) cs"
  "obj_loop jf pos False False key [] m (''false'' @ cs)
     = obj_loop jf (pos + 5) True False [] [] (emplace_member key (NBool False) m) cs"
  "obj_loop jf pos False False key [] m (''null'' @ cs)
     = obj_loop jf (pos + 4) True False [] [] (emplace_member key NNull m) cs"
  by (simp_all add: obj_loop.simps white_def is_digit_chars)

lemma arr_words:
  "arr_loop jf pos False [] xs (''true'' @ cs) = arr_loop jf (pos + 4) False [] (xs @ [NBool True]) cs"
  "arr_loop jf pos False [] xs (''false'' @ cs) = arr_loop jf (pos + 5) False [] (xs @ [NBool False]) cs"
  "arr_loop jf pos False [] xs (''null'' @ cs) = arr_loop jf (pos + 4) False [] (xs @ [NNull]) cs"
  by (simp_all add: arr_loop.simps white_def is_digit_chars)

section \<open>Brackets\<close>

text \<open>A text in which the search for the closing bracket passes over to what follows.\<close>

definition neutral :: "char \<Rightarrow> char \<Rightarrow> string \<Rightarrow> bool" where
  "neutral open close t \<longleftrightarrow>
     (\<forall>d cs. scan_to open close (Suc d) (t @ cs) = apfst ((@) t) (scan_to open close (Suc d) cs))"

lemma neutral_Nil: "neutral open close []"
  by (auto simp: neutral_def apfst_def map_prod_def split: prod.splits)

lemma neutral_append: "neutral open close t \<Longrightarrow> neutral open close u \<Longrightarrow> neutral open close (t @ u)"
  by (auto simp: neutral_def apfst_def map_prod_def split: prod.splits)

lemma neutral_Cons:
  "c \<noteq> open \<Longrightarrow> c \<noteq> close \<Longrightarrow> neutral open close t \<Longrightarrow> neutral open close (c # t)"
  by (auto simp: neutral_def Let_def apfst_def map_prod_def split: prod.splits)

lemma neutral_group:
  assumes "open \<noteq> close" and "neutral open close t"
  shows "neutral open close (open # t @ [close])"
  using assms by (auto simp: neutral_def Let_def apfst_def map_prod_def split: prod.splits)

lemma neutral_chars:
  "\<forall>c \<in> set t. c \<noteq> open \<and> c \<noteq> close \<Longrightarrow> neutral open close t"
  by (induction t) (simp_all add: neutral_Nil neutral_Cons)

lemma neutral_closed:
  assumes "open \<noteq> close" and "neutral open close t"
  shows "scan_to open close 1 (t @ close # cs) = (t @ [close], Some cs)"
  using assms by (simp add: neutral_def)

section \<open>Values that are read back\<close>

text \<open>
  The nodes that the reader gives back: valid objects with their keys in order, valid arrays,
  negative signed numbers (the others are read as unsigned), and texts without quotes, backslashes
  and brackets. Doubles depend on the library.
\<close>

primrec plain :: "node \<Rightarrow> bool" where
  "plain (NObject b m) \<longleftrightarrow> b \<and> sorted_wrt (<) (map fst m) \<and> (\<forall>(k, v) \<in> set m. \<forall>c \<in> set k. plain_char c)
     \<and> (\<forall>(k, p) \<in> set (map (map_prod id plain) m). p)"
| "plain (NArray b xs) \<longleftrightarrow> b \<and> (\<forall>p \<in> set (map plain xs). p)"
| "plain (NString s) \<longleftrightarrow> (\<forall>c \<in> set s. plain_char c)"
| "plain (NDouble d) \<longleftrightarrow> False"
| "plain (NInt v) \<longleftrightarrow> sint v < 0"
| "plain (NUint v) \<longleftrightarrow> True"
| "plain (NBool b) \<longleftrightarrow> True"
| "plain NNull \<longleftrightarrow> True"

lemma plain_valid: "plain n \<Longrightarrow> node_valid n"
  by (cases n) simp_all

lemma show_nat_not: "\<not> is_digit d \<Longrightarrow> \<forall>c \<in> set (show_nat n). c \<noteq> d"
  using show_nat_digits [of n] by blast

lemma show_int_not: "\<not> is_digit d \<Longrightarrow> d \<noteq> CHR ''-'' \<Longrightarrow> \<forall>c \<in> set (show_int i). c \<noteq> d"
  using show_nat_not [of d] by (auto simp: show_int_def)

lemma neutral_join:
  "sep \<noteq> open \<Longrightarrow> sep \<noteq> close \<Longrightarrow> \<forall>t \<in> set ts. neutral open close t
    \<Longrightarrow> neutral open close (join_texts [sep] ts)"
  by (induction "[sep]" ts rule: join_texts.induct) (simp_all add: neutral_Nil neutral_append neutral_Cons)

abbreviation bracket_pair :: "char \<Rightarrow> char \<Rightarrow> bool" where
  "bracket_pair open close \<equiv> (open, close) \<in> {(CHR ''{'', CHR ''}''), (CHR ''['', CHR '']'')}"

lemma neutral_wrap:
  assumes "bracket_pair open close" and "bracket_pair a b" and "neutral open close t"
  shows "neutral open close (a # t @ [b])"
proof (cases "a = open")
  case True
  then show ?thesis using assms neutral_group by auto
next
  case False
  have "neutral open close [b]" using assms False by (intro neutral_chars) auto
  then have "neutral open close (t @ [b])" using assms(3) neutral_append by blast
  then show ?thesis using assms False by (intro neutral_Cons) auto
qed

lemma neutral_plain:
  assumes "bracket_pair open close" and "\<forall>c \<in> set s. plain_char c"
  shows "neutral open close s"
  using assms by (intro neutral_chars) (auto simp: plain_char_def)

lemma neutral_member:
  assumes "bracket_pair open close" and "\<forall>c \<in> set k. plain_char c" and "neutral open close t"
  shows "neutral open close (member_text (k, t))"
proof -
  have "neutral open close ([CHR 0x22, CHR '':''] @ t)"
    using assms(1) by (intro neutral_append [OF neutral_chars assms(3)]) auto
  then have "neutral open close (k @ [CHR 0x22, CHR '':''] @ t)"
    using neutral_plain [OF assms(1,2)] neutral_append by blast
  then show ?thesis
    using assms(1) by (auto simp: member_text_def intro!: neutral_Cons)
qed

lemma plain_neutral:
  assumes "bracket_pair open close"
  shows "plain n \<Longrightarrow> neutral open close (prepare_to_json jf n)"
proof (induction n)
  case (NObject b m)
  have "\<forall>t \<in> set (map member_text (map (map_prod id (prepare_to_json jf)) m)). neutral open close t"
  proof
    fix t
    assume "t \<in> set (map member_text (map (map_prod id (prepare_to_json jf)) m))"
    then obtain k v where kv: "(k, v) \<in> set m" "t = member_text (k, prepare_to_json jf v)"
      by auto
    have k: "\<forall>c \<in> set k. plain_char c" and v: "plain v"
      using NObject.prems kv(1) by (fastforce, fastforce)
    have "neutral open close (prepare_to_json jf v)"
      by (rule NObject.IH [OF kv(1) _ v]) simp
    then show "neutral open close t"
      unfolding kv(2) by (rule neutral_member [OF assms k])
  qed
  then have "neutral open close (join_texts '','' (map member_text (map (map_prod id (prepare_to_json jf)) m)))"
    using assms by (intro neutral_join) auto
  from neutral_wrap [OF assms _ this, of "CHR ''{''" "CHR ''}''"] show ?case by simp
next
  case (NArray b xs)
  then have "neutral open close (join_texts '','' (map (prepare_to_json jf) xs))"
    using assms by (intro neutral_join) auto
  from neutral_wrap [OF assms _ this, of "CHR ''[''" "CHR '']''"] show ?case by simp
next
  case (NString s)
  have q: "neutral open close [CHR 0x22]"
    using assms by (intro neutral_chars) auto
  have "neutral open close (s @ [CHR 0x22])"
    by (rule neutral_append [OF neutral_plain [OF assms] q]) (use NString in simp)
  from neutral_append [OF q this] show ?case by simp
next
  case (NInt v)
  then show ?case
    using assms show_int_not [of "open" "sint v"] show_int_not [of "close" "sint v"]
    by (intro neutral_chars) (auto simp: is_digit_chars)
next
  case (NUint v)
  then show ?case
    using assms show_nat_not [of "open" "unat v"] show_nat_not [of "close" "unat v"]
    by (intro neutral_chars) (auto simp: is_digit_chars)
next
  case (NBool b)
  then show ?case
    using assms by (intro neutral_chars) (auto simp: bool_str_def)
next
  case NNull
  then show ?case
    using assms by (intro neutral_chars) auto
qed simp

section \<open>The round trip\<close>

lemma emplace_last: "\<forall>k' \<in> fst ` set m. k' < k \<Longrightarrow> emplace_member k v m = m @ [(k, v)]"
  by (induction m) (auto dest: less_asym)

text \<open>What the two loops do with the text of a value and the character behind it.\<close>

definition obj_reads :: "json_floats \<Rightarrow> node \<Rightarrow> bool" where
  "obj_reads jf n \<longleftrightarrow>
     (\<forall>pos key m c cs. c = CHR '','' \<or> c = CHR ''}'' \<longrightarrow>
        (\<exists>p. obj_loop jf pos False False key [] m (prepare_to_json jf n @ c # cs)
           = obj_loop jf p True False [] [] (emplace_member key n m) cs))"

definition arr_reads :: "json_floats \<Rightarrow> node \<Rightarrow> bool" where
  "arr_reads jf n \<longleftrightarrow>
     (\<forall>pos xs cs. next_value cs \<longrightarrow>
        (\<exists>p. arr_loop jf pos False [] xs (prepare_to_json jf n @ cs)
           = arr_loop jf p False [] (xs @ [n]) (tl cs)))"

lemma obj_readsI:
  assumes "\<And>pos key m c cs. c = CHR '','' \<or> c = CHR ''}'' \<Longrightarrow>
    \<exists>p. obj_loop jf pos False False key [] m (prepare_to_json jf n @ c # cs)
      = obj_loop jf p True False [] [] (emplace_member key n m) (c # cs)"
  shows "obj_reads jf n"
proof -
  have "key_skips c" if "c = CHR '','' \<or> c = CHR ''}''" for c
    using that by (auto simp: key_skips_def)
  then show ?thesis
    using assms unfolding obj_reads_def by (metis obj_skip)
qed

lemma arr_readsI:
  assumes "\<And>pos xs cs. next_value cs \<Longrightarrow>
    \<exists>p. arr_loop jf pos False [] xs (prepare_to_json jf n @ cs) = arr_loop jf p False [] (xs @ [n]) cs"
  shows "arr_reads jf n"
  unfolding arr_reads_def
proof (intro allI impI)
  fix pos xs cs
  assume n: "next_value cs"
  obtain p where p: "arr_loop jf pos False [] xs (prepare_to_json jf n @ cs)
      = arr_loop jf p False [] (xs @ [n]) cs"
    using assms [OF n] by blast
  show "\<exists>p. arr_loop jf pos False [] xs (prepare_to_json jf n @ cs) = arr_loop jf p False [] (xs @ [n]) (tl cs)"
    by (rule next_value_cases [OF n]) (use p arr_comma in auto)
qed

definition member_json :: "json_floats \<Rightarrow> string \<times> node \<Rightarrow> string" where
  "member_json jf kv = member_text (fst kv, prepare_to_json jf (snd kv))"

lemma members_json: "map member_text (map (map_prod id (prepare_to_json jf)) m) = map (member_json jf) m"
  by (auto simp: member_json_def)

lemma obj_members:
  assumes "\<forall>(k, v) \<in> set ms. (\<forall>c \<in> set k. plain_char c) \<and> obj_reads jf v"
    and "sorted_wrt (<) (map fst (m0 @ ms))"
  shows "obj_loop jf pos True False [] [] m0
      (join_texts '','' (map (member_json jf) ms) @ ''}'')
    = Some (m0 @ ms, all_valid (m0 @ ms))"
  using assms
proof (induction ms arbitrary: m0 pos)
  case Nil
  then show ?case by (simp add: obj_loop.simps key_skips_def)
next
  case (Cons kv ms)
  obtain k v where kv: "kv = (k, v)" by fastforce
  have k: "\<forall>c \<in> set k. plain_char c" and v: "obj_reads jf v"
    using Cons.prems(1) by (auto simp: kv)
  have e: "emplace_member k v m0 = m0 @ [(k, v)]"
    using Cons.prems(2) by (intro emplace_last) (auto simp: kv sorted_wrt_append)
  let ?r = "join_texts '','' (map (member_json jf) ms) @ ''}''"
  have one: "\<exists>p. obj_loop jf pos True False [] [] m0 (member_json jf (k, v) @ c # cs)
      = obj_loop jf p True False [] [] (m0 @ [(k, v)]) cs" if c: "c = CHR '','' \<or> c = CHR ''}''" for c cs
  proof -
    obtain p where "obj_loop jf (pos + 1 + length k + 1 + 1) False False k [] m0 (prepare_to_json jf v @ c # cs)
        = obj_loop jf p True False [] [] (emplace_member k v m0) cs"
      using v c unfolding obj_reads_def by blast
    then show ?thesis
      using k by (auto simp: member_json_def member_text_def obj_key_quote obj_key obj_colon e)
  qed
  show ?case
  proof (cases "ms = []")
    case True
    then show ?thesis
      using one [of "CHR ''}''" "[]"] by (auto simp: kv obj_loop.simps(1))
  next
    case False
    then obtain t ts where ts: "map (member_json jf) ms = t # ts"
      by (cases ms) auto
    have "obj_loop jf p True False [] [] (m0 @ [(k, v)]) ?r
        = Some ((m0 @ [(k, v)]) @ ms, all_valid ((m0 @ [(k, v)]) @ ms))" for p
      by (rule Cons.IH) (use Cons.prems in \<open>simp_all add: kv\<close>)
    then show ?thesis
      using one [of "CHR '',''" ?r] by (auto simp: kv ts)
  qed
qed

lemma arr_elements:
  assumes "\<forall>v \<in> set vs. arr_reads jf v"
  shows "arr_loop jf pos False [] xs (join_texts '','' (map (prepare_to_json jf) vs))
    = Some (NArray (\<forall>x \<in> set (xs @ vs). node_valid x) (xs @ vs))"
  using assms
proof (induction vs arbitrary: xs pos)
  case Nil
  then show ?case by (simp add: arr_loop.simps)
next
  case (Cons v vs)
  have one: "\<exists>p. arr_loop jf pos False [] xs (prepare_to_json jf v @ cs)
      = arr_loop jf p False [] (xs @ [v]) (tl cs)" if "next_value cs" for cs
    using Cons.prems that by (auto simp: arr_reads_def)
  have rest: "arr_loop jf p False [] (xs @ [v]) (join_texts '','' (map (prepare_to_json jf) vs))
      = Some (NArray (\<forall>x \<in> set ((xs @ [v]) @ vs). node_valid x) ((xs @ [v]) @ vs))" for p
    using Cons.IH [of p "xs @ [v]"] Cons.prems by simp
  show ?case
  proof (cases vs)
    case Nil
    then show ?thesis using one [of "[]"] rest by (auto simp: next_value_def)
  next
    case (Cons w ws)
    then show ?thesis
      using one [of "CHR '','' # join_texts '','' (map (prepare_to_json jf) vs)"] rest
      by (auto simp: next_value_def)
  qed
qed

lemma members_of_plain:
  assumes "plain (NObject b m)" and "\<And>k v. (k, v) \<in> set m \<Longrightarrow> plain v \<Longrightarrow> obj_reads jf v"
  shows "\<forall>(k, v) \<in> set m. (\<forall>c \<in> set k. plain_char c) \<and> obj_reads jf v" "all_valid m"
    "sorted_wrt (<) (map fst ([] @ m))"
proof -
  have "(\<forall>c \<in> set k. plain_char c) \<and> plain v" if "(k, v) \<in> set m" for k v
    using assms(1) that by fastforce
  then show "\<forall>(k, v) \<in> set m. (\<forall>c \<in> set k. plain_char c) \<and> obj_reads jf v" "all_valid m"
    using assms(2) plain_valid by (auto simp: all_valid_def)
  show "sorted_wrt (<) (map fst ([] @ m))"
    using assms(1) by simp
qed

lemma object_text:
  assumes "plain (NObject b m)" and "\<And>k v. (k, v) \<in> set m \<Longrightarrow> plain v \<Longrightarrow> obj_reads jf v"
  obtains t where "prepare_to_json jf (NObject b m) = CHR ''{'' # t @ ''}''" "b"
    "\<forall>cs. scan_to (CHR ''{'') (CHR ''}'') 1 (t @ CHR ''}'' # cs) = (t @ ''}'', Some cs)"
    "\<forall>p. obj_loop jf p True False [] [] [] (t @ ''}'') = Some (m, True)"
proof -
  let ?t = "join_texts '','' (map (member_json jf) m)"
  have p: "prepare_to_json jf (NObject b m) = CHR ''{'' # ?t @ ''}''"
    by (simp only: prepare_to_json.simps members_json append_Cons append_Nil)
  have l: "obj_loop jf p True False [] [] [] (?t @ ''}'') = Some (m, True)" for p
    using obj_members [OF members_of_plain(1,3) [OF assms]] members_of_plain(2) [OF assms] by simp
  have "\<forall>t \<in> set (map (member_json jf) m). neutral (CHR ''{'') (CHR ''}'') t"
  proof
    fix t
    assume "t \<in> set (map (member_json jf) m)"
    then obtain k v where kv: "(k, v) \<in> set m" "t = member_text (k, prepare_to_json jf v)"
      by (auto simp: member_json_def)
    have k: "\<forall>c \<in> set k. plain_char c" "plain v"
      using assms(1) kv(1) by (fastforce, fastforce)
    show "neutral (CHR ''{'') (CHR ''}'') t"
      unfolding kv(2) using neutral_member [OF _ k(1) plain_neutral [OF _ k(2)]] by blast
  qed
  then have "neutral (CHR ''{'') (CHR ''}'') ?t"
    by (intro neutral_join) auto
  from neutral_closed [OF _ this] show ?thesis
    using assms(1) p l by (intro that [of ?t]) simp_all
qed

lemma array_text:
  assumes "plain (NArray b xs)" and "\<And>v. v \<in> set xs \<Longrightarrow> plain v \<Longrightarrow> arr_reads jf v"
  obtains t where "prepare_to_json jf (NArray b xs) = CHR ''['' # t @ '']''" "b"
    "\<forall>cs. scan_to (CHR ''['') (CHR '']'') 1 (t @ CHR '']'' # cs) = (t @ '']'', Some cs)"
    "\<forall>p. arr_loop jf p False [] [] t = Some (NArray True xs)"
proof -
  let ?t = "join_texts '','' (map (prepare_to_json jf) xs)"
  have "\<forall>v \<in> set xs. arr_reads jf v" and v: "\<forall>x \<in> set xs. node_valid x"
    using assms plain_valid by auto
  then have l: "arr_loop jf p False [] [] ?t = Some (NArray True xs)" for p
    using arr_elements [of xs jf p "[]"] by simp
  have "neutral (CHR ''['') (CHR '']'') ?t"
    using assms(1) by (intro neutral_join) (auto intro!: plain_neutral)
  from neutral_closed [OF _ this] show ?thesis
    using assms(1) l by (intro that [of ?t]) simp_all
qed

lemma obj_object:
  assumes "prepare_to_json jf (NObject b m) = CHR ''{'' # t @ ''}''" "b"
    "\<forall>cs. scan_to (CHR ''{'') (CHR ''}'') 1 (t @ CHR ''}'' # cs) = (t @ ''}'', Some cs)"
    "\<forall>p. obj_loop jf p True False [] [] [] (t @ ''}'') = Some (m, True)"
  shows "obj_reads jf (NObject b m)" "arr_reads jf (NObject b m)"
  using assms
  by (auto intro!: obj_readsI arr_readsI simp: obj_loop.simps(2) arr_loop.simps(2) white_def is_digit_chars
      simp del: prepare_to_json.simps)

lemma obj_array:
  assumes "prepare_to_json jf (NArray b xs) = CHR ''['' # t @ '']''" "b"
    "\<forall>cs. scan_to (CHR ''['') (CHR '']'') 1 (t @ CHR '']'' # cs) = (t @ '']'', Some cs)"
    "\<forall>p. arr_loop jf p False [] [] t = Some (NArray True xs)"
  shows "obj_reads jf (NArray b xs)" "arr_reads jf (NArray b xs)"
  using assms
  by (auto intro!: obj_readsI arr_readsI simp: obj_loop.simps(2) arr_loop.simps(2) white_def is_digit_chars
      butlast_append simp del: prepare_to_json.simps)

lemma ends_value: "c = CHR '','' \<or> c = CHR ''}'' \<Longrightarrow> ends_number c"
  by (auto simp: ends_number_def is_digit_chars)

lemma number_reads:
  "obj_reads jf (NUint v)" "arr_reads jf (NUint v)"
  "sint w < 0 \<Longrightarrow> obj_reads jf (NInt w)" "sint w < 0 \<Longrightarrow> arr_reads jf (NInt w)"
  unfolding obj_reads_def arr_reads_def
  using obj_uint [OF ends_value] arr_uint obj_int [OF ends_value] arr_int by (auto simp del: append.simps)

lemma string_reads:
  assumes "\<forall>c \<in> set s. plain_char c"
  shows "obj_reads jf (NString s)" "arr_reads jf (NString s)"
  using assms by (auto intro!: obj_readsI arr_readsI simp: obj_string obj_string_quote arr_string arr_string_quote)

lemma word_reads:
  "obj_reads jf (NBool b)" "obj_reads jf NNull" "arr_reads jf (NBool b)" "arr_reads jf NNull"
  using obj_words arr_words by (auto intro!: obj_readsI arr_readsI simp: bool_str_def)

theorem plain_reads: "plain n \<Longrightarrow> obj_reads jf n \<and> arr_reads jf n"
proof (induction n)
  case (NObject b m)
  have "obj_reads jf v" if "(k, v) \<in> set m" "plain v" for k v
    using NObject.IH [OF that(1)] that(2) by simp
  note o = this
  obtain t where t: "prepare_to_json jf (NObject b m) = CHR ''{'' # t @ ''}''" "b"
    "\<forall>cs. scan_to (CHR ''{'') (CHR ''}'') 1 (t @ CHR ''}'' # cs) = (t @ ''}'', Some cs)"
    "\<forall>p. obj_loop jf p True False [] [] [] (t @ ''}'') = Some (m, True)"
    by (rule object_text [OF NObject.prems o])
  show ?case using obj_object [OF t] by blast
next
  case (NArray b xs)
  have "arr_reads jf v" if "v \<in> set xs" "plain v" for v
    using NArray.IH [OF that(1)] that(2) by simp
  note a = this
  obtain t where t: "prepare_to_json jf (NArray b xs) = CHR ''['' # t @ '']''" "b"
    "\<forall>cs. scan_to (CHR ''['') (CHR '']'') 1 (t @ CHR '']'' # cs) = (t @ '']'', Some cs)"
    "\<forall>p. arr_loop jf p False [] [] t = Some (NArray True xs)"
    by (rule array_text [OF NArray.prems a])
  show ?case using obj_array [OF t] by blast
qed (simp_all add: number_reads string_reads word_reads)

text \<open>
  C8: What \<open>ToJson\<close> prints, \<open>Construct\<close> reads back: the text of a valid object whose values are nested
  objects and arrays, texts, unsigned and negative numbers, booleans and null, read into a new object,
  gives that object, valid. This is for \<open>plain\<close> objects only: their keys and texts have no quote,
  backslash, brace or bracket in them (a nested text with a brace is misread, as \<open>json_misreadings\<close>
  shows), and they have no floating-point numbers, whatever the library does with those.
\<close>

theorem json_roundtrip:
  assumes "plain (NObject True m)"
  shows "construct jf (to_json jf (True, m)) empty_json = Some (True, m)"
proof -
  have "obj_reads jf v" if "(k, v) \<in> set m" "plain v" for k v
    using plain_reads that by blast
  note o = this
  obtain t where "prepare_to_json jf (NObject True m) = CHR ''{'' # t @ ''}''"
      "\<forall>p. obj_loop jf p True False [] [] [] (t @ ''}'') = Some (m, True)"
    by (rule object_text [OF assms o])
  then show ?thesis
    by (simp add: construct_def to_json_def empty_json_def del: prepare_to_json.simps)
qed

text \<open>
  The keys of a \<open>std::map\<close> are in strict order, and a container that is marked valid has only valid
  values in it. A node is well formed when it and all nodes below it are.
\<close>

primrec wf_node :: "node \<Rightarrow> bool" where
  "wf_node (NObject b m) \<longleftrightarrow> sorted_wrt (<) (map fst m) \<and> (b \<longrightarrow> all_valid m)
     \<and> (\<forall>(k, p) \<in> set (map (map_prod id wf_node) m). p)"
| "wf_node (NArray b xs) \<longleftrightarrow> (b \<longrightarrow> (\<forall>x \<in> set xs. node_valid x)) \<and> (\<forall>p \<in> set (map wf_node xs). p)"
| "wf_node (NString s) \<longleftrightarrow> True"
| "wf_node (NDouble d) \<longleftrightarrow> True"
| "wf_node (NInt v) \<longleftrightarrow> True"
| "wf_node (NUint v) \<longleftrightarrow> True"
| "wf_node (NBool b) \<longleftrightarrow> True"
| "wf_node NNull \<longleftrightarrow> True"

lemma emplace_keys: "fst ` set (emplace_member k v m) = insert k (fst ` set m)"
  by (induction k v m rule: emplace_member.induct) auto

lemma emplace_sorted: "sorted_wrt (<) (map fst m) \<Longrightarrow> sorted_wrt (<) (map fst (emplace_member k v m))"
proof (induction k v m rule: emplace_member.induct)
  case (2 k v k' v' m)
  have "\<forall>x \<in> set (map fst (emplace_member k v m)). k' < x" if "k' < k"
    using 2(2) emplace_keys [of k v m] that by auto
  moreover have "k' < k" if "\<not> k < k'" "k \<noteq> k'"
    using that less_linear [of k k'] by blast
  ultimately show ?case
    using 2 by (cases "k < k'"; cases "k = k'") (auto dest: less_trans)
qed simp

lemma emplace_values: "set (emplace_member k v m) \<subseteq> insert (k, v) (set m)"
  by (induction k v m rule: emplace_member.induct) auto

definition wf_members :: "members \<Rightarrow> bool" where
  "wf_members m \<longleftrightarrow> sorted_wrt (<) (map fst m) \<and> (\<forall>(k, v) \<in> set m. wf_node v)"

lemma wf_object: "wf_node (NObject b m) \<longleftrightarrow> wf_members m \<and> (b \<longrightarrow> all_valid m)"
  by (force simp: wf_members_def)

lemma wf_emplace: "wf_members m \<Longrightarrow> wf_node v \<Longrightarrow> wf_members (emplace_member k v m)"
  using emplace_sorted [of m k v] emplace_values [of k v m] by (fastforce simp: wf_members_def)

lemma wf_broken: "wf_node broken_node" "\<not> node_valid broken_node"
  by (simp_all add: broken_node_def)

lemma wf_scaled: "wf_node (scaled_double jf d e k)" "wf_node (scaled_uint jf u e)" "wf_node (scaled_int jf i e)"
  by (simp_all add: scaled_double_def scaled_uint_def scaled_int_def)

lemma wf_number: "make_number jf neg val dot start stop expo = Some (Some n) \<Longrightarrow> wf_node n"
  by (auto simp: make_number_def wf_scaled split: if_splits option.splits)

definition good_object :: "(members \<times> bool) option \<Rightarrow> bool" where
  "good_object x \<longleftrightarrow> (case x of None \<Rightarrow> True | Some (m, ok) \<Rightarrow> wf_members m \<and> (ok \<longrightarrow> all_valid m))"

definition good_array :: "node option \<Rightarrow> bool" where
  "good_array x \<longleftrightarrow> (case x of None \<Rightarrow> True | Some n \<Rightarrow> wf_node n)"

lemma good_simps [simp]:
  "good_object None" "good_object (Some (m, False)) \<longleftrightarrow> wf_members m" "good_array None"
  "good_object (Some (m, b)) \<longleftrightarrow> wf_members m \<and> (b \<longrightarrow> all_valid m)"
  "good_array (Some n) \<longleftrightarrow> wf_node n"
  by (simp_all add: good_object_def good_array_def)

lemma wf_leaves: "wf_node (NString s)" "wf_node (NBool b)" "wf_node NNull" "wf_members []"
  by (simp_all add: wf_members_def)

lemma good_object_if:
  "(b \<Longrightarrow> good_object x) \<Longrightarrow> (\<not> b \<Longrightarrow> good_object y) \<Longrightarrow> good_object (if b then x else y)"
  by simp

lemma good_array_if:
  "(b \<Longrightarrow> good_array x) \<Longrightarrow> (\<not> b \<Longrightarrow> good_array y) \<Longrightarrow> good_array (if b then x else y)"
  by simp

lemma good_number:
  assumes "\<And>rest n. length rest < length cs \<Longrightarrow> wf_node n \<Longrightarrow> P (F n rest)" "P None" "P stop"
  shows "P (case scan_number pos val 0 cs of
      Number v dot start end expo rest \<Rightarrow>
        (case make_number jf neg v dot start end expo of
           None \<Rightarrow> None | Some None \<Rightarrow> stop | Some (Some n) \<Rightarrow> F n rest)
    | _ \<Rightarrow> stop)"
  using assms by (auto split: num_scan.split option.split dest!: scan_number_length wf_number)

lemma good_nested_object:
  assumes "good_object x" "\<And>n ok. wf_node (NObject ok n) \<Longrightarrow> P (F n ok)" "P None"
  shows "P (case x of None \<Rightarrow> None | Some (n, ok) \<Rightarrow> F n ok)"
  using assms by (cases x) (auto simp: wf_object simp del: wf_node.simps)

lemma good_nested_array:
  assumes "good_array x" "\<And>n. wf_node n \<Longrightarrow> P (F n)" "P None"
  shows "P (case x of None \<Rightarrow> None | Some n \<Rightarrow> F n)"
  using assms by (cases x) auto

lemma good_scan_to:
  assumes "\<And>s r. length s \<le> length cs \<Longrightarrow> length (case r of None \<Rightarrow> [] | Some cs' \<Rightarrow> cs') \<le> length cs
    \<Longrightarrow> P (F s r)"
  shows "P (case scan_to open close d cs of (s, r) \<Rightarrow> F s r)"
proof -
  obtain s r where q: "scan_to open close d cs = (s, r)" by fastforce
  show ?thesis
    using assms [of s r] scan_to_length [OF q] by (cases r) (simp_all add: q)
qed

lemma good_rest:
  assumes "\<And>cs. r = Some cs \<Longrightarrow> P (F cs)" "P None"
  shows "P (case r of None \<Rightarrow> None | Some cs \<Rightarrow> F cs)"
  using assms by (cases r) auto

lemmas good_object_rules = good_object_if good_number [where P = good_object]
  good_nested_object [where P = good_object] good_scan_to [where P = good_object]
  good_rest [where P = good_object] good_nested_array [where P = good_object] wf_emplace wf_leaves

lemmas good_array_rules = good_array_if good_number [where P = good_array]
  good_nested_object [where P = good_array] good_scan_to [where P = good_array]
  good_nested_array [where P = good_array] wf_leaves

lemma loops_good:
  "length cs < L \<Longrightarrow> wf_members m \<Longrightarrow> good_object (obj_loop jf pos isKey inside key val m cs)"
  "length cs < L \<Longrightarrow> \<forall>x \<in> set xs. wf_node x \<Longrightarrow> good_array (arr_loop jf pos inside val xs cs)"
proof (induction L arbitrary: cs m pos isKey inside key val xs)
  case (Suc L)
  note o = Suc.IH(1) and a = Suc.IH(2)
  {
    case 1
    show ?case
    proof (cases cs)
      case Nil
      then show ?thesis using 1 by (simp add: obj_loop.simps(1))
    next
      case (Cons c cs')
      have l: "length cs' < L" using 1 Cons by simp
      show ?thesis
        unfolding Cons obj_loop.simps(2)
        by (intro o good_object_rules; (use l 1(2) in \<open>simp del: wf_node.simps\<close>)?)
          (use l 1(2) in \<open>auto intro!: a o good_object_rules simp del: wf_node.simps\<close>)
    qed
  next
    case 2
    show ?case
    proof (cases cs)
      case Nil
      then show ?thesis using 2 by (auto simp: arr_loop.simps(1))
    next
      case (Cons c cs')
      have l: "length cs' < L" using 2 Cons by simp
      show ?thesis
        unfolding Cons arr_loop.simps(2)
        by (intro a good_array_rules; (use l 2(2) in \<open>simp add: wf_broken wf_leaves\<close>)?)
          (use l in \<open>auto intro!: o wf_leaves\<close>)
    qed
  }
qed simp_all

lemma good_result:
  "good_object x \<Longrightarrow> map_option (\<lambda>(m, ok). (v \<or> ok, m)) x = Some (v', m')
    \<Longrightarrow> wf_members m' \<and> (v' \<longrightarrow> \<not> v \<longrightarrow> all_valid m')"
  by (cases x) auto

text \<open>
  C24: Whatever text is read into an object, and whatever it held before, the result is well formed: the
  keys of every object in it are in strict order, none twice, and an array or object below it that is
  marked valid has only valid values. When the object is marked valid by this call, so are all values in it.
\<close>

theorem construct_well_formed:
  assumes "construct jf body (valid, m) = Some (valid', m')" and "wf_members m"
  shows "wf_members m' \<and> (valid' \<longrightarrow> \<not> valid \<longrightarrow> all_valid m')"
proof -
  have o: "good_object (obj_loop jf p k i key val n cs)" if "wf_members n" for p k i key val n cs
    using loops_good(1) that by blast
  have a: "good_array (arr_loop jf p i val [] cs)" for p i val cs
    using loops_good(2) [of cs "Suc (length cs)" "[]"] by simp
  have "wf_members m' \<and> (valid' \<longrightarrow> \<not> valid \<longrightarrow> all_valid m')"
  proof (cases "length body < 2 \<or> (hd body = CHR ''{'' \<and> last body \<noteq> CHR ''}'')
          \<or> (hd body = CHR ''['' \<and> last body \<noteq> CHR '']'')")
    case True
    then show ?thesis using assms by (auto simp: construct_def)
  next
    case False
    let ?r = "if hd body = CHR ''['' then
        case scan_to (CHR ''['') (CHR '']'') 1 (tl body) of (s, r) \<Rightarrow>
          (case r of None \<Rightarrow> None
           | Some cs \<Rightarrow>
               (case arr_loop jf 1 False [] [] (butlast s) of None \<Rightarrow> None
                | Some n \<Rightarrow> obj_loop jf (1 + length s) True False [] [] (emplace_member ''rootArray'' n m) cs))
      else obj_loop jf 1 True False [] [] m (tl body)"
    have g: "good_object ?r"
      using assms(2) by (intro good_object_rules o a) simp_all
    have e: "construct jf body (valid, m) = map_option (\<lambda>(m, ok). (valid \<or> ok, m)) ?r"
      unfolding construct_def using False by (simp only: prod.case if_False)
    show ?thesis
      by (rule good_result [OF g]) (simp only: e [symmetric] assms(1))
  qed
  then show ?thesis .
qed

section \<open>What the reader does with other texts\<close>

lemmas json_eval = construct_def empty_json_def obj_loop.simps arr_loop.simps white_def key_skips_def escapes_def
  is_digit_def make_number_def from_chars_uint64_def digits_val.simps digit_val_def all_valid_def

text \<open>
  Texts that the reader takes wrongly: a brace inside of a string of a nested object ends the
  object, so that the valid text \<open>{"a":{"b":"}"}}\<close> is rejected; the character after a number is skipped
  whatever it is, a first character other than the two brackets is skipped, and a nested object
  needs no closing brace of its own, so that \<open>{"a":1x}\<close>, \<open>x"a":1}\<close> and \<open>{"a":{"b":{}}\<close> are accepted;
  an array with an exponent, \<open>[1e5]\<close>, makes the reader convert a range that ends before it begins; and
  an unbalanced \<open>[[1]\<close> makes it read behind the text. A valid object stays valid when it is given a text
  that is rejected.
\<close>

theorem json_misreadings:
  "map_option fst (construct jf (''{'' @ [CHR 0x22] @ ''a'' @ [CHR 0x22] @ '':{'' @ [CHR 0x22] @ ''b'' @ [CHR 0x22]
       @ '':'' @ [CHR 0x22] @ ''}'' @ [CHR 0x22] @ ''}}'') empty_json) = Some False
   \<and> construct jf (''{'' @ [CHR 0x22] @ ''a'' @ [CHR 0x22] @ '':1x}'') empty_json
       = Some (True, [(''a'', NUint 1)])
   \<and> construct jf (''x'' @ [CHR 0x22] @ ''a'' @ [CHR 0x22] @ '':1}'') empty_json
       = Some (True, [(''a'', NUint 1)])
   \<and> map_option fst (construct jf (''{'' @ [CHR 0x22] @ ''a'' @ [CHR 0x22] @ '':{'' @ [CHR 0x22] @ ''b''
       @ [CHR 0x22] @ '':{}}'') empty_json) = Some True
   \<and> construct jf ''[1e5]'' empty_json = None \<and> construct jf ''[[1]'' empty_json = None
   \<and> construct jf ''{?}'' (True, []) = Some (True, [])"
  by (intro conjI; simp add: json_eval exponent_value_def)

section \<open>Concrete inputs\<close>

definition sample_members :: members where
  "sample_members = [(''a'', NArray True [NUint 1, NNull]), (''b'', NString ''x'')]"

theorem json_roundtrip_witness:
  "\<forall>jf. construct jf (to_json jf (True, sample_members)) empty_json = Some (True, sample_members)"
proof
  fix jf
  have "CHR ''a'' < CHR ''b''" by (simp add: less_char_def)
  then have "plain (NObject True sample_members)"
    by (simp add: sample_members_def plain_char_def)
  then show "construct jf (to_json jf (True, sample_members)) empty_json = Some (True, sample_members)"
    by (rule json_roundtrip)
qed

theorem construct_well_formed_witness:
  "\<forall>jf. \<exists>m. construct jf (''{'' @ [CHR 0x22] @ ''a'' @ [CHR 0x22] @ '':1}'') (False, []) = Some (True, m)
     \<and> wf_members m \<and> all_valid m"
proof
  fix jf
  have c: "construct jf (''{'' @ [CHR 0x22] @ ''a'' @ [CHR 0x22] @ '':1}'') (False, []) = Some (True, [(''a'', NUint 1)])"
    by (simp add: json_eval)
  from construct_well_formed [OF c] c
  show "\<exists>m. construct jf (''{'' @ [CHR 0x22] @ ''a'' @ [CHR 0x22] @ '':1}'') (False, []) = Some (True, m)
      \<and> wf_members m \<and> all_valid m"
    by (simp add: wf_leaves)
qed

end
