(* ===== verification/ObjectStreams.thy ===== *)
theory ObjectStreams
  imports Standard "HOL-Library.Product_Lexorder"
begin

text \<open>
  The object protocol (\<open>protocol/object.h\<close>, \<open>protocol/object.cpp\<close>): clients open streams with a filter,
  a distributor answers with its objects.

  The classes are templates over the types of the objects. Here \<open>'o\<close> is the type of all objects of
  streams and \<open>'f\<close> that of all filter objects; the type of a filter object among those that the
  distributor was instantiated with is a number, its \<^emph>\<open>kind\<close>. The hash codes of the C++ types are the
  record \<open>hashes\<close>. An object on the wire is its memory together with the hash of its type; a receiver
  that interprets it as another type has undefined behaviour, which is \<open>None\<close>.
\<close>

section \<open>Enumerations\<close>

datatype stream_type = TypeUndefined | Snapshot | SnapshotAndLive | TypeMax

datatype stream_state =
  StateUndefined | Pending | Opened | Done | Failed | Closed | Removed | StateMax

datatype stream_issue =
  IssueUndefined | IssueEmpty | NotUniqueFilter | ReservedFilterObjectWithoutFilter
| UnknownFilterObjectHash | UnknownHash | BadVariantAccess | ExtraFilterObject | IssueMax

fun stream_type_to_string :: "stream_type \<Rightarrow> string" where
  "stream_type_to_string TypeUndefined = ''Undefined''"
| "stream_type_to_string Snapshot = ''Snapshot''"
| "stream_type_to_string SnapshotAndLive = ''Snapshot and live''"
| "stream_type_to_string TypeMax = ''Max''"

fun stream_state_to_string :: "stream_state \<Rightarrow> string" where
  "stream_state_to_string StateUndefined = ''Undefined''"
| "stream_state_to_string Pending = ''Pending''"
| "stream_state_to_string Opened = ''Opened''"
| "stream_state_to_string Done = ''Done''"
| "stream_state_to_string Failed = ''Failed''"
| "stream_state_to_string Closed = ''Closed''"
| "stream_state_to_string Removed = ''Removed''"
| "stream_state_to_string StateMax = ''Max''"

fun stream_issue_to_string :: "stream_issue \<Rightarrow> string" where
  "stream_issue_to_string IssueUndefined = ''Undefined''"
| "stream_issue_to_string IssueEmpty = ''Empty''"
| "stream_issue_to_string NotUniqueFilter = ''Not unique filter''"
| "stream_issue_to_string ReservedFilterObjectWithoutFilter = ''Reserved filter object without filter''"
| "stream_issue_to_string UnknownFilterObjectHash = ''Unknown filter object hash''"
| "stream_issue_to_string UnknownHash = ''Unknown hash''"
| "stream_issue_to_string BadVariantAccess = ''Bad variant access''"
| "stream_issue_to_string ExtraFilterObject = ''Extra filter object''"
| "stream_issue_to_string IssueMax = ''Max''"

section \<open>The class Data\<close>

record object_data = data_header +
  od_streamId :: u32
  od_hash :: u64

definition object_data_make :: "u32 \<Rightarrow> u64 \<Rightarrow> u64 \<Rightarrow> object_data" where
  "object_data_make streamId hash n =
     \<lparr>h_cipher = 2666999999, h_bufferSize = 16 + (8 + 4 + n), od_streamId = streamId, od_hash = hash\<rparr>"

text \<open>The constructor from a buffer; \<open>None\<close> is a read behind it.\<close>

definition object_data_of_buffer :: "data_header \<Rightarrow> byte list \<Rightarrow> object_data option" where
  "object_data_of_buffer h buf =
     (case (read_at buf 16 4, read_at buf 20 8) of
        (Some s, Some k) \<Rightarrow>
          Some \<lparr>h_cipher = h_cipher h, h_bufferSize = h_bufferSize h, od_streamId = word_of_bytes s,
                od_hash = word_of_bytes k\<rparr>
      | _ \<Rightarrow> None)"

text \<open>
  \<open>PackData\<close>: the four values and the object, copied from memory; the size of the rest is computed in
  \<open>size_t\<close>, and \<open>None\<close> is a read behind the object or a write behind the block.
\<close>

definition pack_data :: "(nat \<Rightarrow> byte list) \<Rightarrow> object_data \<Rightarrow> byte list \<Rightarrow> byte list option" where
  "pack_data malloc d mem =
     (let n = unat (h_bufferSize d - 24 - 4) in
      case write_at (malloc (unat (h_bufferSize d))) 0 (word_bytes 8 (h_cipher d)) of
        None \<Rightarrow> None
      | Some b \<Rightarrow>
      case write_at b 8 (word_bytes 8 (h_bufferSize d)) of
        None \<Rightarrow> None
      | Some b \<Rightarrow>
      case write_at b 16 (word_bytes 4 (od_streamId d)) of
        None \<Rightarrow> None
      | Some b \<Rightarrow>
      case write_at b 20 (word_bytes 8 (od_hash d)) of
        None \<Rightarrow> None
      | Some b \<Rightarrow>
      case read_at mem 0 n of
        None \<Rightarrow> None
      | Some bs \<Rightarrow> write_at b 28 bs)"

definition unpack_data :: "byte list \<Rightarrow> byte list" where
  "unpack_data buf = drop 28 buf"

definition object_data_valid :: "object_data \<Rightarrow> bool" where
  "object_data_valid d \<longleftrightarrow> h_cipher d = 2666999999 \<and> 28 \<le> h_bufferSize d"

definition object_data_to_string :: "object_data \<Rightarrow> string" where
  "object_data_to_string d =
     ''Object protocol:'' @ newline @ ''{'' @ newline @ tabs 1 @ ''cipher      : '' @ show_nat (unat (h_cipher d))
     @ newline @ tabs 1 @ ''buffer size : '' @ show_nat (unat (h_bufferSize d))
     @ newline @ tabs 1 @ ''hash        : '' @ show_nat (unat (od_hash d))
     @ newline @ tabs 1 @ ''stream id   : '' @ show_int (sint (od_streamId d)) @ newline @ ''}''"

section \<open>Filters and messages\<close>

record filter_base =
  fb_type :: stream_type
  fb_filterSize :: nat
  fb_streamObjectHash :: u64

record 'f stream_filter = filter_base +
  f_kind :: nat
  f_objects :: "'f list"

definition filter_make :: "nat \<Rightarrow> stream_type \<Rightarrow> 'f stream_filter" where
  "filter_make kind t =
     \<lparr>fb_type = t, fb_filterSize = 0, fb_streamObjectHash = 0, f_kind = kind, f_objects = []\<rparr>"

text \<open>The constructor from the base: the sizes are copied, the objects are not.\<close>

definition filter_of_base :: "nat \<Rightarrow> filter_base \<Rightarrow> 'f stream_filter" where
  "filter_of_base kind b =
     \<lparr>fb_type = fb_type b, fb_filterSize = fb_filterSize b, fb_streamObjectHash = fb_streamObjectHash b,
      f_kind = kind, f_objects = []\<rparr>"

definition filter_get_base :: "'f stream_filter \<Rightarrow> filter_base" where
  "filter_get_base f =
     \<lparr>fb_type = fb_type f, fb_filterSize = fb_filterSize f, fb_streamObjectHash = fb_streamObjectHash f\<rparr>"

definition filter_empty :: "'a filter_base_scheme \<Rightarrow> bool" where
  "filter_empty f \<longleftrightarrow> fb_filterSize f = 0"

definition filter_set_object :: "'f \<Rightarrow> 'f stream_filter \<Rightarrow> 'f stream_filter" where
  "filter_set_object x f = f\<lparr>f_objects := f_objects f @ [x], fb_filterSize := fb_filterSize f + 1\<rparr>"

definition set_object_internal :: "'f \<Rightarrow> 'f stream_filter \<Rightarrow> 'f stream_filter" where
  "set_object_internal x f = f\<lparr>f_objects := f_objects f @ [x]\<rparr>"

definition filter_base_to_string :: "'a filter_base_scheme \<Rightarrow> string" where
  "filter_base_to_string f =
     ''Filter base:'' @ newline @ ''{'' @ newline @ tabs 1 @ ''type               : '' @ stream_type_to_string (fb_type f)
     @ newline @ tabs 1 @ ''stream object hash : '' @ show_nat (unat (fb_streamObjectHash f))
     @ newline @ tabs 1 @ ''filter size        : '' @ show_nat (fb_filterSize f) @ newline @ ''}''"

datatype ('o, 'f) wire_object =
  Base filter_base | FilterObject 'f | Response stream_state stream_issue | StreamObject 'o

record ('o, 'f) wire_message =
  msg_streamId :: int
  msg_hash :: u64
  msg_object :: "('o, 'f) wire_object"

record hashes =
  hash_response :: u64
  hash_filter :: "nat \<Rightarrow> u64"
  hash_filter_object :: "nat \<Rightarrow> u64"

definition response_message :: "hashes \<Rightarrow> int \<Rightarrow> stream_state \<Rightarrow> stream_issue \<Rightarrow> ('o, 'f) wire_message" where
  "response_message H sid st iss =
     \<lparr>msg_streamId = sid, msg_hash = hash_response H, msg_object = Response st iss\<rparr>"

section \<open>The distributor\<close>

record stream_data =
  st_connection :: int
  st_type :: stream_type
  st_open :: bool
  st_objectHash :: u64
  st_filterSize :: nat

definition stream_data_to_string :: "stream_data \<Rightarrow> string" where
  "stream_data_to_string sd =
     ''Stream data:'' @ newline @ ''{'' @ newline @ tabs 1 @ ''connection         : '' @ show_int (st_connection sd)
     @ newline @ tabs 1 @ ''type               : '' @ stream_type_to_string (st_type sd)
     @ newline @ tabs 1 @ ''open               : '' @ (if st_open sd then ''true'' else ''false'')
     @ newline @ tabs 1 @ ''filter object hash : '' @ show_nat (unat (st_objectHash sd))
     @ newline @ tabs 1 @ ''filter size        : '' @ show_nat (st_filterSize sd) @ newline @ ''}''"

text \<open>
  The two multimaps are lists in the order of insertion; the code only uses the range of one key, in
  which a multimap keeps this order. \<open>d_sent\<close> has the messages given to the sockets.
\<close>

type_synonym stream_key = "int \<times> int"

record ('o, 'f) distributor =
  m_streamDataToIdAndConnection :: "(stream_key \<times> stream_data) list"
  m_filtersToStreamIdAndConnection :: "(stream_key \<times> 'f stream_filter) list"
  m_activeStreamsToObjectHash :: "(u64 \<times> stream_key) list"
  d_sent :: "(int \<times> ('o, 'f) wire_message) list"

definition distributor_new :: "('o, 'f) distributor" where
  "distributor_new =
     \<lparr>m_streamDataToIdAndConnection = [], m_filtersToStreamIdAndConnection = [],
      m_activeStreamsToObjectHash = [], d_sent = []\<rparr>"

definition d_send :: "int \<Rightarrow> ('o, 'f) wire_message \<Rightarrow> ('o, 'f) distributor \<Rightarrow> ('o, 'f) distributor" where
  "d_send c m d = d\<lparr>d_sent := d_sent d @ [(c, m)]\<rparr>"

text \<open>The entries of a key in a multimap.\<close>

definition range_of :: "'k \<Rightarrow> ('k \<times> 'v) list \<Rightarrow> 'v list" where
  "range_of k m = map snd (filter (\<lambda>e. fst e = k) m)"

definition remove_information :: "stream_key \<Rightarrow> ('o, 'f) distributor \<Rightarrow> ('o, 'f) distributor" where
  "remove_information k d =
     (case map_of (m_streamDataToIdAndConnection d) k of
        None \<Rightarrow> d
      | Some sd \<Rightarrow>
          d\<lparr>m_activeStreamsToObjectHash := remove1 (st_objectHash sd, k) (m_activeStreamsToObjectHash d),
            m_streamDataToIdAndConnection := filter (\<lambda>e. fst e \<noteq> k) (m_streamDataToIdAndConnection d),
            m_filtersToStreamIdAndConnection := filter (\<lambda>e. fst e \<noteq> k) (m_filtersToStreamIdAndConnection d)\<rparr>)"

definition send_failed :: "hashes \<Rightarrow> stream_key \<Rightarrow> stream_issue \<Rightarrow> ('o, 'f) distributor \<Rightarrow> ('o, 'f) distributor" where
  "send_failed H k iss d =
     (case map_of (m_streamDataToIdAndConnection d) k of
        None \<Rightarrow> d
      | Some sd \<Rightarrow> remove_information k (d_send (st_connection sd) (response_message H (fst k) Failed iss) d))"

text \<open>
  \<open>Open\<close>. The callback \<open>HandleNewStreamOpened\<close> of the application is an argument; the connection is
  that of the entry found before it.
\<close>

definition set_open :: "stream_key \<Rightarrow> ('o, 'f) distributor \<Rightarrow> ('o, 'f) distributor" where
  "set_open k d =
     d\<lparr>m_streamDataToIdAndConnection :=
         map (\<lambda>(k', sd). (k', if k' = k then sd\<lparr>st_open := True\<rparr> else sd)) (m_streamDataToIdAndConnection d)\<rparr>"

definition open_stream ::
  "hashes \<Rightarrow> (int \<Rightarrow> stream_data \<Rightarrow> ('o, 'f) distributor \<Rightarrow> ('o, 'f) distributor) \<Rightarrow> stream_key
    \<Rightarrow> ('o, 'f) distributor \<Rightarrow> ('o, 'f) distributor" where
  "open_stream H handle k d =
     (case map_of (m_streamDataToIdAndConnection d) k of
        None \<Rightarrow> d
      | Some sd \<Rightarrow>
          (let d = set_open k d;
               sd = sd\<lparr>st_open := True\<rparr>;
               c = st_connection sd;
               onlySnapshot = (st_type sd = Snapshot);
               d = (if \<not> onlySnapshot
                    then d\<lparr>m_activeStreamsToObjectHash := m_activeStreamsToObjectHash d @ [(st_objectHash sd, k)]\<rparr>
                    else d);
               d = d_send c (response_message H (fst k) Opened IssueEmpty) d;
               d = handle (fst k) sd d;
               d = d_send c (response_message H (fst k) Done IssueEmpty) d
           in if onlySnapshot
              then remove_information k (d_send c (response_message H (fst k) Closed IssueEmpty) d)
              else d))"

text \<open>\<open>SetObjectInternal\<close> on the first filter of the key that has the kind.\<close>

fun add_filter_object ::
  "stream_key \<Rightarrow> nat \<Rightarrow> 'f \<Rightarrow> (stream_key \<times> 'f stream_filter) list
    \<Rightarrow> ('f stream_filter \<times> (stream_key \<times> 'f stream_filter) list) option" where
  "add_filter_object k kind x [] = None"
| "add_filter_object k kind x ((k', f) # fs) =
     (if k' = k \<and> f_kind f = kind
      then Some (set_object_internal x f, (k', set_object_internal x f) # fs)
      else map_option (\<lambda>(g, gs). (g, (k', f) # gs)) (add_filter_object k kind x fs))"

text \<open>
  \<open>Collect<T>\<close>, for the type with number \<open>kind\<close>. The branch for one filter and that for several both take
  the first one of the type, or report an unknown hash.
\<close>

definition distributor_collect ::
  "hashes \<Rightarrow> (int \<Rightarrow> stream_data \<Rightarrow> ('o, 'f) distributor \<Rightarrow> ('o, 'f) distributor) \<Rightarrow> bool \<Rightarrow> nat \<Rightarrow> int
    \<Rightarrow> ('o, 'f) wire_message \<Rightarrow> ('o, 'f) distributor \<Rightarrow> ('o, 'f) distributor option" where
  "distributor_collect H handle running kind connection msg d =
     (if \<not> running then Some d
      else
        let k = (msg_streamId msg, connection) in
        if hash_filter H kind = msg_hash msg then
          (if k \<in> fst ` set (m_filtersToStreamIdAndConnection d)
           then Some (send_failed H k NotUniqueFilter d)
           else
             case msg_object msg of
               Base b \<Rightarrow>
                 (let d = d\<lparr>m_streamDataToIdAndConnection := ordered_emplace k
                              \<lparr>st_connection = connection, st_type = fb_type b, st_open = filter_empty b,
                               st_objectHash = fb_streamObjectHash b, st_filterSize = fb_filterSize b\<rparr>
                              (m_streamDataToIdAndConnection d),
                            m_filtersToStreamIdAndConnection :=
                              m_filtersToStreamIdAndConnection d @ [(k, filter_of_base kind b)]\<rparr>
                  in Some (case map_of (m_streamDataToIdAndConnection d) k of
                             Some sd \<Rightarrow> (if st_open sd then open_stream H handle k d else d)
                           | None \<Rightarrow> d))
             | _ \<Rightarrow> None)
        else if hash_filter_object H kind = msg_hash msg then
          (if k \<notin> fst ` set (m_filtersToStreamIdAndConnection d)
           then Some (send_failed H k ReservedFilterObjectWithoutFilter d)
           else if \<forall>f \<in> set (range_of k (m_filtersToStreamIdAndConnection d)). f_kind f \<noteq> kind
           then Some (send_failed H k UnknownFilterObjectHash d)
           else
             case msg_object msg of
               FilterObject x \<Rightarrow>
                 (case add_filter_object k kind x (m_filtersToStreamIdAndConnection d) of
                    None \<Rightarrow> None
                  | Some (f, fs) \<Rightarrow>
                      (let d = d\<lparr>m_filtersToStreamIdAndConnection := fs\<rparr>
                       in Some (if fb_filterSize f = length (f_objects f) then open_stream H handle k d
                                else if fb_filterSize f < length (f_objects f)
                                then send_failed H k ExtraFilterObject d
                                else d)))
             | _ \<Rightarrow> None)
        else Some (send_failed H k UnknownHash d))"

definition stream_external_action :: "stream_key \<Rightarrow> stream_state \<Rightarrow> ('o, 'f) distributor \<Rightarrow> ('o, 'f) distributor" where
  "stream_external_action k st d =
     (case st of
        Closed \<Rightarrow> (if map_of (m_streamDataToIdAndConnection d) k = None then d else remove_information k d)
      | _ \<Rightarrow> d)"

definition distributor_stop :: "hashes \<Rightarrow> ('o, 'f) distributor \<Rightarrow> ('o, 'f) distributor" where
  "distributor_stop H d =
     fold (\<lambda>(k, sd) d.
        if st_open sd
        then remove_information k (d_send (st_connection sd) (response_message H (fst k) Failed IssueEmpty) d)
        else d) (m_streamDataToIdAndConnection d) d"

text \<open>Whether one of the filters lets an object pass; the predicate is the application's.\<close>

definition passes :: "('f stream_filter \<Rightarrow> 'o \<Rightarrow> bool) \<Rightarrow> 'o \<Rightarrow> 'f stream_filter list \<Rightarrow> bool" where
  "passes predicate obj fs \<longleftrightarrow> (\<exists>f \<in> set fs. filter_empty f \<or> predicate f obj)"

definition send_object ::
  "('f stream_filter \<Rightarrow> 'o \<Rightarrow> bool) \<Rightarrow> int \<Rightarrow> stream_data \<Rightarrow> 'o \<Rightarrow> ('o, 'f) distributor \<Rightarrow> ('o, 'f) distributor" where
  "send_object predicate sid sd obj d =
     (if passes predicate obj (range_of (sid, st_connection sd) (m_filtersToStreamIdAndConnection d))
      then d_send (st_connection sd)
             \<lparr>msg_streamId = sid, msg_hash = st_objectHash sd, msg_object = StreamObject obj\<rparr> d
      else d)"

definition send_old_objects ::
  "('f stream_filter \<Rightarrow> 'o \<Rightarrow> bool) \<Rightarrow> int \<Rightarrow> stream_data \<Rightarrow> 'o list \<Rightarrow> ('o, 'f) distributor \<Rightarrow> ('o, 'f) distributor" where
  "send_old_objects predicate sid sd objs d = fold (send_object predicate sid sd) objs d"

definition send_new_object ::
  "u64 \<Rightarrow> ('f stream_filter \<Rightarrow> 'o \<Rightarrow> bool) \<Rightarrow> 'o \<Rightarrow> ('o, 'f) distributor \<Rightarrow> ('o, 'f) distributor" where
  "send_new_object hash predicate obj d =
     fold (\<lambda>k d.
        if passes predicate obj (range_of k (m_filtersToStreamIdAndConnection d))
        then (case map_of (m_streamDataToIdAndConnection d) k of
                Some sd \<Rightarrow> d_send (st_connection sd)
                  \<lparr>msg_streamId = fst k, msg_hash = st_objectHash sd, msg_object = StreamObject obj\<rparr> d
              | None \<Rightarrow> d)
        else d) (range_of hash (m_activeStreamsToObjectHash d)) d"

section \<open>The client\<close>

record 'f stream =
  s_id :: int
  s_connection :: int
  s_state :: stream_state
  s_snapshotDone :: bool
  s_filter :: "'f stream_filter"
  s_haveFilter :: bool

datatype 'o stream_event =
  EventOpened int | EventSnapshotDone int | EventFailed int | EventObject int 'o

text \<open>
  The streams of a client with one handler. \<open>c_objects\<close> has the streams that exist, \<open>m_streamToId\<close> the
  identifiers the handler knows; it holds pointers, so that an identifier without an existing stream
  is a dangling pointer. \<open>c_events\<close> has the callbacks, \<open>c_sent\<close> the messages given to the sockets.
\<close>

record ('o, 'f) client =
  m_streamCounter :: u32
  c_objects :: "(int \<times> 'f stream) list"
  m_streamToId :: "int list"
  c_events :: "'o stream_event list"
  c_sent :: "(int \<times> ('o, 'f) wire_message) list"

definition client_new :: "('o, 'f) client" where
  "client_new = \<lparr>m_streamCounter = 0, c_objects = [], m_streamToId = [], c_events = [], c_sent = []\<rparr>"

definition c_send :: "int \<Rightarrow> ('o, 'f) wire_message \<Rightarrow> ('o, 'f) client \<Rightarrow> ('o, 'f) client" where
  "c_send connection m c = c\<lparr>c_sent := c_sent c @ [(connection, m)]\<rparr>"

definition c_event :: "'o stream_event \<Rightarrow> ('o, 'f) client \<Rightarrow> ('o, 'f) client" where
  "c_event e c = c\<lparr>c_events := c_events c @ [e]\<rparr>"

definition set_stream :: "int \<Rightarrow> 'f stream \<Rightarrow> ('o, 'f) client \<Rightarrow> ('o, 'f) client" where
  "set_stream i s c = c\<lparr>c_objects := map (\<lambda>(j, t). (j, if j = i then s else t)) (c_objects c)\<rparr>"

text \<open>The constructor: the next number of the counter, and the entry of the handler, which is kept if it exists.\<close>

definition stream_create :: "nat \<Rightarrow> ('o, 'f) client \<Rightarrow> int \<times> ('o, 'f) client" where
  "stream_create kind c =
     (let i = sint (m_streamCounter c)
      in (i, c\<lparr>m_streamCounter := m_streamCounter c + 1,
               c_objects := (i, \<lparr>s_id = i, s_connection = 0, s_state = StateUndefined, s_snapshotDone = False,
                                 s_filter = filter_make kind TypeUndefined, s_haveFilter = False\<rparr>) # c_objects c,
               m_streamToId := (if i \<in> set (m_streamToId c) then m_streamToId c else i # m_streamToId c)\<rparr>))"

definition stream_set_connection :: "int \<Rightarrow> 'f stream \<Rightarrow> ('o, 'f) client \<Rightarrow> ('o, 'f) client" where
  "stream_set_connection connection s c = set_stream (s_id s) (s\<lparr>s_connection := connection\<rparr>) c"

definition stream_set_state :: "stream_state \<Rightarrow> 'f stream \<Rightarrow> 'f stream" where
  "stream_set_state st s = (if st = Done then s\<lparr>s_snapshotDone := True\<rparr> else s\<lparr>s_state := st\<rparr>)"

definition stream_empty :: "'f stream \<Rightarrow> bool" where
  "stream_empty s \<longleftrightarrow> s_connection s = 0"

definition stream_active :: "'f stream \<Rightarrow> bool" where
  "stream_active s \<longleftrightarrow> s_state s = Opened \<or> s_state s = Pending"

text \<open>
  \<open>Close\<close> sends the memory from \<open>m_state\<close> on as a response; the bytes behind the state, which the issue
  is made of, are the argument \<open>behind\<close>.
\<close>

definition stream_close :: "hashes \<Rightarrow> stream_issue \<Rightarrow> 'f stream \<Rightarrow> ('o, 'f) client \<Rightarrow> ('o, 'f) client" where
  "stream_close H behind s c =
     (if \<not> stream_active s then c
      else c_send (s_connection s) (response_message H (s_id s) Closed behind)
             (set_stream (s_id s) (s\<lparr>s_snapshotDone := False, s_state := Closed\<rparr>) c))"

definition stream_set_filter ::
  "hashes \<Rightarrow> stream_issue \<Rightarrow> u64 \<Rightarrow> 'f stream_filter \<Rightarrow> 'f stream \<Rightarrow> ('o, 'f) client \<Rightarrow> ('o, 'f) client" where
  "stream_set_filter H behind objectHash f s c =
     (let s = s\<lparr>s_snapshotDone := False, s_filter := f\<lparr>fb_streamObjectHash := objectHash\<rparr>, s_haveFilter := True\<rparr>;
          c = set_stream (s_id s) s c
      in if stream_active s then stream_close H behind s c else c)"

definition stream_open :: "hashes \<Rightarrow> 'f stream \<Rightarrow> ('o, 'f) client \<Rightarrow> bool \<times> ('o, 'f) client" where
  "stream_open H s c =
     (if stream_empty s then (False, c)
      else if stream_active s then (False, c)
      else if \<not> s_haveFilter s then (False, c)
      else
        (let kind = f_kind (s_filter s);
             c = set_stream (s_id s) (s\<lparr>s_state := Pending\<rparr>) c;
             c = c_send (s_connection s)
                   \<lparr>msg_streamId = s_id s, msg_hash = hash_filter H kind, msg_object = Base (filter_get_base (s_filter s))\<rparr> c
         in (True, fold (\<lambda>x. c_send (s_connection s)
                      \<lparr>msg_streamId = s_id s, msg_hash = hash_filter_object H kind, msg_object = FilterObject x\<rparr>)
                    (f_objects (s_filter s)) c)))"

definition stream_destroy :: "hashes \<Rightarrow> 'f stream \<Rightarrow> ('o, 'f) client \<Rightarrow> ('o, 'f) client" where
  "stream_destroy H s c =
     (let c' = c\<lparr>c_objects := filter (\<lambda>e. fst e \<noteq> s_id s) (c_objects c)\<rparr>
      in if s_state s = Failed \<or> s_state s = Closed \<or> s_state s = StateUndefined then c'
         else c_send (s_connection s) (response_message H (s_id s) Removed IssueEmpty)
                (c'\<lparr>m_streamToId := removeAll (s_id s) (m_streamToId c')\<rparr>))"

definition collect_stream_state :: "int \<Rightarrow> stream_state \<Rightarrow> ('o, 'f) client \<Rightarrow> ('o, 'f) client option" where
  "collect_stream_state i st c =
     (if i \<notin> set (m_streamToId c) then Some c
      else
        case map_of (c_objects c) i of
          None \<Rightarrow> None
        | Some s \<Rightarrow>
            (let c = set_stream i (stream_set_state st s) c
             in Some (case st of
                  Opened \<Rightarrow> c_event (EventOpened i) c
                | Done \<Rightarrow> c_event (EventSnapshotDone i) c
                | Failed \<Rightarrow> c_event (EventFailed i) c
                | _ \<Rightarrow> c)))"

definition handler_collect :: "bool \<Rightarrow> u64 \<Rightarrow> ('o, 'f) wire_message \<Rightarrow> ('o, 'f) client \<Rightarrow> ('o, 'f) client option" where
  "handler_collect running objectHash msg c =
     (if \<not> running then Some c
      else if msg_streamId msg \<notin> set (m_streamToId c) then Some c
      else if msg_hash msg = objectHash
      then (case msg_object msg of
              StreamObject x \<Rightarrow> Some (c_event (EventObject (msg_streamId msg) x) c)
            | _ \<Rightarrow> None)
      else Some c)"

section \<open>Applications\<close>

text \<open>
  What an application adds, as the one of the integration test does: the distributor answers a new stream
  with the objects \<open>objs\<close> it has of the type asked for, and both sides choose by the hash who collects a
  message.
\<close>

definition handle_new_stream_opened ::
  "('f stream_filter \<Rightarrow> 'o \<Rightarrow> bool) \<Rightarrow> (u64 \<Rightarrow> 'o list) \<Rightarrow> int \<Rightarrow> stream_data
    \<Rightarrow> ('o, 'f) distributor \<Rightarrow> ('o, 'f) distributor" where
  "handle_new_stream_opened predicate objs sid sd d =
     send_old_objects predicate sid sd (objs (st_objectHash sd)) d"

definition distributor_receive ::
  "hashes \<Rightarrow> (int \<Rightarrow> stream_data \<Rightarrow> ('o, 'f) distributor \<Rightarrow> ('o, 'f) distributor) \<Rightarrow> nat \<Rightarrow> int
    \<Rightarrow> ('o, 'f) wire_message \<Rightarrow> ('o, 'f) distributor \<Rightarrow> ('o, 'f) distributor option" where
  "distributor_receive H handle kind connection msg d =
     (if msg_hash msg = hash_response H
      then (case msg_object msg of
              Response st iss \<Rightarrow> Some (stream_external_action (msg_streamId msg, connection) st d)
            | _ \<Rightarrow> None)
      else if msg_hash msg = hash_filter H kind \<or> msg_hash msg = hash_filter_object H kind
      then distributor_collect H handle True kind connection msg d
      else Some d)"

definition client_receive :: "hashes \<Rightarrow> u64 \<Rightarrow> ('o, 'f) wire_message \<Rightarrow> ('o, 'f) client \<Rightarrow> ('o, 'f) client option" where
  "client_receive H objectHash msg c =
     (if msg_hash msg = hash_response H
      then (case msg_object msg of
              Response st iss \<Rightarrow> collect_stream_state (msg_streamId msg) st c
            | _ \<Rightarrow> None)
      else if msg_hash msg = objectHash then handler_collect True objectHash msg c
      else Some c)"

end
