(* ===== verification/ObjectStreamsSpec.thy ===== *)
theory ObjectStreamsSpec
  imports ObjectStreams StandardSpec
begin

text \<open>
  A distributor keeps three tables; they implement one map from the pairs of a stream and a connection
  to the filter received so far. The theorems are about this map: what a message does to it and what
  is answered, who gets a new object, and a whole session between a client and a distributor.
\<close>

section \<open>The tables of a distributor\<close>

abbreviation streams_of :: "('o, 'f) distributor \<Rightarrow> stream_key \<Rightarrow> stream_data option" where
  "streams_of d \<equiv> map_of (m_streamDataToIdAndConnection d)"

text \<open>The abstraction: the subscriptions.\<close>

definition subscriptions :: "('o, 'f) distributor \<Rightarrow> stream_key \<Rightarrow> 'f stream_filter option" where
  "subscriptions d = map_of (m_filtersToStreamIdAndConnection d)"

definition complete :: "'f stream_filter \<Rightarrow> bool" where
  "complete f \<longleftrightarrow> length (f_objects f) = fb_filterSize f"

definition entry_ok :: "stream_key \<Rightarrow> stream_data \<Rightarrow> 'f stream_filter \<Rightarrow> bool" where
  "entry_ok k sd f \<longleftrightarrow>
     st_connection sd = snd k \<and> st_type sd = fb_type f \<and> st_objectHash sd = fb_streamObjectHash f
     \<and> st_filterSize sd = fb_filterSize f \<and> (st_open sd \<longleftrightarrow> complete f) \<and> (complete f \<longrightarrow> fb_type f \<noteq> Snapshot)
     \<and> length (f_objects f) \<le> fb_filterSize f"

definition key_ok :: "('o, 'f) distributor \<Rightarrow> stream_key \<Rightarrow> bool" where
  "key_ok d k \<longleftrightarrow>
     (case (streams_of d k, subscriptions d k) of
        (None, None) \<Rightarrow> \<forall>h. (h, k) \<notin> set (m_activeStreamsToObjectHash d)
      | (Some sd, Some f) \<Rightarrow>
          entry_ok k sd f \<and> (\<forall>h. (h, k) \<in> set (m_activeStreamsToObjectHash d) \<longleftrightarrow> h = st_objectHash sd \<and> st_open sd)
      | _ \<Rightarrow> False)"

definition dist_inv :: "('o, 'f) distributor \<Rightarrow> bool" where
  "dist_inv d \<longleftrightarrow>
     distinct (map fst (m_streamDataToIdAndConnection d)) \<and> distinct (map fst (m_filtersToStreamIdAndConnection d))
     \<and> distinct (m_activeStreamsToObjectHash d) \<and> (\<forall>k. key_ok d k)"

lemma dist_invD:
  assumes "dist_inv d"
  shows "distinct (map fst (m_streamDataToIdAndConnection d))"
    "distinct (map fst (m_filtersToStreamIdAndConnection d))"
    "distinct (m_activeStreamsToObjectHash d)" "key_ok d k"
  using assms unfolding dist_inv_def by blast+

lemma key_okE:
  assumes "key_ok d k"
  obtains (none) "streams_of d k = None" "subscriptions d k = None" "\<And>h. (h, k) \<notin> set (m_activeStreamsToObjectHash d)"
  | (entry) sd f where "streams_of d k = Some sd" "subscriptions d k = Some f" "entry_ok k sd f"
      "\<And>h. (h, k) \<in> set (m_activeStreamsToObjectHash d) \<longleftrightarrow> h = st_objectHash sd \<and> st_open sd"
  using assms by (auto simp: key_ok_def split: option.splits)

lemma key_ok_cong:
  "streams_of d k = streams_of e k \<Longrightarrow> subscriptions d k = subscriptions e k
    \<Longrightarrow> (\<And>h. (h, k) \<in> set (m_activeStreamsToObjectHash d) \<longleftrightarrow> (h, k) \<in> set (m_activeStreamsToObjectHash e))
    \<Longrightarrow> key_ok d k = key_ok e k"
  by (simp add: key_ok_def split: option.split)

lemma subscriptions_sent [simp]: "subscriptions (d\<lparr>d_sent := x\<rparr>) = subscriptions d"
  by (simp add: subscriptions_def)

lemma subscriptions_other [simp]:
  "subscriptions (d\<lparr>m_activeStreamsToObjectHash := a\<rparr>) = subscriptions d"
  "subscriptions (d\<lparr>m_streamDataToIdAndConnection := b\<rparr>) = subscriptions d"
  "subscriptions (d\<lparr>m_filtersToStreamIdAndConnection := fs\<rparr>) = map_of fs"
  by (simp_all add: subscriptions_def)

lemma inv_sent [simp]: "dist_inv (d\<lparr>d_sent := x\<rparr>) = dist_inv d"
proof -
  have "key_ok (d\<lparr>d_sent := x\<rparr>) k = key_ok d k" for k
    by (rule key_ok_cong) simp_all
  then show ?thesis by (simp add: dist_inv_def)
qed

lemma d_send_fields [simp]:
  "m_streamDataToIdAndConnection (d_send c m d) = m_streamDataToIdAndConnection d"
  "m_filtersToStreamIdAndConnection (d_send c m d) = m_filtersToStreamIdAndConnection d"
  "m_activeStreamsToObjectHash (d_send c m d) = m_activeStreamsToObjectHash d"
  "d_sent (d_send c m d) = d_sent d @ [(c, m)]" "subscriptions (d_send c m d) = subscriptions d"
  "dist_inv (d_send c m d) = dist_inv d"
  by (simp_all add: d_send_def)

lemma range_of_distinct:
  "distinct (map fst m) \<Longrightarrow> range_of k m = (case map_of m k of None \<Rightarrow> [] | Some v \<Rightarrow> [v])"
proof (induction m)
  case (Cons e m)
  have "filter (\<lambda>e. fst e = k) m = []" if "k \<notin> fst ` set m"
    using that by (auto simp: filter_empty_conv)
  then show ?case using Cons by (cases e) (auto simp: range_of_def)
qed (simp add: range_of_def)

lemma map_of_filter_key:
  "map_of (filter (\<lambda>e. fst e \<noteq> k) m) = (map_of m)(k := None)"
  by (induction m) (auto simp: fun_eq_iff)

lemma distinct_filter_keys: "distinct (map fst m) \<Longrightarrow> distinct (map fst (filter P m))"
  by (induction m) auto

section \<open>Removing a stream\<close>

lemma remove_entry:
  assumes "streams_of d k = Some sd" and "\<And>h. (h, k) \<in> set (m_activeStreamsToObjectHash d) \<Longrightarrow> h = st_objectHash sd"
    and "distinct (map fst (m_streamDataToIdAndConnection d))" "distinct (map fst (m_filtersToStreamIdAndConnection d))"
      "distinct (m_activeStreamsToObjectHash d)"
    and "\<And>j. j \<noteq> k \<Longrightarrow> key_ok d j"
  shows "subscriptions (remove_information k d) = (subscriptions d)(k := None)"
    "d_sent (remove_information k d) = d_sent d" "dist_inv (remove_information k d)"
proof -
  let ?r = "remove_information k d"
  have a: "set (m_activeStreamsToObjectHash ?r) = set (m_activeStreamsToObjectHash d) - UNIV \<times> {k}"
    using assms(1,2,5) by (auto simp: remove_information_def set_remove1_eq)
  have s: "streams_of ?r = (streams_of d)(k := None)"
    using assms(1) by (simp add: remove_information_def map_of_filter_key)
  show f: "subscriptions ?r = (subscriptions d)(k := None)"
    using assms(1) by (simp add: remove_information_def map_of_filter_key subscriptions_def)
  show "d_sent ?r = d_sent d"
    using assms(1) by (simp add: remove_information_def)
  have "key_ok ?r j" for j
  proof (cases "j = k")
    case True
    then show ?thesis using a s f by (auto simp: key_ok_def)
  next
    case False
    then have "key_ok ?r j = key_ok d j"
      using a s f by (intro key_ok_cong) auto
    then show ?thesis using assms(6) False by simp
  qed
  moreover have "distinct (map fst (m_streamDataToIdAndConnection ?r))"
    "distinct (map fst (m_filtersToStreamIdAndConnection ?r))" "distinct (m_activeStreamsToObjectHash ?r)"
    using assms(1,3-5) by (simp_all add: remove_information_def distinct_filter_keys)
  ultimately show "dist_inv ?r" by (simp add: dist_inv_def)
qed

lemma remove_views:
  assumes "dist_inv d"
  shows "subscriptions (remove_information k d) = (subscriptions d)(k := None)"
    "d_sent (remove_information k d) = d_sent d" "dist_inv (remove_information k d)"
proof -
  note inv = dist_invD [OF assms]
  have "subscriptions (remove_information k d) = (subscriptions d)(k := None)
    \<and> d_sent (remove_information k d) = d_sent d \<and> dist_inv (remove_information k d)"
    using inv(4) [of k]
  proof (cases rule: key_okE)
    case none
    then show ?thesis
      using assms by (auto simp: remove_information_def fun_eq_iff)
  next
    case (entry sd f)
    have a: "h = st_objectHash sd" if "(h, k) \<in> set (m_activeStreamsToObjectHash d)" for h
      using entry(4) that by simp
    show ?thesis
      using remove_entry [OF entry(1) a inv(1-3) inv(4)] by simp
  qed
  then show "subscriptions (remove_information k d) = (subscriptions d)(k := None)"
    "d_sent (remove_information k d) = d_sent d" "dist_inv (remove_information k d)"
    by auto
qed

lemma failed_views:
  assumes "dist_inv d"
  shows "subscriptions (send_failed H k iss d) = (subscriptions d)(k := None)" "dist_inv (send_failed H k iss d)"
    "d_sent (send_failed H k iss d) = d_sent d
      @ (if subscriptions d k = None then [] else [(snd k, response_message H (fst k) Failed iss)])"
proof -
  have "subscriptions (send_failed H k iss d) = (subscriptions d)(k := None) \<and> dist_inv (send_failed H k iss d)
    \<and> d_sent (send_failed H k iss d) = d_sent d
      @ (if subscriptions d k = None then [] else [(snd k, response_message H (fst k) Failed iss)])"
  using dist_invD(4) [OF assms, of k]
  proof (cases rule: key_okE)
    case none
    then show ?thesis using assms by (auto simp: send_failed_def fun_eq_iff)
  next
    case (entry sd f)
    then show ?thesis
      using assms by (simp add: send_failed_def remove_views entry_ok_def)
  qed
  then show "subscriptions (send_failed H k iss d) = (subscriptions d)(k := None)" "dist_inv (send_failed H k iss d)"
    "d_sent (send_failed H k iss d) = d_sent d
      @ (if subscriptions d k = None then [] else [(snd k, response_message H (fst k) Failed iss)])"
    by auto
qed

section \<open>Opening a stream\<close>

text \<open>
  The contract of the callback \<open>HandleNewStreamOpened\<close>: it may send objects, chosen by the stream and
  the filters the distributor knows, and changes nothing else.
\<close>

locale opened_callback =
  fixes handle :: "int \<Rightarrow> stream_data \<Rightarrow> ('o, 'f) distributor \<Rightarrow> ('o, 'f) distributor"
    and told :: "int \<Rightarrow> stream_data \<Rightarrow> (stream_key \<Rightarrow> 'f stream_filter option) \<Rightarrow> (int \<times> ('o, 'f) wire_message) list"
  assumes only_sends:
    "distinct (map fst (m_filtersToStreamIdAndConnection d))
      \<Longrightarrow> handle i sd d = d\<lparr>d_sent := d_sent d @ told i sd (subscriptions d)\<rparr>"

lemma distinct_one: "distinct (map fst m) \<Longrightarrow> (k, v) \<in> set m \<longleftrightarrow> map_of m k = Some v"
  by (simp add: map_of_eq_Some_iff)

lemma old_objects_told:
  assumes "distinct (map fst (m_filtersToStreamIdAndConnection d))"
  shows "send_old_objects predicate i sd objs d
    = d\<lparr>d_sent := d_sent d @ map (\<lambda>x. (st_connection sd,
          \<lparr>msg_streamId = i, msg_hash = st_objectHash sd, msg_object = StreamObject x\<rparr>))
        (case subscriptions d (i, st_connection sd) of
           None \<Rightarrow> [] | Some f \<Rightarrow> filter (\<lambda>x. filter_empty f \<or> predicate f x) objs)\<rparr>"
proof -
  have "send_old_objects predicate i sd objs (d\<lparr>d_sent := ms\<rparr>)
      = d\<lparr>d_sent := ms @ map (\<lambda>x. (st_connection sd,
          \<lparr>msg_streamId = i, msg_hash = st_objectHash sd, msg_object = StreamObject x\<rparr>))
        (case subscriptions d (i, st_connection sd) of
           None \<Rightarrow> [] | Some f \<Rightarrow> filter (\<lambda>x. filter_empty f \<or> predicate f x) objs)\<rparr>" for ms
    unfolding send_old_objects_def
  proof (induction objs arbitrary: ms)
    case Nil
    then show ?case by (simp split: option.split)
  next
    case (Cons x objs)
    show ?case
      using Cons.IH [of ms] Cons.IH [of "ms @ [(st_connection sd,
          \<lparr>msg_streamId = i, msg_hash = st_objectHash sd, msg_object = StreamObject x\<rparr>)]"]
      by (simp add: send_object_def passes_def range_of_distinct [OF assms] d_send_def subscriptions_def
          split: option.split)
  qed
  from this [of "d_sent d"] show ?thesis by simp
qed

text \<open>The objects an application tells a new stream.\<close>

definition told_objects ::
  "('f stream_filter \<Rightarrow> 'o \<Rightarrow> bool) \<Rightarrow> (u64 \<Rightarrow> 'o list) \<Rightarrow> int \<Rightarrow> stream_data \<Rightarrow> (stream_key \<Rightarrow> 'f stream_filter option)
    \<Rightarrow> (int \<times> ('o, 'f) wire_message) list" where
  "told_objects predicate objs i sd subs =
     map (\<lambda>x. (st_connection sd, \<lparr>msg_streamId = i, msg_hash = st_objectHash sd, msg_object = StreamObject x\<rparr>))
       (case subs (i, st_connection sd) of
          None \<Rightarrow> []
        | Some f \<Rightarrow> filter (\<lambda>x. filter_empty f \<or> predicate f x) (objs (st_objectHash sd)))"

interpretation old_objects: opened_callback "handle_new_stream_opened predicate objs" "told_objects predicate objs"
  for predicate objs
  by unfold_locales (simp add: handle_new_stream_opened_def told_objects_def old_objects_told)

text \<open>The state in which \<open>Open\<close> is called: all is well but for the new stream, whose filter is complete.\<close>

definition about_to_open :: "('o, 'f) distributor \<Rightarrow> stream_key \<Rightarrow> stream_data \<Rightarrow> 'f stream_filter \<Rightarrow> bool" where
  "about_to_open d k sd f \<longleftrightarrow>
     distinct (map fst (m_streamDataToIdAndConnection d)) \<and> distinct (map fst (m_filtersToStreamIdAndConnection d))
     \<and> distinct (m_activeStreamsToObjectHash d) \<and> (\<forall>j. j \<noteq> k \<longrightarrow> key_ok d j)
     \<and> streams_of d k = Some sd \<and> subscriptions d k = Some f \<and> (\<forall>h. (h, k) \<notin> set (m_activeStreamsToObjectHash d))
     \<and> complete f \<and> st_connection sd = snd k \<and> st_type sd = fb_type f \<and> st_objectHash sd = fb_streamObjectHash f
     \<and> st_filterSize sd = fb_filterSize f"

lemma set_open_views:
  "subscriptions (set_open k d) = subscriptions d" "d_sent (set_open k d) = d_sent d"
  "m_activeStreamsToObjectHash (set_open k d) = m_activeStreamsToObjectHash d"
  "m_filtersToStreamIdAndConnection (set_open k d) = m_filtersToStreamIdAndConnection d"
  "map fst (m_streamDataToIdAndConnection (set_open k d)) = map fst (m_streamDataToIdAndConnection d)"
  "streams_of (set_open k d) = (streams_of d)(k := map_option (\<lambda>sd. sd\<lparr>st_open := True\<rparr>) (streams_of d k))"
proof -
  have "map_of (map (\<lambda>(k', sd). (k', if k' = k then g sd else sd)) m) = (map_of m)(k := map_option g (map_of m k))"
    for g :: "'c \<Rightarrow> 'c" and m :: "(stream_key \<times> 'c) list"
    by (induction m) (auto simp: fun_eq_iff)
  then show "streams_of (set_open k d) = (streams_of d)(k := map_option (\<lambda>sd. sd\<lparr>st_open := True\<rparr>) (streams_of d k))"
    by (simp add: set_open_def)
  show "map fst (m_streamDataToIdAndConnection (set_open k d)) = map fst (m_streamDataToIdAndConnection d)"
    by (simp add: set_open_def comp_def case_prod_beta)
qed (simp_all add: set_open_def subscriptions_def)

text \<open>The data of an open stream, and what a client is told when its stream opens.\<close>

definition opened_data :: "stream_key \<Rightarrow> 'f stream_filter \<Rightarrow> stream_data" where
  "opened_data k f =
     \<lparr>st_connection = snd k, st_type = fb_type f, st_open = True, st_objectHash = fb_streamObjectHash f,
      st_filterSize = fb_filterSize f\<rparr>"

lemma about_to_open_data: "about_to_open d k sd f \<Longrightarrow> sd\<lparr>st_open := True\<rparr> = opened_data k f"
  by (simp add: about_to_open_def opened_data_def)

definition opening_answers :: "hashes \<Rightarrow> stream_key \<Rightarrow> bool \<Rightarrow> (int \<times> ('o, 'f) wire_message) list \<Rightarrow> (int \<times> ('o, 'f) wire_message) list" where
  "opening_answers H k snapshot ms =
     [(snd k, response_message H (fst k) Opened IssueEmpty)] @ ms
     @ [(snd k, response_message H (fst k) Done IssueEmpty)]
     @ (if snapshot then [(snd k, response_message H (fst k) Closed IssueEmpty)] else [])"

context opened_callback begin

lemma open_views:
  assumes "about_to_open d k sd f"
  shows "dist_inv (open_stream H handle k d)"
    "subscriptions (open_stream H handle k d) = (subscriptions d)(k := if fb_type f = Snapshot then None else Some f)"
    "d_sent (open_stream H handle k d) = d_sent d
      @ opening_answers H k (fb_type f = Snapshot) (told (fst k) (opened_data k f) (subscriptions d))"
proof -
  note o = assms [unfolded about_to_open_def]
  let ?sd = "sd\<lparr>st_open := True\<rparr>"
  let ?d = "d_send (snd k) (response_message H (fst k) Opened IssueEmpty) (set_open k d)"
  let ?ms = "told (fst k) ?sd (subscriptions d)"
  have od: "opened_data k f = ?sd" using about_to_open_data [OF assms] by simp
  have dist: "distinct (map fst (m_filtersToStreamIdAndConnection d))" using o by simp
  have "dist_inv (open_stream H handle k d)
    \<and> subscriptions (open_stream H handle k d) = (subscriptions d)(k := if fb_type f = Snapshot then None else Some f)
    \<and> d_sent (open_stream H handle k d) = d_sent d @ opening_answers H k (fb_type f = Snapshot) ?ms"
  proof (cases "fb_type f = Snapshot")
    case False
    let ?e = "(set_open k d)\<lparr>m_activeStreamsToObjectHash := m_activeStreamsToObjectHash d @ [(st_objectHash sd, k)]\<rparr>"
    have s: "subscriptions ?e = subscriptions d"
      using set_open_views(1) [of k d] by (simp add: subscriptions_def)
    have e: "open_stream H handle k d
        = ?e\<lparr>d_sent := d_sent d @ opening_answers H k False ?ms\<rparr>"
      using o False
      by (simp add: open_stream_def only_sends set_open_views s d_send_def opening_answers_def Let_def)
    have "key_ok ?e j" for j
    proof (cases "j = k")
      case True
      then show ?thesis
        using o False by (simp add: key_ok_def s set_open_views entry_ok_def complete_def)
    next
      case ne: False
      then have "key_ok ?e j = key_ok d j"
        by (intro key_ok_cong) (auto simp: s set_open_views)
      then show ?thesis using o ne by simp
    qed
    then have "dist_inv ?e"
      using o by (simp add: dist_inv_def set_open_views)
    then show ?thesis
      using o False by (simp add: e set_open_views fun_upd_idem)
  next
    case True
    let ?ds = "d_sent d @ opening_answers H k True ?ms"
    let ?e = "(set_open k d)\<lparr>d_sent := ?ds\<rparr>"
    have e: "open_stream H handle k d = remove_information k ?e"
      using o True
      by (simp add: open_stream_def only_sends set_open_views d_send_def opening_answers_def Let_def)
    have j: "key_ok ?e j" if "j \<noteq> k" for j
    proof -
      have "key_ok ?e j = key_ok d j"
        using that by (intro key_ok_cong) (simp_all add: set_open_views)
      then show ?thesis using o that by simp
    qed
    have "streams_of ?e k = Some ?sd"
      using o by (simp add: set_open_views)
    from remove_entry [OF this _ _ _ _ j] show ?thesis
      using o True by (simp add: e set_open_views)
  qed
  then show "dist_inv (open_stream H handle k d)"
    "subscriptions (open_stream H handle k d) = (subscriptions d)(k := if fb_type f = Snapshot then None else Some f)"
    "d_sent (open_stream H handle k d) = d_sent d @ opening_answers H k (fb_type f = Snapshot) (told (fst k) (opened_data k f) (subscriptions d))"
    unfolding od by auto
qed


end

section \<open>Subscriptions\<close>

text \<open>What a distributor does with the subscription of one stream: the map it implements.\<close>

datatype 'f input = NewFilter nat filter_base | NewObject nat 'f | Unknown | ClosedByClient

datatype 'f outcome = Silent | Opens "'f stream_filter" | Fails stream_issue

definition after_opening :: "'f stream_filter \<Rightarrow> 'f stream_filter option" where
  "after_opening f = (if fb_type f = Snapshot then None else Some f)"

fun subscription_step :: "'f input \<Rightarrow> 'f stream_filter option \<Rightarrow> 'f stream_filter option \<times> 'f outcome" where
  "subscription_step (NewFilter kind b) None =
     (let f = filter_of_base kind b
      in if fb_filterSize b = 0 then (after_opening f, Opens f) else (Some f, Silent))"
| "subscription_step (NewFilter kind b) (Some f) = (None, Fails NotUniqueFilter)"
| "subscription_step (NewObject kind x) None = (None, Silent)"
| "subscription_step (NewObject kind x) (Some f) =
     (if f_kind f \<noteq> kind then (None, Fails UnknownFilterObjectHash)
      else let g = set_object_internal x f
           in if complete g then (after_opening g, Opens g)
              else if complete f then (None, Fails ExtraFilterObject)
              else (Some g, Silent))"
| "subscription_step Unknown s = (None, if s = None then Silent else Fails UnknownHash)"
| "subscription_step ClosedByClient s = (None, Silent)"

text \<open>The input that a message is for \<open>Collect<T>\<close>.\<close>

fun input_of :: "hashes \<Rightarrow> nat \<Rightarrow> ('o, 'f) wire_message \<Rightarrow> 'f input" where
  "input_of H kind m =
     (if hash_filter H kind = msg_hash m
      then (case msg_object m of Base b \<Rightarrow> NewFilter kind b | _ \<Rightarrow> Unknown)
      else if hash_filter_object H kind = msg_hash m
      then (case msg_object m of FilterObject x \<Rightarrow> NewObject kind x | _ \<Rightarrow> Unknown)
      else Unknown)"

text \<open>A message whose object is what its hash says.\<close>

definition typed_message :: "hashes \<Rightarrow> nat \<Rightarrow> ('o, 'f) wire_message \<Rightarrow> bool" where
  "typed_message H kind m \<longleftrightarrow>
     (hash_filter H kind = msg_hash m \<longrightarrow> (\<exists>b. msg_object m = Base b))
     \<and> (hash_filter_object H kind = msg_hash m \<and> hash_filter H kind \<noteq> msg_hash m \<longrightarrow> (\<exists>x. msg_object m = FilterObject x))"

lemma add_filter_object_first:
  assumes "map_of fs k = Some f" and "distinct (map fst fs)"
  shows "f_kind f = kind \<Longrightarrow> \<exists>gs. add_filter_object k kind x fs = Some (set_object_internal x f, gs)
      \<and> map fst gs = map fst fs \<and> map_of gs = (map_of fs)(k \<mapsto> set_object_internal x f)"
  using assms
proof (induction fs)
  case (Cons e fs)
  obtain k' f' where e: "e = (k', f')" by fastforce
  show ?case
  proof (cases "k' = k")
    case True
    then show ?thesis using Cons.prems by (auto simp: e fun_eq_iff)
  next
    case False
    then have "map_of fs k = Some f" "distinct (map fst fs)"
      using Cons.prems by (auto simp: e)
    then obtain gs where "add_filter_object k kind x fs = Some (set_object_internal x f, gs)"
      "map fst gs = map fst fs" "map_of gs = (map_of fs)(k \<mapsto> set_object_internal x f)"
      using Cons.IH Cons.prems(1) by blast
    then show ?thesis using False by (auto simp: e fun_eq_iff)
  qed
qed simp

lemma sub_keys: "k \<in> fst ` set (m_filtersToStreamIdAndConnection d) \<longleftrightarrow> subscriptions d k \<noteq> None"
  by (simp add: subscriptions_def map_of_eq_None_iff)

lemma fresh_emplace:
  "map_of m k = None \<Longrightarrow> map_of (ordered_emplace k v m) = (map_of m)(k \<mapsto> v)"
  by (induction k v m rule: ordered_emplace.induct) (auto simp: fun_eq_iff)

lemma distinct_fresh_emplace:
  "map_of m k = None \<Longrightarrow> distinct (map fst m) \<Longrightarrow> distinct (map fst (ordered_emplace k v m))"
proof (induction k v m rule: ordered_emplace.induct)
  case (2 k v k' v' xs)
  have "k' \<notin> fst ` set (ordered_emplace k v xs)" if "k \<noteq> k'"
    using 2(3) that by auto
  then show ?case using 2 by (auto simp: map_of_eq_None_iff split: if_splits)
qed simp

text \<open>The messages of an outcome; those of the callback are \<open>told\<close>, of the subscriptions with the new one.\<close>

fun outcome_answers ::
  "hashes \<Rightarrow> (int \<Rightarrow> stream_data \<Rightarrow> (stream_key \<Rightarrow> 'f stream_filter option) \<Rightarrow> (int \<times> ('o, 'f) wire_message) list)
    \<Rightarrow> stream_key \<Rightarrow> (stream_key \<Rightarrow> 'f stream_filter option) \<Rightarrow> 'f outcome \<Rightarrow> (int \<times> ('o, 'f) wire_message) list" where
  "outcome_answers H told k subs Silent = []"
| "outcome_answers H told k subs (Opens f) =
     opening_answers H k (fb_type f = Snapshot) (told (fst k) (opened_data k f) (subs(k \<mapsto> f)))"
| "outcome_answers H told k subs (Fails iss) = [(snd k, response_message H (fst k) Failed iss)]"

definition implements_step ::
  "hashes \<Rightarrow> (int \<Rightarrow> stream_data \<Rightarrow> (stream_key \<Rightarrow> 'f stream_filter option) \<Rightarrow> (int \<times> ('o, 'f) wire_message) list)
    \<Rightarrow> stream_key \<Rightarrow> 'f input \<Rightarrow> ('o, 'f) distributor \<Rightarrow> ('o, 'f) distributor \<Rightarrow> bool" where
  "implements_step H told k inp d d' \<longleftrightarrow>
     dist_inv d' \<and> subscriptions d' = (subscriptions d)(k := fst (subscription_step inp (subscriptions d k)))
     \<and> d_sent d' = d_sent d @ outcome_answers H told k (subscriptions d) (snd (subscription_step inp (subscriptions d k)))"

lemma complete_of_base: "complete (filter_of_base kind b) \<longleftrightarrow> fb_filterSize b = 0"
  by (auto simp: complete_def filter_of_base_def)

lemma filter_of_base_fields [simp]:
  "fb_type (filter_of_base kind b) = fb_type b" "fb_filterSize (filter_of_base kind b) = fb_filterSize b"
  "fb_streamObjectHash (filter_of_base kind b) = fb_streamObjectHash b" "f_objects (filter_of_base kind b) = []"
  "f_kind (filter_of_base kind b) = kind"
  by (simp_all add: filter_of_base_def)

lemma set_object_internal_fields [simp]:
  "fb_type (set_object_internal x f) = fb_type f" "fb_filterSize (set_object_internal x f) = fb_filterSize f"
  "fb_streamObjectHash (set_object_internal x f) = fb_streamObjectHash f"
  "f_objects (set_object_internal x f) = f_objects f @ [x]" "f_kind (set_object_internal x f) = f_kind f"
  by (simp_all add: set_object_internal_def)

text \<open>A new entry in the two tables, before the stream opens.\<close>

definition add_entry :: "stream_key \<Rightarrow> nat \<Rightarrow> filter_base \<Rightarrow> ('o, 'f) distributor \<Rightarrow> ('o, 'f) distributor" where
  "add_entry k kind b d =
     d\<lparr>m_streamDataToIdAndConnection := ordered_emplace k
         \<lparr>st_connection = snd k, st_type = fb_type b, st_open = filter_empty b,
          st_objectHash = fb_streamObjectHash b, st_filterSize = fb_filterSize b\<rparr> (m_streamDataToIdAndConnection d),
       m_filtersToStreamIdAndConnection := m_filtersToStreamIdAndConnection d @ [(k, filter_of_base kind b)]\<rparr>"

lemma add_entry_views:
  assumes "dist_inv d" and "subscriptions d k = None"
  shows "subscriptions (add_entry k kind b d) = (subscriptions d)(k \<mapsto> filter_of_base kind b)"
    "d_sent (add_entry k kind b d) = d_sent d"
    "streams_of (add_entry k kind b d) k = Some \<lparr>st_connection = snd k, st_type = fb_type b, st_open = filter_empty b,
          st_objectHash = fb_streamObjectHash b, st_filterSize = fb_filterSize b\<rparr>"
    "fb_filterSize b = 0 \<Longrightarrow> \<exists>sd. about_to_open (add_entry k kind b d) k sd (filter_of_base kind b)"
    "fb_filterSize b \<noteq> 0 \<Longrightarrow> dist_inv (add_entry k kind b d)"
proof -
  note inv = dist_invD [OF assms(1)]
  let ?sd = "\<lparr>st_connection = snd k, st_type = fb_type b, st_open = filter_empty b,
          st_objectHash = fb_streamObjectHash b, st_filterSize = fb_filterSize b\<rparr>"
  have n: "streams_of d k = None" "\<And>h. (h, k) \<notin> set (m_activeStreamsToObjectHash d)"
    using key_okE [OF inv(4) [of k]] assms(2) by (metis option.distinct(1))+
  have F: "map_of (m_filtersToStreamIdAndConnection d) k = None"
    using assms(2) by (simp add: subscriptions_def)
  then have "map_of (m_filtersToStreamIdAndConnection d @ [(k, filter_of_base kind b)])
      = (subscriptions d)(k \<mapsto> filter_of_base kind b)"
    by (auto simp: subscriptions_def map_add_def fun_eq_iff split: option.split)
  then show f: "subscriptions (add_entry k kind b d) = (subscriptions d)(k \<mapsto> filter_of_base kind b)"
    by (simp add: add_entry_def)
  show "d_sent (add_entry k kind b d) = d_sent d" by (simp add: add_entry_def)
  have s: "streams_of (add_entry k kind b d) = (streams_of d)(k \<mapsto> ?sd)"
    by (simp add: add_entry_def fresh_emplace [OF n(1)])
  then show "streams_of (add_entry k kind b d) k = Some ?sd" by simp
  have a: "m_activeStreamsToObjectHash (add_entry k kind b d) = m_activeStreamsToObjectHash d"
    by (simp add: add_entry_def)
  have j: "key_ok (add_entry k kind b d) j" if "j \<noteq> k" for j
  proof -
    have "key_ok (add_entry k kind b d) j = key_ok d j"
      using that by (intro key_ok_cong) (simp_all add: f s a)
    then show ?thesis using inv(4) by simp
  qed
  have dist: "distinct (map fst (m_streamDataToIdAndConnection (add_entry k kind b d)))"
    "distinct (map fst (m_filtersToStreamIdAndConnection (add_entry k kind b d)))"
    "distinct (m_activeStreamsToObjectHash (add_entry k kind b d))"
    using distinct_fresh_emplace [OF n(1) inv(1)] inv(2,3) F
    by (simp_all add: add_entry_def map_of_eq_None_iff)
  show "\<exists>sd. about_to_open (add_entry k kind b d) k sd (filter_of_base kind b)" if "fb_filterSize b = 0"
    using dist j n(2) s f that by (simp add: about_to_open_def a complete_of_base)
  show "dist_inv (add_entry k kind b d)" if "fb_filterSize b \<noteq> 0"
  proof -
    have "key_ok (add_entry k kind b d) k"
      using that n(2) by (simp add: key_ok_def s f a entry_ok_def complete_of_base filter_empty_def)
    then have "key_ok (add_entry k kind b d) i" for i using j by (cases "i = k") auto
    then show ?thesis using dist by (simp add: dist_inv_def)
  qed
qed

text \<open>The state after an object was added to the filter of a stream.\<close>

lemma add_object_views:
  assumes "dist_inv d" and "subscriptions d k = Some f" and "e = d\<lparr>m_filtersToStreamIdAndConnection := fs\<rparr>"
    and "map fst fs = map fst (m_filtersToStreamIdAndConnection d)"
    and "map_of fs = (subscriptions d)(k \<mapsto> set_object_internal x f)"
  shows "complete (set_object_internal x f) \<Longrightarrow> \<exists>sd. about_to_open e k sd (set_object_internal x f)"
    "\<not> complete f \<Longrightarrow> \<not> complete (set_object_internal x f) \<Longrightarrow> dist_inv e"
    "subscriptions (send_failed H k iss e) = (subscriptions d)(k := None)" "dist_inv (send_failed H k iss e)"
    "d_sent (send_failed H k iss e) = d_sent d @ [(snd k, response_message H (fst k) Failed iss)]"
proof -
  note inv = dist_invD [OF assms(1)]
  let ?g = "set_object_internal x f"
  obtain sd where sd: "streams_of d k = Some sd" "entry_ok k sd f"
    "\<And>h. (h, k) \<in> set (m_activeStreamsToObjectHash d) \<longleftrightarrow> h = st_objectHash sd \<and> st_open sd"
    using inv(4) [of k] assms(2) by (auto elim!: key_okE)
  have F: "subscriptions e = (subscriptions d)(k \<mapsto> ?g)" and S: "streams_of e = streams_of d"
    and A: "m_activeStreamsToObjectHash e = m_activeStreamsToObjectHash d" and O: "d_sent e = d_sent d"
    by (simp_all add: assms(3,5))
  have j: "key_ok e j" if "j \<noteq> k" for j
  proof -
    have "key_ok e j = key_ok d j"
      using that by (intro key_ok_cong) (simp_all add: F S A)
    then show ?thesis using inv(4) by simp
  qed
  have dist: "distinct (map fst (m_streamDataToIdAndConnection e))"
    "distinct (map fst (m_filtersToStreamIdAndConnection e))" "distinct (m_activeStreamsToObjectHash e)"
    using inv assms(4) by (simp_all add: assms(3))
  show "\<exists>sd. about_to_open e k sd ?g" if "complete ?g"
    using that sd dist j by (auto simp: about_to_open_def F S A entry_ok_def complete_def)
  show "dist_inv e" if "\<not> complete f" "\<not> complete ?g"
  proof -
    have "key_ok e k"
      using that sd by (simp add: key_ok_def F S A entry_ok_def complete_def)
    then have "key_ok e i" for i using j by (cases "i = k") auto
    then show ?thesis using dist by (simp add: dist_inv_def)
  qed
  let ?e = "d_send (snd k) (response_message H (fst k) Failed iss) e"
  have r: "send_failed H k iss e = remove_information k ?e"
    using sd by (simp add: send_failed_def S entry_ok_def)
  have "streams_of ?e k = Some sd" "\<And>h. (h, k) \<in> set (m_activeStreamsToObjectHash ?e) \<Longrightarrow> h = st_objectHash sd"
    using sd by (simp_all add: S A)
  moreover have "key_ok ?e i = key_ok e i" for i
    by (rule key_ok_cong) simp_all
  ultimately show "subscriptions (send_failed H k iss e) = (subscriptions d)(k := None)"
    "dist_inv (send_failed H k iss e)"
    "d_sent (send_failed H k iss e) = d_sent d @ [(snd k, response_message H (fst k) Failed iss)]"
    using remove_entry [of ?e k sd] dist j by (simp_all add: r F O)
qed

lemma failed_implements:
  assumes "dist_inv d" and "subscription_step inp (subscriptions d k)
      = (None, if subscriptions d k = None then Silent else Fails iss)"
  shows "implements_step H told k inp d (send_failed H k iss d)"
  using failed_views [OF assms(1), of H k iss] assms(2) by (simp add: implements_step_def)

context opened_callback begin

lemma opened_implements:
  assumes "about_to_open e k sd f" and "subscriptions e = (subscriptions d)(k \<mapsto> f)" and "d_sent e = d_sent d"
    and "subscription_step inp (subscriptions d k) = (after_opening f, Opens f)"
  shows "implements_step H told k inp d (open_stream H handle k e)"
  using open_views [OF assms(1), of H] assms(2-4)
  by (auto simp: implements_step_def after_opening_def)

lemma collect_implements:
  assumes "dist_inv d" and "k = (msg_streamId m, connection)" and "typed_message H kind m"
  shows "\<exists>d'. distributor_collect H handle True kind connection m d = Some d'
    \<and> implements_step H told k (input_of H kind m) d d'"
proof -
  note inv = dist_invD [OF assms(1)]
  have dist: "distinct (map fst (m_filtersToStreamIdAndConnection d))" using inv(2) .
  consider (filter) b where "hash_filter H kind = msg_hash m" "msg_object m = Base b"
    | (obj) x where "hash_filter H kind \<noteq> msg_hash m" "hash_filter_object H kind = msg_hash m" "msg_object m = FilterObject x"
    | (other) "hash_filter H kind \<noteq> msg_hash m" "hash_filter_object H kind \<noteq> msg_hash m"
    using assms(3) by (auto simp: typed_message_def)
  then show ?thesis
  proof cases
    case (filter b)
    show ?thesis
    proof (cases "subscriptions d k")
      case (Some f)
      then show ?thesis
        using filter failed_implements [OF assms(1), where inp = "NewFilter kind b" and k = k and iss = NotUniqueFilter and H = H]
        by (simp add: distributor_collect_def assms(2) sub_keys)
    next
      case None
      let ?e = "add_entry k kind b d"
      note v = add_entry_views [OF assms(1) None, where kind = kind and b = b]
      have c: "distributor_collect H handle True kind connection m d
          = Some (if fb_filterSize b = 0 then open_stream H handle k ?e else ?e)"
        using filter None v(3)
        by (simp add: distributor_collect_def sub_keys add_entry_def assms(2) filter_empty_def Let_def)
      show ?thesis
      proof (cases "fb_filterSize b = 0")
        case True
        then obtain sd where "about_to_open ?e k sd (filter_of_base kind b)" using v(4) by blast
        from opened_implements [OF this v(1,2), of "NewFilter kind b"] show ?thesis
          using c True filter None by (simp add: Let_def)
      next
        case False
        then show ?thesis
          using c v filter None by (simp add: implements_step_def)
      qed
    qed
  next
    case (obj x)
    show ?thesis
    proof (cases "subscriptions d k")
      case None
      then show ?thesis
        using obj failed_implements [OF assms(1), where inp = "NewObject kind x" and k = k and iss = ReservedFilterObjectWithoutFilter and H = H]
        by (simp add: distributor_collect_def assms(2) sub_keys)
    next
      case (Some f)
      have r: "range_of k (m_filtersToStreamIdAndConnection d) = [f]"
        using range_of_distinct [OF dist] Some by (simp add: subscriptions_def)
      show ?thesis
      proof (cases "f_kind f = kind")
        case False
        then show ?thesis
          using obj Some r failed_implements [OF assms(1), where inp = "NewObject kind x" and k = k and iss = UnknownFilterObjectHash and H = H]
          by (simp add: distributor_collect_def assms(2) sub_keys)
      next
        case True
        have m: "map_of (m_filtersToStreamIdAndConnection d) k = Some f"
          using Some by (simp add: subscriptions_def)
        obtain fs where fs: "add_filter_object k kind x (m_filtersToStreamIdAndConnection d)
            = Some (set_object_internal x f, fs)" "map fst fs = map fst (m_filtersToStreamIdAndConnection d)"
          "map_of fs = (subscriptions d)(k \<mapsto> set_object_internal x f)"
          using add_filter_object_first [OF m dist True, of x] unfolding subscriptions_def by blast
        let ?e = "d\<lparr>m_filtersToStreamIdAndConnection := fs\<rparr>"
        note v = add_object_views [OF assms(1) Some refl fs(2,3)]
        have l: "length (f_objects f) \<le> fb_filterSize f"
          using inv(4) [of k] Some by (auto simp: entry_ok_def elim!: key_okE)
        let ?g = "set_object_internal x f"
        have c: "distributor_collect H handle True kind connection m d
            = Some (if complete ?g then open_stream H handle k ?e
                    else if complete f then send_failed H k ExtraFilterObject ?e else ?e)"
          using obj Some True fs(1) r l
          by (auto simp: distributor_collect_def sub_keys assms(2) complete_def Let_def)
        consider (opens) "complete ?g" | (extra) "\<not> complete ?g" "complete f" | (more) "\<not> complete ?g" "\<not> complete f"
          by blast
        then show ?thesis
        proof cases
          case opens
          then obtain sd where "about_to_open ?e k sd ?g" using v(1) by blast
          from opened_implements [OF this, of d "NewObject kind x"] show ?thesis
            using c opens obj Some True by (simp add: fs(3) Let_def)
        next
          case extra
          then show ?thesis
            using c obj Some True v(3-5) by (simp add: implements_step_def)
        next
          case more
          then show ?thesis
            using c obj Some True v(2) by (simp add: implements_step_def fs(3))
        qed
      qed
    qed
  next
    case other
    then show ?thesis
      using failed_implements [OF assms(1), where inp = Unknown and k = k and iss = UnknownHash and H = H]
      by (simp add: distributor_collect_def assms(2))
  qed
qed

end

end
