(* ===== verification/ObjectSessions.thy ===== *)
theory ObjectSessions
  imports ObjectStreamsSpec
begin

text \<open>
  The object protocol as a whole: the states a distributor reaches, who gets a new object, a session
  between a client and a distributor from \<open>Open\<close> to the end of the snapshot, and what happens when a
  stream is closed or destroyed at the wrong moment.
\<close>

section \<open>The states of a distributor\<close>

inductive dist_reachable ::
  "hashes \<Rightarrow> ('f stream_filter \<Rightarrow> 'o \<Rightarrow> bool) \<Rightarrow> (u64 \<Rightarrow> 'o list) \<Rightarrow> ('o, 'f) distributor \<Rightarrow> bool"
  for H predicate objs where
  dr_new: "dist_reachable H predicate objs distributor_new"
| dr_collect: "dist_reachable H predicate objs d \<Longrightarrow> typed_message H kind m
    \<Longrightarrow> distributor_collect H (handle_new_stream_opened predicate objs) running kind connection m d = Some d'
    \<Longrightarrow> dist_reachable H predicate objs d'"
| dr_action: "dist_reachable H predicate objs d \<Longrightarrow> dist_reachable H predicate objs (stream_external_action k st d)"
| dr_object: "dist_reachable H predicate objs d \<Longrightarrow> dist_reachable H predicate objs (send_new_object hash predicate x d)"
| dr_stop: "dist_reachable H predicate objs d \<Longrightarrow> dist_reachable H predicate objs (distributor_stop H d)"

lemma fold_keeps: "(\<And>x s. P s \<Longrightarrow> P (f x s)) \<Longrightarrow> P s \<Longrightarrow> P (fold f xs s)"
  by (induction xs arbitrary: s) auto

lemma inv_new: "dist_inv distributor_new"
  by (simp add: dist_inv_def distributor_new_def key_ok_def subscriptions_def)

lemma inv_action: "dist_inv d \<Longrightarrow> dist_inv (stream_external_action k st d)"
  by (simp add: stream_external_action_def remove_views split: stream_state.split)

lemma inv_stop: "dist_inv d \<Longrightarrow> dist_inv (distributor_stop H d)"
  unfolding distributor_stop_def by (rule fold_keeps) (auto simp: remove_views)

lemma action_views:
  assumes "dist_inv d"
  shows "subscriptions (stream_external_action k Closed d) = (subscriptions d)(k := None)"
    "d_sent (stream_external_action k Closed d) = d_sent d"
    "st \<noteq> Closed \<Longrightarrow> stream_external_action k st d = d"
proof -
  have n: "subscriptions d k = None" if "streams_of d k = None"
    using dist_invD(4) [OF assms, of k] that by (cases rule: key_okE) simp_all
  show "subscriptions (stream_external_action k Closed d) = (subscriptions d)(k := None)"
    using n by (simp add: stream_external_action_def remove_views [OF assms] fun_upd_idem)
  show "d_sent (stream_external_action k Closed d) = d_sent d"
    by (simp add: stream_external_action_def remove_views [OF assms])
  show "st \<noteq> Closed \<Longrightarrow> stream_external_action k st d = d"
    by (cases st) (simp_all add: stream_external_action_def)
qed

section \<open>A new object\<close>

text \<open>The streams that want an object of a type: with a complete filter that lets it pass.\<close>

definition subscribed :: "('o, 'f) distributor \<Rightarrow> u64 \<Rightarrow> ('f stream_filter \<Rightarrow> 'o \<Rightarrow> bool) \<Rightarrow> 'o \<Rightarrow> stream_key \<Rightarrow> bool" where
  "subscribed d hash predicate x k \<longleftrightarrow>
     (case subscriptions d k of
        None \<Rightarrow> False
      | Some f \<Rightarrow> complete f \<and> fb_streamObjectHash f = hash \<and> (filter_empty f \<or> predicate f x))"

lemma active_iff:
  assumes "dist_inv d"
  shows "(h, k) \<in> set (m_activeStreamsToObjectHash d)
    \<longleftrightarrow> (\<exists>f. subscriptions d k = Some f \<and> complete f \<and> fb_streamObjectHash f = h)"
  using dist_invD(4) [OF assms, of k] by (cases rule: key_okE) (auto simp: entry_ok_def)

lemma set_range_of: "set (range_of k m) = {v. (k, v) \<in> set m}"
  by (force simp: range_of_def)

lemma distinct_range_of: "distinct m \<Longrightarrow> distinct (range_of k m)"
  by (auto simp: range_of_def distinct_map intro!: inj_onI)

lemma new_object_sent:
  assumes "dist_inv d"
  shows "send_new_object hash predicate x d = d\<lparr>d_sent := d_sent d @ map (\<lambda>k.
      (snd k, \<lparr>msg_streamId = fst k, msg_hash = hash, msg_object = StreamObject x\<rparr>))
    (filter (subscribed d hash predicate x) (range_of hash (m_activeStreamsToObjectHash d)))\<rparr>"
proof -
  let ?msg = "\<lambda>k. (snd k, \<lparr>msg_streamId = fst k, msg_hash = hash, msg_object = StreamObject x\<rparr>)"
  define turn where "turn = (\<lambda>k d. if passes predicate x (range_of k (m_filtersToStreamIdAndConnection d))
        then (case streams_of d k of
                Some sd \<Rightarrow> d_send (st_connection sd)
                  \<lparr>msg_streamId = fst k, msg_hash = st_objectHash sd, msg_object = StreamObject x\<rparr> d
              | None \<Rightarrow> d)
        else d)"
  have turn: "turn k (d\<lparr>d_sent := ms\<rparr>)
      = d\<lparr>d_sent := if subscribed d hash predicate x k then ms @ [?msg k] else ms\<rparr>"
    if "(hash, k) \<in> set (m_activeStreamsToObjectHash d)" for k ms
    using dist_invD(4) [OF assms, of k] that
  proof (cases rule: key_okE)
    case (entry sd f)
    then show ?thesis
      using that range_of_distinct [OF dist_invD(2) [OF assms], of k]
      by (auto simp: turn_def passes_def subscribed_def d_send_def entry_ok_def subscriptions_def)
  qed simp
  have "fold turn ks (d\<lparr>d_sent := ms\<rparr>)
      = d\<lparr>d_sent := ms @ map ?msg (filter (subscribed d hash predicate x) ks)\<rparr>"
    if "set ks \<subseteq> {k. (hash, k) \<in> set (m_activeStreamsToObjectHash d)}" for ks ms
    using that by (induction ks arbitrary: ms) (simp_all add: turn)
  from this [of "range_of hash (m_activeStreamsToObjectHash d)" "d_sent d"] show ?thesis
    by (simp add: send_new_object_def set_range_of turn_def)
qed

lemma dist_reachable_inv: "dist_reachable H predicate objs d \<Longrightarrow> dist_inv d"
proof (induction rule: dist_reachable.induct)
  case (dr_collect d kind m running connection d')
  then show ?case
    using old_objects.collect_implements [OF dr_collect.IH refl dr_collect.hyps(2), where connection = connection and predicate = predicate and objs = objs]
    by (cases running) (auto simp: implements_step_def distributor_collect_def)
next
  case (dr_object d hash x)
  then show ?case by (simp add: new_object_sent)
qed (simp_all add: inv_new inv_action inv_stop)

section \<open>The subscriptions\<close>

text \<open>
  C9: From every state a distributor reaches, \<open>Collect\<close> of a message of the types it knows returns, and what
  it does is the step of the subscriptions for this message: the filter of the stream is noted, completed,
  or dropped, the answers are those of the outcome (the stream opens, with the objects the application has
  for it, or fails with the issue of the error, or nothing is sent), no other stream changes and the three
  tables agree again. \<open>StreamExternalAction\<close> of a closed stream implements the step that drops it.
\<close>

theorem distributor_refines_subscriptions:
  assumes "dist_reachable H predicate objs d" and "typed_message H kind m"
  shows "\<exists>d'. distributor_collect H (handle_new_stream_opened predicate objs) True kind connection m d = Some d'
    \<and> implements_step H (told_objects predicate objs) (msg_streamId m, connection) (input_of H kind m) d d'
    \<and> implements_step H (told_objects predicate objs) k ClosedByClient d' (stream_external_action k Closed d')"
proof -
  obtain d' where d': "distributor_collect H (handle_new_stream_opened predicate objs) True kind connection m d = Some d'"
    "implements_step H (told_objects predicate objs) (msg_streamId m, connection) (input_of H kind m) d d'"
    using old_objects.collect_implements [OF dist_reachable_inv [OF assms(1)] refl assms(2),
        where connection = connection and predicate = predicate and objs = objs] by auto
  then have inv: "dist_inv d'" by (simp add: implements_step_def)
  have "implements_step H (told_objects predicate objs) k ClosedByClient d' (stream_external_action k Closed d')"
    using action_views(1,2) [OF inv, of k] inv_action [OF inv] by (simp add: implements_step_def)
  then show ?thesis using d' by blast
qed

definition sample_hashes :: hashes where
  "sample_hashes = \<lparr>hash_response = 1, hash_filter = (\<lambda>kind. of_nat (10 + kind)),
     hash_filter_object = (\<lambda>kind. of_nat (20 + kind))\<rparr>"

definition sample_filter_message :: "(nat, nat) wire_message" where
  "sample_filter_message =
     \<lparr>msg_streamId = 4, msg_hash = 12,
      msg_object = Base \<lparr>fb_type = SnapshotAndLive, fb_filterSize = 0, fb_streamObjectHash = 30\<rparr>\<rparr>"

lemma sample_message_typed: "typed_message sample_hashes 2 sample_filter_message"
  by (simp add: typed_message_def sample_hashes_def sample_filter_message_def)

theorem distributor_refines_subscriptions_witness:
  "\<exists>d'. distributor_collect sample_hashes (handle_new_stream_opened (\<lambda>f x. x = 5) (\<lambda>h. [5, 6])) True 2 9
        sample_filter_message distributor_new = Some d'
    \<and> implements_step sample_hashes (told_objects (\<lambda>f x. x = 5) (\<lambda>h. [5, 6]))
        (msg_streamId sample_filter_message, 9) (input_of sample_hashes 2 sample_filter_message) distributor_new d'
    \<and> implements_step sample_hashes (told_objects (\<lambda>f x. x = 5) (\<lambda>h. [5, 6]))
        (4, 9) ClosedByClient d' (stream_external_action (4, 9) Closed d')"
  by (rule distributor_refines_subscriptions [OF dr_new sample_message_typed])

text \<open>
  C11: A new object is sent exactly once to every stream that is open for its type with a filter that is empty
  or lets it pass, under the number of the stream and on its connection, and to nobody else; the
  distributor is otherwise unchanged.
\<close>

theorem new_object_reaches_subscribers:
  assumes "dist_reachable H predicate objs d"
  shows "\<exists>ks. distinct ks \<and> set ks = {k. subscribed d hash predicate x k}
    \<and> send_new_object hash predicate x d = d\<lparr>d_sent := d_sent d @ map (\<lambda>k.
        (snd k, \<lparr>msg_streamId = fst k, msg_hash = hash, msg_object = StreamObject x\<rparr>)) ks\<rparr>"
proof -
  have inv: "dist_inv d" by (rule dist_reachable_inv [OF assms])
  let ?ks = "filter (subscribed d hash predicate x) (range_of hash (m_activeStreamsToObjectHash d))"
  have "(hash, k) \<in> set (m_activeStreamsToObjectHash d)" if "subscribed d hash predicate x k" for k
    using that active_iff [OF inv] by (auto simp: subscribed_def split: option.splits)
  then have "set ?ks = {k. subscribed d hash predicate x k}"
    by (auto simp: set_range_of)
  moreover have "distinct ?ks"
    using distinct_range_of [OF dist_invD(3) [OF inv]] by simp
  ultimately show ?thesis using new_object_sent [OF inv] by blast
qed

definition sample_distributor :: "(nat, nat) distributor" where
  "sample_distributor = the (distributor_collect sample_hashes
     (handle_new_stream_opened (\<lambda>f x. x = 5) (\<lambda>h. [5, 6])) True 2 9 sample_filter_message distributor_new)"

lemma sample_dist_reachable: "dist_reachable sample_hashes (\<lambda>f x. x = 5) (\<lambda>h. [5, 6]) sample_distributor"
  unfolding sample_distributor_def
  by (rule dr_collect [OF dr_new sample_message_typed, of "\<lambda>f x. x = 5" "\<lambda>h. [5, 6]" True 9])
    (simp add: distributor_collect_def sample_filter_message_def sample_hashes_def distributor_new_def Let_def)

theorem new_object_reaches_subscribers_witness:
  "\<exists>ks. distinct ks \<and> set ks = {k. subscribed sample_distributor 30 (\<lambda>f x. x = 5) 5 k}
    \<and> send_new_object 30 (\<lambda>f x. x = 5) 5 sample_distributor
      = sample_distributor\<lparr>d_sent := d_sent sample_distributor @ map (\<lambda>k.
        (snd k, \<lparr>msg_streamId = fst k, msg_hash = 30, msg_object = StreamObject 5\<rparr>)) ks\<rparr>"
  by (rule new_object_reaches_subscribers [OF sample_dist_reachable])

section \<open>A session\<close>

fun deliver :: "('m \<Rightarrow> 's \<Rightarrow> 's option) \<Rightarrow> 'm list \<Rightarrow> 's \<Rightarrow> 's option" where
  "deliver f [] s = Some s"
| "deliver f (m # ms) s = (case f m s of None \<Rightarrow> None | Some s \<Rightarrow> deliver f ms s)"

lemma deliver_append [simp]:
  "deliver f (ms @ ns) s = (case deliver f ms s of None \<Rightarrow> None | Some s \<Rightarrow> deliver f ns s)"
  by (induction ms arbitrary: s) (auto split: option.split)

text \<open>The types of the messages of a stream have different hashes.\<close>

definition hashes_differ :: "hashes \<Rightarrow> nat \<Rightarrow> u64 \<Rightarrow> bool" where
  "hashes_differ H kind objectHash \<longleftrightarrow>
     hash_response H \<notin> {hash_filter H kind, hash_filter_object H kind, objectHash}
     \<and> hash_filter H kind \<noteq> hash_filter_object H kind"

definition base_message :: "hashes \<Rightarrow> 'f stream \<Rightarrow> ('o, 'f) wire_message" where
  "base_message H s =
     \<lparr>msg_streamId = s_id s, msg_hash = hash_filter H (f_kind (s_filter s)),
      msg_object = Base (filter_get_base (s_filter s))\<rparr>"

definition object_message :: "hashes \<Rightarrow> int \<Rightarrow> nat \<Rightarrow> 'f \<Rightarrow> ('o, 'f) wire_message" where
  "object_message H i kind x =
     \<lparr>msg_streamId = i, msg_hash = hash_filter_object H kind, msg_object = FilterObject x\<rparr>"

definition ready_stream :: "('o, 'f) client \<Rightarrow> 'f stream \<Rightarrow> bool" where
  "ready_stream c s \<longleftrightarrow>
     map_of (c_objects c) (s_id s) = Some s \<and> s_id s \<in> set (m_streamToId c) \<and> s_connection s \<noteq> 0
     \<and> \<not> stream_active s \<and> s_haveFilter s \<and> complete (s_filter s)"

lemma fold_c_send:
  "fold (\<lambda>x. c_send k (g x)) xs c = c\<lparr>c_sent := c_sent c @ map (\<lambda>x. (k, g x)) xs\<rparr>"
  by (induction xs arbitrary: c) (simp_all add: c_send_def)

lemma open_sends:
  assumes "ready_stream c s"
  shows "stream_open H s c = (True, (set_stream (s_id s) (s\<lparr>s_state := Pending\<rparr>) c)\<lparr>c_sent := c_sent c
    @ map (Pair (s_connection s)) (base_message H s # map (object_message H (s_id s) (f_kind (s_filter s)))
        (f_objects (s_filter s)))\<rparr>)"
  using assms unfolding ready_stream_def
  by (simp add: stream_open_def stream_empty_def fold_c_send c_send_def base_message_def object_message_def
      set_stream_def Let_def comp_def)

text \<open>The distributor gets the messages of \<open>Open\<close>.\<close>

definition opens_with ::
  "hashes \<Rightarrow> ('f stream_filter \<Rightarrow> 'o \<Rightarrow> bool) \<Rightarrow> (u64 \<Rightarrow> 'o list) \<Rightarrow> stream_key \<Rightarrow> 'f stream_filter
    \<Rightarrow> ('o, 'f) distributor \<Rightarrow> ('o, 'f) distributor \<Rightarrow> bool" where
  "opens_with H predicate objs k f d d' \<longleftrightarrow>
     dist_inv d' \<and> subscriptions d' = (subscriptions d)(k := after_opening f)
     \<and> d_sent d' = d_sent d
         @ outcome_answers H (told_objects predicate objs) k (subscriptions d) (Opens f)"

lemma receive_object:
  fixes d :: "('o, 'f) distributor"
  assumes "dist_inv d" and "subscriptions d (i, connection) = Some g" "f_kind g = kind" "hashes_differ H kind h"
    and "length (f_objects g) < fb_filterSize g"
  shows "\<exists>d'. distributor_receive H (handle_new_stream_opened predicate objs) kind connection (object_message H i kind x) d
      = Some d'
    \<and> (if complete (set_object_internal x g) then opens_with H predicate objs (i, connection) (set_object_internal x g) d d'
       else dist_inv d' \<and> subscriptions d' = (subscriptions d)((i, connection) \<mapsto> set_object_internal x g)
         \<and> d_sent d' = d_sent d)"
proof -
  have t: "typed_message H kind (object_message H i kind x :: ('o, 'f) wire_message)"
    using assms(4) by (simp add: typed_message_def object_message_def hashes_differ_def)
  have r: "distributor_receive H (handle_new_stream_opened predicate objs) kind connection (object_message H i kind x) d
      = distributor_collect H (handle_new_stream_opened predicate objs) True kind connection (object_message H i kind x) d"
    using assms(4) by (auto simp: distributor_receive_def object_message_def hashes_differ_def)
  have n: "\<not> complete g" using assms(5) by (simp add: complete_def)
  have i: "input_of H kind (object_message H i kind x :: ('o, 'f) wire_message) = NewObject kind x"
    using assms(4) by (simp add: object_message_def hashes_differ_def)
  have k: "(i, connection) = (msg_streamId (object_message H i kind x :: ('o, 'f) wire_message), connection)"
    by (simp add: object_message_def)
  from old_objects.collect_implements [OF assms(1) k t, of predicate objs]
  show ?thesis
    using assms(2,3) n by (auto simp: r i implements_step_def opens_with_def Let_def simp del: input_of.simps)
qed

lemma objects_arrive:
  assumes "dist_inv d" and "subscriptions d (i, connection) = Some g" "f_kind g = kind" "hashes_differ H kind h"
    and "length (f_objects g) + length xs = fb_filterSize g" "xs \<noteq> []"
  shows "\<exists>d'. deliver (distributor_receive H (handle_new_stream_opened predicate objs) kind connection)
        (map (object_message H i kind) xs) d = Some d'
    \<and> opens_with H predicate objs (i, connection) (g\<lparr>f_objects := f_objects g @ xs\<rparr>) d d'"
  using assms(1-3,5,6)
proof (induction xs arbitrary: d g)
  case (Cons x xs)
  let ?g = "set_object_internal x g"
  have l: "length (f_objects g) < fb_filterSize g" using Cons.prems by simp
  obtain e where e: "distributor_receive H (handle_new_stream_opened predicate objs) kind connection
      (object_message H i kind x) d = Some e"
    "if complete ?g then opens_with H predicate objs (i, connection) ?g d e
     else dist_inv e \<and> subscriptions e = (subscriptions d)((i, connection) \<mapsto> ?g) \<and> d_sent e = d_sent d"
    using receive_object [OF Cons.prems(1-3) assms(4) l] by blast
  have c: "complete ?g \<longleftrightarrow> xs = []" using Cons.prems(4) by (cases xs) (auto simp: complete_def)
  show ?case
  proof (cases "xs = []")
    case True
    then show ?thesis using e c by (simp add: set_object_internal_def)
  next
    case False
    then have "dist_inv e" "subscriptions e (i, connection) = Some ?g" using e c by simp_all
    from Cons.IH [OF this] Cons.prems False
    obtain d' where "deliver (distributor_receive H (handle_new_stream_opened predicate objs) kind connection)
        (map (object_message H i kind) xs) e = Some d'"
      "opens_with H predicate objs (i, connection) (?g\<lparr>f_objects := f_objects ?g @ xs\<rparr>) e d'" by auto
    then show ?thesis
      using e c False by (simp add: opens_with_def set_object_internal_def)
  qed
qed simp

lemma opening_arrives:
  fixes d :: "('o, 'f) distributor"
  assumes "dist_inv d" and "subscriptions d (s_id s, connection) = None" "hashes_differ H (f_kind (s_filter s)) h"
    and "complete (s_filter s)"
  shows "\<exists>d'. deliver (distributor_receive H (handle_new_stream_opened predicate objs) (f_kind (s_filter s)) connection)
        (base_message H s # map (object_message H (s_id s) (f_kind (s_filter s))) (f_objects (s_filter s))) d = Some d'
    \<and> opens_with H predicate objs (s_id s, connection) (s_filter s) d d'"
proof -
  let ?kind = "f_kind (s_filter s)" and ?k = "(s_id s, connection)"
  let ?b = "base_message H s :: ('o, 'f) wire_message"
  let ?f = "filter_of_base ?kind (filter_get_base (s_filter s)) :: 'f stream_filter"
  have t: "typed_message H ?kind ?b"
    using assms(3) by (simp add: typed_message_def base_message_def hashes_differ_def)
  have r: "distributor_receive H (handle_new_stream_opened predicate objs) ?kind connection ?b d
      = distributor_collect H (handle_new_stream_opened predicate objs) True ?kind connection ?b d"
    using assms(3) by (auto simp: distributor_receive_def base_message_def hashes_differ_def)
  have i: "input_of H ?kind ?b = NewFilter ?kind (filter_get_base (s_filter s))"
    by (simp add: base_message_def)
  have k: "?k = (msg_streamId ?b, connection)"
    by (simp add: base_message_def)
  have f: "?f\<lparr>f_objects := f_objects (s_filter s)\<rparr> = s_filter s"
    by (simp add: filter_of_base_def filter_get_base_def)
  have z: "fb_filterSize (filter_get_base (s_filter s)) = length (f_objects (s_filter s))"
    using assms(4) by (simp add: filter_get_base_def complete_def)
  obtain e where e: "distributor_receive H (handle_new_stream_opened predicate objs) ?kind connection ?b d = Some e"
    "implements_step H (told_objects predicate objs) ?k (NewFilter ?kind (filter_get_base (s_filter s))) d e"
    using old_objects.collect_implements [OF assms(1) k t, of predicate objs] by (auto simp: r i simp del: input_of.simps)
  show ?thesis
  proof (cases "f_objects (s_filter s) = []")
    case True
    then have "?f = s_filter s" using f by (simp add: filter_of_base_def)
    then show ?thesis using e True z assms(2) by (simp add: implements_step_def opens_with_def Let_def)
  next
    case False
    then have s: "dist_inv e" "subscriptions e = (subscriptions d)(?k \<mapsto> ?f)" "d_sent e = d_sent d"
      using e z assms(2) by (simp_all add: implements_step_def Let_def)
    then obtain d' where "deliver (distributor_receive H (handle_new_stream_opened predicate objs) ?kind connection)
        (map (object_message H (s_id s) ?kind) (f_objects (s_filter s))) e = Some d'"
      "opens_with H predicate objs ?k (?f\<lparr>f_objects := f_objects ?f @ f_objects (s_filter s)\<rparr>) e d'"
      using objects_arrive [OF s(1), of "s_id s" connection ?f ?kind H h "f_objects (s_filter s)" predicate objs]
        assms(3) z False by auto
    then show ?thesis using e(1) s f by (simp add: opens_with_def)
  qed
qed

text \<open>The client gets the answers.\<close>

fun state_events :: "int \<Rightarrow> stream_state \<Rightarrow> 'o stream_event list" where
  "state_events i Opened = [EventOpened i]"
| "state_events i Done = [EventSnapshotDone i]"
| "state_events i Failed = [EventFailed i]"
| "state_events i _ = []"

definition knows :: "('o, 'f) client \<Rightarrow> int \<Rightarrow> 'f stream \<Rightarrow> bool" where
  "knows c i s \<longleftrightarrow> map_of (c_objects c) i = Some s \<and> i \<in> set (m_streamToId c)"

lemma map_of_set_stream:
  "map_of (c_objects (set_stream i s c)) j = (if j = i then map_option (\<lambda>_. s) (map_of (c_objects c) i) else map_of (c_objects c) j)"
proof -
  have "map_of (map (\<lambda>(j, t). (j, if j = i then s else t)) xs) j = (if j = i then map_option (\<lambda>_. s) (map_of xs i) else map_of xs j)"
    for xs by (induction xs) auto
  then show ?thesis by (simp add: set_stream_def)
qed

lemma set_stream_fields [simp]:
  "m_streamToId (set_stream i s c) = m_streamToId c" "c_events (set_stream i s c) = c_events c"
  "c_sent (set_stream i s c) = c_sent c"
  by (simp_all add: set_stream_def)

lemma knows_set_stream: "knows c i t \<Longrightarrow> knows (set_stream i s c) i s"
  by (simp add: knows_def map_of_set_stream)

lemma knows_sent [simp]: "knows (c\<lparr>c_sent := x\<rparr>) i s = knows c i s" "knows (c\<lparr>c_events := y\<rparr>) i s = knows c i s"
  by (simp_all add: knows_def)

lemma response_arrives:
  assumes "knows c i s"
  shows "\<exists>c'. client_receive H h (response_message H i st iss) c = Some c' \<and> knows c' i (stream_set_state st s)
    \<and> c_events c' = c_events c @ state_events i st \<and> c_sent c' = c_sent c"
  using assms
  by (cases st) (auto simp: client_receive_def response_message_def collect_stream_state_def knows_def
      map_of_set_stream c_event_def)

lemma stream_objects_arrive:
  assumes "i \<in> set (m_streamToId c)" and "h \<noteq> hash_response H"
  shows "deliver (client_receive H h) (map (\<lambda>x. \<lparr>msg_streamId = i, msg_hash = h, msg_object = StreamObject x\<rparr>) xs) c
    = Some (c\<lparr>c_events := c_events c @ map (EventObject i) xs\<rparr>)"
  using assms(1)
proof (induction xs arbitrary: c)
  case (Cons x xs)
  then show ?case
    using assms(2) by (simp add: client_receive_def handler_collect_def c_event_def)
qed simp

text \<open>The answers to an opening, with the objects \<open>xs\<close>.\<close>

definition answers_to :: "hashes \<Rightarrow> int \<Rightarrow> u64 \<Rightarrow> bool \<Rightarrow> 'o list \<Rightarrow> ('o, 'f) wire_message list" where
  "answers_to H i h snapshot xs =
     [response_message H i Opened IssueEmpty]
     @ map (\<lambda>x. \<lparr>msg_streamId = i, msg_hash = h, msg_object = StreamObject x\<rparr>) xs
     @ [response_message H i Done IssueEmpty]
     @ (if snapshot then [response_message H i Closed IssueEmpty] else [])"

lemma answers_arrive:
  assumes "knows c i s" and "h \<noteq> hash_response H"
  shows "\<exists>c'. deliver (client_receive H h) (answers_to H i h snapshot xs) c = Some c'
    \<and> knows c' i (s\<lparr>s_state := if snapshot then Closed else Opened, s_snapshotDone := True\<rparr>)
    \<and> c_events c' = c_events c @ EventOpened i # map (EventObject i) xs @ [EventSnapshotDone i]"
proof -
  obtain c1 where c1: "client_receive H h (response_message H i Opened IssueEmpty) c = Some c1"
    "knows c1 i (stream_set_state Opened s)" "c_events c1 = c_events c @ [EventOpened i]"
    using response_arrives [OF assms(1), of H h Opened IssueEmpty] by auto
  let ?c2 = "c1\<lparr>c_events := c_events c1 @ map (EventObject i) xs\<rparr>"
  have "knows ?c2 i (stream_set_state Opened s)" using c1(2) by (simp add: knows_def)
  then obtain c3 where c3: "client_receive H h (response_message H i Done IssueEmpty) ?c2 = Some c3"
    "knows c3 i (stream_set_state Done (stream_set_state Opened s))" "c_events c3 = c_events ?c2 @ [EventSnapshotDone i]"
    using response_arrives [of ?c2 i _ H h Done IssueEmpty] by fastforce
  obtain c4 where c4: "client_receive H h (response_message H i Closed IssueEmpty) c3 = Some c4"
    "knows c4 i (stream_set_state Closed (stream_set_state Done (stream_set_state Opened s)))" "c_events c4 = c_events c3"
    using response_arrives [OF c3(2), of H h Closed IssueEmpty] by auto
  have o: "deliver (client_receive H h) (map (\<lambda>x. \<lparr>msg_streamId = i, msg_hash = h, msg_object = StreamObject x\<rparr>) xs) c1 = Some ?c2"
    by (rule stream_objects_arrive [OF _ assms(2)]) (use c1(2) in \<open>simp add: knows_def\<close>)
  have w: "s\<lparr>s_snapshotDone := True, s_state := Closed\<rparr> = s\<lparr>s_state := Closed, s_snapshotDone := True\<rparr>"
    by simp
  show ?thesis
    using c1 c3 c4 o w by (cases snapshot) (simp_all add: answers_to_def stream_set_state_def)
qed

lemma answers_of_opening:
  "outcome_answers H (told_objects predicate objs) (i, connection) subs (Opens f)
    = map (Pair connection) (answers_to H i (fb_streamObjectHash f) (fb_type f = Snapshot)
        (filter (\<lambda>x. filter_empty f \<or> predicate f x) (objs (fb_streamObjectHash f))))"
  by (simp add: opening_answers_def answers_to_def told_objects_def opened_data_def comp_def)

text \<open>
  C10: A whole session. A client opens a stream with a filter; when the distributor has got the messages of
  \<open>Open\<close> and the client the answers, the client was told that the stream is open, then the objects of its
  type that the distributor has and the filter lets pass, each once and in their order, then that the
  snapshot is done. A stream for snapshots is then closed on both sides; another one is open on both, the
  distributor knowing the filter just as the client set it.
\<close>

theorem stream_session:
  assumes "dist_reachable H predicate objs d" and "ready_stream c s" and "f = s_filter s"
    and "hashes_differ H (f_kind f) (fb_streamObjectHash f)" and "subscriptions d (s_id s, connection) = None"
  shows "\<exists>c' ms d' answers c''. stream_open H s c = (True, c')
    \<and> c_sent c' = c_sent c @ map (Pair (s_connection s)) ms
    \<and> deliver (distributor_receive H (handle_new_stream_opened predicate objs) (f_kind f) connection) ms d = Some d'
    \<and> d_sent d' = d_sent d @ map (Pair connection) answers
    \<and> deliver (client_receive H (fb_streamObjectHash f)) answers c' = Some c''
    \<and> c_events c'' = c_events c @ EventOpened (s_id s)
        # map (EventObject (s_id s)) (filter (\<lambda>x. filter_empty f \<or> predicate f x) (objs (fb_streamObjectHash f)))
        @ [EventSnapshotDone (s_id s)]
    \<and> map_of (c_objects c'') (s_id s)
        = Some (s\<lparr>s_state := if fb_type f = Snapshot then Closed else Opened, s_snapshotDone := True\<rparr>)
    \<and> subscriptions d' = (subscriptions d)((s_id s, connection) := if fb_type f = Snapshot then None else Some f)"
proof -
  let ?xs = "filter (\<lambda>x. filter_empty f \<or> predicate f x) (objs (fb_streamObjectHash f))"
  let ?ms = "base_message H s # map (object_message H (s_id s) (f_kind f)) (f_objects f)"
  let ?c' = "(set_stream (s_id s) (s\<lparr>s_state := Pending\<rparr>) c)\<lparr>c_sent := c_sent c @ map (Pair (s_connection s)) ?ms\<rparr>"
  have c': "stream_open H s c = (True, ?c')" "c_sent ?c' = c_sent c @ map (Pair (s_connection s)) ?ms"
    "c_events ?c' = c_events c" "knows ?c' (s_id s) (s\<lparr>s_state := Pending\<rparr>)"
    using open_sends [OF assms(2)] assms(2,3) by (simp_all add: ready_stream_def knows_def map_of_set_stream)
  have "complete (s_filter s)" using assms(2) by (simp add: ready_stream_def)
  then obtain d' where d': "deliver (distributor_receive H (handle_new_stream_opened predicate objs) (f_kind f) connection)
      ?ms d = Some d'" "opens_with H predicate objs (s_id s, connection) f d d'"
    using opening_arrives [OF dist_reachable_inv [OF assms(1)] assms(5)] assms(3,4) by blast
  obtain c'' where c'': "deliver (client_receive H (fb_streamObjectHash f))
      (answers_to H (s_id s) (fb_streamObjectHash f) (fb_type f = Snapshot) ?xs) ?c' = Some c''"
    "knows c'' (s_id s) (s\<lparr>s_state := if fb_type f = Snapshot then Closed else Opened, s_snapshotDone := True\<rparr>)"
    "c_events c'' = c_events c @ EventOpened (s_id s) # map (EventObject (s_id s)) ?xs @ [EventSnapshotDone (s_id s)]"
    using answers_arrive [OF c'(4), of "fb_streamObjectHash f" H "fb_type f = Snapshot" ?xs] assms(4) c'(3)
    by (auto simp: hashes_differ_def)
  have t: "d_sent d' = d_sent d @ map (Pair connection)
      (answers_to H (s_id s) (fb_streamObjectHash f) (fb_type f = Snapshot) ?xs)"
    "subscriptions d' = (subscriptions d)((s_id s, connection) := if fb_type f = Snapshot then None else Some f)"
    using d'(2) by (simp_all add: opens_with_def answers_of_opening after_opening_def del: outcome_answers.simps)
  show ?thesis
    by (intro exI conjI, rule c'(1), rule c'(2), rule d'(1), rule t(1), rule c''(1), rule c''(3))
      (use c''(2) t(2) in \<open>simp_all add: knows_def\<close>)
qed

text \<open>A stream prepared with the operations of the client.\<close>

definition sample_client :: "nat stream \<times> (nat, nat) client" where
  "sample_client =
     (let (i, c) = stream_create 2 client_new;
          c = stream_set_connection 3 (the (map_of (c_objects c) i)) c;
          f = filter_set_object 7 (filter_set_object 5 (filter_make 2 SnapshotAndLive));
          c = stream_set_filter sample_hashes IssueUndefined 30 f (the (map_of (c_objects c) i)) c
      in (the (map_of (c_objects c) i), c))"

lemmas client_defs =
  stream_create_def client_new_def stream_set_connection_def set_stream_def filter_set_object_def filter_make_def
  stream_set_filter_def stream_active_def Let_def

lemma sample_ready:
  "ready_stream (snd sample_client) (fst sample_client)" "s_id (fst sample_client) = 0"
  "fb_streamObjectHash (s_filter (fst sample_client)) = 30" "f_kind (s_filter (fst sample_client)) = 2"
  "fb_type (s_filter (fst sample_client)) = SnapshotAndLive"
  by (simp_all add: sample_client_def client_defs ready_stream_def complete_def)

lemma sample_hashes_differ: "hashes_differ sample_hashes 2 30"
  by (simp add: hashes_differ_def sample_hashes_def)

lemma none_subscribed: "subscriptions distributor_new k = None"
  by (simp add: subscriptions_def distributor_new_def)

theorem stream_session_witness:
  "\<exists>c' ms d' answers c''. stream_open sample_hashes (fst sample_client) (snd sample_client) = (True, c')
    \<and> deliver (distributor_receive sample_hashes (handle_new_stream_opened (\<lambda>f x. x \<in> set (f_objects f)) (\<lambda>h. [5, 6])) 2 9)
        ms distributor_new = Some d'
    \<and> deliver (client_receive sample_hashes 30) answers c' = Some c''
    \<and> c_sent c' = c_sent (snd sample_client) @ map (Pair (s_connection (fst sample_client))) ms
    \<and> d_sent d' = d_sent distributor_new @ map (Pair 9) answers
    \<and> map_of (c_objects c'') 0 = Some ((fst sample_client)\<lparr>s_state := Opened, s_snapshotDone := True\<rparr>)
    \<and> subscriptions d' (0, 9) = Some (s_filter (fst sample_client))"
  using stream_session [where H = sample_hashes and c = "snd sample_client" and s = "fst sample_client"
      and predicate = "\<lambda>f x. x \<in> set (f_objects f)" and objs = "\<lambda>h. [5, 6]" and connection = 9,
      OF dr_new sample_ready(1) refl, unfolded sample_ready(2-5), OF sample_hashes_differ none_subscribed]
  by (elim exE conjE) (intro exI conjI, assumption+, simp_all)

section \<open>Closing and destroying at the wrong moment\<close>

text \<open>
  A stream, other than a snapshot, that its client closes before the answers to its opening arrive
  ends with the two sides disagreeing (a snapshot is closed by both in any case): the distributor opens it and then drops it, and the answers, which arrive after the call of
  \<open>Close\<close>, set the state of the client's stream back to open, so that it waits for objects that
  nobody will send.
\<close>

theorem close_is_overtaken:
  assumes "dist_reachable H predicate objs d" and "ready_stream c s" and "f = s_filter s" "fb_type f \<noteq> Snapshot"
    and "hashes_differ H (f_kind f) (fb_streamObjectHash f)" and "subscriptions d (s_id s, connection) = None"
  shows "\<exists>c' c1 ms d' answers c''. stream_open H s c = (True, c')
    \<and> stream_close H behind (s\<lparr>s_state := Pending\<rparr>) c' = c1
    \<and> c_sent c1 = c_sent c @ map (Pair (s_connection s)) ms
    \<and> deliver (distributor_receive H (handle_new_stream_opened predicate objs) (f_kind f) connection) ms d = Some d'
    \<and> d_sent d' = d_sent d @ map (Pair connection) answers
    \<and> deliver (client_receive H (fb_streamObjectHash f)) answers c1 = Some c''
    \<and> map_of (c_objects c'') (s_id s) = Some (s\<lparr>s_state := Opened, s_snapshotDone := True\<rparr>)
    \<and> subscriptions d' = subscriptions d"
proof -
  let ?xs = "filter (\<lambda>x. filter_empty f \<or> predicate f x) (objs (fb_streamObjectHash f))"
  let ?ms = "base_message H s # map (object_message H (s_id s) (f_kind f)) (f_objects f)"
  let ?close = "response_message H (s_id s) Closed behind"
  let ?c' = "(set_stream (s_id s) (s\<lparr>s_state := Pending\<rparr>) c)\<lparr>c_sent := c_sent c @ map (Pair (s_connection s)) ?ms\<rparr>"
  let ?c1 = "stream_close H behind (s\<lparr>s_state := Pending\<rparr>) ?c'"
  have o: "stream_open H s c = (True, ?c')"
    using open_sends [OF assms(2)] assms(3) by simp
  have c1: "c_sent ?c1 = c_sent c @ map (Pair (s_connection s)) (?ms @ [?close])"
    by (simp add: stream_close_def stream_active_def c_send_def)
  have "knows c (s_id s) s" using assms(2) by (simp add: ready_stream_def knows_def)
  then have k1: "knows ?c1 (s_id s) (s\<lparr>s_snapshotDone := False, s_state := Closed\<rparr>)"
    using knows_set_stream [of ?c' "s_id s" "s\<lparr>s_state := Pending\<rparr>" "s\<lparr>s_snapshotDone := False, s_state := Closed\<rparr>"]
    by (simp add: stream_close_def stream_active_def c_send_def knows_set_stream)
  have "complete (s_filter s)" using assms(2) by (simp add: ready_stream_def)
  then obtain d' where d': "deliver (distributor_receive H (handle_new_stream_opened predicate objs) (f_kind f) connection)
      ?ms d = Some d'" "opens_with H predicate objs (s_id s, connection) f d d'"
    using opening_arrives [OF dist_reachable_inv [OF assms(1)] assms(6)] assms(3,5) by blast
  have inv: "dist_inv d'" using d'(2) by (simp add: opens_with_def)
  let ?d = "stream_external_action (s_id s, connection) Closed d'"
  have "distributor_receive H (handle_new_stream_opened predicate objs) (f_kind f) connection ?close d' = Some ?d"
    by (simp add: distributor_receive_def response_message_def)
  then have d: "deliver (distributor_receive H (handle_new_stream_opened predicate objs) (f_kind f) connection)
      (?ms @ [?close]) d = Some ?d"
    using d'(1) by (simp only: deliver_append) simp
  have t: "d_sent ?d = d_sent d @ map (Pair connection) (answers_to H (s_id s) (fb_streamObjectHash f) False ?xs)"
    "subscriptions ?d = subscriptions d"
    using d'(2) assms(4,6) action_views(1,2) [OF inv, of "(s_id s, connection)"]
    by (simp_all add: opens_with_def answers_of_opening fun_upd_idem del: outcome_answers.simps)
  obtain c'' where c'': "deliver (client_receive H (fb_streamObjectHash f))
      (answers_to H (s_id s) (fb_streamObjectHash f) False ?xs) ?c1 = Some c''"
    "knows c'' (s_id s) (s\<lparr>s_snapshotDone := False, s_state := Closed, s_state := Opened, s_snapshotDone := True\<rparr>)"
    using answers_arrive [OF k1, of "fb_streamObjectHash f" H False ?xs] assms(5) by (auto simp: hashes_differ_def)
  show ?thesis
    by (intro exI conjI, rule o, rule refl, rule c1, rule d, rule t(1), rule c''(1))
      (use c''(2) t(2) in \<open>simp_all add: knows_def\<close>)
qed

theorem close_is_overtaken_witness:
  "\<exists>c' c1 ms d' answers c''. stream_open sample_hashes (fst sample_client) (snd sample_client) = (True, c')
    \<and> stream_close sample_hashes IssueUndefined ((fst sample_client)\<lparr>s_state := Pending\<rparr>) c' = c1
    \<and> deliver (distributor_receive sample_hashes (handle_new_stream_opened (\<lambda>f x. x \<in> set (f_objects f)) (\<lambda>h. [5, 6])) 2 9)
        ms distributor_new = Some d'
    \<and> c_sent c1 = c_sent (snd sample_client) @ map (Pair (s_connection (fst sample_client))) ms
    \<and> d_sent d' = d_sent distributor_new @ map (Pair 9) answers
    \<and> deliver (client_receive sample_hashes 30) answers c1 = Some c''
    \<and> map_of (c_objects c'') 0 = Some ((fst sample_client)\<lparr>s_state := Opened, s_snapshotDone := True\<rparr>)
    \<and> subscriptions d' (0, 9) = None"
proof -
  have "SnapshotAndLive \<noteq> Snapshot" by simp
  from close_is_overtaken [where H = sample_hashes and c = "snd sample_client" and s = "fst sample_client"
      and predicate = "\<lambda>f x. x \<in> set (f_objects f)" and objs = "\<lambda>h. [5, 6]" and connection = 9 and behind = IssueUndefined,
      OF dr_new sample_ready(1) refl, unfolded sample_ready(2-5), OF this sample_hashes_differ none_subscribed]
  show ?thesis by (elim exE conjE) (intro exI conjI, assumption+, simp add: none_subscribed)
qed

text \<open>
  Destroying a stream that is open or waits for its opening does not end the subscription: the message
  that is sent has the state \<open>Removed\<close>, which the distributor ignores, so that it goes on sending
  objects to a stream that no longer exists.
\<close>

theorem destroyed_stream_stays_subscribed:
  assumes "stream_active s"
  shows "\<exists>m. c_sent (stream_destroy H s c) = c_sent c @ [(s_connection s, m)]
    \<and> (\<forall>handle kind connection d. distributor_receive H handle kind connection m d = Some d)
    \<and> s_id s \<notin> set (m_streamToId (stream_destroy H s c))"
  using assms
  by (auto simp: stream_active_def stream_destroy_def c_send_def distributor_receive_def response_message_def
      stream_external_action_def Let_def)

theorem destroyed_stream_stays_subscribed_witness:
  "\<exists>m. c_sent (stream_destroy sample_hashes ((fst sample_client)\<lparr>s_state := Opened\<rparr>) (snd sample_client))
      = c_sent (snd sample_client) @ [(3, m)]
    \<and> (\<forall>handle kind connection d. distributor_receive sample_hashes handle kind connection m d = Some d)"
  using destroyed_stream_stays_subscribed [of "(fst sample_client)\<lparr>s_state := Opened\<rparr>" sample_hashes "snd sample_client"]
  by (auto simp: stream_active_def sample_client_def client_defs)

text \<open>
  A stream that failed, was closed or was never opened stays in the handler when it is destroyed, which
  then holds a dangling pointer: the next state that arrives for it is written into freed memory.
\<close>

theorem destroyed_stream_dangles:
  assumes "s_state s \<in> {Failed, Closed, StateUndefined}" and "s_id s \<in> set (m_streamToId c)"
  shows "collect_stream_state (s_id s) st (stream_destroy H s c) = None"
proof -
  have "map_of (filter (\<lambda>e. fst e \<noteq> s_id s) (c_objects c)) (s_id s) = None"
    by (auto simp: map_of_eq_None_iff)
  then show ?thesis
    using assms by (auto simp: stream_destroy_def collect_stream_state_def Let_def)
qed

theorem destroyed_stream_dangles_witness:
  "collect_stream_state 0 Opened (stream_destroy sample_hashes (fst sample_client) (snd sample_client)) = None"
  using destroyed_stream_dangles [of "fst sample_client" "snd sample_client" Opened sample_hashes]
  by (simp add: sample_client_def client_defs)

section \<open>Objects on the wire\<close>

lemma write_next:
  "off = length pre \<Longrightarrow> length bs \<le> length rest
    \<Longrightarrow> write_at (pre @ rest) off bs = Some ((pre @ bs) @ drop (length bs) rest)"
  by (simp add: write_at_def)

text \<open>
  C38: An object packed for the wire is found again by the receiver: the header and the values read from the
  block are those of the sender, they are valid, and the memory behind them is that of the object.
\<close>

theorem object_data_roundtrip:
  assumes "28 + length mem < 2 ^ 64" and "\<And>n. length (malloc n) = n"
    and "d = object_data_make streamId hash (of_nat (length mem))"
  shows "\<exists>buf h. pack_data malloc d mem = Some buf \<and> length buf = unat (h_bufferSize d)
    \<and> header_of_buffer buf = Some h \<and> object_data_of_buffer h buf = Some d \<and> object_data_valid d
    \<and> unpack_data buf = mem"
proof -
  let ?a = "word_bytes 8 (h_cipher d)" and ?b = "word_bytes 8 (h_bufferSize d)"
    and ?c = "word_bytes 4 (od_streamId d)" and ?e = "word_bytes 8 (od_hash d)"
  have bs: "h_bufferSize d = of_nat (28 + length mem)"
    by (simp add: assms(3) object_data_make_def)
  then have n: "unat (h_bufferSize d) = 28 + length mem"
    using assms(1) by (simp only: unat_of_nat) (simp add: take_bit_eq_mod)
  have "h_bufferSize d - 24 - 4 = of_nat (length mem)" by (simp add: bs)
  then have m: "unat (h_bufferSize d - 24 - 4) = length mem"
    using assms(1) by (simp only: unat_of_nat) (simp add: take_bit_eq_mod)
  let ?m = "malloc (28 + length mem)"
  have l: "length ?m = 28 + length mem" by (rule assms(2))
  have w: "write_at ?m 0 ?a = Some ((([] :: byte list) @ ?a) @ drop 8 ?m)"
    using write_next [of 0 "[]" ?a ?m] l by simp
  have w2: "write_at ((([] :: byte list) @ ?a) @ drop 8 ?m) 8 ?b = Some ((?a @ ?b) @ drop 16 ?m)"
    using write_next [of 8 ?a ?b "drop 8 ?m"] l by simp
  have w3: "write_at ((?a @ ?b) @ drop 16 ?m) 16 ?c = Some ((?a @ ?b @ ?c) @ drop 20 ?m)"
    using write_next [of 16 "?a @ ?b" ?c "drop 16 ?m"] l by simp
  have w4: "write_at ((?a @ ?b @ ?c) @ drop 20 ?m) 20 ?e = Some ((?a @ ?b @ ?c @ ?e) @ drop 28 ?m)"
    using write_next [of 20 "?a @ ?b @ ?c" ?e "drop 20 ?m"] l by simp
  have w5: "write_at ((?a @ ?b @ ?c @ ?e) @ drop 28 ?m) 28 mem = Some (?a @ ?b @ ?c @ ?e @ mem)"
    using write_next [of 28 "?a @ ?b @ ?c @ ?e" mem "drop 28 ?m"] l by simp
  let ?buf = "?a @ ?b @ ?c @ ?e @ mem"
  have "pack_data malloc d mem = Some ?buf"
    unfolding pack_data_def n m Let_def by (simp only: w w2 w3 w4 option.case) (simp add: read_at_def w5 [simplified])
  moreover have "header_of_buffer ?buf = Some \<lparr>h_cipher = h_cipher d, h_bufferSize = h_bufferSize d\<rparr>"
    using read_at_pre [of ?a 8 0 "[]" "?b @ ?c @ ?e @ mem"] read_at_pre [of ?b 8 8 ?a "?c @ ?e @ mem"]
    by (simp add: header_of_buffer_def word_of_bytes_word_bytes)
  moreover have "object_data_of_buffer \<lparr>h_cipher = h_cipher d, h_bufferSize = h_bufferSize d\<rparr> ?buf = Some d"
    using read_at_pre [of ?c 4 16 "?a @ ?b" "?e @ mem"] read_at_pre [of ?e 8 20 "?a @ ?b @ ?c" mem]
    by (simp add: object_data_of_buffer_def word_of_bytes_word_bytes)
  moreover have "object_data_valid d"
    using n by (simp add: object_data_valid_def word_le_nat_alt) (simp add: assms(3) object_data_make_def)
  ultimately show ?thesis using n by (intro exI) (auto simp: unpack_data_def)
qed

theorem object_data_roundtrip_witness:
  "\<exists>buf h. pack_data (\<lambda>n. replicate n 0) (object_data_make 4 30 (of_nat (length [1, 2, 3]))) [1, 2, 3] = Some buf
    \<and> header_of_buffer buf = Some h
    \<and> object_data_of_buffer h buf = Some (object_data_make 4 30 (of_nat (length [1, 2, 3])))
    \<and> unpack_data buf = [1, 2, 3 :: byte]"
  using object_data_roundtrip [of "[1, 2, 3]" "\<lambda>n. replicate n 0", OF _ _ refl, of 4 30] by auto

end
