(* ===== verification/Locks.thy ===== *)
theory Locks
  imports Prelude
begin

text \<open>
  The locks of \<open>help/pthread.hpp\<close> that are built on atomics: \<open>AtomicLock\<close>, a flag, and \<open>AtomicRWLock\<close>, a
  counter of readers with an \<open>AtomicLock\<close> for the writer.

  The threads that use one lock are the positions of a list; an entry is where the thread stands in the
  code of the lock. Every function makes one atomic access of a thread; \<open>None\<close> is a thread that is
  blocked there, or that is not at such an access. The wake-ups only say when a blocked thread looks
  again and are left out, as are the memory orders: the accesses happen one after the other.
\<close>

section \<open>The lock\<close>

datatype phase =
  Idle | ReadWaits | ReadCounts | Reading | WriteWaits | Writing

record rw_lock =
  rw_count :: u32
  rw_flag :: bool
  rw_phases :: "phase list"

definition lock_new :: "nat \<Rightarrow> rw_lock" where
  "lock_new n = \<lparr>rw_count = 0, rw_flag = False, rw_phases = replicate n Idle\<rparr>"

definition go_to :: "nat \<Rightarrow> phase \<Rightarrow> rw_lock \<Rightarrow> rw_lock" where
  "go_to i p s = s\<lparr>rw_phases := (rw_phases s)[i := p]\<rparr>"

text \<open>\<open>TryLock\<close> of the flag: its value before, and the flag set. \<open>Lock\<close> repeats it until it is taken.\<close>

definition try_lock :: "rw_lock \<Rightarrow> bool \<times> rw_lock" where
  "try_lock s = (\<not> rw_flag s, s\<lparr>rw_flag := True\<rparr>)"

definition flag_lock :: "rw_lock \<Rightarrow> rw_lock option" where
  "flag_lock s = (case try_lock s of (taken, s) \<Rightarrow> if taken then Some s else None)"

definition flag_unlock :: "rw_lock \<Rightarrow> rw_lock" where
  "flag_unlock s = s\<lparr>rw_flag := False\<rparr>"

text \<open>
  \<open>ReadLock\<close>: the test of the flag, the wait, which returns when the flag is not set, and the count.
\<close>

definition read_lock :: "nat \<Rightarrow> rw_lock \<Rightarrow> rw_lock option" where
  "read_lock i s =
     (case rw_phases s ! i of
        Idle \<Rightarrow> Some (if \<not> rw_flag s then go_to i ReadWaits s else go_to i ReadCounts s)
      | ReadWaits \<Rightarrow> (if rw_flag s then None else Some (go_to i ReadCounts s))
      | ReadCounts \<Rightarrow> Some (go_to i Reading (s\<lparr>rw_count := rw_count s + 1\<rparr>))
      | _ \<Rightarrow> None)"

definition read_unlock :: "nat \<Rightarrow> rw_lock \<Rightarrow> rw_lock option" where
  "read_unlock i s =
     (if rw_phases s ! i = Reading then Some (go_to i Idle (s\<lparr>rw_count := rw_count s - 1\<rparr>)) else None)"

definition write_lock :: "nat \<Rightarrow> rw_lock \<Rightarrow> rw_lock option" where
  "write_lock i s =
     (case rw_phases s ! i of
        Idle \<Rightarrow> map_option (go_to i WriteWaits) (flag_lock s)
      | WriteWaits \<Rightarrow> (if rw_count s \<noteq> 0 then None else Some (go_to i Writing s))
      | _ \<Rightarrow> None)"

definition write_unlock :: "nat \<Rightarrow> rw_lock \<Rightarrow> rw_lock option" where
  "write_unlock i s =
     (if rw_phases s ! i = Writing then Some (go_to i Idle (flag_unlock s)) else None)"

text \<open>A step of one of the threads.\<close>

inductive lock_step :: "rw_lock \<Rightarrow> rw_lock \<Rightarrow> bool" where
  step_read_lock: "i < length (rw_phases s) \<Longrightarrow> read_lock i s = Some t \<Longrightarrow> lock_step s t"
| step_read_unlock: "i < length (rw_phases s) \<Longrightarrow> read_unlock i s = Some t \<Longrightarrow> lock_step s t"
| step_write_lock: "i < length (rw_phases s) \<Longrightarrow> write_lock i s = Some t \<Longrightarrow> lock_step s t"
| step_write_unlock: "i < length (rw_phases s) \<Longrightarrow> write_unlock i s = Some t \<Longrightarrow> lock_step s t"

inductive lock_reachable :: "nat \<Rightarrow> rw_lock \<Rightarrow> bool" for n where
  "lock_reachable n (lock_new n)"
| "lock_reachable n s \<Longrightarrow> lock_step s t \<Longrightarrow> lock_reachable n t"

section \<open>What the lock keeps\<close>

definition claims_write :: "phase \<Rightarrow> bool" where
  "claims_write p \<longleftrightarrow> p = WriteWaits \<or> p = Writing"

definition readers :: "rw_lock \<Rightarrow> nat" where
  "readers s = count_list (rw_phases s) Reading"

definition writers :: "rw_lock \<Rightarrow> nat" where
  "writers s = length (filter claims_write (rw_phases s))"

definition lock_inv :: "rw_lock \<Rightarrow> bool" where
  "lock_inv s \<longleftrightarrow> rw_count s = of_nat (readers s) \<and> writers s = (if rw_flag s then 1 else 0)"

lemma length_filter_update:
  "i < length xs \<Longrightarrow> length (filter P (xs[i := x])) + (if P (xs ! i) then 1 else 0)
    = length (filter P xs) + (if P x then 1 else 0)"
proof (induction xs arbitrary: i)
  case (Cons y xs)
  then show ?case by (cases i) auto
qed simp

lemma count_list_filter: "count_list xs x = length (filter ((=) x) xs)"
  by (induction xs) auto

text \<open>Any move of a thread that accounts for what it leaves and what it enters keeps the invariant.\<close>

lemma go_to_inv:
  assumes "i < length (rw_phases s)" and "lock_inv s"
    and "c = rw_count s + of_bool (p = Reading) - of_bool (rw_phases s ! i = Reading)"
    and "of_bool b + of_bool (claims_write (rw_phases s ! i)) = (of_bool (rw_flag s) + of_bool (claims_write p) :: nat)"
  shows "lock_inv (s\<lparr>rw_count := c, rw_flag := b, rw_phases := (rw_phases s)[i := p]\<rparr>)"
proof -
  let ?t = "s\<lparr>rw_count := c, rw_flag := b, rw_phases := (rw_phases s)[i := p]\<rparr>"
  have r: "readers ?t + of_bool (rw_phases s ! i = Reading) = readers s + of_bool (p = Reading)"
    using length_filter_update [OF assms(1), of "(=) Reading" p]
    by (simp add: readers_def count_list_filter of_bool_def eq_commute)
  have w: "writers ?t + of_bool (claims_write (rw_phases s ! i)) = writers s + of_bool (claims_write p)"
    using length_filter_update [OF assms(1), of claims_write p] by (simp add: writers_def of_bool_def)
  have "(of_nat (readers ?t) :: u32) + of_bool (rw_phases s ! i = Reading) = of_nat (readers s) + of_bool (p = Reading)"
    using arg_cong [OF r, of "of_nat :: nat \<Rightarrow> u32"] by (simp add: of_bool_def split: if_splits)
  then have "of_nat (readers ?t) = of_nat (readers s) + of_bool (p = Reading) - (of_bool (rw_phases s ! i = Reading) :: u32)"
    by (simp add: eq_diff_eq)
  then show ?thesis
    using assms(2-4) w by (auto simp: lock_inv_def of_bool_def split: if_splits)
qed

lemmas lock_defs = read_lock_def read_unlock_def write_lock_def write_unlock_def flag_lock_def flag_unlock_def
  try_lock_def go_to_def

lemma claim_sets_flag:
  assumes "lock_inv s" and "i < length (rw_phases s)" and "claims_write (rw_phases s ! i)"
  shows "rw_flag s"
proof -
  have "rw_phases s ! i \<in> set (filter claims_write (rw_phases s))"
    using assms(2,3) by simp
  then have "writers s \<noteq> 0" unfolding writers_def by (metis length_pos_if_in_set less_numeral_extra(3))
  then show ?thesis using assms(1) by (auto simp: lock_inv_def split: if_splits)
qed

lemma step_inv:
  assumes "lock_step s t" and "lock_inv s"
  shows "lock_inv t"
  using assms(1)
proof cases
  case (step_read_lock i)
  then show ?thesis
    using go_to_inv [OF step_read_lock(1) assms(2) refl, where b = "rw_flag s" and p = ReadWaits]
      go_to_inv [OF step_read_lock(1) assms(2) refl, where b = "rw_flag s" and p = ReadCounts]
      go_to_inv [OF step_read_lock(1) assms(2) refl, where b = "rw_flag s" and p = Reading]
    by (auto simp: lock_defs claims_write_def split: phase.splits if_splits)
next
  case (step_read_unlock i)
  then show ?thesis
    using go_to_inv [OF step_read_unlock(1) assms(2) refl, where b = "rw_flag s" and p = Idle]
    by (auto simp: lock_defs claims_write_def split: if_splits)
next
  case (step_write_lock i)
  then show ?thesis
    using go_to_inv [OF step_write_lock(1) assms(2) refl, where b = True and p = WriteWaits]
      go_to_inv [OF step_write_lock(1) assms(2) refl, where b = "rw_flag s" and p = Writing]
    by (auto simp: lock_defs claims_write_def split: phase.splits if_splits)
next
  case (step_write_unlock i)
  then have "rw_phases s ! i = Writing" "t = s\<lparr>rw_flag := False, rw_phases := (rw_phases s)[i := Idle]\<rparr>"
    by (auto simp: lock_defs split: if_splits)
  then show ?thesis
    using go_to_inv [OF step_write_unlock(1) assms(2) refl, where b = False and p = Idle]
      claim_sets_flag [OF assms(2) step_write_unlock(1)]
    by (simp add: claims_write_def)
qed

lemma step_threads: "lock_step s t \<Longrightarrow> length (rw_phases t) = length (rw_phases s)"
  by (induction rule: lock_step.induct) (auto simp: lock_defs split: phase.splits if_splits)

lemma lock_reachable_inv:
  assumes "lock_reachable n s"
  shows "lock_inv s" "length (rw_phases s) = n"
proof -
  have "lock_inv (lock_new n)"
    by (simp add: lock_inv_def lock_new_def readers_def writers_def claims_write_def count_list_filter)
  with assms have "lock_inv s \<and> length (rw_phases s) = n"
    by (induction rule: lock_reachable.induct) (auto simp: step_inv step_threads, simp add: lock_new_def)
  then show "lock_inv s" "length (rw_phases s) = n" by auto
qed

lemma readers_le: "readers s \<le> length (rw_phases s)"
  by (simp add: readers_def count_list_filter)

text \<open>
  C28: What the read/write lock guarantees, for fewer than 2^32 threads: the flag is set exactly while one
  thread waits to write or writes, and never more than one does; the counter is the number of readers; and
  a thread only starts to write when nobody reads.
\<close>

theorem writers_are_exclusive:
  assumes "lock_reachable n s" and "n < 2 ^ 32"
  shows "writers s = (if rw_flag s then 1 else 0) \<and> unat (rw_count s) = readers s
    \<and> (\<forall>i t. i < n \<and> rw_phases s ! i = WriteWaits \<and> write_lock i s = Some t \<longrightarrow> readers s = 0 \<and> rw_phases t ! i = Writing)"
proof -
  note inv = lock_reachable_inv [OF assms(1)]
  have "readers s < 2 ^ 32" using readers_le [of s] inv(2) assms(2) by simp
  then have c: "unat (rw_count s) = readers s"
    using inv(1) by (simp add: lock_inv_def unat_of_nat take_bit_eq_mod)
  moreover have "readers s = 0 \<and> rw_phases t ! i = Writing"
    if "i < n" "rw_phases s ! i = WriteWaits" "write_lock i s = Some t" for i t
    using that inv(2) c by (auto simp: lock_defs split: if_splits)
  ultimately show ?thesis using inv(1) unfolding lock_inv_def by blast
qed

text \<open>
  A writer does not keep readers out: whenever a thread writes, any idle thread that asks for a read
  lock gets it at once, because \<open>ReadLock\<close> only waits when the flag was not set.
\<close>

theorem readers_ignore_the_writer:
  assumes "lock_reachable n s" and "i < n" "j < n" and "rw_phases s ! i = Idle" "rw_phases s ! j = Writing"
  shows "\<exists>t u. read_lock i s = Some t \<and> read_lock i t = Some u \<and> rw_phases u ! i = Reading \<and> rw_phases u ! j = Writing"
proof -
  note inv = lock_reachable_inv [OF assms(1)]
  have "rw_flag s"
    using claim_sets_flag [OF inv(1), of j] assms(3,5) inv(2) by (simp add: claims_write_def)
  moreover have "i \<noteq> j" using assms(4,5) by auto
  ultimately show ?thesis using assms inv(2) by (simp add: lock_defs)
qed

text \<open>
  The wait for the writer and the count of the reader are two accesses: even a reader that found no writer
  can count itself after a writer has seen that there is no reader.
\<close>

definition lock_trace :: "rw_lock option" where
  "lock_trace =
     Option.bind (read_lock 0 (lock_new 2)) (\<lambda>s. Option.bind (read_lock 0 s) (\<lambda>s. Option.bind (write_lock 1 s)
       (\<lambda>s. Option.bind (write_lock 1 s) (read_lock 0))))"

lemma wait_is_not_atomic: "map_option rw_phases lock_trace = Some [Reading, Writing]"
  by (simp add: lock_trace_def lock_defs lock_new_def numeral_2_eq_2)

definition written_lock :: rw_lock where
  "written_lock = \<lparr>rw_count = 0, rw_flag = True, rw_phases = [Idle, Writing]\<rparr>"

lemma written_reachable: "lock_reachable 2 written_lock"
proof -
  let ?s = "\<lparr>rw_count = 0, rw_flag = True, rw_phases = [Idle, WriteWaits]\<rparr>"
  have "lock_step (lock_new 2) ?s"
    by (rule step_write_lock [of 1]) (simp_all add: lock_defs lock_new_def numeral_2_eq_2)
  then have "lock_reachable 2 ?s" by (rule lock_reachable.intros(2) [OF lock_reachable.intros(1)])
  moreover have "lock_step ?s written_lock"
    by (rule step_write_lock [of 1]) (simp_all add: lock_defs written_lock_def)
  ultimately show ?thesis by (rule lock_reachable.intros(2))
qed

theorem writers_are_exclusive_witness:
  "writers written_lock = (if rw_flag written_lock then 1 else 0) \<and> unat (rw_count written_lock) = readers written_lock"
  using writers_are_exclusive [OF written_reachable] by simp

theorem readers_ignore_the_writer_witness:
  "\<exists>t u. read_lock 0 written_lock = Some t \<and> read_lock 0 t = Some u \<and> rw_phases u ! 0 = Reading \<and> rw_phases u ! 1 = Writing"
  using readers_ignore_the_writer [OF written_reachable, of 0 1] by (simp add: written_lock_def)

end
