(* ===== verification/WebSocketEvents.thy ===== *)
theory WebSocketEvents
  imports AuthorizationModule WebSocketHandler Json "HOL-Library.Product_Lexorder"
begin

text \<open>
  Events over WebSocket (\<open>protocol/webSocketEvents.inl\<close>): requests of a connection that are answered at
  once, later (singles) or again and again (streams). A distributor checks the right to an event with the
  authorization module, keeps the events that wait by connection and filter, sends data to them and purges
  the oldest ones when a connection has too many.

  Handlers are functions of the application. What is sent is the payload of a text frame with its
  connection. The reading of the clock is an argument. The number of events and the limit are in the range
  of \<open>int32_t\<close> and stand here as integers.

  Every operation runs alone but for one thing: the locks that an operation itself holds are respected, as
  \<open>AddEvent\<close> calls the purge under the lock of the events it adds to. Taking a write lock that is held
  blocks forever; a read lock is granted in any case, as \<open>Locks\<close> shows. Unlocking a lock whose object was
  freed is undefined.
\<close>

datatype 'a run = Returned 'a | Blocked | UseAfterFree

definition then_run :: "'a run \<Rightarrow> ('a \<Rightarrow> 'b run) \<Rightarrow> 'b run" where
  "then_run r f = (case r of Returned x \<Rightarrow> f x | Blocked \<Rightarrow> Blocked | UseAfterFree \<Rightarrow> UseAfterFree)"

section \<open>Enumerations\<close>

datatype event_type = TypeNotSet | TypeSingle | TypeStream | TypeEnd

fun event_type_to_string :: "event_type \<Rightarrow> string" where
  "event_type_to_string TypeNotSet = ''Undefined''"
| "event_type_to_string TypeSingle = ''Single''"
| "event_type_to_string TypeStream = ''Stream''"
| "event_type_to_string TypeEnd = ''Max''"

datatype handle_result = NotHandled | HandleSuccess | HandleFail | HandleDelay | HandleEnd

fun handle_result_to_string :: "handle_result \<Rightarrow> string" where
  "handle_result_to_string NotHandled = ''Undefined''"
| "handle_result_to_string HandleSuccess = ''Success''"
| "handle_result_to_string HandleFail = ''Fail''"
| "handle_result_to_string HandleDelay = ''Delay''"
| "handle_result_to_string HandleEnd = ''Max''"

datatype event_send_result = NotSent | SendSuccess | SendFail | SendNothing | SendEnd

fun event_send_result_to_string :: "event_send_result \<Rightarrow> string" where
  "event_send_result_to_string NotSent = ''Undefined''"
| "event_send_result_to_string SendSuccess = ''Success''"
| "event_send_result_to_string SendFail = ''Fail''"
| "event_send_result_to_string SendNothing = ''Nothing''"
| "event_send_result_to_string SendEnd = ''Max''"

datatype event_state =
  EsUndefined | EsPending | EsOpened | EsDone | EsFailed | EsClosed | EsRemoved | EsMax

fun event_state_to_string :: "event_state \<Rightarrow> string" where
  "event_state_to_string EsUndefined = ''Undefined''"
| "event_state_to_string EsPending = ''Pending''"
| "event_state_to_string EsOpened = ''Opened''"
| "event_state_to_string EsDone = ''Done''"
| "event_state_to_string EsFailed = ''Failed''"
| "event_state_to_string EsClosed = ''Closed''"
| "event_state_to_string EsRemoved = ''Removed''"
| "event_state_to_string EsMax = ''Max''"

fun event_state_code :: "event_state \<Rightarrow> nat" where
  "event_state_code EsUndefined = 0"
| "event_state_code EsPending = 1"
| "event_state_code EsOpened = 2"
| "event_state_code EsDone = 3"
| "event_state_code EsFailed = 4"
| "event_state_code EsClosed = 5"
| "event_state_code EsRemoved = 6"
| "event_state_code EsMax = 7"

section \<open>Events and their messages\<close>

record ws_event =
  we_uid :: u64
  we_json :: json_object
  we_connection :: int

record handler_data =
  hd_handler :: "string \<Rightarrow> ws_event \<Rightarrow> handle_result \<times> string"
  hd_grade :: int
  hd_isPermissionRequired :: bool

definition quote :: string where "quote = [CHR 0x22]"

text \<open>The beginning of every payload, with the identifiers joined by commas.\<close>

definition uids_header :: "string \<Rightarrow> string" where
  "uids_header uids = ''{'' @ quote @ ''uids'' @ quote @ '':['' @ uids"

definition data_key :: string where
  "data_key = ''],'' @ quote @ ''data'' @ quote @ '':''"

definition state_payload :: "event_state \<Rightarrow> u64 \<Rightarrow> string" where
  "state_payload st uid =
     uids_header (show_nat (unat uid)) @ ''],'' @ quote @ ''state'' @ quote @ '':'' @ show_nat (event_state_code st) @ ''}''"

definition failed_payload :: "u64 \<Rightarrow> string \<Rightarrow> string" where
  "failed_payload uid error =
     uids_header (show_nat (unat uid)) @ ''],'' @ quote @ ''state'' @ quote @ '':4,'' @ quote @ ''error'' @ quote @ '':''
     @ quote @ error @ quote @ ''}''"

definition event_send_failed :: "string \<Rightarrow> ws_event \<Rightarrow> int \<times> string" where
  "event_send_failed error ev = (we_connection ev, failed_payload (we_uid ev) error)"

text \<open>\<open>IdentityFilter\<close>: the number under the key \<open>filter\<close>, or 0.\<close>

definition identity_filter :: "json_object \<Rightarrow> u64" where
  "identity_filter json = (case get_value json ''filter'' of Some (NUint n) \<Rightarrow> n | _ \<Rightarrow> 0)"

type_synonym filter_key = "u64 \<times> u64"

section \<open>The events of a connection\<close>

type_synonym event_list = "(timer \<times> ws_event) list"

record events_data =
  m_filterToEvents :: "(filter_key \<times> event_list) list"
  m_limit :: int
  m_purgingCoefficient :: rat
  m_eventsSize :: int
  ed_connection :: int

text \<open>The coefficient is \<open>0.3f\<close>.\<close>

definition events_data_make :: "int \<Rightarrow> events_data" where
  "events_data_make connection =
     \<lparr>m_filterToEvents = [], m_limit = 1024, m_purgingCoefficient = 5033165 / 16777216, m_eventsSize = 0,
      ed_connection = connection\<rparr>"

definition get_events :: "filter_key \<Rightarrow> events_data \<Rightarrow> event_list option" where
  "get_events key d = map_of (m_filterToEvents d) key"

definition create_events :: "filter_key \<Rightarrow> events_data \<Rightarrow> events_data" where
  "create_events key d =
     (if get_events key d = None
      then d\<lparr>m_filterToEvents := ordered_emplace key [] (m_filterToEvents d)\<rparr> else d)"

definition set_events :: "filter_key \<Rightarrow> event_list \<Rightarrow> events_data \<Rightarrow> events_data" where
  "set_events key es d =
     d\<lparr>m_filterToEvents := map (\<lambda>(k, fs). (k, if k = key then es else fs)) (m_filterToEvents d)\<rparr>"

definition decrease_events_size :: "int \<Rightarrow> events_data \<Rightarrow> events_data" where
  "decrease_events_size n d = d\<lparr>m_eventsSize := m_eventsSize d - n\<rparr>"

text \<open>\<open>FailEvents\<close>, \<open>EraseEvents\<close>, \<open>EraseEvent\<close> by the time, and \<open>EraseEventsByTimestamps\<close>.\<close>

definition fail_events_by_filter :: "filter_key \<Rightarrow> string \<Rightarrow> events_data \<Rightarrow> (int \<times> string) list \<times> events_data" where
  "fail_events_by_filter key error d =
     (case get_events key d of
        None \<Rightarrow> ([], d)
      | Some es \<Rightarrow>
          if es = [] then ([], d)
          else (map (event_send_failed error \<circ> snd) es,
                decrease_events_size (int (length es)) (set_events key [] d)))"

definition erase_events_by_filter :: "filter_key \<Rightarrow> events_data \<Rightarrow> events_data" where
  "erase_events_by_filter key d =
     (case get_events key d of
        None \<Rightarrow> d
      | Some es \<Rightarrow> if es = [] then d else decrease_events_size (int (length es)) (set_events key [] d))"

definition erase_event_at :: "filter_key \<Rightarrow> timer \<Rightarrow> events_data \<Rightarrow> events_data" where
  "erase_event_at key t d =
     (case get_events key d of
        None \<Rightarrow> d
      | Some es \<Rightarrow>
          if t \<notin> fst ` set es then d
          else decrease_events_size 1 (set_events key (filter (\<lambda>e. fst e \<noteq> t) es) d))"

definition erase_events_by_timestamps :: "filter_key \<Rightarrow> timer list \<Rightarrow> events_data \<Rightarrow> events_data" where
  "erase_events_by_timestamps key ts d =
     (case get_events key d of
        None \<Rightarrow> d
      | Some es \<Rightarrow>
          (let (es', erased) = fold (\<lambda>t (es, n). if t \<notin> fst ` set es then (es, n)
                                                else (filter (\<lambda>e. fst e \<noteq> t) es, n + 1)) ts (es, 0)
           in decrease_events_size erased (set_events key es' d)))"

text \<open>
  \<open>EraseEvent\<close> by the identifier: the first event that has it. The code notes the time of the event and
  takes the time 0 for not found.
\<close>

fun find_uid :: "u64 \<Rightarrow> event_list \<Rightarrow> timer" where
  "find_uid uid [] = timer_of 0"
| "find_uid uid ((t, ev) # es) = (if we_uid ev = uid then t else find_uid uid es)"

fun erase_event_in :: "u64 \<Rightarrow> (filter_key \<times> event_list) list \<Rightarrow> events_data \<Rightarrow> bool \<times> events_data" where
  "erase_event_in uid [] d = (False, d)"
| "erase_event_in uid ((key, es) # fs) d =
     (let t = find_uid uid es
      in if \<not> timer_empty t then (True, erase_event_at key t d) else erase_event_in uid fs d)"

definition erase_event :: "u64 \<Rightarrow> events_data \<Rightarrow> bool \<times> events_data" where
  "erase_event uid d = erase_event_in uid (m_filterToEvents d) d"

text \<open>
  \<open>FailActiveEvents\<close>: under the write lock of each entry, which is erased before it is unlocked. \<open>held\<close> is
  the entry whose lock the caller holds, \<open>used\<close> the entries that are referred to elsewhere and so survive
  the erasure.
\<close>

fun fail_entries :: "filter_key option \<Rightarrow> filter_key set \<Rightarrow> string \<Rightarrow> (filter_key \<times> event_list) list
    \<Rightarrow> events_data \<Rightarrow> ((int \<times> string) list \<times> events_data) run" where
  "fail_entries held used error [] d = Returned ([], d\<lparr>m_filterToEvents := []\<rparr>)"
| "fail_entries held used error ((key, es) # fs) d =
     (if held = Some key then Blocked
      else if key \<notin> used then UseAfterFree
      else then_run (fail_entries held used error fs (decrease_events_size (int (length es)) d))
             (\<lambda>(ms, d). Returned (map (event_send_failed error \<circ> snd) es @ ms, d)))"

definition fail_active_events :: "filter_key option \<Rightarrow> filter_key set \<Rightarrow> string \<Rightarrow> events_data
    \<Rightarrow> ((int \<times> string) list \<times> events_data) run" where
  "fail_active_events held used error d = fail_entries held used error (m_filterToEvents d) d"

section \<open>The limit\<close>

text \<open>The conversion of a float to an integer, and the share of the limit that is purged in addition.\<close>

definition truncate_float :: "rat \<Rightarrow> int" where
  "truncate_float x = (if x < 0 then - \<lfloor>- x\<rfloor> else \<lfloor>x\<rfloor>)"

definition purge_share :: "floats \<Rightarrow> events_data \<Rightarrow> int" where
  "purge_share fl d = truncate_float (fl_round fl (fl_round fl (of_int (m_limit d)) * m_purgingCoefficient d))"

text \<open>All events by their time; of two with the same time the first one counts.\<close>

definition sorted_events :: "events_data \<Rightarrow> (timer \<times> filter_key) list" where
  "sorted_events d =
     fold (\<lambda>(key, es). fold (\<lambda>(t, ev). ordered_emplace t key) es) (m_filterToEvents d) []"

fun erase_victims :: "filter_key option \<Rightarrow> (timer \<times> filter_key) list \<Rightarrow> filter_key list \<Rightarrow> events_data \<Rightarrow> events_data run" where
  "erase_victims held victims [] d = Returned d"
| "erase_victims held victims (key # keys) d =
     (if held = Some key then Blocked
      else erase_victims held victims keys
             (erase_events_by_timestamps key (map fst (filter (\<lambda>v. snd v = key) victims)) d))"

definition check_limit_and_purge :: "floats \<Rightarrow> filter_key option \<Rightarrow> events_data \<Rightarrow> ((int \<times> string) list \<times> events_data) run" where
  "check_limit_and_purge fl held d =
     (let toBePurged = m_eventsSize d - m_limit d
      in if toBePurged \<le> 0 then Returned ([], d)
         else
           let toBePurged = toBePurged + purge_share fl d;
               sortedEvents = sorted_events d
           in if length sortedEvents < nat toBePurged
              then fail_active_events held (snd ` set sortedEvents \<union> set_option held)
                     ''All events are purged due to unexpected processing'' d
              else
                let victims = take (nat toBePurged) sortedEvents
                in then_run (erase_victims held victims (remdups (map snd victims)) d) (\<lambda>d. Returned ([], d)))"

definition increase_events_size :: "floats \<Rightarrow> filter_key option \<Rightarrow> int \<Rightarrow> events_data
    \<Rightarrow> ((int \<times> string) list \<times> events_data) run" where
  "increase_events_size fl held n d = check_limit_and_purge fl held (d\<lparr>m_eventsSize := m_eventsSize d + n\<rparr>)"

definition set_limit :: "floats \<Rightarrow> int \<Rightarrow> events_data \<Rightarrow> (bool \<times> (int \<times> string) list \<times> events_data) run" where
  "set_limit fl n d =
     (if n < 64 then Returned (False, [], d)
      else let ratio = m_limit d - n
           in if ratio = 0 then Returned (False, [], d)
              else let d = d\<lparr>m_limit := n\<rparr>
                   in if ratio > 0 then then_run (check_limit_and_purge fl None d) (\<lambda>r. Returned (True, r))
                      else Returned (True, [], d))"

definition set_purging_coefficient :: "floats \<Rightarrow> rat \<Rightarrow> events_data \<Rightarrow> bool \<times> events_data" where
  "set_purging_coefficient fl x d =
     (if float_less fl x (fl_round fl (5 / 100)) then (False, d)
      else if float_greater fl x (fl_round fl (99 / 100)) then (False, d)
      else if compare_floats fl (m_purgingCoefficient d) x = 0 then (False, d)
      else (True, d\<lparr>m_purgingCoefficient := x\<rparr>))"

text \<open>\<open>AddEvent\<close>, at the time \<open>now\<close> and under the lock of the events; they are in the map of \<open>d\<close>.\<close>

definition add_event :: "floats \<Rightarrow> timer \<Rightarrow> filter_key \<Rightarrow> ws_event \<Rightarrow> events_data
    \<Rightarrow> ((int \<times> string) list \<times> events_data) run" where
  "add_event fl now key ev d =
     (case get_events key d of
        None \<Rightarrow> Returned ([], d)
      | Some es \<Rightarrow>
          if now \<in> fst ` set es then Returned ([], d)
          else increase_events_size fl (Some key) 1 (set_events key (ordered_emplace now ev es) d))"

section \<open>The distributor\<close>

record events_distributor =
  m_hashToHandlerData :: "(u64 \<times> handler_data) list"
  m_connectionToEventsData :: "(int \<times> events_data) list"
  m_authorization :: auth
  ws_sent :: "(int \<times> string) list"

definition events_distributor_make :: "auth \<Rightarrow> events_distributor" where
  "events_distributor_make s =
     \<lparr>m_hashToHandlerData = [], m_connectionToEventsData = [], m_authorization = s, ws_sent = []\<rparr>"

definition ws_send :: "(int \<times> string) list \<Rightarrow> events_distributor \<Rightarrow> events_distributor" where
  "ws_send ms d = d\<lparr>ws_sent := ws_sent d @ ms\<rparr>"

definition set_handler_with_permissions ::
  "u64 \<Rightarrow> (string \<Rightarrow> ws_event \<Rightarrow> handle_result \<times> string) \<Rightarrow> int \<Rightarrow> events_distributor \<Rightarrow> events_distributor" where
  "set_handler_with_permissions hash h grade d =
     d\<lparr>m_hashToHandlerData := emplace_entry hash
         \<lparr>hd_handler = h, hd_grade = grade, hd_isPermissionRequired = True\<rparr> (m_hashToHandlerData d)\<rparr>"

definition set_handler_without_permissions ::
  "u64 \<Rightarrow> (string \<Rightarrow> ws_event \<Rightarrow> handle_result \<times> string) \<Rightarrow> events_distributor \<Rightarrow> events_distributor" where
  "set_handler_without_permissions hash h d =
     d\<lparr>m_hashToHandlerData := emplace_entry hash
         \<lparr>hd_handler = h, hd_grade = 0, hd_isPermissionRequired = False\<rparr> (m_hashToHandlerData d)\<rparr>"

definition get_events_data :: "int \<Rightarrow> events_distributor \<Rightarrow> events_data \<times> events_distributor" where
  "get_events_data c d =
     (case map_of (m_connectionToEventsData d) c of
        Some ed \<Rightarrow> (ed, d)
      | None \<Rightarrow>
          (events_data_make c,
           d\<lparr>m_connectionToEventsData := ordered_emplace c (events_data_make c) (m_connectionToEventsData d)\<rparr>))"

definition put_events_data :: "int \<Rightarrow> events_data \<Rightarrow> events_distributor \<Rightarrow> events_distributor" where
  "put_events_data c ed d =
     d\<lparr>m_connectionToEventsData := map (\<lambda>(k, e). (k, if k = c then ed else e)) (m_connectionToEventsData d)\<rparr>"

definition clear_active_events_for_connection :: "int \<Rightarrow> events_distributor \<Rightarrow> events_distributor" where
  "clear_active_events_for_connection c d =
     d\<lparr>m_connectionToEventsData := filter (\<lambda>e. fst e \<noteq> c) (m_connectionToEventsData d)\<rparr>"

fun fail_connections :: "string \<Rightarrow> (int \<times> events_data) list \<Rightarrow> (int \<times> string) list run" where
  "fail_connections error [] = Returned []"
| "fail_connections error ((c, ed) # eds) =
     then_run (fail_active_events None {} error ed)
       (\<lambda>(ms, ed). then_run (fail_connections error eds) (\<lambda>ns. Returned (ms @ ns)))"

definition fail_all_active_events :: "string \<Rightarrow> events_distributor \<Rightarrow> events_distributor run" where
  "fail_all_active_events error d =
     then_run (fail_connections error (m_connectionToEventsData d))
       (\<lambda>ms. Returned (ws_send ms (d\<lparr>m_connectionToEventsData := []\<rparr>)))"

text \<open>\<open>FailEventsOnConnectionsByFilter\<close> and \<open>EraseEventsOnConnectionsByFilter\<close>.\<close>

definition fail_events_on_connections :: "filter_key \<Rightarrow> string \<Rightarrow> events_distributor \<Rightarrow> events_distributor" where
  "fail_events_on_connections key error d =
     ws_send (concat (map (\<lambda>(c, ed). fst (fail_events_by_filter key error ed)) (m_connectionToEventsData d)))
       (d\<lparr>m_connectionToEventsData :=
            map (\<lambda>(c, ed). (c, snd (fail_events_by_filter key error ed))) (m_connectionToEventsData d)\<rparr>)"

definition erase_events_on_connections :: "filter_key \<Rightarrow> events_distributor \<Rightarrow> events_distributor" where
  "erase_events_on_connections key d =
     d\<lparr>m_connectionToEventsData :=
         map (\<lambda>(c, ed). (c, erase_events_by_filter key ed)) (m_connectionToEventsData d)\<rparr>"

section \<open>Sending data\<close>

text \<open>
  \<open>SendData\<close> collects a destination for each connection, builds one block with room in front for the
  longest header and the data behind it, and writes the header of each destination into the room.
\<close>

fun join_uids :: "string list \<Rightarrow> string" where
  "join_uids [] = []"
| "join_uids [u] = u"
| "join_uids (u # us) = u @ '','' @ join_uids us"

definition destination_of :: "event_list \<Rightarrow> int \<times> string" where
  "destination_of es =
     (we_connection (snd (hd es)), join_uids (map (\<lambda>e. show_nat (unat (we_uid (snd e)))) es))"

definition get_events_array :: "filter_key \<Rightarrow> events_distributor \<Rightarrow> event_list list" where
  "get_events_array key d = List.map_filter (\<lambda>(c, ed). get_events key ed) (m_connectionToEventsData d)"

definition destinations_of :: "event_list list \<Rightarrow> (int \<times> string) list" where
  "destinations_of ess = map destination_of (filter (\<lambda>es. es \<noteq> []) ess)"

fun fill_headers :: "nat \<Rightarrow> (int \<times> string) list \<Rightarrow> string \<Rightarrow> (int \<times> string) list" where
  "fill_headers room [] block = []"
| "fill_headers room ((c, uids) # ds) block =
     (let headerSize = length uids + 9;
          headerShift = room - headerSize;
          block = take headerShift block @ take headerSize (uids_header uids) @ drop (headerShift + headerSize) block
      in (c, drop headerShift block) # fill_headers room ds block)"

text \<open>The data, or the outcome of the function that makes it, which is called when there is a destination.\<close>

datatype data_source = GivenData string | MadeData bool string

definition send_event_data :: "filter_key \<Rightarrow> data_source \<Rightarrow> events_distributor \<Rightarrow> event_send_result \<times> events_distributor" where
  "send_event_data key src d =
     (let eventsArray = get_events_array key d
      in if eventsArray = [] then (SendNothing, d)
         else
           let destinations = destinations_of eventsArray
           in if destinations = [] then (SendNothing, d)
              else
                let maxUidsSize = fold (\<lambda>(c, uids) m. if m < length uids then length uids else m) destinations 0 + 9
                in if 2 ^ 63 \<le> maxUidsSize
                   then (SendFail, fail_events_on_connections key ''Data destination is unexpected'' d)
                   else
                     case src of
                       MadeData False error \<Rightarrow> (SendFail, fail_events_on_connections key error d)
                     | MadeData True text \<Rightarrow>
                         (SendSuccess, ws_send (fill_headers maxUidsSize destinations
                            (replicate maxUidsSize (CHR '' '') @ data_key @ text @ ''}'')) d)
                     | GivenData text \<Rightarrow>
                         (SendSuccess, ws_send (fill_headers maxUidsSize destinations
                            (replicate maxUidsSize (CHR '' '') @ data_key @ text @ ''}'')) d))"

definition check_delayed :: "filter_key \<Rightarrow> data_source \<Rightarrow> events_distributor \<Rightarrow> events_distributor" where
  "check_delayed key src d =
     (case send_event_data key src d of
        (SendSuccess, d) \<Rightarrow> erase_events_on_connections key d
      | (_, d) \<Rightarrow> d)"

section \<open>Handling events\<close>

text \<open>The environment of a request: the clock of \<open>AddEvent\<close>, and that of the authorization module.\<close>

record events_env =
  ee_floats :: floats
  ee_now :: timer
  ee_auth :: auth_env

definition data_payload :: "u64 \<Rightarrow> string" where
  "data_payload uid = uids_header (show_nat (unat uid)) @ data_key"

definition store_event :: "events_env \<Rightarrow> u64 \<Rightarrow> u64 \<Rightarrow> ws_event \<Rightarrow> events_distributor \<Rightarrow> events_distributor run" where
  "store_event e hash flt ev d =
     (case get_events_data (we_connection ev) d of
        (ed, d) \<Rightarrow>
          then_run (add_event (ee_floats e) (ee_now e) (hash, flt) ev (create_events (hash, flt) ed))
            (\<lambda>(ms, ed). Returned (ws_send ms (put_events_data (we_connection ev) ed d))))"

type_synonym handle =
  "events_env \<Rightarrow> u64 \<Rightarrow> u64 \<Rightarrow> u64 \<Rightarrow> int \<Rightarrow> json_object \<Rightarrow> handler_data \<Rightarrow> events_distributor \<Rightarrow> events_distributor run"

definition handle_single :: handle where
  "handle_single e uid hash flt connection json hdl d =
     (let single = \<lparr>we_uid = uid, we_json = json, we_connection = connection\<rparr>
      in case hd_handler hdl (data_payload uid) single of
           (HandleSuccess, answer) \<Rightarrow> Returned (ws_send [(connection, answer @ ''}'')] d)
         | (HandleFail, answer) \<Rightarrow> Returned (ws_send [(connection, failed_payload uid answer)] d)
         | (HandleDelay, answer) \<Rightarrow> store_event e hash flt single d
         | _ \<Rightarrow> Returned d)"

definition handle_stream :: handle where
  "handle_stream e uid hash flt connection json hdl d =
     (let stream = \<lparr>we_uid = uid, we_json = json, we_connection = connection\<rparr>
      in case hd_handler hdl (data_payload uid) stream of
           (HandleSuccess, answer) \<Rightarrow>
             then_run (store_event e hash flt stream (ws_send [(connection, state_payload EsOpened uid)] d))
               (\<lambda>d. Returned (ws_send [(connection, answer @ ''}''), (connection, state_payload EsDone uid)] d))
         | (HandleFail, answer) \<Rightarrow> Returned (ws_send [(connection, failed_payload uid answer)] d)
         | _ \<Rightarrow> Returned d)"

definition interrupts :: "json_object \<Rightarrow> bool" where
  "interrupts json \<longleftrightarrow> (case get_value json ''interrupt'' of Some (NBool b) \<Rightarrow> True | _ \<Rightarrow> False)"

definition collect_event :: "handle \<Rightarrow> events_env \<Rightarrow> u64 \<Rightarrow> u64 \<Rightarrow> int \<Rightarrow> json_object \<Rightarrow> events_distributor \<Rightarrow> events_distributor run" where
  "collect_event handle e uid hash connection json d =
     (if interrupts json
      then (case get_events_data connection d of
              (ed, d) \<Rightarrow> Returned (put_events_data connection (snd (erase_event uid ed)) d))
      else
        case map_of (m_hashToHandlerData d) hash of
          None \<Rightarrow> Returned (ws_send [(connection, failed_payload uid ''Unknown hash of the event'')] d)
        | Some hdl \<Rightarrow>
            if \<not> hd_isPermissionRequired hdl
            then handle e uid hash (identity_filter json) connection json hdl d
            else
              (case is_access_granted (ee_auth e) connection (hd_grade hdl) (m_authorization d) of
                 (granted, s) \<Rightarrow>
                   (let d = d\<lparr>m_authorization := s\<rparr>
                    in if \<not> granted
                       then Returned (ws_send [(connection, failed_payload uid ''Access is not granted'')] d)
                       else handle e uid hash (identity_filter json) connection json hdl d)))"

end
