(* ===== verification/WebSocketEventsSpec.thy ===== *)
theory WebSocketEventsSpec
  imports WebSocketEvents StandardSpec WebSocketHandlerSpec
begin

text \<open>
  The events of a connection: the invariant of their tables, the purge of the oldest events and the call of
  \<open>AddEvent\<close> that waits for its own lock; the right to an event; who gets data, and which requests are
  answered.
\<close>

section \<open>The events of a connection\<close>

definition stored_events :: "events_data \<Rightarrow> event_list" where
  "stored_events d = concat (map snd (m_filterToEvents d))"

definition data_inv :: "events_data \<Rightarrow> bool" where
  "data_inv d \<longleftrightarrow>
     sorted_wrt (<) (map fst (m_filterToEvents d))
     \<and> (\<forall>(key, es) \<in> set (m_filterToEvents d). sorted_wrt (<) (map fst es))
     \<and> (\<forall>(t, ev) \<in> set (stored_events d). we_connection ev = ed_connection d)
     \<and> m_eventsSize d = int (length (stored_events d)) \<and> 64 \<le> m_limit d"

lemma data_invD:
  assumes "data_inv d"
  shows "distinct (map fst (m_filterToEvents d))" "sorted_wrt (<) (map fst (m_filterToEvents d))"
    "get_events key d = Some es \<Longrightarrow> sorted_wrt (<) (map fst es)"
    "(t, ev) \<in> set (stored_events d) \<Longrightarrow> we_connection ev = ed_connection d"
    "m_eventsSize d = int (length (stored_events d))" "64 \<le> m_limit d"
  using assms map_of_SomeD [of "m_filterToEvents d" key es]
  by (auto simp: data_inv_def get_events_def strict_sorted_iff)

lemma data_inv_make: "data_inv (events_data_make c)"
  by (simp add: data_inv_def events_data_make_def stored_events_def)

lemma data_inv_irrelevant [simp]:
  "data_inv (d\<lparr>m_purgingCoefficient := x\<rparr>) = data_inv d" "64 \<le> n \<Longrightarrow> data_inv d \<Longrightarrow> data_inv (d\<lparr>m_limit := n\<rparr>)"
  by (simp_all add: data_inv_def stored_events_def)

lemma set_events_fields [simp]:
  "m_eventsSize (set_events key es d) = m_eventsSize d" "m_limit (set_events key es d) = m_limit d"
  "ed_connection (set_events key es d) = ed_connection d"
  "map fst (m_filterToEvents (set_events key es d)) = map fst (m_filterToEvents d)"
  "m_purgingCoefficient (set_events key es d) = m_purgingCoefficient d"
  by (simp_all add: set_events_def comp_def case_prod_beta)

lemma get_set_events:
  "get_events k (set_events key es d) = (if k = key then map_option (\<lambda>_. es) (get_events k d) else get_events k d)"
proof -
  have "map_of (map (\<lambda>(k, fs). (k, if k = key then es else fs)) m) k
      = (if k = key then map_option (\<lambda>_. es) (map_of m k) else map_of m k)" for m
    by (induction m) auto
  then show ?thesis by (simp add: get_events_def set_events_def)
qed

lemma in_get_events:
  assumes "data_inv d"
  shows "(key, es) \<in> set (m_filterToEvents d) \<longleftrightarrow> get_events key d = Some es"
  using data_invD(1) [OF assms] by (simp add: get_events_def map_of_eq_Some_iff)

lemma in_stored_iff:
  assumes "data_inv d"
  shows "e \<in> set (stored_events d) \<longleftrightarrow> (\<exists>key es. get_events key d = Some es \<and> e \<in> set es)"
proof -
  have "e \<in> set (stored_events d) \<longleftrightarrow> (\<exists>p \<in> set (m_filterToEvents d). e \<in> set (snd p))"
    by (auto simp: stored_events_def)
  also have "\<dots> \<longleftrightarrow> (\<exists>key es. (key, es) \<in> set (m_filterToEvents d) \<and> e \<in> set es)" by force
  finally show ?thesis by (simp add: in_get_events [OF assms])
qed

lemma in_events_connection:
  assumes "data_inv d" and "get_events key d = Some es" and "(t, ev) \<in> set es"
  shows "we_connection ev = ed_connection d"
proof -
  have "(t, ev) \<in> set (stored_events d)" using in_stored_iff [OF assms(1)] assms(2,3) by blast
  then show ?thesis by (rule data_invD(4) [OF assms(1)])
qed

lemma length_set_events:
  assumes "distinct (map fst (m_filterToEvents d))" and "get_events key d = Some es"
  shows "length (stored_events (set_events key es' d)) + length es = length (stored_events d) + length es'"
proof -
  have "length (concat (map snd (map (\<lambda>(k, fs). (k, if k = key then es' else fs)) m))) + length es
      = length (concat (map snd m)) + length es'"
    if "distinct (map fst m)" "map_of m key = Some es" for m :: "(filter_key \<times> event_list) list"
    using that
  proof (induction m)
    case (Cons p m)
    obtain k fs where p: "p = (k, fs)" by fastforce
    show ?case
    proof (cases "k = key")
      case True
      have "map (\<lambda>(k, fs). (k, if k = key then es' else fs)) m = m"
        using Cons.prems(1) True by (intro map_idI) (auto simp: p image_iff)
      then show ?thesis using Cons.prems True by (simp add: p)
    next
      case False
      then show ?thesis using Cons by (simp add: p)
    qed
  qed simp
  from this [OF assms(1) assms(2) [unfolded get_events_def]] show ?thesis
    by (simp add: stored_events_def set_events_def)
qed

lemma set_events_inv:
  assumes "data_inv d" and "get_events key d = Some es" and "sorted_wrt (<) (map fst es')"
    and "\<And>t ev. (t, ev) \<in> set es' \<Longrightarrow> we_connection ev = ed_connection d"
    and "n = int (length es') - int (length es)"
  shows "data_inv ((set_events key es' d)\<lparr>m_eventsSize := m_eventsSize d + n\<rparr>)"
proof -
  note inv = data_invD [OF assms(1)]
  let ?d = "set_events key es' d"
  have l: "length (stored_events ?d) + length es = length (stored_events d) + length es'"
    by (rule length_set_events [OF inv(1) assms(2)])
  have s: "stored_events (?d\<lparr>m_eventsSize := k\<rparr>) = stored_events ?d" for k by (simp add: stored_events_def)
  have e: "p \<in> set (m_filterToEvents ?d) \<Longrightarrow> snd p = es' \<or> p \<in> set (m_filterToEvents d)" for p
    by (auto simp: set_events_def split: if_splits)
  have c: "we_connection ev = ed_connection d" if "(t, ev) \<in> set (stored_events ?d)" for t ev
  proof -
    have "\<exists>p \<in> set (m_filterToEvents ?d). (t, ev) \<in> set (snd p)"
      using that by (auto simp: stored_events_def)
    then obtain p where "p \<in> set (m_filterToEvents ?d)" "(t, ev) \<in> set (snd p)" by blast
    then show ?thesis using e [of p] assms(4) inv(4) [of t ev] by (auto simp: stored_events_def)
  qed
  have "sorted_wrt (<) (map fst fs)" if "(k, fs) \<in> set (m_filterToEvents ?d)" for k fs
    using e [OF that] assms(1,3) by (auto simp: data_inv_def)
  then show ?thesis
    using inv(2,5,6) assms(5) l c by (auto simp: data_inv_def s)
qed

lemma concat_emplace: "concat (map snd (ordered_emplace k [] m)) = concat (map snd m)"
  by (induction k "[] :: 'a list" m rule: ordered_emplace.induct) auto

lemma create_events_fields [simp]:
  "ed_connection (create_events key d) = ed_connection d" "m_limit (create_events key d) = m_limit d"
  "m_eventsSize (create_events key d) = m_eventsSize d" "stored_events (create_events key d) = stored_events d"
  "m_purgingCoefficient (create_events key d) = m_purgingCoefficient d"
  by (simp_all add: create_events_def stored_events_def concat_emplace)

lemma create_events_views:
  assumes "data_inv d"
  shows "data_inv (create_events key d)"
    "get_events k (create_events key d) = (if k = key \<and> get_events key d = None then Some [] else get_events k d)"
proof -
  have "sorted (map fst (m_filterToEvents d))"
    using data_invD(2) [OF assms] by (simp add: strict_sorted_iff)
  then show "get_events k (create_events key d) = (if k = key \<and> get_events key d = None then Some [] else get_events k d)"
    by (simp add: create_events_def get_events_def map_of_ordered_emplace)
  have "set (m_filterToEvents (create_events key d)) \<subseteq> insert (key, []) (set (m_filterToEvents d))"
    using set_ordered_emplace [of key "[]" "m_filterToEvents d"] by (auto simp: create_events_def)
  moreover have "sorted_wrt (<) (map fst (m_filterToEvents (create_events key d)))"
    using data_invD(2) [OF assms] by (simp add: create_events_def sorted_ordered_emplace)
  ultimately show "data_inv (create_events key d)"
    using assms unfolding data_inv_def create_events_fields by fastforce
qed

section \<open>Erasing and failing\<close>

lemma erase_events_by_filter_views:
  assumes "data_inv d"
  shows "data_inv (erase_events_by_filter key d)"
    "get_events k (erase_events_by_filter key d) = (if k = key then map_option (\<lambda>_. []) (get_events k d) else get_events k d)"
    "ed_connection (erase_events_by_filter key d) = ed_connection d" "m_limit (erase_events_by_filter key d) = m_limit d"
proof -
  have "data_inv (erase_events_by_filter key d) \<and>
    get_events k (erase_events_by_filter key d) = (if k = key then map_option (\<lambda>_. []) (get_events k d) else get_events k d)"
  proof (cases "get_events key d")
    case (Some es)
    have "data_inv ((set_events key [] d)\<lparr>m_eventsSize := m_eventsSize d + - int (length es)\<rparr>)"
      by (rule set_events_inv [OF assms Some]) auto
    then show ?thesis
      using Some assms get_set_events [of k key "[]" d]
      by (auto simp: erase_events_by_filter_def decrease_events_size_def get_events_def)
  qed (use assms in \<open>simp add: erase_events_by_filter_def\<close>)
  then show "data_inv (erase_events_by_filter key d)"
    "get_events k (erase_events_by_filter key d) = (if k = key then map_option (\<lambda>_. []) (get_events k d) else get_events k d)"
    by blast+
qed (auto simp: erase_events_by_filter_def decrease_events_size_def split: option.split)

lemma fail_events_by_filter_views:
  "snd (fail_events_by_filter key error d) = erase_events_by_filter key d"
  "fst (fail_events_by_filter key error d)
    = map (event_send_failed error \<circ> snd) (case get_events key d of None \<Rightarrow> [] | Some es \<Rightarrow> es)"
  by (auto simp: fail_events_by_filter_def erase_events_by_filter_def split: option.split)

lemma filter_sorted_keys: "sorted_wrt (<) (map fst es) \<Longrightarrow> sorted_wrt (<) (map fst (filter P es))"
proof (induction es)
  case (Cons e es)
  then show ?case by auto
qed simp

lemma length_filter_key:
  "distinct (map fst es) \<Longrightarrow> t \<in> fst ` set es \<Longrightarrow> Suc (length (filter (\<lambda>e. fst e \<noteq> t) es)) = length es"
proof (induction es)
  case (Cons e es)
  have "filter (\<lambda>x. fst x \<noteq> fst e) es = es" if "fst e \<notin> fst ` set es"
    using that by (metis (mono_tags, lifting) filter_id_conv imageI)
  then show ?case using Cons by (cases "fst e = t") auto
qed simp

lemma erase_event_at_views:
  assumes "data_inv d"
  shows "data_inv (erase_event_at key t d)"
    "get_events k (erase_event_at key t d)
      = (if k = key then map_option (filter (\<lambda>e. fst e \<noteq> t)) (get_events k d) else get_events k d)"
    "ed_connection (erase_event_at key t d) = ed_connection d" "m_limit (erase_event_at key t d) = m_limit d"
proof -
  have "data_inv (erase_event_at key t d) \<and> get_events k (erase_event_at key t d)
      = (if k = key then map_option (filter (\<lambda>e. fst e \<noteq> t)) (get_events k d) else get_events k d)"
  proof (cases "\<exists>es. get_events key d = Some es \<and> t \<in> fst ` set es")
    case True
    then obtain es where es: "get_events key d = Some es" "t \<in> fst ` set es" by blast
    note so = data_invD(3) [OF assms es(1)]
    have "data_inv ((set_events key (filter (\<lambda>e. fst e \<noteq> t) es) d)\<lparr>m_eventsSize := m_eventsSize d + - 1\<rparr>)"
    proof (rule set_events_inv [OF assms es(1) filter_sorted_keys [OF so]])
      fix t' ev assume "(t', ev) \<in> set (filter (\<lambda>e. fst e \<noteq> t) es)"
      then show "we_connection ev = ed_connection d"
        using in_events_connection [OF assms es(1), of t' ev] by simp
    next
      show "- 1 = int (length (filter (\<lambda>e. fst e \<noteq> t) es)) - int (length es)"
        using length_filter_key [of es t] so es(2) by (simp add: strict_sorted_iff)
    qed
    then show ?thesis
      using es get_set_events [of k key "filter (\<lambda>e. fst e \<noteq> t) es" d]
      by (auto simp: erase_event_at_def decrease_events_size_def get_events_def)
  next
    case False
    then have "erase_event_at key t d = d"
      by (auto simp: erase_event_at_def split: option.split)
    moreover have "filter (\<lambda>e. fst e \<noteq> t) es = es" if "get_events key d = Some es" for es
      using that False by (auto simp: filter_id_conv)
    ultimately show ?thesis using assms by (cases "get_events key d") auto
  qed
  then show "data_inv (erase_event_at key t d)" "get_events k (erase_event_at key t d)
      = (if k = key then map_option (filter (\<lambda>e. fst e \<noteq> t)) (get_events k d) else get_events k d)"
    by blast+
qed (auto simp: erase_event_at_def decrease_events_size_def split: option.split)

lemma erase_loop:
  assumes "distinct (map fst es)"
  shows "fold (\<lambda>t (es, n). if t \<notin> fst ` set es then (es, n) else (filter (\<lambda>e. fst e \<noteq> t) es, n + 1)) ts (es, n)
    = (filter (\<lambda>e. fst e \<notin> set ts) es, n + (int (length es) - int (length (filter (\<lambda>e. fst e \<notin> set ts) es))))"
  using assms
proof (induction ts arbitrary: es n)
  case (Cons t ts)
  have f: "filter (\<lambda>e. fst e \<notin> set ts) (filter (\<lambda>e. fst e \<noteq> t) es) = filter (\<lambda>e. fst e \<notin> set (t # ts)) es"
    by (auto intro!: filter_cong)
  show ?case
  proof (cases "t \<in> fst ` set es")
    case True
    then show ?thesis
      using Cons.IH [of "filter (\<lambda>e. fst e \<noteq> t) es" "n + 1"] Cons.prems length_filter_key [OF Cons.prems True] f
      by (simp add: distinct_map_filter)
  next
    case False
    then have "filter (\<lambda>e. fst e \<noteq> t) es = es" by (auto simp: filter_id_conv)
    then show ?thesis using Cons.IH [OF Cons.prems, of n] False f by simp
  qed
qed simp

lemma erase_by_timestamps_views:
  assumes "data_inv d"
  shows "data_inv (erase_events_by_timestamps key ts d)"
    "m_filterToEvents (erase_events_by_timestamps key ts d)
      = map (\<lambda>(k, es). (k, if k = key then filter (\<lambda>e. fst e \<notin> set ts) es else es)) (m_filterToEvents d)"
    "ed_connection (erase_events_by_timestamps key ts d) = ed_connection d"
    "m_limit (erase_events_by_timestamps key ts d) = m_limit d"
proof -
  have "data_inv (erase_events_by_timestamps key ts d) \<and>
    m_filterToEvents (erase_events_by_timestamps key ts d)
      = map (\<lambda>(k, es). (k, if k = key then filter (\<lambda>e. fst e \<notin> set ts) es else es)) (m_filterToEvents d)
    \<and> ed_connection (erase_events_by_timestamps key ts d) = ed_connection d
    \<and> m_limit (erase_events_by_timestamps key ts d) = m_limit d"
  proof (cases "get_events key d")
    case None
    then have "k \<noteq> key" if "(k, es) \<in> set (m_filterToEvents d)" for k es
      using that in_get_events [OF assms] by auto
    then have "map (\<lambda>(k, es). (k, if k = key then filter (\<lambda>e. fst e \<notin> set ts) es else es)) (m_filterToEvents d)
        = m_filterToEvents d"
      by (auto intro!: map_idI)
    then show ?thesis using assms None by (simp add: erase_events_by_timestamps_def)
  next
    case (Some es)
    let ?es = "filter (\<lambda>e. fst e \<notin> set ts) es"
    note so = data_invD(3) [OF assms Some]
    have d: "erase_events_by_timestamps key ts d
        = (set_events key ?es d)\<lparr>m_eventsSize := m_eventsSize d + (int (length ?es) - int (length es))\<rparr>"
      using Some so
      by (simp add: erase_events_by_timestamps_def erase_loop strict_sorted_iff decrease_events_size_def)
    have "data_inv ((set_events key ?es d)\<lparr>m_eventsSize := m_eventsSize d + (int (length ?es) - int (length es))\<rparr>)"
      by (rule set_events_inv [OF assms Some filter_sorted_keys [OF so] _ refl])
        (use in_events_connection [OF assms Some] in auto)
    moreover have "map (\<lambda>(k, fs). (k, if k = key then ?es else fs)) (m_filterToEvents d)
        = map (\<lambda>(k, es). (k, if k = key then filter (\<lambda>e. fst e \<notin> set ts) es else es)) (m_filterToEvents d)"
      using in_get_events [OF assms] Some by (intro map_cong) (auto split: if_splits)
    ultimately show ?thesis by (simp add: d) (simp add: set_events_def)
  qed
  then show "data_inv (erase_events_by_timestamps key ts d)"
    "m_filterToEvents (erase_events_by_timestamps key ts d)
      = map (\<lambda>(k, es). (k, if k = key then filter (\<lambda>e. fst e \<notin> set ts) es else es)) (m_filterToEvents d)"
    "ed_connection (erase_events_by_timestamps key ts d) = ed_connection d"
    "m_limit (erase_events_by_timestamps key ts d) = m_limit d"
    by blast+
qed

section \<open>The purge\<close>

text \<open>All events with the filter they are stored under.\<close>

definition placed :: "events_data \<Rightarrow> (timer \<times> filter_key) list" where
  "placed d = concat (map (\<lambda>(key, es). map (\<lambda>e. (fst e, key)) es) (m_filterToEvents d))"

lemma placed_times: "map fst (placed d) = map fst (stored_events d)"
  by (simp add: placed_def stored_events_def map_concat comp_def case_prod_beta)

lemma sorted_events_placed: "sorted_events d = fold (\<lambda>(t, key). ordered_emplace t key) (placed d) []"
proof -
  have one: "fold (\<lambda>(t, ev). ordered_emplace t key) es m = fold (\<lambda>(t, key). ordered_emplace t key) (map (\<lambda>e. (fst e, key)) es) m"
    for key es and m :: "(timer \<times> filter_key) list"
    by (induction es arbitrary: m) auto
  have "fold (\<lambda>(key, es). fold (\<lambda>(t, ev). ordered_emplace t key) es) fs m
      = fold (\<lambda>(t, key). ordered_emplace t key) (concat (map (\<lambda>(key, es). map (\<lambda>e. (fst e, key)) es) fs)) m"
    for fs :: "(filter_key \<times> event_list) list" and m :: "(timer \<times> filter_key) list"
    by (induction fs arbitrary: m) (simp_all add: one case_prod_beta)
  then show ?thesis by (simp add: sorted_events_def placed_def)
qed

lemma set_fresh_emplace:
  "k \<notin> fst ` set m \<Longrightarrow> set (ordered_emplace k v m) = insert (k, v) (set m)"
  by (induction k v m rule: ordered_emplace.induct) auto

lemma fold_emplace:
  assumes "distinct (map fst xs)" "fst ` set xs \<inter> fst ` set m = {}" "sorted_wrt (<) (map fst m)"
  shows "set (fold (\<lambda>(t, key). ordered_emplace t key) xs m) = set xs \<union> set m
    \<and> sorted_wrt (<) (map fst (fold (\<lambda>(t, key). ordered_emplace t key) xs m))"
  using assms
proof (induction xs arbitrary: m)
  case (Cons x xs)
  obtain t key where x: "x = (t, key)" by fastforce
  have "set (ordered_emplace t key m) = insert (t, key) (set m)"
    using Cons.prems(2) by (intro set_fresh_emplace) (auto simp: x)
  then show ?case
    using Cons.IH [of "ordered_emplace t key m"] Cons.prems by (auto simp: x sorted_ordered_emplace)
qed simp

text \<open>The sorted events are those that are stored, and their times the sorted times.\<close>

lemma sorted_events_views:
  assumes "distinct (map fst (stored_events d))"
  shows "set (sorted_events d) = set (placed d)" "map fst (sorted_events d) = sort (map fst (stored_events d))"
    "length (sorted_events d) = length (stored_events d)"
proof -
  have p: "set (sorted_events d) = set (placed d) \<and> sorted_wrt (<) (map fst (sorted_events d))"
    using fold_emplace [of "placed d" "[]"] assms by (simp add: sorted_events_placed placed_times)
  then show "set (sorted_events d) = set (placed d)" by blast
  have "set (map fst (sorted_events d)) = set (map fst (stored_events d))"
    using p placed_times [of d] by (metis set_map)
  then show so: "map fst (sorted_events d) = sort (map fst (stored_events d))"
    using p assms by (intro sorted_distinct_set_unique) (simp_all add: strict_sorted_iff)
  show "length (sorted_events d) = length (stored_events d)"
    using arg_cong [OF so, of length] by simp
qed

lemma placed_unique:
  assumes "distinct (map fst (stored_events d))" "(t, k) \<in> set (placed d)" "(t, k') \<in> set (placed d)"
  shows "k = k'"
  by (rule eq_key_imp_eq_value [OF _ assms(2,3)]) (simp only: placed_times assms(1))

lemma in_placed: "(k, es) \<in> set (m_filterToEvents d) \<Longrightarrow> e \<in> set es \<Longrightarrow> (fst e, k) \<in> set (placed d)"
  by (cases k) (auto simp: placed_def intro!: bexI [of _ "(k, es)"])

lemma placed_get:
  assumes "data_inv d" and "(t, key) \<in> set (placed d)"
  shows "\<exists>es. get_events key d = Some es \<and> t \<in> fst ` set es"
proof -
  have "\<exists>p \<in> set (m_filterToEvents d). (t, key) \<in> set (map (\<lambda>e. (fst e, fst p)) (snd p))"
    using assms(2) by (simp add: placed_def case_prod_beta)
  then obtain p where "p \<in> set (m_filterToEvents d)" "(t, key) \<in> (\<lambda>e. (fst e, fst p)) ` set (snd p)"
    unfolding set_map by blast
  then have "(key, snd p) \<in> set (m_filterToEvents d)" "t \<in> fst ` set (snd p)" by auto
  then show ?thesis using in_get_events [OF assms(1)] by blast
qed

text \<open>What is left when the events of a time in \<open>ts\<close> are dropped.\<close>

definition drop_times :: "timer set \<Rightarrow> events_data \<Rightarrow> (filter_key \<times> event_list) list" where
  "drop_times ts d = map (\<lambda>(k, es). (k, filter (\<lambda>e. fst e \<notin> ts) es)) (m_filterToEvents d)"

lemma erase_victims_views:
  assumes "data_inv d" and "distinct keys" and "held \<notin> Some ` set keys"
  shows "\<exists>d'. erase_victims held victims keys d = Returned d' \<and> data_inv d'
    \<and> m_filterToEvents d' = map (\<lambda>(k, es). (k, if k \<in> set keys
          then filter (\<lambda>e. (fst e, k) \<notin> set victims) es else es)) (m_filterToEvents d)
    \<and> ed_connection d' = ed_connection d \<and> m_limit d' = m_limit d"
  using assms
proof (induction keys arbitrary: d)
  case Nil
  then show ?case by (simp add: map_idI)
next
  case (Cons key keys)
  let ?ts = "map fst (filter (\<lambda>v. snd v = key) victims)"
  let ?d = "erase_events_by_timestamps key ?ts d"
  note v = erase_by_timestamps_views [OF Cons.prems(1), of key ?ts]
  have m: "t \<in> set ?ts \<longleftrightarrow> (t, key) \<in> set victims" for t by force
  obtain d' where d': "erase_victims held victims keys ?d = Returned d'" "data_inv d'"
    "m_filterToEvents d' = map (\<lambda>(k, es). (k, if k \<in> set keys
          then filter (\<lambda>e. (fst e, k) \<notin> set victims) es else es)) (m_filterToEvents ?d)"
    "ed_connection d' = ed_connection ?d" "m_limit d' = m_limit ?d"
    using Cons.IH [OF v(1)] Cons.prems(2,3) by auto
  have "m_filterToEvents d' = map (\<lambda>(k, es). (k, if k \<in> set (key # keys)
          then filter (\<lambda>e. (fst e, k) \<notin> set victims) es else es)) (m_filterToEvents d)"
    unfolding d'(3) v(2) using Cons.prems(2) m by (auto simp: case_prod_beta)
  then show ?case
    using d' Cons.prems(3) v(3,4) by auto
qed

lemma erase_victims_blocks: "held = Some key \<Longrightarrow> key \<in> set keys \<Longrightarrow> erase_victims held victims keys d = Blocked"
  by (induction keys arbitrary: d) auto

lemma drop_times_stored:
  "m_filterToEvents d' = drop_times ts d \<Longrightarrow> stored_events d' = filter (\<lambda>e. fst e \<notin> ts) (stored_events d)"
  by (simp add: stored_events_def drop_times_def filter_concat comp_def case_prod_beta)

lemma length_dropped:
  assumes "distinct (map fst xs)" and "ts \<subseteq> fst ` set xs"
  shows "length (filter (\<lambda>e. fst e \<notin> ts) xs) = length xs - card ts"
proof -
  have "length (filter (\<lambda>e. fst e \<notin> ts) xs) = card (fst ` set (filter (\<lambda>e. fst e \<notin> ts) xs))"
    using distinct_card [of "map fst (filter (\<lambda>e. fst e \<notin> ts) xs)"] assms(1) by (simp add: distinct_map_filter)
  also have "fst ` set (filter (\<lambda>e. fst e \<notin> ts) xs) = fst ` set xs - ts" by auto
  also have "card \<dots> = card (fst ` set xs) - card ts"
    using assms(2) by (intro card_Diff_subset) (auto intro: finite_subset)
  also have "card (fst ` set xs) = length xs"
    using distinct_card [OF assms(1)] by simp
  finally show ?thesis .
qed

text \<open>The times of the events a purge takes: the oldest ones.\<close>

definition purged :: "floats \<Rightarrow> events_data \<Rightarrow> timer list" where
  "purged fl d = take (nat (m_eventsSize d - m_limit d + purge_share fl d)) (sort (map fst (stored_events d)))"

lemma purge_outcome:
  assumes "data_inv d" and "distinct (map fst (stored_events d))" and "m_limit d < m_eventsSize d"
    and "purge_share fl d \<le> m_limit d"
    and "held \<notin> {Some key |key es. get_events key d = Some es \<and> fst ` set es \<inter> set (purged fl d) \<noteq> {}}"
  shows "\<exists>d'. check_limit_and_purge fl held d = Returned ([], d') \<and> data_inv d'
    \<and> m_filterToEvents d' = drop_times (set (purged fl d)) d \<and> ed_connection d' = ed_connection d \<and> m_limit d' = m_limit d"
proof -
  note inv = data_invD [OF assms(1)] and so = sorted_events_views [OF assms(2)]
  let ?n = "nat (m_eventsSize d - m_limit d + purge_share fl d)"
  let ?victims = "take ?n (sorted_events d)" and ?keys = "remdups (map snd (take ?n (sorted_events d)))"
  have n: "\<not> length (sorted_events d) < ?n"
    using assms(4) inv(5) so(3) by simp
  have t: "map fst ?victims = purged fl d"
    using so(2) by (simp add: take_map [symmetric] purged_def)
  have vp: "set ?victims \<subseteq> set (placed d)"
    unfolding so(1) [symmetric] by (rule set_take_subset)
  have v: "(t, k) \<in> set ?victims \<longleftrightarrow> t \<in> set (purged fl d)" if "(t, k) \<in> set (placed d)" for t k
  proof
    assume "t \<in> set (purged fl d)"
    then obtain k' where "(t, k') \<in> set ?victims"
      unfolding t [symmetric] set_map by auto
    then show "(t, k) \<in> set ?victims"
      using placed_unique [OF assms(2) that] vp by blast
  next
    assume "(t, k) \<in> set ?victims"
    then show "t \<in> set (purged fl d)" unfolding t [symmetric] set_map by force
  qed
  have h: "held \<notin> Some ` set ?keys"
  proof
    assume "held \<in> Some ` set ?keys"
    then obtain key t where key: "held = Some key" "(t, key) \<in> set ?victims" by auto
    have pl: "(t, key) \<in> set (placed d)" by (rule subsetD [OF vp key(2)])
    obtain es where "get_events key d = Some es" "t \<in> fst ` set es"
      using placed_get [OF assms(1) pl] by blast
    moreover have "t \<in> set (purged fl d)" using v [OF pl] key(2) by blast
    ultimately show False using assms(5) key(1) by blast
  qed
  obtain d' where d': "erase_victims held ?victims ?keys d = Returned d'" "data_inv d'"
    "m_filterToEvents d' = map (\<lambda>(k, es). (k, if k \<in> set ?keys
        then filter (\<lambda>e. (fst e, k) \<notin> set ?victims) es else es)) (m_filterToEvents d)"
    "ed_connection d' = ed_connection d" "m_limit d' = m_limit d"
    using erase_victims_views [OF assms(1) distinct_remdups h, of ?victims] by blast
  have "(k, if k \<in> set ?keys then filter (\<lambda>e. (fst e, k) \<notin> set ?victims) es else es)
      = (k, filter (\<lambda>e. fst e \<notin> set (purged fl d)) es)" if m: "(k, es) \<in> set (m_filterToEvents d)" for k es
  proof (cases "k \<in> set ?keys")
    case True
    have "filter (\<lambda>e. (fst e, k) \<notin> set ?victims) es = filter (\<lambda>e. fst e \<notin> set (purged fl d)) es"
      using v in_placed [OF m] by (intro filter_cong) auto
    then show ?thesis using True by simp
  next
    case False
    have "fst e \<notin> set (purged fl d)" if e: "e \<in> set es" for e
      using v [OF in_placed [OF m e]] False by (metis (no_types, lifting) image_eqI list.set_map set_remdups snd_conv)
    then have "filter (\<lambda>e. fst e \<notin> set (purged fl d)) es = es" by (simp add: filter_id_conv)
    then show ?thesis using False by simp
  qed
  then have "m_filterToEvents d' = drop_times (set (purged fl d)) d"
    unfolding d'(3) drop_times_def by (intro map_cong refl) auto
  then show ?thesis
    using d' n assms(3) by (simp add: check_limit_and_purge_def then_run_def Let_def)
qed

lemma purge_blocks:
  assumes "data_inv d" and "distinct (map fst (stored_events d))" and "m_limit d < m_eventsSize d"
    and "get_events key d = Some es" "fst ` set es \<inter> set (purged fl d) \<noteq> {}" and "purge_share fl d \<le> m_limit d"
  shows "check_limit_and_purge fl (Some key) d = Blocked"
proof -
  let ?n = "nat (m_eventsSize d - m_limit d + purge_share fl d)"
  let ?victims = "take ?n (sorted_events d)"
  have n: "\<not> length (sorted_events d) < ?n"
    using assms(6) data_invD(5) [OF assms(1)] sorted_events_views(3) [OF assms(2)] by simp
  obtain e where e: "e \<in> set es" "fst e \<in> set (purged fl d)" using assms(5) by auto
  have pl: "(fst e, key) \<in> set (placed d)"
    by (rule in_placed [OF iffD2 [OF in_get_events [OF assms(1)] assms(4)] e(1)])
  have "map fst ?victims = purged fl d"
    using sorted_events_views(2) [OF assms(2)] by (simp add: take_map [symmetric] purged_def)
  with e(2) have "fst e \<in> set (map fst ?victims)" by simp
  then obtain k where k: "(fst e, k) \<in> set ?victims" unfolding set_map by auto
  then have "(fst e, k) \<in> set (placed d)"
    unfolding sorted_events_views(1) [OF assms(2), symmetric] by (rule in_set_takeD)
  then have "(fst e, key) \<in> set ?victims" using placed_unique [OF assms(2) pl] k by blast
  then have "key \<in> set (remdups (map snd ?victims))" by force
  from erase_victims_blocks [OF refl this] show ?thesis
    using n assms(3) by (simp add: check_limit_and_purge_def then_run_def Let_def)
qed

section \<open>What returns keeps the invariant\<close>

lemma erase_victims_inv:
  "erase_victims held victims keys d = Returned d' \<Longrightarrow> data_inv d
    \<Longrightarrow> data_inv d' \<and> ed_connection d' = ed_connection d \<and> m_limit d' = m_limit d"
proof (induction keys arbitrary: d)
  case (Cons key keys)
  then show ?case
    using erase_by_timestamps_views [OF Cons.prems(2), of key] by (auto split: if_splits)
qed simp

lemma fail_entries_views:
  "fail_entries held used error fs d = Returned (ms, d')
    \<Longrightarrow> m_filterToEvents d' = [] \<and> m_eventsSize d' = m_eventsSize d - int (length (concat (map snd fs)))
      \<and> ed_connection d' = ed_connection d \<and> m_limit d' = m_limit d
      \<and> ms = map (event_send_failed error \<circ> snd) (concat (map snd fs))"
proof (induction fs arbitrary: d ms d')
  case (Cons p fs)
  obtain k es where p: "p = (k, es)" by (rule prod.exhaust)
  obtain ns where "fail_entries held used error fs (decrease_events_size (int (length es)) d) = Returned (ns, d')"
    "ms = map (event_send_failed error \<circ> snd) es @ ns"
    using Cons.prems by (auto simp: p then_run_def split: run.splits if_splits)
  then show ?case using Cons.IH [of "decrease_events_size (int (length es)) d" ns d'] by (simp add: p decrease_events_size_def)
qed auto

lemma purge_inv:
  assumes "check_limit_and_purge fl held d = Returned (ms, d')" and "data_inv d"
  shows "data_inv d'" "ed_connection d' = ed_connection d" "m_limit d' = m_limit d"
    "\<forall>m \<in> set ms. fst m = ed_connection d"
proof -
  have "data_inv d' \<and> ed_connection d' = ed_connection d \<and> m_limit d' = m_limit d \<and> (\<forall>m \<in> set ms. fst m = ed_connection d)"
  proof (cases "m_eventsSize d - m_limit d \<le> 0
      \<or> \<not> length (sorted_events d) < nat (m_eventsSize d - m_limit d + purge_share fl d)")
    case True
    then show ?thesis
      using assms erase_victims_inv [of held _ _ d]
      by (auto simp: check_limit_and_purge_def then_run_def Let_def split: if_splits run.splits)
  next
    case False
    then obtain used error where f: "fail_entries held used error (m_filterToEvents d) d = Returned (ms, d')"
      using assms(1) by (auto simp: check_limit_and_purge_def fail_active_events_def Let_def)
    have "\<forall>m \<in> set (map (event_send_failed error \<circ> snd) (stored_events d)). fst m = ed_connection d"
      using data_invD(4) [OF assms(2)] by (auto simp: event_send_failed_def)
    then have "\<forall>m \<in> set ms. fst m = ed_connection d"
      using fail_entries_views [OF f] by (simp add: stored_events_def)
    then show ?thesis
      using fail_entries_views [OF f] data_invD(5,6) [OF assms(2)]
      by (simp add: data_inv_def stored_events_def)
  qed
  then show "data_inv d'" "ed_connection d' = ed_connection d" "m_limit d' = m_limit d"
    "\<forall>m \<in> set ms. fst m = ed_connection d" by auto
qed

lemma length_fresh_emplace: "k \<notin> fst ` set m \<Longrightarrow> length (ordered_emplace k v m) = Suc (length m)"
  by (induction k v m rule: ordered_emplace.induct) auto

text \<open>The state in which \<open>AddEvent\<close> checks the limit.\<close>

definition with_event :: "timer \<Rightarrow> filter_key \<Rightarrow> ws_event \<Rightarrow> event_list \<Rightarrow> events_data \<Rightarrow> events_data" where
  "with_event now key ev es d =
     (set_events key (ordered_emplace now ev es) d)\<lparr>m_eventsSize := m_eventsSize d + 1\<rparr>"

lemma with_event_fields [simp]:
  "m_limit (with_event now key ev es d) = m_limit d" "ed_connection (with_event now key ev es d) = ed_connection d"
  "m_eventsSize (with_event now key ev es d) = m_eventsSize d + 1"
  "purge_share fl (with_event now key ev es d) = purge_share fl d"
  by (simp_all add: with_event_def purge_share_def)

lemma with_event_inv:
  assumes "data_inv d" and "get_events key d = Some es" and "now \<notin> fst ` set es" and "we_connection ev = ed_connection d"
  shows "data_inv (with_event now key ev es d)"
  unfolding with_event_def
proof (rule set_events_inv [OF assms(1,2) sorted_ordered_emplace [OF data_invD(3) [OF assms(1,2)]]])
  show "1 = int (length (ordered_emplace now ev es)) - int (length es)"
    by (simp add: length_fresh_emplace [OF assms(3)])
  fix t ev' assume "(t, ev') \<in> set (ordered_emplace now ev es)"
  then show "we_connection ev' = ed_connection d"
    using set_fresh_emplace [OF assms(3), of ev] in_events_connection [OF assms(1,2)] assms(4) by auto
qed

lemma add_event_eq:
  "get_events key d = Some es \<Longrightarrow> add_event fl now key ev d
    = (if now \<in> fst ` set es then Returned ([], d) else check_limit_and_purge fl (Some key) (with_event now key ev es d))"
  by (simp add: add_event_def increase_events_size_def with_event_def)

lemma add_event_inv:
  assumes "add_event fl now key ev d = Returned (ms, d')" and "data_inv d" and "we_connection ev = ed_connection d"
  shows "data_inv d'" "ed_connection d' = ed_connection d" "\<forall>m \<in> set ms. fst m = ed_connection d"
proof -
  have "data_inv d' \<and> ed_connection d' = ed_connection d \<and> (\<forall>m \<in> set ms. fst m = ed_connection d)"
  proof (cases "get_events key d")
    case None
    then show ?thesis using assms by (simp add: add_event_def)
  next
    case (Some es)
    show ?thesis
    proof (cases "now \<in> fst ` set es")
      case True
      then show ?thesis using assms Some by (simp add: add_event_eq)
    next
      case False
      then show ?thesis
        using purge_inv [of fl "Some key" "with_event now key ev es d" ms d'] with_event_inv [OF assms(2) Some False assms(3)]
          assms(1) Some by (simp add: add_event_eq)
    qed
  qed
  then show "data_inv d'" "ed_connection d' = ed_connection d" "\<forall>m \<in> set ms. fst m = ed_connection d" by auto
qed

end
