(* ===== verification/EventsDistributor.thy ===== *)
theory EventsDistributor
  imports WebSocketEventsSpec
begin

text \<open>
  The distributors of events: the contract of \<open>Handle\<close>, which singles and streams both keep, the invariant
  of every reachable distributor, and the theorems about purging, access, data and answers.
\<close>

section \<open>The states of a distributor\<close>

definition events_inv :: "events_distributor \<Rightarrow> bool" where
  "events_inv d \<longleftrightarrow>
     sorted_wrt (<) (map fst (m_connectionToEventsData d))
     \<and> (\<forall>(c, ed) \<in> set (m_connectionToEventsData d). data_inv ed \<and> ed_connection ed = c)"

definition data_of :: "events_distributor \<Rightarrow> int \<Rightarrow> events_data option" where
  "data_of d c = map_of (m_connectionToEventsData d) c"

lemma events_invD:
  assumes "events_inv d"
  shows "sorted_wrt (<) (map fst (m_connectionToEventsData d))" "distinct (map fst (m_connectionToEventsData d))"
    "(c, ed) \<in> set (m_connectionToEventsData d) \<Longrightarrow> data_inv ed"
    "(c, ed) \<in> set (m_connectionToEventsData d) \<Longrightarrow> ed_connection ed = c"
  using assms by (auto simp: events_inv_def strict_sorted_iff)

lemma data_of_inv:
  assumes "events_inv d" and "data_of d c = Some ed"
  shows "data_inv ed" "ed_connection ed = c"
  using events_invD(3,4) [OF assms(1) map_of_SomeD [OF assms(2) [unfolded data_of_def]]] by auto

lemma in_data_of: "events_inv d \<Longrightarrow> (c, ed) \<in> set (m_connectionToEventsData d) \<longleftrightarrow> data_of d c = Some ed"
  using events_invD(2) [of d] by (simp add: data_of_def map_of_eq_Some_iff)

lemma ws_send_fields [simp]:
  "m_connectionToEventsData (ws_send ms d) = m_connectionToEventsData d"
  "m_hashToHandlerData (ws_send ms d) = m_hashToHandlerData d" "m_authorization (ws_send ms d) = m_authorization d"
  "ws_sent (ws_send ms d) = ws_sent d @ ms" "data_of (ws_send ms d) = data_of d" "events_inv (ws_send ms d) = events_inv d"
  by (simp_all add: ws_send_def data_of_def events_inv_def fun_eq_iff)

lemma authorization_irrelevant [simp]:
  "events_inv (d\<lparr>m_authorization := s\<rparr>) = events_inv d" "data_of (d\<lparr>m_authorization := s\<rparr>) = data_of d"
  "events_inv (d\<lparr>m_hashToHandlerData := hs\<rparr>) = events_inv d" "data_of (d\<lparr>m_hashToHandlerData := hs\<rparr>) = data_of d"
  by (simp_all add: data_of_def events_inv_def fun_eq_iff)

lemma get_events_data_views:
  assumes "events_inv d" and "get_events_data c d = (ed, d')"
  shows "events_inv d'" "data_of d' c = Some ed" "\<And>k. k \<noteq> c \<Longrightarrow> data_of d' k = data_of d k"
    "ed = (case data_of d c of None \<Rightarrow> events_data_make c | Some ed \<Rightarrow> ed)"
    "m_hashToHandlerData d' = m_hashToHandlerData d" "m_authorization d' = m_authorization d" "ws_sent d' = ws_sent d"
proof -
  note so = events_invD(1) [OF assms(1)]
  have m: "map_of (ordered_emplace c x (m_connectionToEventsData d)) k
      = (if k = c \<and> data_of d c = None then Some x else data_of d k)" for x k
    using so by (auto simp: data_of_def map_of_ordered_emplace strict_sorted_iff)
  have "events_inv (d\<lparr>m_connectionToEventsData := ordered_emplace c (events_data_make c) (m_connectionToEventsData d)\<rparr>)"
    using assms(1) set_ordered_emplace [of c "events_data_make c" "m_connectionToEventsData d"] sorted_ordered_emplace [OF so]
    by (auto simp: events_inv_def data_inv_make events_data_make_def [of c, THEN arg_cong [where f = ed_connection]])
  then show "events_inv d'" "data_of d' c = Some ed" "\<And>k. k \<noteq> c \<Longrightarrow> data_of d' k = data_of d k"
    "ed = (case data_of d c of None \<Rightarrow> events_data_make c | Some ed \<Rightarrow> ed)"
    "m_hashToHandlerData d' = m_hashToHandlerData d" "m_authorization d' = m_authorization d" "ws_sent d' = ws_sent d"
    using assms m by (auto simp: get_events_data_def data_of_def split: option.splits)
qed

lemma put_events_data_views:
  assumes "events_inv d" and "data_inv ed" and "ed_connection ed = c"
  shows "events_inv (put_events_data c ed d)"
    "data_of (put_events_data c ed d) k = (if k = c then map_option (\<lambda>_. ed) (data_of d c) else data_of d k)"
    "m_hashToHandlerData (put_events_data c ed d) = m_hashToHandlerData d"
    "m_authorization (put_events_data c ed d) = m_authorization d" "ws_sent (put_events_data c ed d) = ws_sent d"
proof -
  have "map_of (map (\<lambda>(k, e). (k, if k = c then ed else e)) m) k
      = (if k = c then map_option (\<lambda>_. ed) (map_of m c) else map_of m k)" for m
    by (induction m) auto
  then show "data_of (put_events_data c ed d) k = (if k = c then map_option (\<lambda>_. ed) (data_of d c) else data_of d k)"
    by (simp add: data_of_def put_events_data_def)
  have "map fst (map (\<lambda>(k, e). (k, if k = c then ed else e)) (m_connectionToEventsData d)) = map fst (m_connectionToEventsData d)"
    by (simp add: comp_def case_prod_beta)
  then show "events_inv (put_events_data c ed d)"
    using assms by (auto simp: events_inv_def put_events_data_def simp del: map_map)
qed (simp_all add: put_events_data_def)

section \<open>The contract of Handle\<close>

text \<open>What happens to a request stays with its connection.\<close>

definition only_for :: "int \<Rightarrow> events_distributor \<Rightarrow> events_distributor \<Rightarrow> bool" where
  "only_for c d d' \<longleftrightarrow>
     events_inv d' \<and> (\<forall>k. k \<noteq> c \<longrightarrow> data_of d' k = data_of d k) \<and> m_hashToHandlerData d' = m_hashToHandlerData d
     \<and> (\<exists>ms. ws_sent d' = ws_sent d @ ms \<and> (\<forall>m \<in> set ms. fst m = c))"

lemma only_for_refl [simp]: "events_inv d \<Longrightarrow> only_for c d d"
  by (simp add: only_for_def)

lemma only_for_send: "only_for c d d' \<Longrightarrow> \<forall>m \<in> set ms. fst m = c \<Longrightarrow> only_for c d (ws_send ms d')"
  by (auto simp: only_for_def)

lemma only_for_trans: "only_for c d d' \<Longrightarrow> only_for c d' d'' \<Longrightarrow> only_for c d d''"
  by (fastforce simp: only_for_def)

lemma store_event_only_for:
  assumes "events_inv d" and "store_event e hash flt ev d = Returned d'"
  shows "only_for (we_connection ev) d d'" "m_authorization d' = m_authorization d"
proof -
  let ?c = "we_connection ev"
  obtain ed d1 where g: "get_events_data ?c d = (ed, d1)" by fastforce
  note v = get_events_data_views [OF assms(1) g]
  note ed = data_of_inv [OF v(1,2)]
  obtain ms ed' where a: "add_event (ee_floats e) (ee_now e) (hash, flt) ev (create_events (hash, flt) ed) = Returned (ms, ed')"
    "d' = ws_send ms (put_events_data ?c ed' d1)"
    using assms(2) g by (auto simp: store_event_def then_run_def split: run.splits)
  have i: "data_inv ed'" "ed_connection ed' = ?c" "\<forall>m \<in> set ms. fst m = ?c"
    using add_event_inv [OF a(1) create_events_views(1) [OF ed(1)]] ed(2) by simp_all
  show "only_for ?c d d'"
    using put_events_data_views [OF v(1) i(1,2)] v i(3) a(2) by (auto simp: only_for_def)
  show "m_authorization d' = m_authorization d"
    using put_events_data_views(4) [OF v(1) i(1,2)] v(6) a(2) by simp
qed

locale event_handling =
  fixes handle :: handle
  assumes handle_only_for: "events_inv d \<Longrightarrow> handle e uid hash flt connection json hdl d = Returned d' \<Longrightarrow> only_for connection d d'"
    and handle_authorization: "events_inv d \<Longrightarrow> handle e uid hash flt connection json hdl d = Returned d'
      \<Longrightarrow> m_authorization d' = m_authorization d"

context event_handling begin

lemma collect_only_for:
  assumes "events_inv d" and "collect_event handle e uid hash connection json d = Returned d'"
  shows "only_for connection d d'"
proof (cases "interrupts json")
  case True
  obtain ed d1 where g: "get_events_data connection d = (ed, d1)" by fastforce
  note v = get_events_data_views [OF assms(1) g]
  note ed = data_of_inv [OF v(1,2)]
  have "data_inv (snd (erase_event_in uid fs ed)) \<and> ed_connection (snd (erase_event_in uid fs ed)) = connection" for fs
    using ed erase_event_at_views [OF ed(1)] by (induction fs) (auto simp: Let_def)
  then have i: "data_inv (snd (erase_event uid ed))" "ed_connection (snd (erase_event uid ed)) = connection"
    by (simp_all add: erase_event_def)
  then show ?thesis
    using put_events_data_views [OF v(1) i] v assms(2) g True by (auto simp: collect_event_def only_for_def)
next
  case False
  note n = False
  show ?thesis
  proof (cases "map_of (m_hashToHandlerData d) hash")
    case None
    then show ?thesis using assms n by (auto simp: collect_event_def intro!: only_for_send)
  next
    case (Some hdl)
    show ?thesis
    proof (cases "hd_isPermissionRequired hdl")
      case False
      then show ?thesis using assms n Some handle_only_for by (simp add: collect_event_def)
    next
      case True
      obtain granted s where g: "is_access_granted (ee_auth e) connection (hd_grade hdl) (m_authorization d) = (granted, s)"
        by fastforce
      have o: "only_for connection d (d\<lparr>m_authorization := s\<rparr>)"
        using assms(1) by (simp add: only_for_def)
      show ?thesis
      proof (cases granted)
        case True
        then show ?thesis
          using assms n Some \<open>hd_isPermissionRequired hdl\<close> g o
            handle_only_for [of "d\<lparr>m_authorization := s\<rparr>" e uid hash "identity_filter json" connection json hdl d']
          by (auto simp: collect_event_def intro: only_for_trans)
      next
        case False
        then show ?thesis
          using assms n Some \<open>hd_isPermissionRequired hdl\<close> g o by (auto simp: collect_event_def intro!: only_for_send)
      qed
    qed
  qed
qed

end

interpretation singles: event_handling handle_single
proof
  fix d e uid hash flt connection json hdl d'
  assume "events_inv d" and "handle_single e uid hash flt connection json hdl d = Returned d'"
  then show "only_for connection d d'" "m_authorization d' = m_authorization d"
    using store_event_only_for [of d e hash flt "\<lparr>we_uid = uid, we_json = json, we_connection = connection\<rparr>" d']
    by (auto simp: handle_single_def Let_def intro!: only_for_send split: prod.splits handle_result.splits)
qed

interpretation streams: event_handling handle_stream
proof
  fix d e uid hash flt connection json hdl d'
  let ?ev = "\<lparr>we_uid = uid, we_json = json, we_connection = connection\<rparr>"
  assume inv: "events_inv d" and r: "handle_stream e uid hash flt connection json hdl d = Returned d'"
  have o: "only_for connection d (ws_send [(connection, state_payload EsOpened uid)] d)"
    using inv by (auto intro!: only_for_send)
  have st: "only_for connection d d1 \<and> m_authorization d1 = m_authorization d"
    if "store_event e hash flt ?ev (ws_send [(connection, state_payload EsOpened uid)] d) = Returned d1" for d1
    using store_event_only_for [OF _ that] inv only_for_trans [OF o] by auto
  show "only_for connection d d'"
    using r inv st
    by (auto simp: handle_stream_def then_run_def Let_def intro!: only_for_send
        split: prod.splits handle_result.splits run.splits)
  show "m_authorization d' = m_authorization d"
    using r inv st
    by (auto simp: handle_stream_def then_run_def Let_def split: prod.splits handle_result.splits run.splits)
qed

section \<open>Operations on all connections\<close>

lemma on_connections_views:
  assumes "events_inv d" and "\<And>ed. data_inv ed \<Longrightarrow> data_inv (f ed) \<and> ed_connection (f ed) = ed_connection ed"
    and "d' = d\<lparr>m_connectionToEventsData := map (\<lambda>(c, ed). (c, f ed)) (m_connectionToEventsData d)\<rparr>"
  shows "events_inv d'" "data_of d' c = map_option f (data_of d c)"
proof -
  have "map fst (map (\<lambda>(c, ed). (c, f ed)) (m_connectionToEventsData d)) = map fst (m_connectionToEventsData d)"
    by (simp add: comp_def case_prod_beta)
  then show "events_inv d'"
    using assms(1,2) by (auto simp: events_inv_def assms(3) simp del: map_map)
  have "map_of (map (\<lambda>(c, ed). (c, f ed)) m) c = map_option f (map_of m c)" for m
    by (induction m) auto
  then show "data_of d' c = map_option f (data_of d c)"
    by (simp add: data_of_def assms(3))
qed

lemma erase_on_connections_views:
  assumes "events_inv d"
  shows "events_inv (erase_events_on_connections key d)"
    "data_of (erase_events_on_connections key d) c = map_option (erase_events_by_filter key) (data_of d c)"
    "ws_sent (erase_events_on_connections key d) = ws_sent d"
  using on_connections_views [OF assms, of "erase_events_by_filter key"] erase_events_by_filter_views
  by (auto simp: erase_events_on_connections_def)

lemma fail_on_connections_views:
  assumes "events_inv d"
  shows "events_inv (fail_events_on_connections key error d)"
    "data_of (fail_events_on_connections key error d) c = map_option (erase_events_by_filter key) (data_of d c)"
proof -
  have d: "fail_events_on_connections key error d = ws_send (concat (map (\<lambda>(c, ed). fst (fail_events_by_filter key error ed))
      (m_connectionToEventsData d))) (erase_events_on_connections key d)"
    by (simp add: fail_events_on_connections_def erase_events_on_connections_def fail_events_by_filter_views(1))
  show "events_inv (fail_events_on_connections key error d)"
    "data_of (fail_events_on_connections key error d) c = map_option (erase_events_by_filter key) (data_of d c)"
    using erase_on_connections_views [OF assms] by (simp_all add: d)
qed

lemma send_event_data_inv:
  assumes "events_inv d"
  shows "events_inv (snd (send_event_data key src d))"
  using assms fail_on_connections_views(1) [OF assms]
  by (auto simp: send_event_data_def Let_def split: data_source.split bool.split)

lemma check_delayed_inv:
  assumes "events_inv d"
  shows "events_inv (check_delayed key src d)"
proof -
  obtain r d' where d': "send_event_data key src d = (r, d')" by fastforce
  then have "events_inv d'" using send_event_data_inv [OF assms, of key src] by simp
  then show ?thesis
    using erase_on_connections_views(1) [of d' key] d' by (cases r) (simp_all add: check_delayed_def)
qed

section \<open>Reachable distributors\<close>

inductive events_reachable :: "events_distributor \<Rightarrow> bool" where
  er_make: "events_reachable (events_distributor_make s)"
| er_authorization: "events_reachable d \<Longrightarrow> events_reachable (d\<lparr>m_authorization := s\<rparr>)"
| er_permissions: "events_reachable d \<Longrightarrow> events_reachable (set_handler_with_permissions hash h grade d)"
| er_no_permissions: "events_reachable d \<Longrightarrow> events_reachable (set_handler_without_permissions hash h d)"
| er_single: "events_reachable d \<Longrightarrow> collect_event handle_single e uid hash c json d = Returned d' \<Longrightarrow> events_reachable d'"
| er_stream: "events_reachable d \<Longrightarrow> collect_event handle_stream e uid hash c json d = Returned d' \<Longrightarrow> events_reachable d'"
| er_send: "events_reachable d \<Longrightarrow> events_reachable (snd (send_event_data key src d))"
| er_delayed: "events_reachable d \<Longrightarrow> events_reachable (check_delayed key src d)"
| er_clear: "events_reachable d \<Longrightarrow> events_reachable (clear_active_events_for_connection c d)"
| er_fail: "events_reachable d \<Longrightarrow> fail_all_active_events error d = Returned d' \<Longrightarrow> events_reachable d'"
| er_limit: "events_reachable d \<Longrightarrow> get_events_data c d = (ed, d1) \<Longrightarrow> set_limit fl n ed = Returned (b, ms, ed')
    \<Longrightarrow> events_reachable (ws_send ms (put_events_data c ed' d1))"
| er_coefficient: "events_reachable d \<Longrightarrow> get_events_data c d = (ed, d1)
    \<Longrightarrow> events_reachable (put_events_data c (snd (set_purging_coefficient fl x ed)) d1)"

lemma set_limit_views:
  assumes "set_limit fl n ed = Returned (b, ms, ed')" and "data_inv ed"
  shows "data_inv ed'" "ed_connection ed' = ed_connection ed"
proof -
  have i: "64 \<le> n \<Longrightarrow> data_inv (ed\<lparr>m_limit := n\<rparr>)" using assms(2) by simp
  have "data_inv ed' \<and> ed_connection ed' = ed_connection ed"
    using assms i purge_inv [of fl None "ed\<lparr>m_limit := n\<rparr>" ms ed']
    by (auto simp: set_limit_def then_run_def Let_def split: if_splits run.splits)
  then show "data_inv ed'" "ed_connection ed' = ed_connection ed" by auto
qed

lemma events_reachable_inv: "events_reachable d \<Longrightarrow> events_inv d"
proof (induction rule: events_reachable.induct)
  case (er_make s)
  then show ?case by (simp add: events_inv_def events_distributor_make_def)
next
  case (er_single d e uid hash c json d')
  then show ?case using singles.collect_only_for by (simp add: only_for_def)
next
  case (er_stream d e uid hash c json d')
  then show ?case using streams.collect_only_for by (simp add: only_for_def)
next
  case (er_clear d c)
  have "sorted_wrt (<) (map fst (filter P m))" if "sorted_wrt (<) (map fst m)" for P and m :: "(int \<times> events_data) list"
    using that by (induction m) auto
  then show ?case using er_clear.IH by (auto simp: events_inv_def clear_active_events_for_connection_def)
next
  case (er_fail d error d')
  then show ?case
    by (auto simp: fail_all_active_events_def then_run_def events_inv_def split: run.splits)
next
  case (er_limit d c ed d1 fl n b ms ed')
  note v = get_events_data_views [OF er_limit.IH er_limit.hyps(2)]
  note ed = data_of_inv [OF v(1,2)]
  show ?case
    using put_events_data_views(1) [OF v(1)] set_limit_views [OF er_limit.hyps(3) ed(1)] ed(2) by simp
next
  case (er_coefficient d c ed d1 fl x)
  note v = get_events_data_views [OF er_coefficient.IH er_coefficient.hyps(2)]
  note ed = data_of_inv [OF v(1,2)]
  have "data_inv (snd (set_purging_coefficient fl x ed))" "ed_connection (snd (set_purging_coefficient fl x ed)) = c"
    using ed by (simp_all add: set_purging_coefficient_def)
  then show ?case by (rule put_events_data_views(1) [OF v(1)])
qed (simp_all add: set_handler_with_permissions_def set_handler_without_permissions_def send_event_data_inv check_delayed_inv)

text \<open>
  C26: In every state a distributor reaches, the counter of a connection is the number of its stored events,
  its limit is at least 64, an event is stored under its own connection, and the events of a filter have
  increasing times.
\<close>

theorem events_are_counted:
  assumes "events_reachable d" and "data_of d c = Some ed"
  shows "m_eventsSize ed = int (length (stored_events ed)) \<and> 64 \<le> m_limit ed
    \<and> (\<forall>(t, ev) \<in> set (stored_events ed). we_connection ev = c)
    \<and> (\<forall>key es. get_events key ed = Some es \<longrightarrow> sorted_wrt (<) (map fst es))"
  using data_invD(3-6) [OF data_of_inv(1) [OF events_reachable_inv [OF assms(1)] assms(2)]]
    data_of_inv(2) [OF events_reachable_inv [OF assms(1)] assms(2)]
  by fastforce

text \<open>
  C14: A request of a connection changes the stored events of that connection only, and every message it
  causes goes to that connection, whether it is answered, delayed, refused, interrupted or makes the
  connection purge its events.
\<close>

theorem requests_stay_with_their_connection:
  assumes "events_reachable d" and "handle = handle_single \<or> handle = handle_stream"
    and "collect_event handle e uid hash c json d = Returned d'"
  shows "(\<forall>k. k \<noteq> c \<longrightarrow> data_of d' k = data_of d k) \<and> m_hashToHandlerData d' = m_hashToHandlerData d
    \<and> (\<exists>ms. ws_sent d' = ws_sent d @ ms \<and> (\<forall>m \<in> set ms. fst m = c))"
  using singles.collect_only_for [OF events_reachable_inv [OF assms(1)]]
    streams.collect_only_for [OF events_reachable_inv [OF assms(1)]] assms(2,3)
  unfolding only_for_def by blast

section \<open>Access\<close>

text \<open>
  C15: An event with required permissions that is not an interruption is only handled for a connection on
  which an account is logged on whose grade is high enough: otherwise no event is stored or changed and the
  only message is the refusal, to this connection.
\<close>

theorem events_need_access:
  assumes "map_of (m_hashToHandlerData d) hash = Some hdl" and "hd_isPermissionRequired hdl" and "\<not> interrupts json"
    and "collect_event handle e uid hash c json d = r"
    and "r \<noteq> Returned (ws_send [(c, failed_payload uid ''Access is not granted'')]
      (d\<lparr>m_authorization := snd (is_access_granted (ee_auth e) c (hd_grade hdl) (m_authorization d))\<rparr>))"
  shows "\<exists>i. map_of (m_logonConnectionToAccountData (m_authorization d)) c = Some i
    \<and> hd_grade hdl \<le> m_grade (object (m_authorization d) i)
    \<and> r = handle e uid hash (identity_filter json) c json hdl
        (d\<lparr>m_authorization := snd (is_access_granted (ee_auth e) c (hd_grade hdl) (m_authorization d))\<rparr>)"
  using assms
  by (auto simp: collect_event_def is_access_granted_def Let_def split: option.splits prod.splits if_splits)

section \<open>Sending data\<close>

lemma uids_header_length [simp]: "length (uids_header uids) = length uids + 9"
  by (simp add: uids_header_def quote_def)

text \<open>Writing the header into the room in front of the block gives the same text as joining them.\<close>

lemma fill_headers_eq:
  assumes "\<forall>(c, uids) \<in> set ds. length uids + 9 \<le> room" and "length pre = room"
  shows "fill_headers room ds (pre @ tail) = map (\<lambda>(c, uids). (c, uids_header uids @ tail)) ds"
  using assms
proof (induction ds arbitrary: pre)
  case (Cons p ds)
  obtain c uids where p: "p = (c, uids)" by fastforce
  let ?shift = "room - (length uids + 9)"
  have l: "length uids + 9 \<le> room" using Cons.prems(1) by (simp add: p)
  have b: "take ?shift (pre @ tail) @ take (length uids + 9) (uids_header uids) @ drop (?shift + (length uids + 9)) (pre @ tail)
      = (take ?shift pre @ uids_header uids) @ tail"
    using l Cons.prems(2) by simp
  have "fill_headers room ds ((take ?shift pre @ uids_header uids) @ tail) = map (\<lambda>(c, uids). (c, uids_header uids @ tail)) ds"
    by (rule Cons.IH) (use Cons.prems l in auto)
  then show ?case
    using l Cons.prems(2) b by (simp add: p Let_def)
qed simp

lemma fold_max:
  fixes ds :: "(int \<times> string) list"
  defines "f \<equiv> \<lambda>(c :: int, uids :: string) m. if m < length uids then length uids else m"
  shows "m \<le> fold f ds m" "(c, uids) \<in> set ds \<Longrightarrow> length uids \<le> fold f ds m"
proof -
  have "m \<le> fold f ds m \<and> (\<forall>(c, uids) \<in> set ds. length uids \<le> fold f ds m)"
  proof (induction ds arbitrary: m)
    case (Cons p ds)
    show ?case
      using Cons.IH [of "f p m"] by (cases p) (auto simp: f_def split: if_splits)
  qed simp
  then show "m \<le> fold f ds m" "(c, uids) \<in> set ds \<Longrightarrow> length uids \<le> fold f ds m" by auto
qed

lemma fold_max_le:
  assumes "\<forall>(c, uids) \<in> set ds. length uids < n" and "m < n"
  shows "fold (\<lambda>(c :: int, uids :: string) m. if m < length uids then length uids else m) ds m < n"
  using assms
proof (induction ds arbitrary: m)
  case (Cons p ds)
  then show ?case by (cases p) auto
qed simp

text \<open>The connections with events of a filter, and the events.\<close>

definition waiting :: "filter_key \<Rightarrow> events_distributor \<Rightarrow> (int \<times> event_list) list" where
  "waiting key d = List.map_filter (\<lambda>(c, ed). case get_events key ed of
       None \<Rightarrow> None | Some es \<Rightarrow> if es = [] then None else Some (c, es)) (m_connectionToEventsData d)"

definition uids_of :: "event_list \<Rightarrow> string" where
  "uids_of es = join_uids (map (\<lambda>e. show_nat (unat (we_uid (snd e)))) es)"

lemma destinations_waiting:
  assumes "events_inv d"
  shows "destinations_of (get_events_array key d) = map (\<lambda>(c, es). (c, uids_of es)) (waiting key d)"
proof -
  have "map destination_of (filter (\<lambda>es. es \<noteq> []) (List.map_filter (\<lambda>(c, ed). get_events key ed) m))
      = map (\<lambda>(c, es). (c, uids_of es)) (List.map_filter (\<lambda>(c, ed). case get_events key ed of
          None \<Rightarrow> None | Some es \<Rightarrow> if es = [] then None else Some (c, es)) m)"
    if "\<forall>(c, ed) \<in> set m. data_inv ed \<and> ed_connection ed = c" for m
    using that
  proof (induction m)
    case (Cons p m)
    obtain c ed where p: "p = (c, ed)" by fastforce
    have "we_connection (snd (hd es)) = c" if "get_events key ed = Some es" "es \<noteq> []" for es
      using in_events_connection [of ed key es "fst (hd es)" "snd (hd es)"] that Cons.prems by (simp add: p)
    then show ?case
      using Cons by (auto simp: p List.map_filter_simps destination_of_def uids_of_def split: option.split)
  qed (simp add: List.map_filter_simps)
  then show ?thesis
    using assms unfolding destinations_of_def get_events_array_def waiting_def events_inv_def by blast
qed

lemma get_events_array_empty: "get_events_array key d = [] \<Longrightarrow> waiting key d = []"
proof -
  have "List.map_filter (\<lambda>(c, ed). get_events key ed) m = [] \<Longrightarrow> List.map_filter (\<lambda>(c, ed). case get_events key ed of
       None \<Rightarrow> None | Some es \<Rightarrow> if es = [] then None else Some (c, es)) m = []" for m :: "(int \<times> events_data) list"
    by (induction m) (auto simp: List.map_filter_simps split: option.splits)
  then show "get_events_array key d = [] \<Longrightarrow> waiting key d = []"
    by (simp add: get_events_array_def waiting_def)
qed

definition data_messages :: "filter_key \<Rightarrow> string \<Rightarrow> events_distributor \<Rightarrow> (int \<times> string) list" where
  "data_messages key text d = map (\<lambda>(c, es). (c, uids_header (uids_of es) @ data_key @ text @ ''}'')) (waiting key d)"

lemma send_event_data_eq:
  assumes "events_inv d" and "\<forall>(c, es) \<in> set (waiting key d). length (uids_of es) + 9 < 2 ^ 63"
    and "src = GivenData text \<or> src = MadeData True text"
  shows "send_event_data key src d
    = (if waiting key d = [] then (SendNothing, d) else (SendSuccess, ws_send (data_messages key text d) d))"
proof (cases "waiting key d = []")
  case True
  then show ?thesis using destinations_waiting [OF assms(1), of key] by (auto simp: send_event_data_def Let_def)
next
  case False
  let ?ds = "map (\<lambda>(c, es). (c, uids_of es)) (waiting key d)"
  let ?max = "fold (\<lambda>(c, uids) m. if m < length uids then length uids else m) ?ds 0"
  have a: "get_events_array key d \<noteq> []" using get_events_array_empty False by blast
  have "\<forall>(c, uids) \<in> set ?ds. length uids < 2 ^ 63 - 9" using assms(2) by (auto simp: less_diff_conv)
  then have "?max < 2 ^ 63 - 9" by (rule fold_max_le) simp
  then have m: "\<not> 2 ^ 63 \<le> ?max + 9" by simp
  have "fill_headers (?max + 9) ?ds (replicate (?max + 9) (CHR '' '') @ data_key @ text @ ''}'')
      = map (\<lambda>(c, uids). (c, uids_header uids @ data_key @ text @ ''}'')) ?ds"
  proof (rule fill_headers_eq)
    have le: "length uids \<le> ?max" if "(c, uids) \<in> set ?ds" for c uids by (rule fold_max(2) [OF that])
    show "\<forall>(c, uids) \<in> set ?ds. length uids + 9 \<le> ?max + 9"
    proof (intro ballI case_prodI2)
      fix p c uids assume "p \<in> set ?ds" and "p = (c, uids)"
      then have "(c, uids) \<in> set ?ds" by (simp only:)
      from le [OF this] show "length uids + 9 \<le> ?max + 9" by linarith
    qed
  qed simp
  also have "\<dots> = data_messages key text d"
    by (simp add: data_messages_def comp_def case_prod_beta)
  finally show ?thesis
    using False a m assms(3)
    unfolding send_event_data_def Let_def destinations_waiting [OF assms(1)] by auto
qed

text \<open>
  C13: \<open>SendData\<close> sends exactly one message to each connection with events of the filter, with the identifiers
  of these events in the order of their arrival and the data behind them; no event changes. When the data
  cannot be made, each of these events is failed with the error and removed instead.
\<close>

theorem data_reaches_waiting_events:
  assumes "events_reachable d" and "\<forall>(c, es) \<in> set (waiting key d). length (uids_of es) + 9 < 2 ^ 63"
    and "waiting key d \<noteq> []"
  shows "send_event_data key (GivenData text) d = (SendSuccess, ws_send (data_messages key text d) d)
    \<and> send_event_data key (MadeData True text) d = (SendSuccess, ws_send (data_messages key text d) d)
    \<and> fst (send_event_data key (MadeData False error) d) = SendFail
    \<and> ws_sent (snd (send_event_data key (MadeData False error) d))
      = ws_sent d @ concat (map (\<lambda>(c, es). map (\<lambda>e. (c, failed_payload (we_uid (snd e)) error)) es) (waiting key d))
    \<and> waiting key (snd (send_event_data key (MadeData False error) d)) = []"
proof -
  note inv = events_reachable_inv [OF assms(1)]
  let ?ds = "map (\<lambda>(c, es). (c, uids_of es)) (waiting key d)"
  have a: "get_events_array key d \<noteq> []" using get_events_array_empty assms(3) by blast
  have "\<forall>(c, uids) \<in> set ?ds. length uids < 2 ^ 63 - 9" using assms(2) by (auto simp: less_diff_conv)
  then have "fold (\<lambda>(c, uids) m. if m < length uids then length uids else m) ?ds 0 < 2 ^ 63 - 9" by (rule fold_max_le) simp
  then have f: "send_event_data key (MadeData False error) d = (SendFail, fail_events_on_connections key error d)"
    using a assms(3) unfolding send_event_data_def Let_def destinations_waiting [OF inv] by auto
  have "concat (map (\<lambda>(c, ed). fst (fail_events_by_filter key error ed)) m)
      = concat (map (\<lambda>(c, es). map (\<lambda>e. (c, failed_payload (we_uid (snd e)) error)) es)
          (List.map_filter (\<lambda>(c, ed). case get_events key ed of
             None \<Rightarrow> None | Some es \<Rightarrow> if es = [] then None else Some (c, es)) m))"
    if "\<forall>(c, ed) \<in> set m. data_inv ed \<and> ed_connection ed = c" for m
    using that
  proof (induction m)
    case (Cons p m)
    obtain c ed where p: "p = (c, ed)" by fastforce
    have "map (event_send_failed error \<circ> snd) es = map (\<lambda>e. (c, failed_payload (we_uid (snd e)) error)) es"
      if "get_events key ed = Some es" for es
      using in_events_connection [of ed key es] that Cons.prems by (auto simp: p event_send_failed_def)
    then show ?case
      using Cons by (auto simp: p List.map_filter_simps fail_events_by_filter_views(2) split: option.split)
  qed (simp add: List.map_filter_simps)
  then have s: "ws_sent (fail_events_on_connections key error d)
      = ws_sent d @ concat (map (\<lambda>(c, es). map (\<lambda>e. (c, failed_payload (we_uid (snd e)) error)) es) (waiting key d))"
    using inv unfolding waiting_def events_inv_def by (simp add: fail_events_on_connections_def)
  have "List.map_filter (\<lambda>(c, ed). case get_events key ed of
       None \<Rightarrow> None | Some es \<Rightarrow> if es = [] then None else Some (c, es)) (map (\<lambda>(c, ed). (c, erase_events_by_filter key ed)) m) = []"
    if "\<forall>(c, ed) \<in> set m. data_inv ed \<and> ed_connection ed = c" for m
    using that
    by (induction m) (auto simp: List.map_filter_simps erase_events_by_filter_views(2) split: option.splits)
  then have w: "waiting key (fail_events_on_connections key error d) = []"
    using inv unfolding waiting_def events_inv_def
    by (simp add: fail_events_on_connections_def fail_events_by_filter_views(1))
  show ?thesis
    using send_event_data_eq [OF inv assms(2), of "GivenData text" "text"]
      send_event_data_eq [OF inv assms(2), of "MadeData True text" "text"] assms(3) f s w by simp
qed

text \<open>
  C12: \<open>CheckDelayed\<close> answers every delayed request of a filter exactly once: each is in the one message of its
  connection, and then none of them is stored any more, while the events of other filters are untouched.
\<close>

theorem delayed_are_answered_once:
  assumes "events_reachable d" and "\<forall>(c, es) \<in> set (waiting key d). length (uids_of es) + 9 < 2 ^ 63"
    and "waiting key d \<noteq> []" and "src = GivenData text \<or> src = MadeData True text"
  shows "ws_sent (check_delayed key src d) = ws_sent d @ data_messages key text d
    \<and> distinct (map fst (data_messages key text d))
    \<and> (\<forall>c k. map_option (get_events k) (data_of (check_delayed key src d) c)
        = (if k = key then map_option (map_option (\<lambda>_. []) \<circ> get_events k) (data_of d c)
           else map_option (get_events k) (data_of d c)))"
proof -
  note inv = events_reachable_inv [OF assms(1)]
  let ?d = "ws_send (data_messages key text d) d"
  have c: "check_delayed key src d = erase_events_on_connections key ?d"
    using send_event_data_eq [OF inv assms(2,4)] assms(3) by (simp add: check_delayed_def)
  have i: "events_inv ?d" using inv by simp
  have m: "set (map fst (List.map_filter (\<lambda>(c, ed). case get_events key ed of
       None \<Rightarrow> None | Some es \<Rightarrow> if es = [] then None else Some (c, es)) m)) \<subseteq> fst ` set m" for m :: "(int \<times> events_data) list"
    by (induction m) (auto simp: List.map_filter_simps split: option.splits if_splits)
  have "distinct (map fst (List.map_filter (\<lambda>(c, ed). case get_events key ed of
       None \<Rightarrow> None | Some es \<Rightarrow> if es = [] then None else Some (c, es)) m))"
    if "distinct (map fst m)" for m :: "(int \<times> events_data) list"
    using that
  proof (induction m)
    case (Cons p m)
    then show ?case using m [of m] by (cases p) (auto simp: List.map_filter_simps split: option.splits if_splits)
  qed (simp add: List.map_filter_simps)
  then have "distinct (map fst (waiting key d))"
    using events_invD(2) [OF inv] by (simp only: waiting_def)
  then have "distinct (map fst (data_messages key text d))"
    by (simp add: data_messages_def comp_def case_prod_beta)
  moreover have "map_option (get_events k) (data_of (check_delayed key src d) c)
        = (if k = key then map_option (map_option (\<lambda>_. []) \<circ> get_events k) (data_of d c)
           else map_option (get_events k) (data_of d c))" for c k
  proof (cases "data_of d c")
    case (Some ed)
    then show ?thesis
      using erase_on_connections_views(2) [OF i, of key c] erase_events_by_filter_views(2) [OF data_of_inv(1) [OF inv Some]]
      by (auto simp: c)
  qed (use erase_on_connections_views(2) [OF i, of key c] c in simp)
  ultimately show ?thesis
    using erase_on_connections_views(3) [OF i, of key] c by simp
qed

section \<open>Interruptions\<close>

lemma timer_zero_empty: "timer_empty (timer_of 0)"
  by (simp add: timer_empty_def timer_of_def timer_ns_def)

lemma find_uid_cases:
  "find_uid uid es = timer_of 0 \<and> (\<forall>(t, ev) \<in> set es. we_uid ev \<noteq> uid)
    \<or> (\<exists>ev. (find_uid uid es, ev) \<in> set es \<and> we_uid ev = uid)"
  by (induction uid es rule: find_uid.induct) auto

lemma erase_event_in_finds:
  assumes "data_inv ed" and "set fs \<subseteq> set (m_filterToEvents ed)" and "(key, es) \<in> set fs" "(t, ev) \<in> set es" "we_uid ev = uid"
    and "\<And>k es' t' ev'. get_events k ed = Some es' \<Longrightarrow> (t', ev') \<in> set es' \<Longrightarrow> we_uid ev' = uid \<Longrightarrow> k = key \<and> t' = t"
    and "\<not> timer_empty t"
  shows "erase_event_in uid fs ed = (True, erase_event_at key t ed)"
  using assms(2,3)
proof (induction fs)
  case (Cons p fs)
  obtain k fs' where p: "p = (k, fs')" by (rule prod.exhaust)
  have g: "get_events k ed = Some fs'" using Cons.prems(1) in_get_events [OF assms(1), of k fs'] by (simp add: p)
  show ?case
  proof (cases "\<exists>t' ev'. (t', ev') \<in> set fs' \<and> we_uid ev' = uid")
    case True
    then have "\<not> (\<forall>(t, ev) \<in> set fs'. we_uid ev \<noteq> uid)" by auto
    then obtain ev' where "(find_uid uid fs', ev') \<in> set fs'" "we_uid ev' = uid"
      using find_uid_cases [of uid fs'] by blast
    then have "k = key" "find_uid uid fs' = t" using assms(6) [OF g] by auto
    then show ?thesis using assms(7) by (simp add: p)
  next
    case False
    then have "find_uid uid fs' = timer_of 0"
      using find_uid_cases [of uid fs'] by blast
    moreover have "(key, es) \<in> set fs" using False Cons.prems(2) assms(4,5) by (auto simp: p)
    ultimately show ?thesis using Cons timer_zero_empty by (simp add: p)
  qed
qed simp

text \<open>
  An interruption removes the event with the given identifier from the events of its own connection,
  whatever its filter, and nothing else, when no other event of the connection has this identifier; nothing
  is sent, and no permission is asked for.
\<close>

theorem interruption_removes_event:
  assumes "events_reachable d" and "interrupts json" and "data_of d c = Some ed"
    and "get_events key ed = Some es" "(t, ev) \<in> set es" "we_uid ev = uid" "\<not> timer_empty t"
    and "\<And>k es' t' ev'. get_events k ed = Some es' \<Longrightarrow> (t', ev') \<in> set es' \<Longrightarrow> we_uid ev' = uid \<Longrightarrow> k = key \<and> t' = t"
  shows "\<exists>d' ed'. collect_event handle e uid hash c json d = Returned d' \<and> data_of d' c = Some ed'
    \<and> (\<forall>k. get_events k ed' = (if k = key then Some (filter (\<lambda>e. fst e \<noteq> t) es) else get_events k ed))
    \<and> (\<forall>k. k \<noteq> c \<longrightarrow> data_of d' k = data_of d k) \<and> ws_sent d' = ws_sent d"
proof -
  note inv = events_reachable_inv [OF assms(1)]
  note ed = data_of_inv [OF inv assms(3)]
  have g: "get_events_data c d = (ed, d)"
    using assms(3) by (simp add: get_events_data_def data_of_def)
  have "(key, es) \<in> set (m_filterToEvents ed)" using in_get_events [OF ed(1)] assms(4) by simp
  then have "erase_event uid ed = (True, erase_event_at key t ed)"
    using erase_event_in_finds [OF ed(1) subset_refl _ assms(5,6,8,7)] by (simp add: erase_event_def)
  then have "collect_event handle e uid hash c json d = Returned (put_events_data c (erase_event_at key t ed) d)"
    using assms(2) g by (simp add: collect_event_def)
  moreover note v = erase_event_at_views [OF ed(1), where key = key and t = t]
  note pv = put_events_data_views [OF inv v(1), of c]
  have "data_of (put_events_data c (erase_event_at key t ed) d) c = Some (erase_event_at key t ed)"
    using pv(2) v(3) ed(2) assms(3) by simp
  ultimately show ?thesis
    using pv(2,5) v(2,3) ed(2) assms(4) by auto
qed

section \<open>The limit\<close>

lemma purge_takes_oldest:
  assumes "data_inv ed" and "distinct (map fst (stored_events ed))"
    and "m_limit ed < m_eventsSize ed" and "0 \<le> purge_share fl ed" "purge_share fl ed \<le> m_limit ed"
    and "\<And>key es. held = Some key \<Longrightarrow> get_events key ed = Some es \<Longrightarrow> fst ` set es \<inter> set (purged fl ed) = {}"
  shows "\<exists>ed'. check_limit_and_purge fl held ed = Returned ([], ed') \<and> m_eventsSize ed' = m_limit ed - purge_share fl ed
    \<and> stored_events ed' = filter (\<lambda>e. fst e \<notin> set (purged fl ed)) (stored_events ed)
    \<and> (\<forall>t \<in> set (purged fl ed). \<forall>e \<in> set (stored_events ed'). t < fst e)"
proof -
  obtain ed' where ed': "check_limit_and_purge fl held ed = Returned ([], ed')" "data_inv ed'"
    "m_filterToEvents ed' = drop_times (set (purged fl ed)) ed"
    using purge_outcome [OF assms(1) assms(2,3,5), of held] assms(6) by blast
  let ?n = "nat (m_eventsSize ed - m_limit ed + purge_share fl ed)" and ?times = "sort (map fst (stored_events ed))"
  have s: "stored_events ed' = filter (\<lambda>e. fst e \<notin> set (purged fl ed)) (stored_events ed)"
    by (rule drop_times_stored [OF ed'(3)])
  have dp: "distinct (purged fl ed)" using assms(2) by (simp add: purged_def)
  have n: "?n \<le> length (stored_events ed)" using data_invD(5) [OF assms(1)] assms(5) by simp
  then have "card (set (purged fl ed)) = ?n"
    using distinct_card [OF dp] by (simp add: purged_def)
  moreover have "set (purged fl ed) \<subseteq> fst ` set (stored_events ed)"
    using set_take_subset [of ?n ?times] by (simp add: purged_def)
  ultimately have "length (stored_events ed') = length (stored_events ed) - ?n"
    using length_dropped [OF assms(2), of "set (purged fl ed)"] by (simp add: s)
  then have "m_eventsSize ed' = m_limit ed - purge_share fl ed"
    using data_invD(5) [OF assms(1)] data_invD(5) [OF ed'(2)] assms(3,4) n by simp
  moreover have "t < fst e" if t: "t \<in> set (purged fl ed)" and e: "e \<in> set (stored_events ed')" for t e
  proof -
    have "fst e \<in> set ?times" "fst e \<notin> set (take ?n ?times)"
      using e by (auto simp: s purged_def)
    then have "fst e \<in> set (drop ?n ?times)" by (metis Un_iff append_take_drop_id set_append)
    moreover have "sorted_wrt (<) (take ?n ?times @ drop ?n ?times)" using assms(2) by (simp add: strict_sorted_iff)
    ultimately show ?thesis using t unfolding purged_def sorted_wrt_append by blast
  qed
  ultimately show ?thesis using ed'(1) s by blast
qed

text \<open>
  C16: Lowering the limit of a connection below the number of its events takes the oldest events, over all
  filters, so many that the purging share of the new limit becomes free, and no other ones.
\<close>

theorem oldest_events_are_purged:
  assumes "events_reachable d" and "data_of d c = Some ed" and "distinct (map fst (stored_events ed))"
    and "64 \<le> n" "n < m_eventsSize ed" "n < m_limit ed" and "ed1 = ed\<lparr>m_limit := n\<rparr>"
    and "0 \<le> purge_share fl ed1" "purge_share fl ed1 \<le> n"
  shows "\<exists>ed'. set_limit fl n ed = Returned (True, [], ed') \<and> m_eventsSize ed' = n - purge_share fl ed1
    \<and> stored_events ed' = filter (\<lambda>e. fst e \<notin> set (purged fl ed1)) (stored_events ed)
    \<and> (\<forall>t \<in> set (purged fl ed1). \<forall>e \<in> set (stored_events ed'). t < fst e)"
proof -
  have inv: "data_inv ed1"
    using data_of_inv(1) [OF events_reachable_inv [OF assms(1)] assms(2)] assms(4) by (simp add: assms(7))
  have s: "stored_events ed1 = stored_events ed" by (simp add: assms(7) stored_events_def)
  show ?thesis
    using purge_takes_oldest [OF inv, of fl None] assms(3-9) s
    by (auto simp: set_limit_def then_run_def)
qed

text \<open>
  C27: A connection whose events have reached the limit, the oldest of them under some filter, never gets out of
  the call of \<open>AddEvent\<close> for that filter, when the times of its events are distinct and the share to be
  purged is at most the limit: the purge, which runs under the lock of the events that are added to, is
  blocked by this lock. This is always so when all events of a connection have the same filter.
\<close>

theorem adding_at_the_limit_never_returns:
  assumes "events_reachable d" and "data_of d c = Some ed" and "we_connection ev = c"
    and "distinct (map fst (stored_events ed))" "now \<notin> fst ` set (stored_events ed)"
    and "m_eventsSize ed = m_limit ed" and "0 \<le> purge_share fl ed" "purge_share fl ed \<le> m_limit ed"
    and "get_events key ed = Some es" "(t, ev') \<in> set es" "\<forall>e \<in> set (stored_events ed). t \<le> fst e" "t < now"
  shows "add_event fl now key ev ed = Blocked"
proof -
  note ed = data_of_inv [OF events_reachable_inv [OF assms(1)] assms(2)]
  let ?d = "with_event now key ev es ed"
  have es: "set es \<subseteq> set (stored_events ed)" using in_stored_iff [OF ed(1)] assms(9) by blast
  then have fresh: "now \<notin> fst ` set es" using assms(5) by blast
  have inv: "data_inv ?d" using with_event_inv [OF ed(1) assms(9) fresh] assms(3) ed(2) by simp
  have g: "get_events k ?d = (if k = key then Some (ordered_emplace now ev es) else get_events k ed)" for k
    using get_set_events [of k key "ordered_emplace now ev es" ed] assms(9) by (simp add: with_event_def get_events_def)
  have "e \<in> set (stored_events ?d) \<longleftrightarrow> e \<in> insert (now, ev) (set (stored_events ed))" for e
  proof
    assume "e \<in> set (stored_events ?d)"
    then obtain k fs where k: "get_events k ?d = Some fs" "e \<in> set fs" using in_stored_iff [OF inv] by blast
    show "e \<in> insert (now, ev) (set (stored_events ed))"
    proof (cases "k = key")
      case True
      then show ?thesis using k g set_fresh_emplace [OF fresh, of ev] es by auto
    next
      case False
      then have "get_events k ed = Some fs" using k(1) g [of k] by simp
      then have "e \<in> set (stored_events ed)" using in_stored_iff [OF ed(1)] k(2) by blast
      then show ?thesis by simp
    qed
  next
    assume "e \<in> insert (now, ev) (set (stored_events ed))"
    then consider "e = (now, ev)" | k fs where "get_events k ed = Some fs" "e \<in> set fs" using in_stored_iff [OF ed(1)] by blast
    then show "e \<in> set (stored_events ?d)"
    proof cases
      case 1
      then have "get_events key ?d = Some (ordered_emplace now ev es)" "e \<in> set (ordered_emplace now ev es)"
        using g [of key] set_fresh_emplace [OF fresh, of ev] by simp_all
      then show ?thesis using in_stored_iff [OF inv] by blast
    next
      case (2 k fs)
      then have "\<exists>fs. get_events k ?d = Some fs \<and> e \<in> set fs"
        using g [of k] set_fresh_emplace [OF fresh, of ev] assms(9) by (cases "k = key") auto
      then show ?thesis using in_stored_iff [OF inv] by blast
    qed
  qed
  then have "set (stored_events ?d) = insert (now, ev) (set (stored_events ed))" by blast
  then have times: "set (map fst (stored_events ?d)) = insert now (fst ` set (stored_events ed))" by simp
  have len: "length (stored_events ?d) = Suc (length (stored_events ed))"
    using data_invD(5) [OF inv] data_invD(5) [OF ed(1)] by simp
  have "card (set (map fst (stored_events ?d))) = length (map fst (stored_events ?d))"
    using times len assms(5) distinct_card [OF assms(4)] by (simp add: card_insert_disjoint)
  then have dist: "distinct (map fst (stored_events ?d))" by (rule card_distinct)
  have t: "t \<in> set (map fst (stored_events ?d))" "\<forall>u \<in> set (map fst (stored_events ?d)). t \<le> u"
    using times assms(10-12) es by force+
  have "hd (sort (map fst (stored_events ?d))) = t"
  proof -
    obtain x xs where x: "sort (map fst (stored_events ?d)) = x # xs"
      using t(1) by (metis list.exhaust list.set(1) empty_iff set_sort)
    have "sorted (x # xs)" using x by (metis sorted_sort)
    moreover have "set (x # xs) = set (map fst (stored_events ?d))" using x by (metis set_sort)
    moreover have "x \<in> set (x # xs)" by simp
    ultimately have "t \<le> x" using t(2) by blast
    have "t \<in> set (x # xs)" using t(1) \<open>set (x # xs) = _\<close> by blast
    then have "x \<le> t" using \<open>sorted (x # xs)\<close> by auto
    then show ?thesis using x \<open>t \<le> x\<close> by simp
  qed
  moreover have "0 < nat (m_eventsSize ?d - m_limit ?d + purge_share fl ?d)" using assms(6,7) by simp
  ultimately have "t \<in> set (purged fl ?d)"
    unfolding purged_def using t(1)
    by (metis (no_types, lifting) empty_iff hd_in_set hd_take list.set(1) set_sort take_eq_Nil less_irrefl)
  moreover have "t \<in> fst ` set (ordered_emplace now ev es)"
    using set_fresh_emplace [OF fresh, of ev] assms(10) by force
  ultimately have "fst ` set (ordered_emplace now ev es) \<inter> set (purged fl ?d) \<noteq> {}" by blast
  moreover have "get_events key ?d = Some (ordered_emplace now ev es)" using g [of key] by simp
  moreover have "m_limit ?d < m_eventsSize ?d" using assms(6) by simp
  ultimately have "check_limit_and_purge fl (Some key) ?d = Blocked"
    using purge_blocks [OF inv dist, where fl = fl and key = key] assms(8) by simp
  then show ?thesis using fresh assms(9) by (simp add: add_event_eq)
qed

text \<open>
  C1: \<open>FailActiveEvents\<close> of a distributor is undefined as soon as some connection has ever stored an event: the
  entry is erased while the guard of its lock is alive, which then unlocks freed memory.
\<close>

theorem failing_all_events_is_undefined:
  assumes "events_reachable d" and "data_of d c = Some ed" and "m_filterToEvents ed \<noteq> []"
  shows "fail_all_active_events error d = UseAfterFree"
proof -
  have u: "fail_active_events None {} error ed = (if m_filterToEvents ed = [] then Returned ([], ed\<lparr>m_filterToEvents := []\<rparr>)
      else UseAfterFree)" for ed
    by (cases "m_filterToEvents ed") (auto simp: fail_active_events_def)
  have "fail_connections error m = UseAfterFree" if "(c, ed) \<in> set m" for m
    using that assms(3) by (induction m) (auto simp: u then_run_def)
  moreover have "(c, ed) \<in> set (m_connectionToEventsData d)"
    using assms(2) by (auto simp: data_of_def dest: map_of_SomeD)
  ultimately show ?thesis by (simp add: fail_all_active_events_def then_run_def)
qed

section \<open>Instances of the claims\<close>

text \<open>A distributor with a handler that delays, and 64 requests of one connection, which has this limit.\<close>

definition sample_json :: json_object where
  "sample_json = (True, [])"

definition sample_env :: "int \<Rightarrow> events_env" where
  "sample_env i = \<lparr>ee_floats = exact_floats, ee_now = timer_of i,
     ee_auth = \<lparr>env_clock = \<lambda>_. timer_of 0, env_address = 0, env_vptr = [], env_padding = [], env_save = True,
                env_rename = True, env_log = True\<rparr>\<rparr>"

definition delayed_request :: "nat \<Rightarrow> ws_event" where
  "delayed_request i = \<lparr>we_uid = of_nat i, we_json = sample_json, we_connection = 9\<rparr>"

definition delayed_list :: "nat \<Rightarrow> event_list" where
  "delayed_list n = map (\<lambda>i. (timer_of (int i + 1), delayed_request i)) [0..<n]"

definition sample_data :: "int \<Rightarrow> (filter_key \<times> event_list) list \<Rightarrow> int \<Rightarrow> events_data" where
  "sample_data L fs n = \<lparr>m_filterToEvents = fs, m_limit = L, m_purgingCoefficient = 5033165 / 16777216,
     m_eventsSize = n, ed_connection = 9\<rparr>"

definition sample_events :: "int \<Rightarrow> (filter_key \<times> event_list) list \<Rightarrow> int \<Rightarrow> events_distributor" where
  "sample_events L fs n = \<lparr>m_hashToHandlerData = [(7, \<lparr>hd_handler = \<lambda>answer ev. (HandleDelay, answer), hd_grade = 0,
       hd_isPermissionRequired = False\<rparr>)], m_connectionToEventsData = [(9, sample_data L fs n)],
     m_authorization = new_module [], ws_sent = []\<rparr>"

abbreviation delayed :: "int \<Rightarrow> nat \<Rightarrow> events_distributor" where
  "delayed L n \<equiv> sample_events L [((7, 0), delayed_list n)] (int n)"

lemma timer_of_less: "0 \<le> i \<Longrightarrow> i < j \<Longrightarrow> j < 1000 \<Longrightarrow> timer_of i < timer_of j"
  by (simp add: less_timer_def timer_less_def timer_ns_def timer_of_def sint_word_of_int64 in_int64_def)

lemma sample_start:
  assumes "64 \<le> L" and "L < 900"
  shows "events_reachable (sample_events L [] 0)"
proof -
  let ?d = "set_handler_without_permissions 7 (\<lambda>answer ev. (HandleDelay, answer)) (events_distributor_make (new_module []))"
  have "events_reachable ?d" by (intro er_no_permissions er_make)
  moreover have "get_events_data 9 ?d = (events_data_make 9, ?d\<lparr>m_connectionToEventsData := [(9, events_data_make 9)]\<rparr>)"
    by (simp add: get_events_data_def set_handler_without_permissions_def events_distributor_make_def)
  moreover have "set_limit exact_floats L (events_data_make 9) = Returned (True, [], sample_data L [] 0)"
    using assms by (simp add: set_limit_def events_data_make_def check_limit_and_purge_def then_run_def sample_data_def)
  ultimately have "events_reachable (ws_send [] (put_events_data 9 (sample_data L [] 0)
      (?d\<lparr>m_connectionToEventsData := [(9, events_data_make 9)]\<rparr>)))"
    by (rule er_limit)
  then show ?thesis
    by (simp add: sample_events_def ws_send_def put_events_data_def set_handler_without_permissions_def
        events_distributor_make_def emplace_entry_def)
qed

lemma delayed_list_Suc: "delayed_list (Suc n) = delayed_list n @ [(timer_of (int n + 1), delayed_request n)]"
  by (simp add: delayed_list_def)

lemma delayed_times:
  assumes "n < 900"
  shows "e \<in> set (delayed_list n) \<Longrightarrow> fst e < timer_of (int n + 1)" "sorted_wrt (<) (map fst (delayed_list n))"
proof -
  show "fst e < timer_of (int n + 1)" if "e \<in> set (delayed_list n)" for e
    using that assms by (auto simp: delayed_list_def intro!: timer_of_less)
  show "sorted_wrt (<) (map fst (delayed_list n))"
    using assms by (auto simp: sorted_wrt_iff_nth_less delayed_list_def intro!: timer_of_less)
qed

lemma delay_one:
  assumes "int n < L" "L < 900" and "fs = [((7, 0), delayed_list n)] \<or> n = 0 \<and> fs = []"
  shows "collect_event handle_single (sample_env (int n + 1)) (of_nat n) 7 9 sample_json (sample_events L fs (int n))
    = Returned (delayed L (Suc n))"
proof -
  have f: "timer_of (int n + 1) \<notin> fst ` set (delayed_list n)"
    using delayed_times(1) [of n] assms(1,2) by force
  have o: "ordered_emplace (timer_of (int n + 1)) (delayed_request n) (delayed_list n) = delayed_list (Suc n)"
    unfolding delayed_list_Suc by (rule ordered_emplace_last) (use delayed_times(1) [of n] assms(1,2) in auto)
  let ?e = "sample_data L [((7, 0), delayed_list n)] (int n)"
  have "create_events (7, 0) (sample_data L fs (int n)) = ?e"
    using assms(3) by (auto simp: create_events_def get_events_def sample_data_def delayed_list_def)
  moreover have "add_event exact_floats (timer_of (int n + 1)) (7, 0) (delayed_request n) ?e
      = Returned ([], sample_data L [((7, 0), delayed_list (Suc n))] (int (Suc n)))"
    using f o assms(1)
    by (simp add: add_event_def get_events_def sample_data_def increase_events_size_def check_limit_and_purge_def set_events_def)
  moreover have "identity_filter sample_json = 0" "\<not> interrupts sample_json"
    by (simp_all add: identity_filter_def interrupts_def sample_json_def get_value_def)
  ultimately show ?thesis
    by (simp add: collect_event_def handle_single_def store_event_def sample_events_def get_events_data_def
        then_run_def put_events_data_def ws_send_def sample_env_def delayed_request_def Let_def)
qed

lemma delayed_reachable:
  assumes "64 \<le> L" "L < 900"
  shows "int n < L \<Longrightarrow> events_reachable (delayed L (Suc n))"
proof (induction n)
  case 0
  show ?case
    using er_single [OF sample_start [OF assms], of _ 0 7 9 sample_json] delay_one [of 0 L "[]"] assms by force
next
  case (Suc n)
  then show ?case
    by (intro er_single [OF _ delay_one [of "Suc n" L "[((7, 0), delayed_list (Suc n))]"]]) (use assms in auto)
qed

lemma delayed_data: "data_of (delayed L n) 9 = Some (sample_data L [((7, 0), delayed_list n)] (int n))"
  by (simp add: data_of_def sample_events_def)

lemma delayed_fields [simp]:
  "get_events (7, 0) (sample_data L [((7, 0), delayed_list n)] k) = Some (delayed_list n)"
  "stored_events (sample_data L [((7, 0), delayed_list n)] k) = delayed_list n"
  "m_eventsSize (sample_data L fs k) = k" "m_limit (sample_data L fs k) = L"
  "(sample_data L fs k)\<lparr>m_limit := K\<rparr> = sample_data K fs k"
  by (simp_all add: sample_data_def get_events_def stored_events_def)

lemma sample_share: "purge_share exact_floats (sample_data 64 fs n) = 19"
  by (simp add: purge_share_def exact_floats_def sample_data_def truncate_float_def floor_eq_iff)

lemma delayed_distinct: "n < 900 \<Longrightarrow> distinct (map fst (delayed_list n))"
  using delayed_times(2) by (simp add: strict_sorted_iff)

theorem events_are_counted_witness:
  "m_eventsSize (sample_data 64 [((7, 0), delayed_list 3)] 3) = int (length (delayed_list 3))"
  using events_are_counted [OF delayed_reachable delayed_data, of 64 2] by (simp add: numeral_3_eq_3)

theorem oldest_events_are_purged_witness:
  "\<exists>ed'. set_limit exact_floats 64 (sample_data 100 [((7, 0), delayed_list 80)] 80) = Returned (True, [], ed')
    \<and> m_eventsSize ed' = 45"
proof -
  have "events_reachable (delayed 100 (Suc 79))" by (rule delayed_reachable) simp_all
  from oldest_events_are_purged [OF this delayed_data, of 64 _ exact_floats, OF _ _ _ _ refl]
  show ?thesis using delayed_distinct [of "Suc 79"] by (auto simp: sample_share)
qed

theorem adding_at_the_limit_never_returns_witness:
  "add_event exact_floats (timer_of 65) (7, 0) (delayed_request 64) (sample_data 64 [((7, 0), delayed_list 64)] 64)
    = Blocked"
proof -
  have re: "events_reachable (delayed 64 (Suc 63))" by (rule delayed_reachable) simp_all
  have first: "(timer_of 1, delayed_request 0) \<in> set (delayed_list (Suc 63))"
    by (auto simp: delayed_list_def image_iff intro!: bexI [of _ 0])
  have old: "\<forall>e \<in> set (delayed_list (Suc 63)). timer_of 1 \<le> fst e"
    by (auto simp: delayed_list_def less_le [symmetric] le_less intro!: timer_of_less)
  have new: "fst e < timer_of 65" if "e \<in> set (delayed_list (Suc 63))" for e
    using delayed_times(1) [of "Suc 63", OF _ that] by simp
  have "timer_of 65 \<notin> fst ` set (delayed_list (Suc 63))" using new by fastforce
  then show ?thesis
    using adding_at_the_limit_never_returns [OF re delayed_data, of "delayed_request 64" "timer_of 65" exact_floats "(7, 0)"
        "delayed_list (Suc 63)" "timer_of 1" "delayed_request 0"] delayed_distinct [of "Suc 63"] first old
      timer_of_less [of 1 65]
    by (simp add: delayed_request_def sample_share del: numeral_nat)
qed

theorem failing_all_events_is_undefined_witness:
  "fail_all_active_events ''stopped'' (delayed 64 (Suc 0)) = UseAfterFree"
  by (rule failing_all_events_is_undefined [OF delayed_reachable delayed_data]) (simp_all add: sample_data_def)

theorem requests_stay_with_their_connection_witness:
  "data_of (delayed 64 3) 4 = data_of (delayed 64 2) 4
    \<and> m_hashToHandlerData (delayed 64 3) = m_hashToHandlerData (delayed 64 2)"
  using requests_stay_with_their_connection [OF delayed_reachable disjI1 [OF refl], of 64 1 "sample_env 3" 2 7 9 sample_json "delayed 64 3"]
    delay_one [of 2 64 "[((7, 0), delayed_list 2)]"] by (simp add: numeral_2_eq_2 numeral_3_eq_3)

definition sample_logged_on :: events_distributor where
  "sample_logged_on = set_handler_with_permissions 8 (\<lambda>answer ev. (HandleSuccess, answer)) 0
     (events_distributor_make ((new_module [])\<lparr>m_logonConnectionToAccountData := [(9, 0)],
        heap := [\<lparr>m_account = new_account (timer_of 0), m_dataPath = [], m_connection = 9, m_lastActivity = timer_of 0\<rparr>]\<rparr>))"

lemma sample_payload: "data_payload 1 @ ''}'' \<noteq> failed_payload 1 error"
  by (simp add: data_payload_def failed_payload_def data_key_def quote_def)

theorem events_need_access_witness:
  "map_of (m_logonConnectionToAccountData (m_authorization sample_logged_on)) 9 = Some 0
    \<and> 0 \<le> m_grade (object (m_authorization sample_logged_on) 0)
    \<and> (\<exists>i. map_of (m_logonConnectionToAccountData (m_authorization sample_logged_on)) 9 = Some i
      \<and> collect_event handle_single (sample_env 0) 1 8 9 sample_json sample_logged_on
        = handle_single (sample_env 0) 1 8 (identity_filter sample_json) 9 sample_json
            \<lparr>hd_handler = \<lambda>answer ev. (HandleSuccess, answer), hd_grade = 0, hd_isPermissionRequired = True\<rparr>
            (sample_logged_on\<lparr>m_authorization := snd (is_access_granted (ee_auth (sample_env 0)) 9 0 (m_authorization sample_logged_on))\<rparr>))"
proof -
  let ?hdl = "\<lparr>hd_handler = \<lambda>answer ev. (HandleSuccess, answer), hd_grade = 0, hd_isPermissionRequired = True\<rparr>"
  let ?d = "sample_logged_on\<lparr>m_authorization := snd (is_access_granted (ee_auth (sample_env 0)) 9 0 (m_authorization sample_logged_on))\<rparr>"
  have f: "map_of (m_hashToHandlerData sample_logged_on) 8 = Some ?hdl" "\<not> interrupts sample_json"
    "m_grade (object (m_authorization sample_logged_on) 0) = 0"
    "map_of (m_logonConnectionToAccountData (m_authorization sample_logged_on)) 9 = Some 0"
    by (simp_all add: sample_logged_on_def set_handler_with_permissions_def events_distributor_make_def emplace_entry_def
        interrupts_def sample_json_def get_value_def new_account_def)
  then have g: "fst (is_access_granted (ee_auth (sample_env 0)) 9 0 (m_authorization sample_logged_on))"
    by (simp add: is_access_granted_def Let_def)
  have c: "collect_event handle_single (sample_env 0) 1 8 9 sample_json sample_logged_on
      = Returned (ws_send [(9, data_payload 1 @ ''}'')] ?d)"
    using f g by (simp add: collect_event_def handle_single_def case_prod_beta Let_def)
  have n: "Returned (ws_send [(9, data_payload 1 @ ''}'')] ?d) \<noteq> Returned (ws_send [(9, failed_payload 1 ''Access is not granted'')] ?d)"
    using arg_cong [where f = ws_sent] sample_payload by (fastforce dest: arg_cong [where f = ws_sent])
  have "\<exists>i. map_of (m_logonConnectionToAccountData (m_authorization sample_logged_on)) 9 = Some i
      \<and> hd_grade ?hdl \<le> m_grade (object (m_authorization sample_logged_on) i)
      \<and> Returned (ws_send [(9, data_payload 1 @ ''}'')] ?d)
        = handle_single (sample_env 0) 1 8 (identity_filter sample_json) 9 sample_json ?hdl
            (sample_logged_on\<lparr>m_authorization := snd (is_access_granted (ee_auth (sample_env 0)) 9 (hd_grade ?hdl) (m_authorization sample_logged_on))\<rparr>)"
    by (rule events_need_access [OF f(1) _ f(2) c]) (use n in simp_all)
  then show ?thesis using f(3,4) c by simp
qed

lemma sample_waiting: "waiting (7, 0) (delayed L (Suc n)) = [(9, delayed_list (Suc n))]"
proof -
  have "delayed_list (Suc n) \<noteq> []" by (simp add: delayed_list_def)
  then show ?thesis by (simp add: waiting_def sample_events_def List.map_filter_simps)
qed

lemma sample_short: "\<forall>(c, es) \<in> set (waiting (7, 0) (delayed L (Suc 0))). length (uids_of es) + 9 < 2 ^ 63"
  unfolding sample_waiting by (simp add: uids_of_def delayed_list_def delayed_request_def show_nat.simps)

lemma sample_some: "waiting (7, 0) (delayed L (Suc 0)) \<noteq> []"
  unfolding sample_waiting by simp

lemma sample_one: "events_reachable (delayed 64 (Suc 0))"
  by (rule delayed_reachable) simp_all

theorem data_reaches_waiting_events_witness:
  "send_event_data (7, 0) (GivenData ''5'') (delayed 64 (Suc 0))
    = (SendSuccess, ws_send (data_messages (7, 0) ''5'' (delayed 64 (Suc 0))) (delayed 64 (Suc 0)))"
  using data_reaches_waiting_events [OF sample_one sample_short sample_some] by blast

theorem delayed_are_answered_once_witness:
  "ws_sent (check_delayed (7, 0) (GivenData ''5'') (delayed 64 (Suc 0)))
    = ws_sent (delayed 64 (Suc 0)) @ data_messages (7, 0) ''5'' (delayed 64 (Suc 0))"
  using delayed_are_answered_once [OF sample_one sample_short sample_some disjI1 [OF refl]] by blast

theorem interruption_removes_event_witness:
  "\<exists>d' ed'. collect_event handle_stream (sample_env 9) 1 7 9 (True, [(''interrupt'', NBool True)]) (delayed 64 2) = Returned d'
    \<and> data_of d' 9 = Some ed' \<and> get_events (7, 0) ed' = Some (filter (\<lambda>e. fst e \<noteq> timer_of 2) (delayed_list 2))"
proof -
  have i: "interrupts (True, [(''interrupt'', NBool True)])" by (simp add: interrupts_def get_value_def)
  have l: "delayed_list 2 = [(timer_of 1, delayed_request 0), (timer_of 2, delayed_request 1)]"
    by (simp add: delayed_list_def numeral_2_eq_2)
  have m: "(timer_of 2, delayed_request 1) \<in> set (delayed_list 2)" "we_uid (delayed_request 1) = 1"
    "\<not> timer_empty (timer_of 2)"
    by (simp_all add: l delayed_request_def timer_empty_def timer_ns_def timer_of_def sint_word_of_int64 in_int64_def)
  have u: "k = (7, 0) \<and> t' = timer_of 2" if "get_events k (sample_data 64 [((7, 0), delayed_list 2)] (int 2)) = Some es'"
    "(t', ev') \<in> set es'" "we_uid ev' = 1" for k es' t' ev'
    using that by (auto simp: sample_data_def get_events_def l delayed_request_def split: if_splits)
  have "events_reachable (delayed 64 2)" using delayed_reachable [of 64 1] by (simp add: numeral_2_eq_2)
  then have "\<exists>d' ed'. collect_event handle_stream (sample_env 9) 1 7 9 (True, [(''interrupt'', NBool True)]) (delayed 64 2) = Returned d'
    \<and> data_of d' 9 = Some ed'
    \<and> (\<forall>k. get_events k ed' = (if k = (7, 0) then Some (filter (\<lambda>e. fst e \<noteq> timer_of 2) (delayed_list 2))
          else get_events k (sample_data 64 [((7, 0), delayed_list 2)] (int 2))))
    \<and> (\<forall>k. k \<noteq> 9 \<longrightarrow> data_of d' k = data_of (delayed 64 2) k) \<and> ws_sent d' = ws_sent (delayed 64 2)"
    by (rule interruption_removes_event [OF _ i delayed_data delayed_fields(1) m]) (erule (2) u)
  then show ?thesis by (elim exE conjE) (intro exI conjI, assumption+, simp)
qed

end
