(* ===== verification/TextHelpers.thy ===== *)
theory TextHelpers
  imports Prelude
begin

text \<open>
  The text functions of \<open>Helper\<close> (\<open>help/helper.h\<close>, \<open>help/helper.cpp\<close>): the search of a substring,
  the split at a separator, hexadecimal numbers, the replacement of a symbol, UTF-8, Base64, and the
  hash of a name by which the manager's events are registered. A buffer that a caller passes is its
  size; an undefined read or conversion is \<open>None\<close>.
\<close>

unbundle bit_operations_syntax

section \<open>Substrings, splitting, replacing\<close>

text \<open>\<open>std::tolower\<close> in the default locale.\<close>

definition tolower :: "char \<Rightarrow> char" where
  "tolower c = (if 65 \<le> (of_char c :: nat) \<and> (of_char c :: nat) \<le> 90 then char_of (of_char c + 32 :: nat) else c)"

text \<open>
  \<open>ContainsStr\<close>: the loop over the symbols of \<open>base\<close> with the position in \<open>sub\<close>. The position of the
  end of \<open>sub\<close> holds the terminating null, the positions behind it are not readable.
\<close>

fun contains_from :: "bool \<Rightarrow> string \<Rightarrow> nat \<Rightarrow> string \<Rightarrow> bool option" where
  "contains_from caseSensitive sub index [] = Some False"
| "contains_from caseSensitive sub index (symbol # base) =
     (if length sub < index then None
      else let s = (sub @ [CHR 0x00]) ! index in
        if (if caseSensitive then symbol = s else tolower symbol = tolower s)
        then if index + 1 = length sub then Some True else contains_from caseSensitive sub (index + 1) base
        else contains_from caseSensitive sub 0 base)"

definition contains_str :: "bool \<Rightarrow> string \<Rightarrow> string \<Rightarrow> bool option" where
  "contains_str caseSensitive base sub = contains_from caseSensitive sub 0 base"

text \<open>\<open>Separating\<close> into a vector; the second argument is \<open>property\<close>.\<close>

fun separating_from :: "char \<Rightarrow> string \<Rightarrow> string \<Rightarrow> string list" where
  "separating_from symbol property [] = (if property \<noteq> [] then [property] else [])"
| "separating_from symbol property (c # str) =
     (if c = symbol \<and> property \<noteq> [] then property # separating_from symbol [] str
      else separating_from symbol (property @ [c]) str)"

definition separating_vector :: "string list \<Rightarrow> string \<Rightarrow> char \<Rightarrow> string list" where
  "separating_vector container str symbol = container @ separating_from symbol [] str"

definition separating_set :: "string set \<Rightarrow> string \<Rightarrow> char \<Rightarrow> string set" where
  "separating_set container str symbol = foldl (\<lambda>s property. insert property s) container (separating_from symbol [] str)"

definition replace_symbol :: "string \<Rightarrow> char \<Rightarrow> char \<Rightarrow> string" where
  "replace_symbol str old new = map (\<lambda>c. if c = old then new else c) str"

section \<open>Hexadecimal numbers\<close>

text \<open>
  The switch of \<open>HexStrToDecimal\<close>: the symbol is lowered first, so its upper case labels are dead.
\<close>

definition hex_digit :: "char \<Rightarrow> nat option" where
  "hex_digit c =
     (let s = of_char (tolower c) :: nat in
      if 48 \<le> s \<and> s \<le> 57 then Some (s - 48)
      else if 97 \<le> s \<and> s \<le> 102 then Some (s - 87)
      else None)"

text \<open>
  The outer \<open>None\<close> is undefined: a power of 16 or a sum that does not fit \<open>int\<close>. The inner one is
  \<open>std::nullopt\<close>.
\<close>

fun hex_loop :: "int \<Rightarrow> string \<Rightarrow> int option option" where
  "hex_loop out [] = Some (Some out)"
| "hex_loop out (symbol # str) =
     (let multiplier = 16 ^ length str in
      if 2 ^ 31 \<le> multiplier then None
      else case hex_digit symbol of
        None \<Rightarrow> Some None
      | Some d \<Rightarrow> (if 2 ^ 31 \<le> out + int d * multiplier then None else hex_loop (out + int d * multiplier) str))"

definition hex_str_to_decimal :: "string \<Rightarrow> int option option" where
  "hex_str_to_decimal str = (if str = [] then Some None else hex_loop 0 str)"

section \<open>The hash of a name\<close>

definition string_hash32 :: "string \<Rightarrow> u32" where
  "string_hash32 str = foldl (\<lambda>hash c. push_bit 5 hash - hash + ucast (byte_of_char c)) 0 str"

section \<open>UTF-8\<close>

text \<open>
  A C string is the list of its bytes up to the end of its array; the terminating null is a 0 in the
  list or its end. A null pointer is \<open>None\<close>. \<open>wchar_t\<close> has 32 bits.
\<close>

definition utf8_lead :: "byte \<Rightarrow> (u32 \<times> nat) option" where
  "utf8_lead ch =
     (if ch < 0x80 then Some (ucast ch, 0)
      else if ch AND 0xE0 = 0xC0 then Some (ucast (ch AND 0x1F), 1)
      else if ch AND 0xF0 = 0xE0 then Some (ucast (ch AND 0x0F), 2)
      else if ch AND 0xF8 = 0xF0 then Some (ucast (ch AND 0x07), 3)
      else None)"

fun utf8_extra :: "nat \<Rightarrow> u32 \<Rightarrow> byte list \<Rightarrow> (u32 \<times> byte list) option" where
  "utf8_extra 0 codePoint bs = Some (codePoint, bs)"
| "utf8_extra (Suc extraBytes) codePoint [] = None"
| "utf8_extra (Suc extraBytes) codePoint (b # bs) =
     (if b AND 0xC0 \<noteq> 0x80 then None
      else utf8_extra extraBytes (push_bit 6 codePoint OR ucast (b AND 0x3F)) bs)"

lemma utf8_extra_shorter: "utf8_extra n c bs = Some (c', bs') \<Longrightarrow> length bs' \<le> length bs"
  by (induction n c bs rule: utf8_extra.induct) (auto split: if_splits)

text \<open>The loop; \<open>None\<close> is the warning after which the result is empty.\<close>

function utf8_decode :: "byte list \<Rightarrow> u32 list option" where
  "utf8_decode bs =
     (case bs of
        [] \<Rightarrow> Some []
      | ch # rest \<Rightarrow>
          (if ch = 0 then Some []
           else case utf8_lead ch of
             None \<Rightarrow> None
           | Some (codePoint, extraBytes) \<Rightarrow>
               (case utf8_extra extraBytes codePoint rest of
                  None \<Rightarrow> None
                | Some (codePoint, rest) \<Rightarrow> map_option ((#) codePoint) (utf8_decode rest))))"
  by pat_completeness auto
termination
  by (relation "measure length") (auto simp: less_Suc_eq_le dest: utf8_extra_shorter)

declare utf8_decode.simps [simp del]

definition string_to_wstring :: "byte list option \<Rightarrow> u32 list" where
  "string_to_wstring cstr =
     (case cstr of None \<Rightarrow> [] | Some bs \<Rightarrow> (case utf8_decode bs of None \<Rightarrow> [] | Some w \<Rightarrow> w))"

definition utf8_encode_point :: "u32 \<Rightarrow> byte list option" where
  "utf8_encode_point codePoint =
     (if codePoint \<le> 0x7F then Some [ucast codePoint]
      else if codePoint \<le> 0x7FF then
        Some [ucast (drop_bit 6 codePoint OR 0xC0), ucast ((codePoint AND 0x3F) OR 0x80)]
      else if codePoint \<le> 0xFFFF then
        Some [ucast (drop_bit 12 codePoint OR 0xE0), ucast ((drop_bit 6 codePoint AND 0x3F) OR 0x80),
          ucast ((codePoint AND 0x3F) OR 0x80)]
      else if codePoint \<le> 0x10FFFF then
        Some [ucast (drop_bit 18 codePoint OR 0xF0), ucast ((drop_bit 12 codePoint AND 0x3F) OR 0x80),
          ucast ((drop_bit 6 codePoint AND 0x3F) OR 0x80), ucast ((codePoint AND 0x3F) OR 0x80)]
      else None)"

fun utf8_encode :: "u32 list \<Rightarrow> byte list option" where
  "utf8_encode [] = Some []"
| "utf8_encode (c # w) =
     (if c = 0 then Some []
      else case utf8_encode_point c of
        None \<Rightarrow> None
      | Some bs \<Rightarrow> map_option ((@) bs) (utf8_encode w))"

definition wstring_to_string :: "u32 list option \<Rightarrow> byte list" where
  "wstring_to_string wcstr =
     (case wcstr of None \<Rightarrow> [] | Some w \<Rightarrow> (case utf8_encode w of None \<Rightarrow> [] | Some bs \<Rightarrow> bs))"

definition normalize_octal_escaped_utf8 :: "byte list option \<Rightarrow> byte list" where
  "normalize_octal_escaped_utf8 cstr = wstring_to_string (Some (string_to_wstring cstr))"

section \<open>Base64\<close>

definition b64_alphabet :: string where
  "b64_alphabet = ''ABCDEFGHIJKLMNOPQRSTUVWXYZabcdefghijklmnopqrstuvwxyz0123456789+/''"

definition b64_symbol :: "u32 \<Rightarrow> char" where
  "b64_symbol v = b64_alphabet ! unat (v AND 0x3F)"

text \<open>The loop of \<open>Base64Encode\<close> over groups of three bytes, the last one possibly shorter.\<close>

fun b64_encode_groups :: "byte list \<Rightarrow> string" where
  "b64_encode_groups [] = []"
| "b64_encode_groups [a] =
     (let triple = push_bit 16 (ucast a) in
      [b64_symbol (drop_bit 18 triple), b64_symbol (drop_bit 12 triple), CHR ''='', CHR ''=''])"
| "b64_encode_groups [a, b] =
     (let triple = push_bit 16 (ucast a) OR push_bit 8 (ucast b) in
      [b64_symbol (drop_bit 18 triple), b64_symbol (drop_bit 12 triple), b64_symbol (drop_bit 6 triple), CHR ''=''])"
| "b64_encode_groups (a # b # c # data) =
     (let triple = push_bit 16 (ucast a) OR push_bit 8 (ucast b) OR ucast c in
      [b64_symbol (drop_bit 18 triple), b64_symbol (drop_bit 12 triple), b64_symbol (drop_bit 6 triple),
       b64_symbol triple] @ b64_encode_groups data)"

definition base64_encode :: "nat \<Rightarrow> byte list \<Rightarrow> string" where
  "base64_encode capacity data =
     (if capacity < (length data + 2) div 3 * 4 then [] else b64_encode_groups data)"

definition b64_lut :: "int list" where
  "b64_lut = replicate 43 (-1) @ [62, -1, -1, -1, 63] @ map int [52..<62] @ replicate 7 (-1)
     @ map int [0..<26] @ replicate 6 (-1) @ map int [26..<52] @ replicate 133 (-1)"

definition b64_value :: "char \<Rightarrow> int" where
  "b64_value c = b64_lut ! of_char c"

text \<open>
  \<open>Base64Decode\<close>: the groups before the last one, and the last one, in which the code tests only the
  first two symbols. The conversion of a negative value to \<open>uint32_t\<close> is \<open>word_of_int\<close>.
\<close>

definition b64_triple :: "int \<Rightarrow> int \<Rightarrow> int \<Rightarrow> int \<Rightarrow> u32" where
  "b64_triple v1 v2 v3 v4 = push_bit 18 (word_of_int v1) OR push_bit 12 (word_of_int v2)
     OR push_bit 6 (word_of_int v3) OR word_of_int v4"

definition triple_bytes :: "u32 \<Rightarrow> byte list" where
  "triple_bytes triple = [ucast (drop_bit 16 triple AND 0xFF), ucast (drop_bit 8 triple AND 0xFF), ucast (triple AND 0xFF)]"

definition b64_last :: "bool \<Rightarrow> bool \<Rightarrow> string \<Rightarrow> byte list option" where
  "b64_last firstPadding secondPadding q =
     (let v1 = b64_value (q ! 0); v2 = b64_value (q ! 1); v3 = b64_value (q ! 2); v4 = b64_value (q ! 3) in
      if v1 < 0 \<or> v2 < 0 then None
      else Some (take (if firstPadding then 1 else if secondPadding then 2 else 3)
        (triple_bytes (b64_triple v1 v2 (if firstPadding then 0 else v3) (if secondPadding then 0 else v4)))))"

fun b64_decode_groups :: "bool \<Rightarrow> bool \<Rightarrow> string \<Rightarrow> byte list option" where
  "b64_decode_groups firstPadding secondPadding (c1 # c2 # c3 # c4 # c5 # data) =
     (let v1 = b64_value c1; v2 = b64_value c2; v3 = b64_value c3; v4 = b64_value c4 in
      if v1 < 0 \<or> v2 < 0 \<or> v3 < 0 \<or> v4 < 0 then None
      else map_option ((@) (triple_bytes (b64_triple v1 v2 v3 v4)))
        (b64_decode_groups firstPadding secondPadding (c5 # data)))"
| "b64_decode_groups firstPadding secondPadding q = b64_last firstPadding secondPadding q"

definition base64_decode :: "nat \<Rightarrow> string \<Rightarrow> byte list" where
  "base64_decode capacity data =
     (if data = [] \<or> length data mod 4 \<noteq> 0 then []
      else
        let firstPadding = data ! (length data - 2) = CHR ''=''; secondPadding = data ! (length data - 1) = CHR ''='' in
        if firstPadding \<and> \<not> secondPadding then []
        else if capacity < length data div 4 * 3 - of_bool firstPadding - of_bool secondPadding then []
        else (case b64_decode_groups firstPadding secondPadding data of None \<Rightarrow> [] | Some bs \<Rightarrow> bs))"

end
