(* ===== verification/TextHelpersSpec.thy ===== *)
theory TextHelpersSpec
  imports TextHelpers
begin

text \<open>
  The text helpers: round trips of Base64 and UTF-8, splitting as the inverse of joining, the value of
  hexadecimal texts, the hash of a name as a polynomial, and what the functions do outside of what they
  are meant for.
\<close>

unbundle bit_operations_syntax

section \<open>Bits\<close>

lemma byte_eqI:
  fixes a b :: byte
  assumes "bit a 0 = bit b 0" "bit a 1 = bit b 1" "bit a 2 = bit b 2" "bit a 3 = bit b 3"
    "bit a 4 = bit b 4" "bit a 5 = bit b 5" "bit a 6 = bit b 6" "bit a 7 = bit b 7"
  shows "a = b"
proof (rule bit_word_eqI)
  fix n assume "n < LENGTH(8)"
  then have "n = 0 \<or> n = 1 \<or> n = 2 \<or> n = 3 \<or> n = 4 \<or> n = 5 \<or> n = 6 \<or> n = 7" by auto
  then show "bit a n = bit b n" using assms by auto
qed

lemma and_mask6: "(w :: 'a::len word) AND 0x3F = take_bit 6 w"
  and and_mask8: "(w :: 'a::len word) AND 0xFF = take_bit 8 w"
  by (simp_all add: take_bit_eq_mask mask_eq_exp_minus_1)

lemma bit_above: "unat (c :: u32) < 2 ^ k \<Longrightarrow> k \<le> n \<Longrightarrow> \<not> bit c n"
  by (metis bit_take_bit_iff linorder_not_less take_bit_nat_eq_self_iff unsigned_take_bit_eq word_unat_eq_iff)

lemma length_b64_lut: "length b64_lut = 256"
  by (simp add: b64_lut_def)

lemma alphabet_values: "\<forall>k \<in> set [0..<64]. b64_value (b64_alphabet ! k) = int k \<and> b64_alphabet ! k \<noteq> CHR ''=''"
  by code_simp

lemma b64_symbol_value: "b64_value (b64_symbol v) = int (unat (take_bit 6 v))"
  and b64_symbol_padding: "b64_symbol v \<noteq> CHR ''=''"
proof -
  have "unat (take_bit 6 v) < 64"
    using take_bit_nat_less_exp [of 6 "unat v"] by (simp add: unsigned_take_bit_eq)
  then show "b64_value (b64_symbol v) = int (unat (take_bit 6 v))" "b64_symbol v \<noteq> CHR ''=''"
    using alphabet_values by (auto simp: b64_symbol_def and_mask6)
qed

lemma sextet_word [simp]: "word_of_int (b64_value (b64_symbol v)) = take_bit 6 v"
  and sextet_sign [simp]: "\<not> b64_value (b64_symbol v) < 0"
  by (simp_all add: b64_symbol_value)

lemma triple_of_sextets:
  "push_bit 18 (take_bit 6 (drop_bit 18 t)) OR push_bit 12 (take_bit 6 (drop_bit 12 t))
     OR push_bit 6 (take_bit 6 (drop_bit 6 t)) OR take_bit 6 t = take_bit 24 (t :: u32)"
proof (rule bit_word_eqI)
  fix n assume "n < LENGTH(32)"
  show "bit (push_bit 18 (take_bit 6 (drop_bit 18 t)) OR push_bit 12 (take_bit 6 (drop_bit 12 t))
     OR push_bit 6 (take_bit 6 (drop_bit 6 t)) OR take_bit 6 t) n = bit (take_bit 24 t) n"
    by (cases "n < 6"; cases "n < 12"; cases "n < 18") (auto simp: bit_simps not_less)
qed

lemma bytes_of_triple:
  "ucast (drop_bit 16 (take_bit 24 (push_bit 16 (ucast a) OR push_bit 8 (ucast b) OR ucast c)) AND 0xFF :: u32) = (a :: byte)"
  "ucast (drop_bit 8 (take_bit 24 (push_bit 16 (ucast a) OR push_bit 8 (ucast b) OR ucast c)) AND 0xFF :: u32) = (b :: byte)"
  "ucast (take_bit 24 (push_bit 16 (ucast a) OR push_bit 8 (ucast b) OR ucast c) AND 0xFF :: u32) = (c :: byte)"
  unfolding and_mask8
  by (rule bit_word_eqI; auto simp: bit_simps dest: bit_imp_le_length)+

lemma triple_of_bytes:
  "triple_bytes (take_bit 24 (push_bit 16 (ucast a) OR push_bit 8 (ucast b) OR ucast c)) = [a, b, c]"
  by (simp only: triple_bytes_def bytes_of_triple)

lemma missing_sextets:
  "take_bit 6 (push_bit 16 (ucast (a :: byte)) :: u32) = 0"
  "take_bit 6 (drop_bit 6 (push_bit 16 (ucast a) :: u32)) = 0"
  "take_bit 6 (push_bit 16 (ucast a) OR push_bit 8 (ucast b) :: u32) = 0"
  by (rule bit_word_eqI; auto simp: bit_simps)+

lemma b64_triple_sextets:
  "b64_triple (b64_value (b64_symbol (drop_bit 18 t))) (b64_value (b64_symbol (drop_bit 12 t)))
     (b64_value (b64_symbol (drop_bit 6 t))) (b64_value (b64_symbol t)) = take_bit 24 t"
  "take_bit 6 t = 0 \<Longrightarrow>
   b64_triple (b64_value (b64_symbol (drop_bit 18 t))) (b64_value (b64_symbol (drop_bit 12 t)))
     (b64_value (b64_symbol (drop_bit 6 t))) 0 = take_bit 24 t"
  "take_bit 6 t = 0 \<Longrightarrow> take_bit 6 (drop_bit 6 t) = 0 \<Longrightarrow>
   b64_triple (b64_value (b64_symbol (drop_bit 18 t))) (b64_value (b64_symbol (drop_bit 12 t))) 0 0 = take_bit 24 t"
  using triple_of_sextets [of t] by (simp_all add: b64_triple_def)

definition three_bytes :: "byte \<Rightarrow> byte \<Rightarrow> byte \<Rightarrow> u32" where
  "three_bytes a b c = push_bit 16 (ucast a) OR push_bit 8 (ucast b) OR ucast c"

definition four_symbols :: "u32 \<Rightarrow> string" where
  "four_symbols t = [b64_symbol (drop_bit 18 t), b64_symbol (drop_bit 12 t), b64_symbol (drop_bit 6 t), b64_symbol t]"

lemma encode_three:
  "b64_encode_groups (a # b # c # data) = four_symbols (three_bytes a b c) @ b64_encode_groups data"
  by (simp only: b64_encode_groups.simps three_bytes_def four_symbols_def Let_def)

lemma decode_three:
  "b64_decode_groups fp sp (four_symbols (three_bytes a b c) @ d # ds)
    = map_option ((@) [a, b, c]) (b64_decode_groups fp sp (d # ds))"
  "b64_last False False (four_symbols (three_bytes a b c)) = Some [a, b, c]"
  using b64_triple_sextets(1) [of "three_bytes a b c"] triple_of_bytes [of a b c]
  by (simp_all add: four_symbols_def three_bytes_def [symmetric] b64_last_def)

declare b64_encode_groups.simps(4) [simp del]

lemma length_three: "length (a # b # c # data) mod 3 = length data mod 3"
proof -
  have "length (a # b # c # data) = length data + 3" by simp
  then show ?thesis by (simp only: mod_add_self2)
qed

lemma encode_groups_nonempty: "data \<noteq> [] \<Longrightarrow> b64_encode_groups data \<noteq> []"
  by (cases data rule: b64_encode_groups.cases) (auto simp: Let_def encode_three four_symbols_def)

lemma groups_roundtrip:
  "data \<noteq> [] \<Longrightarrow>
   b64_decode_groups (length data mod 3 = 1) (length data mod 3 \<noteq> 0) (b64_encode_groups data) = Some data"
proof (induction data rule: b64_encode_groups.induct)
  case (2 a)
  show ?case
    using b64_triple_sextets(3) [OF missing_sextets(1) missing_sextets(2), of a] triple_of_bytes [of a 0 0]
    by (simp add: b64_last_def Let_def)
next
  case (3 a b)
  show ?case
    using b64_triple_sextets(2) [OF missing_sextets(3), of a b] triple_of_bytes [of a b 0]
    by (simp add: b64_last_def Let_def)
next
  case (4 a b c data)
  note len = length_three [of a b c data]
  show ?case
  proof (cases "data = []")
    case True
    then show ?thesis using decode_three(2) [of a b c]
      by (simp add: encode_three four_symbols_def)
  next
    case False
    then obtain d ds where "b64_encode_groups data = d # ds"
      using encode_groups_nonempty by (cases "b64_encode_groups data") auto
    then show ?thesis
      using 4(1) [OF refl False] by (simp only: len encode_three decode_three) simp
  qed
qed simp

lemma length_encode_groups [simp]: "length (b64_encode_groups data) = (length data + 2) div 3 * 4"
proof (induction data rule: b64_encode_groups.induct)
  case (4 a b c data)
  have "(length (a # b # c # data) + 2) div 3 = Suc ((length data + 2) div 3)" by simp
  with 4 show ?case by (simp add: encode_three four_symbols_def)
qed (simp_all add: Let_def)

text \<open>The last two symbols say how long the last group was.\<close>

lemma encode_groups_padding:
  "data \<noteq> [] \<Longrightarrow> \<exists>q x y. b64_encode_groups data = q @ [x, y]
    \<and> (x = CHR ''='') = (length data mod 3 = 1) \<and> (y = CHR ''='') = (length data mod 3 \<noteq> 0)"
proof (induction data rule: b64_encode_groups.induct)
  case (4 a b c data)
  note len = length_three [of a b c data]
  show ?case
  proof (cases "data = []")
    case True
    then show ?thesis
      by (intro exI [of _ "take 2 (four_symbols (three_bytes a b c))"] exI [of _ "b64_symbol (drop_bit 6 (three_bytes a b c))"]
          exI [of _ "b64_symbol (three_bytes a b c)"]) (simp add: encode_three four_symbols_def b64_symbol_padding)
  next
    case False
    from 4(1) [OF refl this] obtain q x y where "b64_encode_groups data = q @ [x, y]"
      "(x = CHR ''='') = (length data mod 3 = 1)" "(y = CHR ''='') = (length data mod 3 \<noteq> 0)" by blast
    then show ?thesis unfolding len encode_three
      by (intro exI [of _ "four_symbols (three_bytes a b c) @ q"] exI [of _ x] exI [of _ y]) simp
  qed
qed (simp_all add: Let_def b64_symbol_padding)

text \<open>
  C39: Base64 round trip: decoding the encoding of any data gives the data back, for every buffer that is
  large enough for the encoding and for the data.
\<close>

theorem base64_roundtrip:
  assumes "(length data + 2) div 3 * 4 \<le> encodeSize" "length data \<le> decodeSize"
  shows "base64_decode decodeSize (base64_encode encodeSize data) = data"
proof (cases "data = []")
  case False
  then obtain q x y where e: "b64_encode_groups data = q @ [x, y]"
    "(x = CHR ''='') = (length data mod 3 = 1)" "(y = CHR ''='') = (length data mod 3 \<noteq> 0)"
    using encode_groups_padding by blast
  then have n: "length q + 2 = (length data + 2) div 3 * 4"
    using length_encode_groups [of data] by simp
  have "(length data + 2) div 3 * 3 - of_bool (length data mod 3 = 1) - of_bool (length data mod 3 \<noteq> 0) = length data"
    by (simp split: if_splits) presburger
  moreover have "(length q + 2) div 4 = (length data + 2) div 3" "(length q + 2) mod 4 = 0" by (simp_all only: n) simp_all
  ultimately show ?thesis
    using assms groups_roundtrip [OF False] e
    by (auto simp add: base64_encode_def base64_decode_def Let_def nth_append)
qed (simp add: base64_encode_def base64_decode_def)

lemma lut_least: "b64_value c < 0 \<Longrightarrow> b64_value c = -1"
proof -
  have "\<forall>v \<in> set b64_lut. v < 0 \<longrightarrow> v = -1" by (simp add: b64_lut_def)
  then show "b64_value c < 0 \<Longrightarrow> b64_value c = -1"
    using nth_mem [of "of_char c" b64_lut] nat_of_char_less_256 [of c] by (simp add: b64_value_def length_b64_lut)
qed

lemma last_unchecked:
  assumes "0 \<le> b64_value c1" "0 \<le> b64_value c2" "b64_value c4 < 0"
  shows "b64_last False False [c1, c2, c3, c4] = Some [255, 255, 255]"
proof -
  have t: "b64_triple v1 v2 v3 (-1) = -1" for v1 v2 v3 by (simp add: b64_triple_def)
  have "triple_bytes (-1) = [255, 255, 255]" by code_simp
  then show ?thesis using assms lut_least [OF assms(3)] by (simp add: b64_last_def t)
qed

text \<open>
  Only the first two symbols of the last group are tested: a last symbol outside of the alphabet makes its
  three bytes 255, where the same symbol in an earlier group makes the result empty.
\<close>

theorem base64_last_group_unchecked:
  assumes "0 \<le> b64_value c1" "0 \<le> b64_value c2" "b64_value c4 < 0" "c4 \<noteq> CHR ''=''" "c3 \<noteq> CHR ''=''"
    and "3 \<le> capacity"
  shows "base64_decode capacity [c1, c2, c3, c4] = [255, 255, 255]
    \<and> base64_decode capacity [c1, c2, c3, c4, d1, d2, d3, d4] = []"
  using assms last_unchecked [of c1 c2 c4 c3] by (auto simp: base64_decode_def Let_def)

section \<open>UTF-8\<close>

lemma and_high_bits:
  fixes b :: byte
  shows "b AND 0xC0 = push_bit 6 (drop_bit 6 b)" "b AND 0xE0 = push_bit 5 (drop_bit 5 b)"
    "b AND 0xF0 = push_bit 4 (drop_bit 4 b)" "b AND 0xF8 = push_bit 3 (drop_bit 3 b)"
  by (rule byte_eqI; simp add: bit_simps)+

lemma high_constants:
  "(0x80 :: u32) = push_bit 7 1" "(0xC0 :: u32) = push_bit 6 3" "(0xE0 :: u32) = push_bit 5 7"
  "(0xF0 :: u32) = push_bit 4 15"
  by simp_all

lemma extra_byte:
  "(ucast (take_bit 6 c OR 0x80 :: u32) :: byte) AND 0xC0 = 0x80"
  "ucast ((ucast (take_bit 6 c OR 0x80 :: u32) :: byte) AND 0x3F) = (take_bit 6 c :: u32)"
proof -
  show "(ucast (take_bit 6 c OR 0x80 :: u32) :: byte) AND 0xC0 = 0x80"
    by (rule byte_eqI) (simp_all add: bit_simps)
  show "ucast ((ucast (take_bit 6 c OR 0x80 :: u32) :: byte) AND 0x3F) = (take_bit 6 c :: u32)"
    unfolding and_mask6 high_constants by (rule bit_word_eqI) (auto simp: bit_simps simp del: push_bit_of_1)
qed

lemma utf8_extra_numeral:
  "utf8_extra (numeral k) codePoint (b # bs) =
     (if b AND 0xC0 \<noteq> 0x80 then None
      else utf8_extra (pred_numeral k) (push_bit 6 codePoint OR ucast (b AND 0x3F)) bs)"
  by (simp only: numeral_eq_Suc utf8_extra.simps)

text \<open>Lead bytes: no shorter form takes them.\<close>

lemma leads:
  "\<forall>n \<in> set [0..<32]. utf8_lead (ucast (word_of_nat n OR 0xC0 :: u32)) = Some (word_of_nat n, 1)
     \<and> (ucast (word_of_nat n OR 0xC0 :: u32) :: byte) \<noteq> 0"
  "\<forall>n \<in> set [0..<16]. utf8_lead (ucast (word_of_nat n OR 0xE0 :: u32)) = Some (word_of_nat n, 2)
     \<and> (ucast (word_of_nat n OR 0xE0 :: u32) :: byte) \<noteq> 0"
  "\<forall>n \<in> set [0..<8]. utf8_lead (ucast (word_of_nat n OR 0xF0 :: u32)) = Some (word_of_nat n, 3)
     \<and> (ucast (word_of_nat n OR 0xF0 :: u32) :: byte) \<noteq> 0"
  by code_simp+

lemma lead_words:
  "unat c < 32 \<Longrightarrow> utf8_lead (ucast (c OR 0xC0 :: u32)) = Some (c, 1) \<and> (ucast (c OR 0xC0 :: u32) :: byte) \<noteq> 0"
  "unat c < 16 \<Longrightarrow> utf8_lead (ucast (c OR 0xE0 :: u32)) = Some (c, 2) \<and> (ucast (c OR 0xE0 :: u32) :: byte) \<noteq> 0"
  "unat c < 8 \<Longrightarrow> utf8_lead (ucast (c OR 0xF0 :: u32)) = Some (c, 3) \<and> (ucast (c OR 0xF0 :: u32) :: byte) \<noteq> 0"
  using leads [THEN bspec, of "unat c"] by simp_all

lemma join_bits: "push_bit n (drop_bit n x) OR take_bit n x = (x :: u32)"
  by (rule bit_word_eqI) (auto simp: bit_simps)

lemma decode_nonzero:
  "ch \<noteq> 0 \<Longrightarrow> utf8_lead ch = Some (codePoint, n) \<Longrightarrow> utf8_decode (ch # rest) =
     (case utf8_extra n codePoint rest of None \<Rightarrow> None
      | Some (codePoint, rest) \<Rightarrow> map_option ((#) codePoint) (utf8_decode rest))"
  by (subst utf8_decode.simps) simp

lemma decode_point:
  assumes "utf8_encode_point c = Some bs" "c \<noteq> 0"
  shows "utf8_decode (bs @ rest) = map_option ((#) c) (utf8_decode rest)"
proof -
  have small: "unat (drop_bit k c) < m" if "c \<le> w" "unat w div 2 ^ k < m" for k m w
  proof -
    have "unat c \<le> unat w" using that(1) by (simp add: word_le_nat_alt)
    then have "unat c div 2 ^ k \<le> unat w div 2 ^ k" by (rule div_le_mono)
    moreover have "unat (drop_bit k c) = unat c div 2 ^ k" by (subst unat_drop_bit_eq) (rule drop_bit_eq_div)
    ultimately show ?thesis using that(2) by simp
  qed
  consider "c \<le> 0x7F" | "\<not> c \<le> 0x7F" "c \<le> 0x7FF" | "\<not> c \<le> 0x7FF" "c \<le> 0xFFFF" "\<not> c \<le> 0x7F"
    | "\<not> c \<le> 0xFFFF" "c \<le> 0x10FFFF" "\<not> c \<le> 0x7F" "\<not> c \<le> 0x7FF"
    using assms(1) by (auto simp: utf8_encode_point_def split: if_splits)
  then show ?thesis
  proof cases
    case 1
    then have u: "unat c < 128" by (simp add: word_le_nat_alt)
    then have b: "unat (ucast c :: byte) = unat c" by (simp add: unsigned_ucast_eq take_bit_eq_mod)
    have "unat (ucast (ucast c :: byte) :: u32) = unat c"
      by (subst unsigned_ucast_eq) (use u in \<open>simp add: b take_bit_eq_mod\<close>)
    then have "(ucast c :: byte) < 0x80" "(ucast c :: byte) \<noteq> 0" "ucast (ucast c :: byte) = c"
      using u b assms(2) by (simp_all add: word_less_nat_alt word_unat_eq_iff)
    moreover from this have "utf8_lead (ucast c) = Some (c, 0)" by (simp add: utf8_lead_def)
    moreover have "bs = [ucast c]" using 1 assms(1) by (simp add: utf8_encode_point_def)
    ultimately show ?thesis by (simp add: decode_nonzero)
  next
    case 2
    have "bs = [ucast (drop_bit 6 c OR 0xC0), ucast (take_bit 6 c OR 0x80)]"
      using 2 assms(1) by (simp add: utf8_encode_point_def and_mask6)
    then show ?thesis
      using lead_words(1) [of "drop_bit 6 c"] small [OF 2(2), of 6 32] join_bits [of 6 c]
      by (simp add: decode_nonzero extra_byte)
  next
    case 3
    have "bs = [ucast (drop_bit 12 c OR 0xE0), ucast (take_bit 6 (drop_bit 6 c) OR 0x80), ucast (take_bit 6 c OR 0x80)]"
      using 3 assms(1) by (simp add: utf8_encode_point_def and_mask6)
    then show ?thesis
      using lead_words(2) [of "drop_bit 12 c"] small [OF 3(2), of 12 16] join_bits [of 6 c] join_bits [of 6 "drop_bit 6 c"]
      by (simp add: decode_nonzero extra_byte utf8_extra_numeral)
  next
    case 4
    have "bs = [ucast (drop_bit 18 c OR 0xF0), ucast (take_bit 6 (drop_bit 12 c) OR 0x80),
        ucast (take_bit 6 (drop_bit 6 c) OR 0x80), ucast (take_bit 6 c OR 0x80)]"
      using 4 assms(1) by (simp add: utf8_encode_point_def and_mask6)
    then show ?thesis
      using lead_words(3) [of "drop_bit 18 c"] small [OF 4(2), of 18 8] join_bits [of 6 c] join_bits [of 6 "drop_bit 6 c"]
        join_bits [of 6 "drop_bit 12 c"]
      by (simp add: decode_nonzero extra_byte utf8_extra_numeral)
  qed
qed

text \<open>
  C40: UTF-8 round trip: a text of code points up to 0x10FFFF without a null, surrogates included, encoded
  by \<open>WstringToString\<close> and decoded by \<open>StringToWstring\<close> is the same text; so the encoding is left as it
  is by the normalization.
\<close>

theorem utf8_roundtrip:
  assumes "\<forall>c \<in> set w. c \<noteq> 0 \<and> c \<le> 0x10FFFF"
  shows "string_to_wstring (Some (wstring_to_string (Some w))) = w
    \<and> normalize_octal_escaped_utf8 (Some (wstring_to_string (Some w))) = wstring_to_string (Some w)"
proof -
  have "\<exists>bs. utf8_encode w = Some bs \<and> utf8_decode bs = Some w"
    using assms
  proof (induction w)
    case Nil
    then show ?case by (simp add: utf8_decode.simps)
  next
    case (Cons c w)
    obtain bs where bs: "utf8_encode w = Some bs" "utf8_decode bs = Some w" using Cons by auto
    have "utf8_encode_point c \<noteq> None" using Cons.prems by (simp add: utf8_encode_point_def)
    then obtain cs where cs: "utf8_encode_point c = Some cs" by blast
    have "utf8_decode (cs @ bs) = Some (c # w)" using decode_point [OF cs, of bs] Cons.prems bs(2) by simp
    then show ?case using bs(1) cs Cons.prems by simp
  qed
  then have "string_to_wstring (Some (wstring_to_string (Some w))) = w"
    by (auto simp: string_to_wstring_def wstring_to_string_def)
  then show ?thesis by (simp add: normalize_octal_escaped_utf8_def)
qed

text \<open>
  What the decoder accepts beyond UTF-8 is normalized, not rejected: a null in two bytes ends the text.
\<close>

theorem overlong_null_cuts:
  assumes "utf8_decode bs = Some w"
  shows "string_to_wstring (Some (0xC0 # 0x80 # bs)) = 0 # w
    \<and> normalize_octal_escaped_utf8 (Some (0xC0 # 0x80 # bs)) = []"
proof -
  have l: "utf8_lead 0xC0 = Some (0, 1)" by (simp add: utf8_lead_def)
  have "utf8_decode (0xC0 # 0x80 # bs) = Some (0 # w)"
    using assms by (simp add: decode_nonzero [OF _ l])
  then show ?thesis
    by (simp add: string_to_wstring_def wstring_to_string_def normalize_octal_escaped_utf8_def)
qed

section \<open>Substrings\<close>

lemma contains_from_sound:
  assumes "contains_from True sub index base = Some True" "index < length sub"
  shows "\<exists>u v. take index sub @ base = u @ sub @ v"
  using assms
proof (induction True sub index base rule: contains_from.induct)
  case (2 sub index symbol base)
  show ?case
  proof (cases "symbol = sub ! index")
    case True
    then have t: "take index sub @ symbol # base = take (index + 1) sub @ base"
      using 2(4) by (simp add: take_Suc_conv_app_nth)
    show ?thesis
    proof (cases "index + 1 = length sub")
      case True
      then show ?thesis unfolding t by (intro exI [of _ "[]"] exI [of _ base]) simp
    next
      case False
      then show ?thesis unfolding t using 2 True by (auto simp: Let_def nth_append)
    qed
  next
    case False
    then have "contains_from True sub 0 base = Some True" using 2(3,4) by (simp add: Let_def nth_append)
    moreover have "sub \<noteq> []" using 2(4) by auto
    ultimately have "\<exists>u v. take 0 sub @ base = u @ sub @ v" using 2 False by (auto simp: Let_def nth_append)
    then obtain u v where "base = u @ sub @ v" by auto
    then show ?thesis by (intro exI [of _ "take index sub @ symbol # u"] exI [of _ v]) simp
  qed
qed simp

text \<open>
  \<open>ContainsStr\<close> is right when it says yes. When it says no, the substring may be there: after a mismatch it
  does not try the symbol again as the first one of the substring.
\<close>

theorem contains_str_sound:
  assumes "contains_str True base sub = Some True" "sub \<noteq> []"
  shows "\<exists>u v. base = u @ sub @ v"
  using contains_from_sound [of sub 0 base] assms by (simp add: contains_str_def)

theorem contains_str_misses:
  assumes "a \<noteq> b"
  shows "contains_str True (a # a # a # b # s) [a, a, b] = contains_str True s [a, a, b]"
  using assms by (simp add: contains_str_def Let_def)

theorem contains_str_witness:
  "contains_str True ''xaab'' ''aab'' = Some True \<and> contains_str True ''aaab'' ''aab'' = Some False"
  by (simp add: contains_str_def Let_def)

section \<open>Splitting\<close>

text \<open>
  \<open>Separating\<close> gives no empty parts, and loses nothing but separators: without separators in front or doubled
  it is the inverse of joining.
\<close>

fun joined_by :: "char \<Rightarrow> string list \<Rightarrow> string" where
  "joined_by c [] = []"
| "joined_by c [s] = s"
| "joined_by c (s # t # ss) = s @ c # joined_by c (t # ss)"

lemma separating_skips:
  "c \<notin> set s \<Longrightarrow> separating_from c property (s @ rest) = separating_from c (property @ s) rest"
  by (induction s arbitrary: property) auto

theorem separating_inverts_join:
  assumes "\<forall>s \<in> set ss. s \<noteq> [] \<and> c \<notin> set s"
  shows "separating_vector container (joined_by c ss) c = container @ ss"
proof -
  have "separating_from c [] (joined_by c ss) = ss"
    using assms
  proof (induction c ss rule: joined_by.induct)
    case (2 c s)
    then show ?case using separating_skips [of c s "[]" "[]"] by simp
  next
    case (3 c s t ss)
    then show ?case using separating_skips [of c s "[]" "c # joined_by c (t # ss)"] by simp
  qed simp
  then show ?thesis by (simp add: separating_vector_def)
qed

theorem separating_inverts_join_witness:
  "separating_vector [] ''a,bc'' CHR '','' = [''a'', ''bc'']"
  using separating_inverts_join [of "[''a'', ''bc'']" "CHR '',''" "[]"] by simp

section \<open>Hexadecimal numbers\<close>

definition hex_value :: "string \<Rightarrow> int" where
  "hex_value s = foldl (\<lambda>v c. 16 * v + int (the (hex_digit c))) 0 s"

lemma hex_digit_bound: "hex_digit c = Some d \<Longrightarrow> d < 16"
  by (auto simp: hex_digit_def Let_def split: if_splits)

lemma hex_value_Cons: "hex_value (c # s) = int (the (hex_digit c)) * 16 ^ length s + hex_value s"
proof -
  have f: "foldl (\<lambda>v c. 16 * v + int (the (hex_digit c))) a s
      = a * 16 ^ length s + foldl (\<lambda>v c. 16 * v + int (the (hex_digit c))) 0 s" for a
  proof (induction s arbitrary: a)
    case (Cons c s)
    from Cons [of "16 * a + int (the (hex_digit c))"] Cons [of "int (the (hex_digit c))"] show ?case
      by (simp add: algebra_simps)
  qed simp
  show ?thesis using f [of "int (the (hex_digit c))"] by (simp add: hex_value_def)
qed

lemma hex_loop_value:
  assumes "\<forall>c \<in> set s. hex_digit c \<noteq> None" "0 \<le> out" "out + 16 ^ length s \<le> 16 ^ 7"
  shows "hex_loop out s = Some (Some (out + hex_value s))"
  using assms
proof (induction s arbitrary: out)
  case Nil
  then show ?case by (simp add: hex_value_def)
next
  case (Cons c s)
  obtain d where d: "hex_digit c = Some d" using Cons.prems(1) by auto
  have "int d * 16 ^ length s \<le> 15 * 16 ^ length s"
    using hex_digit_bound [OF d] by (intro mult_right_mono) simp_all
  moreover have "(16 :: int) ^ length (c # s) = 15 * 16 ^ length s + 16 ^ length s" by simp
  ultimately have b: "out + int d * 16 ^ length s + 16 ^ length s \<le> 16 ^ 7" using Cons.prems(3) by linarith
  have "0 < (16 :: int) ^ length s" "0 \<le> int d * 16 ^ length s" by simp_all
  moreover have "(16 :: int) ^ 7 < 2 ^ 31" by simp
  ultimately have "\<not> 2 ^ 31 \<le> (16 :: int) ^ length s" "\<not> 2 ^ 31 \<le> out + int d * 16 ^ length s"
    using b Cons.prems(2) by linarith+
  moreover have "hex_loop (out + int d * 16 ^ length s) s = Some (Some (out + int d * 16 ^ length s + hex_value s))"
    using Cons.prems b by (intro Cons.IH) auto
  ultimately show ?case by (simp add: d hex_value_Cons Let_def del: power_Suc)
qed

text \<open>
  \<open>HexStrToDecimal\<close> gives the value of up to seven digits of either case; more than eight symbols make it
  convert a power of 16 that does not fit an \<open>int\<close>, whatever they are.
\<close>

theorem hex_str_value:
  assumes "\<forall>c \<in> set s. hex_digit c \<noteq> None" "s \<noteq> []" "length s \<le> 7"
  shows "hex_str_to_decimal s = Some (Some (hex_value s))"
  using assms hex_loop_value [of s 0] power_increasing [of "length s" 7 "16 :: int"]
  by (simp add: hex_str_to_decimal_def)

theorem hex_str_overflows:
  assumes "8 < length s"
  shows "hex_str_to_decimal s = None"
proof -
  obtain c cs where s: "s = c # cs" using assms by (cases s) auto
  have "(16 :: int) ^ 8 \<le> 16 ^ length cs" using assms by (intro power_increasing) (simp_all add: s)
  then show ?thesis by (simp add: hex_str_to_decimal_def s Let_def)
qed

theorem hex_str_witness: "hex_str_to_decimal ''1fA'' = Some (Some 506) \<and> hex_str_to_decimal ''000000000'' = None"
  by (simp add: hex_str_to_decimal_def hex_digit_def tolower_def Let_def)

section \<open>The hash of a name\<close>

text \<open>The hash is the polynomial of the bytes at 31, modulo \<open>2 ^ 32\<close>.\<close>

theorem string_hash_polynomial:
  "string_hash32 str = word_of_nat (foldl (\<lambda>h c. 31 * h + of_char c) 0 str)"
proof -
  have "foldl (\<lambda>hash c. push_bit 5 hash - hash + ucast (byte_of_char c)) (word_of_nat h) str
      = (word_of_nat (foldl (\<lambda>h c. 31 * h + of_char c) h str) :: u32)" for h
  proof (induction str arbitrary: h)
    case (Cons c str)
    have "(ucast (byte_of_char c) :: u32) = word_of_nat (of_char c)"
      using nat_of_char_less_256 [of c]
      by (simp add: byte_of_char_def word_unat_eq_iff unsigned_ucast_eq unsigned_of_nat take_bit_eq_mod)
    then have e: "push_bit 5 (word_of_nat h) - word_of_nat h + ucast (byte_of_char c)
        = (word_of_nat (31 * h + of_char c) :: u32)"
      by (simp add: push_bit_eq_mult)
    show ?case unfolding foldl_Cons e by (rule Cons)
  qed simp
  from this [of 0] show ?thesis by (simp add: string_hash32_def)
qed

text \<open>Instances.\<close>

theorem base64_roundtrip_witness: "base64_decode 3 (base64_encode 8 [77, 97]) = [77, 97]"
  by (rule base64_roundtrip) simp_all

theorem utf8_roundtrip_witness:
  "string_to_wstring (Some (wstring_to_string (Some [0x41, 0x20AC, 0x1F600]))) = [0x41, 0x20AC, 0x1F600]"
  using utf8_roundtrip [of "[0x41, 0x20AC, 0x1F600]"] by simp

lemma sample_values: "b64_value CHR ''A'' = 0" "b64_value CHR ''*'' = - 1"
  by code_simp+

theorem base64_last_group_unchecked_witness:
  "base64_decode 3 ''AAA*'' = [255, 255, 255] \<and> base64_decode 3 ''AAA*AAAA'' = []"
  by (rule base64_last_group_unchecked) (simp_all add: sample_values)

end
