(* ===== verification/Spec2Isabelle.thy ===== *)
theory Spec2Isabelle
  imports CalendarSpec TableBuffers ParametersSpec ReceiveSpec WebSocketSplitSpec WebSocketHandlerSpec
    AuthorizationSpec TimerEvents JsonSpec ObjectSessions Locks EventsDistributor
    TextHelpersSpec
begin

text \<open>
  A verification development for MSAPI, a C++ library for network applications. An application is a
  process with typed parameters that a manager reads and changes over the network; servers exchange
  messages of a binary protocol, streams of objects, and WebSocket frames that carry events; a module
  keeps the accounts that may ask for them. A theory \<open>X\<close> holds the definitions of a component and
  \<open>XSpec\<close> what is proved about them.

  The parts of the program and where they are modelled

  \<^item> Values. \<open>Calendar\<close> has \<open>Timer\<close>, \<open>Timer::Duration\<close> and \<open>Timer::Date\<close> (\<open>help/time.h\<close>,
    \<open>help/time.cpp\<close>); \<open>StdTypes\<close> has the types of values with their tags, bytes and texts
    (\<open>help/standardType.hpp\<close>, \<open>help/meta.hpp\<close>, \<open>help/log.h\<close>). \<open>TimerEvents\<close> has \<open>Timer::Event\<close> with
    the timers of the system as a part of its state.
  \<^item> Helpers. \<open>TextHelpers\<close> has the text functions of \<open>Helper\<close> (\<open>help/helper.h\<close>, \<open>help/helper.cpp\<close>):
    Base64, UTF-8, substrings, splitting, hexadecimal numbers. \<open>Hashing\<close> has the classes \<open>Sha1\<close> and
    \<open>Sha256\<close> (\<open>help/sha1.inl\<close>, \<open>help/sha256.inl\<close>), which share the state of a block buffer. \<open>Json\<close> has
    the reader and the printers of \<open>help/json.h\<close> and \<open>help/json.cpp\<close>. \<open>Locks\<close> has \<open>AtomicLock\<close> and
    \<open>AtomicRWLock\<close> of \<open>help/pthread.hpp\<close>, one access to an atomic at a time.
  \<^item> Tables. \<open>Tables\<close> has the class \<open>Table\<close> (\<open>help/table.h\<close>): columns of cell maps, the running size
    of the encoding, \<open>Encode\<close> and \<open>Copy\<close>. \<open>TableBuffers\<close> has \<open>TableData\<close> (\<open>help/table.cpp\<close>): encoded
    tables that own or view memory, their construction from Json rows and their text.
  \<^item> Messages. \<open>Standard\<close> has the header, the class \<open>Data\<close>, its encoding and its parsing constructor
    (\<open>protocol/dataHeader\<close>, \<open>protocol/standard\<close>).
  \<^item> Applications. \<open>Parameters\<close> has the parameters with their limits and errors, the merge of updates,
    the texts, and the dispatch of the messages (\<open>server/application\<close>).
  \<^item> Connections. \<open>Receive\<close> has the receive buffer of a connection and a round of its thread
    (\<open>server/server\<close>): it reads a header, reads the rest of the message behind it, and hands a
    message of the standard protocol to the application.
  \<^item> WebSocket. \<open>WebSocketFrames\<close> has the class \<open>Data\<close> of \<open>protocol/webSocket.inl\<close>: frames, the
    constructor that reads one through the functions of \<open>Receive\<close>, the merge of fragments and the
    generator that splits a payload. \<open>WebSocketHandler\<close> has \<open>IHandler\<close>: the store of unfinished
    messages with its limit, and \<open>Collect\<close>.
  \<^item> Events. \<open>WebSocketEvents\<close> has the tables of \<open>protocol/webSocketEvents.inl\<close>: an event belongs to a
    connection and waits under a key for data; singles are answered once, streams every time.
    \<open>EventsDistributor\<close> states what both kinds of distributor promise. A distributor asks the
    authorization module for the grade of the account behind a connection.
  \<^item> Objects. \<open>ObjectStreams\<close> has both sides of the object protocol (\<open>protocol/object.h\<close>,
    \<open>protocol/object.cpp\<close>): a client opens a stream with a filter, a distributor answers with a snapshot
    and new objects. \<open>ObjectSessions\<close> runs the two sides against each other with the dispatch of the
    test applications.
  \<^item> Authorization. \<open>Authorization\<close> has accounts, passwords and their files, \<open>AuthorizationModule\<close> the
    operations of \<open>Base::Module\<close> (\<open>server/authorization.inl\<close>), on a heap of account objects because the
    maps of the module and the callers share them. The files of \<open>help/io.inl\<close> are a map from paths to bytes.

  State. Every operation takes the state as a record and gives the new one; the fields carry the
  names of the members of the class. A C++ reference or pointer into a container is the key of the
  element. Memory is a list of bytes: a read or write outside it is the value \<open>None\<close> (or \<open>ReadOob\<close>), so
  a theorem that an operation gives \<open>Some\<close> says that it stays in its memory, and signed overflow is
  \<open>None\<close> as well. Unsigned integers are words, or written with \<open>mod\<close>. Two sums that the code keeps in a
  \<open>double\<close> are exact integers, equal to it below \<open>2 ^ 53\<close>.

  Parameters of the model. \<open>malloc\<close>, \<open>realloc\<close>, the discarding of bytes by \<open>splice\<close>, the clock, the
  local time zone, generated masking keys and salts, whether a file operation succeeds, the callbacks of
  an application, and what the hardware, \<open>std::format\<close> or \<open>std::from_chars\<close> does with floating-point
  numbers are arguments of the definitions that use them. The hypotheses on them are \<open>malloc_ok\<close> and
  \<open>realloc_ok\<close> (a block has the size that was asked for and keeps its contents) and \<open>floats_ok\<close>
  (rounding is monotone and keeps zero); each is shown to hold for an instance.

  Interfaces. \<open>codec\<close> (\<open>Prelude\<close>) is a value that is written to and read from the middle of a buffer; its
  instances are the cells of a table and the values of a message. \<open>comparison\<close> (\<open>CalendarSpec\<close>) is an order
  given by three operators, with the instances durations, timers and dates. \<open>streaming_hash\<close>
  (\<open>HashingSpec\<close>) is what \<open>Update\<close> and \<open>Final\<close> need of a \<open>ProcessBlock\<close>, given by both hash classes.
  \<open>quiet_operation\<close> (\<open>AuthorizationInvariant\<close>) is an operation that changes no access.
  \<open>opened_callback\<close> (\<open>ObjectStreamsSpec\<close>) is what the distributor needs of the callback for a new stream.
  \<open>event_handling\<close> (\<open>EventsDistributor\<close>) is the contract of \<open>Handle\<close>, kept by singles and by streams.

  Lemmas

  \<^item> \<open>CalendarSpec\<close>: an independent Gregorian calendar, the agreement of the calculations with it
    from 1970 to 2099, and the printed form read back. \<open>TimerEvents\<close>: an event has one timer while it runs.
  \<^item> \<open>TextHelpersSpec\<close>: Base64 and UTF-8 round trips, splitting as the inverse of joining.
  \<^item> \<open>HashingSpec\<close>: the digests are those of FIPS 180-4, whose constants are defined there as the
    fractional bits of roots of primes, however a message is cut into chunks.
  \<^item> \<open>JsonSpec\<close>: the printed form of a value is read back, for the values that \<open>plain\<close> describes; a
    node that was read is well formed; and the texts that are misread.
  \<^item> \<open>TablesSpec\<close>: a table as a list of rows, which the operations refine; the invariant of the running
    size and what \<open>UpdateCell\<close> does to it; the encoding, its layout and the round trip; when \<open>Copy\<close> ends.
  \<^item> \<open>TableBuffers\<close>: a table built from Json rows stays in its block and has the rows.
  \<^item> \<open>StandardSpec\<close>: the invariant of a message, its encoding and the round trip through the parser.
  \<^item> \<open>ParametersSpec\<close>: the reachable states of an application, what a merge does, that a running
    application has only permitted values, and what the network cannot change.
  \<^item> \<open>ReceiveSpec\<close>: reads take the next bytes of the stream, however it is cut into portions; a
    message whose body begins to arrive in time arrives as it was sent; only the manager's connection
    commands.
  \<^item> \<open>WebSocketFramesSpec\<close>: the layout of a frame, the round trip of a frame through a connection,
    and the merge of frames. \<open>WebSocketSplitSpec\<close>: the generator, which rewrites one buffer, gives
    the frames the constructor gives. \<open>WebSocketHandlerSpec\<close>: the reachable states of the store of
    fragments, its accounts and its limit, and the delivery of fragmented messages.
  \<^item> \<open>WebSocketEventsSpec\<close>, \<open>EventsDistributor\<close>: the invariant and the counters of the tables of events, the
    purge of the oldest, who is handled, who gets data, and that an event stays with its connection.
  \<^item> \<open>ObjectStreamsSpec\<close>, \<open>ObjectSessions\<close>: the three tables of a distributor implement one map of
    subscriptions; who gets an object; a whole session of a stream.
  \<^item> \<open>AuthorizationInvariant\<close>, \<open>AuthorizationSpec\<close>: the maps of the module point to each other; who has
    access, what ends a session, what a failed save leaves behind, and accounts read back from files.
  \<^item> \<open>Locks\<close>: writers exclude each other in every interleaving; readers do not exclude a writer.

  Loops. Loops over data are structural recursions. The loop of \<open>recv\<close> has the bytes still wanted as
  its measure. The parser of messages and the copy of a table may run forever; they are partial
  functions with the value \<open>None\<close> then, the theorems say for which inputs they end, and two say for
  which they do not. No definition uses fuel.

  Theorems about defects. Where the code does not do what it means to, a theorem states what it does;
  the manifest lists these as findings.

  Threads. Only \<open>Locks\<close> has interleaved steps. In the other components an operation is one step (a logout,
  which releases its lock in between, is two), and an operation that waits for a lock it holds itself
  is the value \<open>Blocked\<close>. The theorems speak of operations one after another.

  Not modelled. The log, whose lines are formatted and written; the scanner of \<open>help/html\<close> and the
  protocol \<open>protocol/http\<close>; the containers and identifiers of \<open>help/\<close>; the printers of
  \<open>help/diagnostic\<close>; opening and closing of sockets, the wrappers of \<open>pthread\<close> calls, directories,
  environment, signals and processes, which are system calls; the manager application, which is built on
  the library; the test framework, which is not a part of the program. A failure of \<open>recv\<close> is treated as
  the end of the connection, because the code leaves its loops in the same way for both.
\<close>

end
